(* ===== verification/Prelude.thy ===== *)
theory Prelude
  imports Main "HOL-Library.Word" "HOL-Library.Char_ord" "HOL-Library.List_Lexorder"
    "HOL-Library.Finite_Map" "HOL-Library.Signed_Division" "HOL-Library.Countable"
begin

text \<open>
  The shared vocabulary of the development: the outcome type of fallible Rust code (a value, an
  error value, or a panic), the question-mark operator and \<open>collect\<close> over it, operations that
  pass a mutable state, Rust's \<open>Ordering\<close>, machine-integer names, and the generic
  lemmas on lists and finite maps that several components use.
\<close>

section \<open>Outcomes\<close>

text \<open>
  \<open>Ok\<close> and \<open>Err\<close> are Rust's \<open>Result\<close>; \<open>Panic\<close> is a run that unwinds (a slice out
  of range, a slice inside a UTF-8 sequence). No code of the repository catches a panic.
\<close>

datatype ('e, 'a) res = Ok 'a | Err 'e | Panic string

named_theorems res_simps \<open>rewrite rules for outcomes and stateful operations\<close>

primrec is_ok :: "('e, 'a) res \<Rightarrow> bool" where
  "is_ok (Ok _) = True"
| "is_ok (Err _) = False"
| "is_ok (Panic _) = False"

text \<open>The \<open>?\<close> operator: leave with the error, or continue with the value.\<close>

primrec tryq :: "('e, 'a) res \<Rightarrow> ('a \<Rightarrow> ('e, 'b) res) \<Rightarrow> ('e, 'b) res" where
  "tryq (Ok x) f = f x"
| "tryq (Err e) f = Err e"
| "tryq (Panic p) f = Panic p"

definition ok_or :: "'a option \<Rightarrow> 'e \<Rightarrow> ('e, 'a) res" where
  "ok_or x e = (case x of None \<Rightarrow> Err e | Some y \<Rightarrow> Ok y)"

text \<open>\<open>iter().map(f).collect::<Result<Vec<_>>>()\<close>: stops at the first failure.\<close>

fun map_res :: "('a \<Rightarrow> ('e, 'b) res) \<Rightarrow> 'a list \<Rightarrow> ('e, 'b list) res" where
  "map_res f [] = Ok []"
| "map_res f (x # xs) = tryq (f x) (\<lambda>y. tryq (map_res f xs) (\<lambda>ys. Ok (y # ys)))"

text \<open>A loop whose body may leave the function with an error.\<close>

fun each_res :: "('a \<Rightarrow> ('e, unit) res) \<Rightarrow> 'a list \<Rightarrow> ('e, unit) res" where
  "each_res f [] = Ok ()"
| "each_res f (x # xs) = tryq (f x) (\<lambda>_. each_res f xs)"

text \<open>A loop that threads an accumulator and may leave with an error.\<close>

fun fold_res :: "('a \<Rightarrow> 'b \<Rightarrow> ('e, 'b) res) \<Rightarrow> 'a list \<Rightarrow> 'b \<Rightarrow> ('e, 'b) res" where
  "fold_res f [] acc = Ok acc"
| "fold_res f (x # xs) acc = tryq (f x acc) (\<lambda>acc'. fold_res f xs acc')"

lemma tryq_Ok_iff [res_simps]: "tryq r f = Ok y \<longleftrightarrow> (\<exists>x. r = Ok x \<and> f x = Ok y)"
  by (cases r) auto

lemma tryq_assoc [simp]: "tryq (tryq r f) g = tryq r (\<lambda>x. tryq (f x) g)"
  by (cases r) auto

lemma tryq_Ok_right [simp]: "tryq r Ok = r"
  by (cases r) auto

lemma tryq_cong [fundef_cong]:
  "r = r' \<Longrightarrow> (\<And>x. r' = Ok x \<Longrightarrow> f x = g x) \<Longrightarrow> tryq r f = tryq r' g"
  by (cases r') auto

lemma ok_or_Ok_iff [res_simps]: "ok_or x e = Ok y \<longleftrightarrow> x = Some y"
  by (auto simp: ok_or_def split: option.splits)

lemma ok_or_simps [simp]: "ok_or (Some y) e = Ok y" "ok_or None e = Err e"
  by (simp_all add: ok_or_def)

lemma is_ok_iff: "is_ok r \<longleftrightarrow> (\<exists>x. r = Ok x)"
  by (cases r) auto

lemma map_res_cong [fundef_cong]:
  "xs = ys \<Longrightarrow> (\<And>x. x \<in> set ys \<Longrightarrow> f x = g x) \<Longrightarrow> map_res f xs = map_res g ys"
  by (induction ys arbitrary: xs) (auto intro!: tryq_cong)

lemma map_res_Ok_iff: "map_res f xs = Ok ys \<longleftrightarrow> list_all2 (\<lambda>x y. f x = Ok y) xs ys"
  by (induction xs arbitrary: ys) (auto simp: res_simps list_all2_Cons1)

lemma map_res_Ok_map: "(\<And>x. x \<in> set xs \<Longrightarrow> f x = Ok (g x)) \<Longrightarrow> map_res f xs = Ok (map g xs)"
  by (induction xs) auto

lemma map_res_append:
  "map_res f (xs @ ys) = tryq (map_res f xs) (\<lambda>us. tryq (map_res f ys) (\<lambda>vs. Ok (us @ vs)))"
  by (induction xs) auto

lemma map_res_length: "map_res f xs = Ok ys \<Longrightarrow> length ys = length xs"
  by (metis list_all2_lengthD map_res_Ok_iff)

lemma each_res_Ok_iff: "each_res f xs = Ok u \<longleftrightarrow> (\<forall>x\<in>set xs. f x = Ok ())"
  by (induction xs) (auto simp: res_simps)

lemma each_res_append: "each_res f (xs @ ys) = tryq (each_res f xs) (\<lambda>_. each_res f ys)"
  by (induction xs) auto

lemma fold_res_append:
  "fold_res f (xs @ ys) acc = tryq (fold_res f xs acc) (\<lambda>a. fold_res f ys a)"
  by (induction xs arbitrary: acc) (auto intro!: tryq_cong)

text \<open>A run that does not unwind.\<close>

definition no_panic :: "('e, 'a) res \<Rightarrow> bool" where
  "no_panic r \<longleftrightarrow> (\<forall>p. r \<noteq> Panic p)"

named_theorems no_panic_intros \<open>introduction rules for runs that do not unwind\<close>

lemma no_panic_simps [simp]:
  "no_panic (Ok x)" "no_panic (Err e)" "\<not> no_panic (Panic p)"
  by (simp_all add: no_panic_def)

lemma no_panic_tryq [no_panic_intros]:
  "no_panic r \<Longrightarrow> (\<And>x. r = Ok x \<Longrightarrow> no_panic (f x)) \<Longrightarrow> no_panic (tryq r f)"
  by (cases r) auto

lemma no_panic_ok_or [simp]: "no_panic (ok_or x e)"
  by (cases x) simp_all

lemma no_panic_map_res [no_panic_intros]:
  "(\<And>x. x \<in> set xs \<Longrightarrow> no_panic (f x)) \<Longrightarrow> no_panic (map_res f xs)"
  by (induction xs) (auto intro!: no_panic_tryq)

lemma no_panic_each_res [no_panic_intros]:
  "(\<And>x. x \<in> set xs \<Longrightarrow> no_panic (f x)) \<Longrightarrow> no_panic (each_res f xs)"
  by (induction xs) (auto intro!: no_panic_tryq)

lemma no_panic_fold_res [no_panic_intros]:
  "(\<And>x acc. x \<in> set xs \<Longrightarrow> no_panic (f x acc)) \<Longrightarrow> no_panic (fold_res f xs acc)"
  by (induction xs arbitrary: acc) (auto intro!: no_panic_tryq)

section \<open>Operations on a mutable state\<close>

text \<open>
  A method with \<open>&mut self\<close> takes the state and returns an outcome with the new state. The
  state is returned on the error paths too: what was written before an early return stays
  written.
\<close>

type_synonym ('s, 'e, 'a) op = "'s \<Rightarrow> ('e, 'a) res \<times> 's"

definition op_ret :: "'a \<Rightarrow> ('s, 'e, 'a) op" where
  "op_ret x = (\<lambda>s. (Ok x, s))"

definition op_err :: "'e \<Rightarrow> ('s, 'e, 'a) op" where
  "op_err e = (\<lambda>s. (Err e, s))"

definition op_lift :: "('e, 'a) res \<Rightarrow> ('s, 'e, 'a) op" where
  "op_lift r = (\<lambda>s. (r, s))"

definition op_read :: "('s \<Rightarrow> ('e, 'a) res) \<Rightarrow> ('s, 'e, 'a) op" where
  "op_read f = (\<lambda>s. (f s, s))"

definition op_mod :: "('s \<Rightarrow> 's) \<Rightarrow> ('s, 'e, unit) op" where
  "op_mod f = (\<lambda>s. (Ok (), f s))"

definition op_bind :: "('s, 'e, 'a) op \<Rightarrow> ('a \<Rightarrow> ('s, 'e, 'b) op) \<Rightarrow> ('s, 'e, 'b) op" where
  "op_bind m f = (\<lambda>s. case m s of
     (Ok x, s') \<Rightarrow> f x s' | (Err e, s') \<Rightarrow> (Err e, s') | (Panic p, s') \<Rightarrow> (Panic p, s'))"

definition op_seq :: "('s, 'e, unit) op \<Rightarrow> ('s, 'e, 'b) op \<Rightarrow> ('s, 'e, 'b) op" where
  "op_seq m n = op_bind m (\<lambda>_. n)"

fun op_each :: "('a \<Rightarrow> ('s, 'e, unit) op) \<Rightarrow> 'a list \<Rightarrow> ('s, 'e, unit) op" where
  "op_each f [] = op_ret ()"
| "op_each f (x # xs) = op_seq (f x) (op_each f xs)"

fun op_map :: "('a \<Rightarrow> ('s, 'e, 'b) op) \<Rightarrow> 'a list \<Rightarrow> ('s, 'e, 'b list) op" where
  "op_map f [] = op_ret []"
| "op_map f (x # xs) = op_bind (f x) (\<lambda>y. op_bind (op_map f xs) (\<lambda>ys. op_ret (y # ys)))"

lemmas op_defs = op_ret_def op_err_def op_lift_def op_read_def op_mod_def

lemma op_apply [res_simps]:
  "op_ret x s = (Ok x, s)" "op_err e s = (Err e, s)" "op_lift r s = (r, s)"
  "op_read f s = (f s, s)" "op_mod g s = (Ok (), g s)"
  by (simp_all add: op_defs)

lemma op_bind_Ok_iff [res_simps]:
  "op_bind m f s = (Ok y, t) \<longleftrightarrow> (\<exists>x s'. m s = (Ok x, s') \<and> f x s' = (Ok y, t))"
  by (auto simp: op_bind_def split: prod.splits res.splits)

lemma op_seq_Ok_iff [res_simps]:
  "op_seq m n s = (Ok y, t) \<longleftrightarrow> (\<exists>s'. m s = (Ok (), s') \<and> n s' = (Ok y, t))"
  by (auto simp: op_seq_def res_simps)

lemma op_bind_step:
  "m s = (Ok x, s') \<Longrightarrow> op_bind m f s = f x s'"
  "m s = (Err e, s') \<Longrightarrow> op_bind m f s = (Err e, s')"
  "m s = (Panic p, s') \<Longrightarrow> op_bind m f s = (Panic p, s')"
  by (simp_all add: op_bind_def)

lemma op_seq_step:
  "m s = (Ok x, s') \<Longrightarrow> op_seq m n s = n s'"
  "m s = (Err e, s') \<Longrightarrow> op_seq m n s = (Err e, s')"
  "m s = (Panic p, s') \<Longrightarrow> op_seq m n s = (Panic p, s')"
  by (simp_all add: op_seq_def op_bind_def)

lemma op_bind_prim [simp]:
  "op_bind (op_ret x) f = f x"
  "op_bind (op_err e) f = op_err e"
  "op_bind (op_lift r) f s = (case r of Ok x \<Rightarrow> f x s | Err e \<Rightarrow> (Err e, s) | Panic p \<Rightarrow> (Panic p, s))"
  "op_bind (op_read g) f s =
     (case g s of Ok x \<Rightarrow> f x s | Err e \<Rightarrow> (Err e, s) | Panic p \<Rightarrow> (Panic p, s))"
  by (auto simp: op_bind_def op_defs fun_eq_iff split: res.splits)

lemma op_seq_prim [simp]:
  "op_seq (op_ret u) n = n"
  "op_seq (op_mod g) n s = n (g s)"
  by (auto simp: op_seq_def op_bind_def op_defs fun_eq_iff)

text \<open>
  A property of the state that every step keeps, whatever its outcome, is kept by a sequence of
  steps and by a loop.
\<close>

definition op_keeps :: "('s \<Rightarrow> bool) \<Rightarrow> ('s, 'e, 'a) op \<Rightarrow> bool" where
  "op_keeps P m \<longleftrightarrow> (\<forall>s. P s \<longrightarrow> P (snd (m s)))"

named_theorems keeps_intros \<open>introduction rules for invariants of operations\<close>

lemma op_keepsD: "op_keeps P m \<Longrightarrow> P s \<Longrightarrow> m s = (r, t) \<Longrightarrow> P t"
  by (metis op_keeps_def snd_conv)

lemma op_keeps_prim [keeps_intros]:
  "op_keeps P (op_ret x)" "op_keeps P (op_err e)" "op_keeps P (op_lift r)" "op_keeps P (op_read f)"
  by (simp_all add: op_keeps_def op_defs)

lemma op_keeps_mod [keeps_intros]: "(\<And>s. P s \<Longrightarrow> P (f s)) \<Longrightarrow> op_keeps P (op_mod f)"
  by (simp add: op_keeps_def op_defs)

lemma op_keeps_bind [keeps_intros]:
  "op_keeps P m \<Longrightarrow> (\<And>x. op_keeps P (f x)) \<Longrightarrow> op_keeps P (op_bind m f)"
  by (fastforce simp: op_keeps_def op_bind_def split: prod.splits res.splits)

lemma op_keeps_seq [keeps_intros]:
  "op_keeps P m \<Longrightarrow> op_keeps P n \<Longrightarrow> op_keeps P (op_seq m n)"
  by (simp add: op_seq_def op_keeps_bind)

lemma op_keeps_each [keeps_intros]:
  "(\<And>x. x \<in> set xs \<Longrightarrow> op_keeps P (f x)) \<Longrightarrow> op_keeps P (op_each f xs)"
  by (induction xs) (auto intro: keeps_intros)

lemma op_keeps_if [keeps_intros]:
  "op_keeps P m \<Longrightarrow> op_keeps P n \<Longrightarrow> op_keeps P (if b then m else n)"
  by simp

lemma op_each_mod: "op_each (\<lambda>x. op_mod (f x)) xs s = (Ok (), fold f xs s)"
  by (induction xs arbitrary: s) (auto simp: op_defs op_seq_def op_bind_def)

lemma op_each_append: "op_each f (xs @ ys) = op_seq (op_each f xs) (op_each f ys)"
  by (induction xs) (auto simp: op_seq_def op_bind_def op_defs fun_eq_iff split: prod.splits res.splits)

section \<open>Rust's Ordering\<close>

datatype ordering = Less | Equal | Greater

primrec ord_reverse :: "ordering \<Rightarrow> ordering" where
  "ord_reverse Less = Greater"
| "ord_reverse Equal = Equal"
| "ord_reverse Greater = Less"

definition cmp_of :: "'a::linorder \<Rightarrow> 'a \<Rightarrow> ordering" where
  "cmp_of a b = (if a < b then Less else if a = b then Equal else Greater)"

lemma cmp_of_iff [simp]:
  "cmp_of a b = Less \<longleftrightarrow> a < b" "cmp_of a b = Equal \<longleftrightarrow> a = b" "cmp_of a b = Greater \<longleftrightarrow> b < a"
  by (auto simp: cmp_of_def)

lemma cmp_of_reverse: "cmp_of b a = ord_reverse (cmp_of a b)"
  by (auto simp: cmp_of_def)

lemma ord_reverse_reverse [simp]: "ord_reverse (ord_reverse x) = x"
  by (cases x) simp_all

section \<open>Machine integers\<close>

type_synonym u8 = "8 word"
type_synonym u32 = "32 word"
type_synonym u64 = "64 word"
type_synonym i64 = "64 word"   \<comment> \<open>read with \<open>sint\<close>\<close>

section \<open>Lists and finite maps\<close>

lemma filter_filter_implies:
  "(\<And>x. x \<in> set xs \<Longrightarrow> P x \<Longrightarrow> Q x) \<Longrightarrow> filter P (filter Q xs) = filter P xs"
  by (induction xs) auto

lemma map_filter_fst: "map fst (filter (\<lambda>(a, b). P a) ps) = filter P (map fst ps)"
  by (induction ps) auto

lemma list_all2_map_eq: "list_all2 (\<lambda>x y. y = f x) xs ys \<longleftrightarrow> ys = map f xs"
  by (induction xs arbitrary: ys) (auto simp: list_all2_Cons1)

text \<open>\<open>map.entry(k).or_default().push(x)\<close> on a map of vectors.\<close>

definition entry_push :: "'k \<Rightarrow> 'v \<Rightarrow> ('k, 'v list) fmap \<Rightarrow> ('k, 'v list) fmap" where
  "entry_push k x m = fmupd k ((case fmlookup m k of None \<Rightarrow> [] | Some xs \<Rightarrow> xs) @ [x]) m"

definition entry_get :: "('k, 'v list) fmap \<Rightarrow> 'k \<Rightarrow> 'v list" where
  "entry_get m k = (case fmlookup m k of None \<Rightarrow> [] | Some xs \<Rightarrow> xs)"

lemma entry_get_empty [simp]: "entry_get fmempty k = []"
  by (simp add: entry_get_def)

lemma entry_get_push [simp]:
  "entry_get (entry_push k x m) k' = entry_get m k' @ (if k' = k then [x] else [])"
  by (simp add: entry_get_def entry_push_def)

lemma fmdom_entry_push: "fset (fmdom (entry_push k x m)) = insert k (fset (fmdom m))"
  by (simp add: entry_push_def)

lemma fmdom'_entry_push [simp]: "fmdom' (entry_push k x m) = insert k (fmdom' m)"
  by (simp add: entry_push_def)

end
