(* ===== verification/Rust_Str.thy ===== *)
theory Rust_Str
  imports Prelude
begin

text \<open>
  Rust's \<open>str\<close> as the code uses it. A \<open>string\<close> here is the UTF-8 byte sequence of the Rust
  string: one HOL character per byte, so \<open>length\<close> is Rust's \<open>len()\<close> and indices are byte
  indices. \<open>chars\<close> splits the bytes into characters (each kept as its byte sequence). A slice
  at an index that is out of range, or inside a character, panics, as in Rust.
\<close>

section \<open>Bytes and characters\<close>

definition byte :: "char \<Rightarrow> nat" where
  "byte c = of_char c"

definition is_continuation :: "char \<Rightarrow> bool" where
  "is_continuation c \<longleftrightarrow> 128 \<le> byte c \<and> byte c < 192"

definition utf8_extra :: "char \<Rightarrow> nat" where
  "utf8_extra c =
     (if byte c < 192 then 0 else if byte c < 224 then 1 else if byte c < 240 then 2 else 3)"

function chars :: "string \<Rightarrow> string list" where
  "chars [] = []"
| "chars (c # cs) = (c # take (utf8_extra c) cs) # chars (drop (utf8_extra c) cs)"
  by pat_completeness auto
termination
  by (relation "measure length") auto

definition is_ascii :: "string \<Rightarrow> bool" where
  "is_ascii s \<longleftrightarrow> (\<forall>c \<in> set s. byte c < 128)"

lemma concat_chars [simp]: "concat (chars s) = s"
  by (induction s rule: chars.induct) auto

lemma chars_nonempty: "g \<in> set (chars s) \<Longrightarrow> g \<noteq> []"
  by (induction s rule: chars.induct) auto

lemma chars_ascii: "is_ascii s \<Longrightarrow> chars s = map (\<lambda>c. [c]) s"
  by (induction s) (auto simp: is_ascii_def utf8_extra_def)

lemma chars_eq_Nil_iff [simp]: "chars s = [] \<longleftrightarrow> s = []"
  by (cases s) auto

lemma is_ascii_simps [simp]:
  "is_ascii []" "is_ascii (c # s) \<longleftrightarrow> byte c < 128 \<and> is_ascii s"
  "is_ascii (s @ t) \<longleftrightarrow> is_ascii s \<and> is_ascii t"
  by (auto simp: is_ascii_def)

text \<open>\<open>String::from_utf8\<close>: well-formed sequences, no overlong forms, no surrogates, up to U+10FFFF.\<close>

definition utf8_group_ok :: "string \<Rightarrow> bool" where
  "utf8_group_ok g = (case map byte g of
     [a] \<Rightarrow> a < 128
   | [a, b] \<Rightarrow> 194 \<le> a \<and> a \<le> 223 \<and> 128 \<le> b \<and> b < 192
   | [a, b, c] \<Rightarrow> 224 \<le> a \<and> a \<le> 239 \<and> 128 \<le> b \<and> b < 192 \<and> 128 \<le> c \<and> c < 192 \<and>
       (a = 224 \<longrightarrow> 160 \<le> b) \<and> (a = 237 \<longrightarrow> b < 160)
   | [a, b, c, d] \<Rightarrow> 240 \<le> a \<and> a \<le> 244 \<and> 128 \<le> b \<and> b < 192 \<and> 128 \<le> c \<and> c < 192 \<and>
       128 \<le> d \<and> d < 192 \<and> (a = 240 \<longrightarrow> 144 \<le> b) \<and> (a = 244 \<longrightarrow> b < 144)
   | _ \<Rightarrow> False)"

definition utf8_valid :: "string \<Rightarrow> bool" where
  "utf8_valid s \<longleftrightarrow> list_all utf8_group_ok (chars s)"

lemma utf8_valid_ascii: "is_ascii s \<Longrightarrow> utf8_valid s"
  by (auto simp: utf8_valid_def chars_ascii list_all_iff utf8_group_ok_def is_ascii_def)

lemma utf8_group_length: "utf8_group_ok (c # g) \<Longrightarrow> length g = utf8_extra c"
  by (auto simp: utf8_group_ok_def utf8_extra_def split: list.splits)

lemma utf8_Cons:
  assumes "utf8_valid (c # cs)"
  shows "utf8_group_ok (c # take (utf8_extra c) cs)" "utf8_valid (drop (utf8_extra c) cs)" "utf8_extra c \<le> length cs"
  using assms utf8_group_length [of c "take (utf8_extra c) cs"] by (auto simp: utf8_valid_def)

lemma chars_append: "utf8_valid s \<Longrightarrow> chars (s @ r) = chars s @ chars r"
proof (induction s rule: chars.induct)
  case (2 c cs)
  from utf8_Cons [OF 2(2)] 2(1) show ?case by simp
qed simp

lemma utf8_append: "utf8_valid s \<Longrightarrow> utf8_valid r \<Longrightarrow> utf8_valid (s @ r)"
  by (simp add: utf8_valid_def chars_append)

lemma chars_ascii_append: "is_ascii s \<Longrightarrow> chars (s @ r) = map (\<lambda>c. [c]) s @ chars r"
  by (simp add: chars_append utf8_valid_ascii chars_ascii)

lemma length_chars: "length (chars s) \<le> length s"
proof (induction s rule: chars.induct)
  case (2 c cs)
  have "length (drop (utf8_extra c) cs) \<le> length cs" by simp
  with 2 have "length (chars (drop (utf8_extra c) cs)) \<le> length cs" by linarith
  then show ?case by simp
qed simp

section \<open>Whitespace, trimming and splitting on whitespace\<close>

text \<open>\<open>char::is_whitespace\<close>: the Unicode \<open>White_Space\<close> property, on the UTF-8 bytes.\<close>

definition is_whitespace :: "string \<Rightarrow> bool" where
  "is_whitespace g = (case map byte g of
     [b] \<Rightarrow> (9 \<le> b \<and> b \<le> 13) \<or> b = 32
   | [a, b] \<Rightarrow> a = 194 \<and> (b = 133 \<or> b = 160)
   | [a, b, c] \<Rightarrow> (a = 225 \<and> b = 154 \<and> c = 128) \<or>
       (a = 226 \<and> b = 128 \<and> ((128 \<le> c \<and> c \<le> 138) \<or> c = 168 \<or> c = 169 \<or> c = 175)) \<or>
       (a = 226 \<and> b = 129 \<and> c = 159) \<or> (a = 227 \<and> b = 128 \<and> c = 128)
   | _ \<Rightarrow> False)"

definition is_ascii_whitespace :: "char \<Rightarrow> bool" where
  "is_ascii_whitespace c \<longleftrightarrow> byte c \<in> {9, 10, 12, 13, 32}"

definition trim_start :: "string \<Rightarrow> string" where
  "trim_start s = concat (dropWhile is_whitespace (chars s))"

definition trim_end :: "string \<Rightarrow> string" where
  "trim_end s = concat (rev (dropWhile is_whitespace (rev (chars s))))"

definition trim :: "string \<Rightarrow> string" where
  "trim s = trim_end (trim_start s)"

text \<open>\<open>trim_end_matches\<close> with a set of ASCII characters.\<close>

definition trim_end_matches :: "char set \<Rightarrow> string \<Rightarrow> string" where
  "trim_end_matches cs s = rev (dropWhile (\<lambda>c. c \<in> cs) (rev s))"

fun split_ws_aux :: "string list \<Rightarrow> string \<Rightarrow> string list" where
  "split_ws_aux [] cur = (if cur = [] then [] else [cur])"
| "split_ws_aux (g # gs) cur =
     (if is_whitespace g then (if cur = [] then split_ws_aux gs [] else cur # split_ws_aux gs [])
      else split_ws_aux gs (cur @ g))"

definition split_whitespace :: "string \<Rightarrow> string list" where
  "split_whitespace s = split_ws_aux (chars s) []"

section \<open>ASCII case\<close>

definition ascii_upper :: "char \<Rightarrow> char" where
  "ascii_upper c = (if 97 \<le> byte c \<and> byte c \<le> 122 then char_of (byte c - 32) else c)"

definition ascii_lower :: "char \<Rightarrow> char" where
  "ascii_lower c = (if 65 \<le> byte c \<and> byte c \<le> 90 then char_of (byte c + 32) else c)"

definition to_ascii_uppercase :: "string \<Rightarrow> string" where
  "to_ascii_uppercase s = map ascii_upper s"

definition to_ascii_lowercase :: "string \<Rightarrow> string" where
  "to_ascii_lowercase s = map ascii_lower s"

definition eq_ignore_ascii_case :: "string \<Rightarrow> string \<Rightarrow> bool" where
  "eq_ignore_ascii_case s t \<longleftrightarrow> to_ascii_lowercase s = to_ascii_lowercase t"

text \<open>\<open>char::is_ascii_alphanumeric\<close> on a character given by its bytes.\<close>

definition is_ascii_digit :: "char \<Rightarrow> bool" where
  "is_ascii_digit c \<longleftrightarrow> 48 \<le> byte c \<and> byte c \<le> 57"

definition is_ascii_alnum :: "char \<Rightarrow> bool" where
  "is_ascii_alnum c \<longleftrightarrow> is_ascii_digit c \<or> (65 \<le> byte c \<and> byte c \<le> 90) \<or> (97 \<le> byte c \<and> byte c \<le> 122)"

definition is_ident_char :: "string \<Rightarrow> bool" where
  "is_ident_char g = (case g of [c] \<Rightarrow> is_ascii_alnum c \<or> c = CHR ''_'' | _ \<Rightarrow> False)"

section \<open>Searching and slicing\<close>

text \<open>\<open>find\<close> and \<open>rfind\<close> of an ASCII character: a byte index.\<close>

fun str_find :: "char \<Rightarrow> string \<Rightarrow> nat option" where
  "str_find c [] = None"
| "str_find c (x # xs) = (if x = c then Some 0 else map_option Suc (str_find c xs))"

definition str_rfind :: "char \<Rightarrow> string \<Rightarrow> nat option" where
  "str_rfind c s = map_option (\<lambda>i. length s - 1 - i) (str_find c (rev s))"

definition str_starts_with :: "char \<Rightarrow> string \<Rightarrow> bool" where
  "str_starts_with c s = (case s of [] \<Rightarrow> False | x # _ \<Rightarrow> x = c)"

definition str_ends_with :: "char \<Rightarrow> string \<Rightarrow> bool" where
  "str_ends_with c s = str_starts_with c (rev s)"

definition is_char_boundary :: "string \<Rightarrow> nat \<Rightarrow> bool" where
  "is_char_boundary s i \<longleftrightarrow>
     i = 0 \<or> i = length s \<or> (i < length s \<and> \<not> is_continuation (s ! i))"

text \<open>\<open>&s[i..j]\<close>.\<close>

definition str_slice :: "string \<Rightarrow> nat \<Rightarrow> nat \<Rightarrow> ('e, string) res" where
  "str_slice s i j =
     (if i \<le> j \<and> j \<le> length s \<and> is_char_boundary s i \<and> is_char_boundary s j
      then Ok (take (j - i) (drop i s)) else Panic ''str slice'')"

definition str_prefix :: "string \<Rightarrow> nat \<Rightarrow> ('e, string) res" where
  "str_prefix s j = str_slice s 0 j"

definition str_suffix :: "string \<Rightarrow> nat \<Rightarrow> ('e, string) res" where
  "str_suffix s i = str_slice s i (length s)"

text \<open>\<open>str::replace\<close> of a two-byte pattern by one byte, left to right, not overlapping.\<close>

fun replace_pair :: "char \<Rightarrow> string \<Rightarrow> string" where
  "replace_pair q (a # b # s) =
     (if a = q \<and> b = q then q # replace_pair q s else a # replace_pair q (b # s))"
| "replace_pair q s = s"

fun join_with :: "string \<Rightarrow> string list \<Rightarrow> string" where
  "join_with sep [] = []"
| "join_with sep [x] = x"
| "join_with sep (x # y # ys) = x @ sep @ join_with sep (y # ys)"

lemma is_ascii_join: "is_ascii sep \<Longrightarrow> list_all is_ascii ws \<Longrightarrow> is_ascii (join_with sep ws)"
  by (induction sep ws rule: join_with.induct) simp_all

definition quoted :: "string \<Rightarrow> string" where
  "quoted s = [CHR 0x27] @ s @ [CHR 0x27]"

section \<open>Decimal numbers\<close>

definition digit_char :: "nat \<Rightarrow> char" where
  "digit_char d = char_of (48 + d)"

fun show_nat :: "nat \<Rightarrow> string" where
  "show_nat n = (if n < 10 then [digit_char n] else show_nat (n div 10) @ [digit_char (n mod 10)])"

declare show_nat.simps [simp del]

text \<open>\<open>Display\<close> of an \<open>i64\<close>.\<close>

definition show_int :: "int \<Rightarrow> string" where
  "show_int i = (if i < 0 then CHR ''-'' # show_nat (nat (- i)) else show_nat (nat i))"

definition show_i64 :: "i64 \<Rightarrow> string" where
  "show_i64 w = show_int (sint w)"

fun digits_val :: "nat \<Rightarrow> string \<Rightarrow> nat option" where
  "digits_val acc [] = Some acc"
| "digits_val acc (c # cs) =
     (if is_ascii_digit c then digits_val (10 * acc + (byte c - 48)) cs else None)"

definition parse_digits :: "string \<Rightarrow> nat option" where
  "parse_digits s = (if s = [] then None else digits_val 0 s)"

text \<open>
  \<open>str::parse::<i64>()\<close>: an optional sign, at least one digit, digits only, in range.
  \<open>str::parse::<usize>()\<close> (64-bit): an optional plus sign only.
\<close>

definition parse_i64 :: "string \<Rightarrow> i64 option" where
  "parse_i64 s =
     (case s of
        [] \<Rightarrow> None
      | c # cs \<Rightarrow>
          (let v = (if c = CHR ''-'' then map_option (\<lambda>n. - int n) (parse_digits cs)
                    else if c = CHR ''+'' then map_option int (parse_digits cs)
                    else map_option int (parse_digits s))
           in case v of None \<Rightarrow> None
              | Some i \<Rightarrow> if - (2 ^ 63) \<le> i \<and> i < 2 ^ 63 then Some (word_of_int i) else None))"

definition parse_usize :: "string \<Rightarrow> nat option" where
  "parse_usize s =
     (case (case s of [] \<Rightarrow> None
            | c # cs \<Rightarrow> if c = CHR ''+'' then parse_digits cs else parse_digits s)
      of None \<Rightarrow> None | Some n \<Rightarrow> if n < 2 ^ 64 then Some n else None)"

section \<open>Decimal round trip\<close>

lemma byte_digit_char [simp]: "d < 10 \<Longrightarrow> byte (digit_char d) = 48 + d"
  by (simp add: byte_def digit_char_def)

lemma is_ascii_digit_char [simp]: "d < 10 \<Longrightarrow> is_ascii_digit (digit_char d)"
  by (simp add: is_ascii_digit_def)

lemma show_nat_nonempty [simp]: "show_nat n \<noteq> []"
  by (subst show_nat.simps) simp

lemma show_nat_digits: "c \<in> set (show_nat n) \<Longrightarrow> is_ascii_digit c"
proof (induction n rule: show_nat.induct)
  case (1 n)
  then show ?case
    by (subst (asm) (2) show_nat.simps) (auto split: if_splits)
qed

lemma digits_val_append:
  "digits_val a (s @ t) = (case digits_val a s of None \<Rightarrow> None | Some b \<Rightarrow> digits_val b t)"
  by (induction s arbitrary: a) auto

lemma digits_val_show_nat: "digits_val 0 (show_nat n) = Some n"
proof (induction n rule: show_nat.induct)
  case (1 n)
  show ?case
  proof (cases "n < 10")
    case True
    then show ?thesis by (subst show_nat.simps) simp
  next
    case False
    with 1 show ?thesis by (subst show_nat.simps) (simp add: digits_val_append)
  qed
qed

lemma parse_digits_show_nat [simp]: "parse_digits (show_nat n) = Some n"
  by (simp add: parse_digits_def digits_val_show_nat)

lemma digit_not_sign:
  assumes "is_ascii_digit c"
  shows "c \<noteq> CHR ''-''" "c \<noteq> CHR ''+''"
  using assms by (auto simp: is_ascii_digit_def byte_def)

lemma parse_i64_show_int:
  assumes "- (2 ^ 63) \<le> i" "i < 2 ^ 63"
  shows "parse_i64 (show_int i) = Some (word_of_int i)"
proof (cases "i < 0")
  case True
  with assms show ?thesis by (simp add: parse_i64_def show_int_def)
next
  case False
  obtain c cs where c: "show_nat (nat i) = c # cs"
    by (meson neq_Nil_conv show_nat_nonempty)
  then have "is_ascii_digit c" using show_nat_digits [of c "nat i"] by simp
  with c False assms parse_digits_show_nat [of "nat i"] show ?thesis
    by (simp add: parse_i64_def show_int_def digit_not_sign Let_def)
qed

lemma parse_i64_show_i64 [simp]: "parse_i64 (show_i64 w) = Some w"
proof -
  have "- (2 ^ 63) \<le> sint w" "sint w < 2 ^ 63"
    using sint_ge [of w] sint_lt [of w] by simp_all
  then show ?thesis by (simp add: show_i64_def parse_i64_show_int)
qed

lemma show_i64_inject [simp]: "show_i64 a = show_i64 b \<longleftrightarrow> a = b"
  by (metis option.inject parse_i64_show_i64)

end
