(* ===== verification/Data_Model.thy ===== *)
theory Data_Model
  imports Rust_Str
begin

text \<open>
  The data of the program: values, rows, schemas and persisted records (\<open>src/types.rs\<close>), the
  abstract syntax of statements (\<open>src/ast.rs\<close>) and the error values (\<open>src/error.rs\<close>).
  Structs are records, enums are datatypes with the source's variants (a prefix tells variants
  of the same name apart: \<open>TInt\<close> is \<open>DataType::Int\<close>, \<open>VInt\<close> is \<open>Value::Int\<close>).
  \<open>Value\<close> and \<open>Constraint\<close> have a suffix, since their names are keywords here; \<open>FilterExpr\<close> and
  \<open>Statement\<close> refer to each other and are one declaration.
  A \<open>BTreeMap\<close> is a finite map; where its key order shows, the keys are listed sorted.
\<close>

section \<open>Types and values\<close>

datatype data_type = TInt | TText | TBool

definition data_type_parse :: "string \<Rightarrow> data_type option" where
  "data_type_parse input = (let u = to_ascii_uppercase (trim input) in
     if u = ''INT'' \<or> u = ''INTEGER'' then Some TInt
     else if u = ''TEXT'' \<or> u = ''STRING'' then Some TText
     else if u = ''BOOL'' \<or> u = ''BOOLEAN'' then Some TBool
     else None)"

primrec show_data_type :: "data_type \<Rightarrow> string" where
  "show_data_type TInt = ''INT''"
| "show_data_type TText = ''TEXT''"
| "show_data_type TBool = ''BOOL''"

datatype value_t = VInt i64 | VText string | VBool bool | VNull

lemmas value_splits = value_t.splits

primrec value_type :: "value_t \<Rightarrow> data_type option" where
  "value_type (VInt _) = Some TInt"
| "value_type (VText _) = Some TText"
| "value_type (VBool _) = Some TBool"
| "value_type VNull = None"

definition show_bool :: "bool \<Rightarrow> string" where
  "show_bool b = (if b then ''true'' else ''false'')"

primrec show_value :: "value_t \<Rightarrow> string" where
  "show_value (VInt v) = show_i64 v"
| "show_value (VText v) = v"
| "show_value (VBool v) = show_bool v"
| "show_value VNull = ''NULL''"

type_synonym row = "(string, value_t) fmap"

text \<open>\<open>row.get(c).unwrap_or(&Value::Null)\<close>, used all over the engine.\<close>

definition row_get :: "row \<Rightarrow> string \<Rightarrow> value_t" where
  "row_get r c = (case fmlookup r c of None \<Rightarrow> VNull | Some v \<Rightarrow> v)"

section \<open>Schemas and persisted records\<close>

datatype constraint_t = PrimaryKey | NotNull | Unique | References string string

primrec show_constraint :: "constraint_t \<Rightarrow> string" where
  "show_constraint PrimaryKey = ''PRIMARY KEY''"
| "show_constraint NotNull = ''NOT NULL''"
| "show_constraint Unique = ''UNIQUE''"
| "show_constraint (References t c) = ''REFERENCES '' @ t @ ''('' @ c @ '')''"

record column_schema =
  cs_name :: string
  cs_type :: data_type
  cs_constraints :: "constraint_t list"

record table_schema =
  ts_name :: string
  ts_columns :: "column_schema list"
  ts_next_row_id :: u64

record stored_row =
  sr_id :: u64
  sr_data :: row

record row_locator =
  rl_id :: u64
  rl_offset :: u64
  rl_len :: u32

type_synonym catalog = "(string, table_schema) fmap"

record migration_record =
  mr_id :: u64
  mr_executed_at :: nat
  mr_table_name :: string
  mr_operation :: string
  mr_details :: string

record index_definition =
  ix_name :: string
  ix_table :: string
  ix_column :: string

type_synonym index_catalog = "index_definition list"

type_synonym index_map = "(string, row_locator list) fmap"

section \<open>Abstract syntax\<close>

datatype column_constraint = CPrimaryKey | CNotNull | CUnique | CReferences string string

record column_def =
  cd_name :: string
  cd_type :: data_type
  cd_constraints :: "column_constraint list"

datatype aggregate_func = Count | Sum | Min | Max | Avg

datatype aggregate_target = Star | AggColumn string

primrec aggregate_name :: "aggregate_func \<Rightarrow> string" where
  "aggregate_name Count = ''COUNT''"
| "aggregate_name Sum = ''SUM''"
| "aggregate_name Min = ''MIN''"
| "aggregate_name Max = ''MAX''"
| "aggregate_name Avg = ''AVG''"

primrec aggregate_label :: "aggregate_func \<Rightarrow> aggregate_target \<Rightarrow> string" where
  "aggregate_label func Star = aggregate_name func @ ''(*)''"
| "aggregate_label func (AggColumn c) = aggregate_name func @ ''('' @ c @ '')''"

datatype select_expr = Column string | AllColumns | Aggregate aggregate_func aggregate_target

datatype compare_op = OpEq | OpNotEq | OpGt | OpGte | OpLt | OpLte | OpLike

datatype sort_order = Asc | Desc

record order_by_clause =
  ob_column :: string
  ob_order :: sort_order

record join_clause =
  jc_table :: string
  jc_left_table :: "string option"
  jc_left_column :: string
  jc_right_column :: string

datatype filter_expr =
    Compare string compare_op value_t
  | IsNull string
  | IsNotNull string
  | InList string "value_t list" bool
  | InSubquery string statement bool
  | FAnd filter_expr filter_expr
  | FOr filter_expr filter_expr
and statement =
    CreateTable string "column_def list"
  | DropTable string
  | CreateIndex string string string
  | DropIndex string
  | AlterTableAddColumn string column_def "value_t option"
  | AlterTableDropColumn string string
  | AlterTableRenameColumn string string string
  | Insert string "string list option" "value_t list"
  | Update string "(string \<times> value_t) list" "filter_expr option"
  | Select string "select_expr list" "join_clause list" "filter_expr option" "string list"
      "filter_expr option" "order_by_clause list" "nat option" "nat option"
  | Delete string "filter_expr option"
  | Begin
  | Commit
  | Rollback
  | ShowTables
  | ShowMigrations
  | Describe string

section \<open>Errors\<close>

text \<open>
  The wrapped library errors (\<open>Io\<close>, \<open>Serde\<close>, \<open>Utf8\<close>, \<open>Base64\<close>) carry no payload
  that any code inspects; only the variant matters.
\<close>

datatype flux_error =
    Parse string
  | TableExists string
  | TableNotFound string
  | ColumnNotFound string string   \<comment> \<open>table, column\<close>
  | ValueCountMismatch nat nat     \<comment> \<open>expected, actual\<close>
  | TypeMismatch string data_type "data_type option"
  | InvalidSchema string
  | ConstraintViolation string
  | Transaction string
  | UserExists string
  | AuthenticationFailed
  | AuthorizationDenied string string   \<comment> \<open>user, action\<close>
  | Configuration string
  | Crypto string
  | Io
  | Serde
  | Utf8
  | Base64

type_synonym 'a result = "(flux_error, 'a) res"

primrec show_option_type :: "data_type option \<Rightarrow> string" where
  "show_option_type None = ''None''"
| "show_option_type (Some t) = ''Some('' @
     (case t of TInt \<Rightarrow> ''Int'' | TText \<Rightarrow> ''Text'' | TBool \<Rightarrow> ''Bool'') @ '')''"

text \<open>
  \<open>Display\<close> of an error. The four library errors print the text of the library's own error
  after the prefix; that text is left out here.
\<close>

primrec show_error :: "flux_error \<Rightarrow> string" where
  "show_error (Parse m) = ''parse error: '' @ m"
| "show_error (TableExists t) = ''table '' @ quoted t @ '' already exists''"
| "show_error (TableNotFound t) = ''table '' @ quoted t @ '' not found''"
| "show_error (ColumnNotFound t c) =
     ''column '' @ quoted c @ '' not found in table '' @ quoted t"
| "show_error (ValueCountMismatch e a) =
     ''expected '' @ show_nat e @ '' values, got '' @ show_nat a"
| "show_error (TypeMismatch c e f) = ''type mismatch for column '' @ quoted c @ '': expected '' @
     show_data_type e @ '', got '' @ show_option_type f"
| "show_error (InvalidSchema m) = ''invalid schema: '' @ m"
| "show_error (ConstraintViolation m) = ''constraint violation: '' @ m"
| "show_error (Transaction m) = ''transaction error: '' @ m"
| "show_error (UserExists u) = ''user '' @ quoted u @ '' already exists''"
| "show_error AuthenticationFailed = ''authentication failed''"
| "show_error (AuthorizationDenied u a) =
     ''authorization denied for user '' @ quoted u @ '' to perform '' @ quoted a"
| "show_error (Configuration m) = ''configuration error: '' @ m"
| "show_error (Crypto m) = ''cryptography error: '' @ m"
| "show_error Io = ''io error: ''"
| "show_error Serde = ''serialization error: ''"
| "show_error Utf8 = ''utf8 conversion error: ''"
| "show_error Base64 = ''base64 decode error: ''"

section \<open>Library type classes\<close>

text \<open>The persisted types are countable: they can be serialised.\<close>

instance data_type :: countable by countable_datatype
instance value_t :: countable by countable_datatype
instance constraint_t :: countable by countable_datatype

instance column_schema_ext :: (countable) countable
  by (rule countable_classI [of "\<lambda>r. to_nat (cs_name r, cs_type r, cs_constraints r,
       column_schema.more r)"]) simp

instance table_schema_ext :: (countable) countable
  by (rule countable_classI [of "\<lambda>r. to_nat (ts_name r, ts_columns r, ts_next_row_id r,
       table_schema.more r)"]) simp

instance stored_row_ext :: (countable) countable
  by (rule countable_classI [of "\<lambda>r. to_nat (sr_id r, sr_data r, stored_row.more r)"]) simp

instance row_locator_ext :: (countable) countable
  by (rule countable_classI [of "\<lambda>r. to_nat (rl_id r, rl_offset r, rl_len r, row_locator.more r)"])
    simp

instance migration_record_ext :: (countable) countable
  by (rule countable_classI [of "\<lambda>r. to_nat (mr_id r, mr_executed_at r, mr_table_name r,
       mr_operation r, mr_details r, migration_record.more r)"]) simp

instance index_definition_ext :: (countable) countable
  by (rule countable_classI [of "\<lambda>r. to_nat (ix_name r, ix_table r, ix_column r,
       index_definition.more r)"]) simp

section \<open>Lemmas on schemas and rows\<close>

definition has_column :: "table_schema \<Rightarrow> string \<Rightarrow> bool" where
  "has_column sch c \<longleftrightarrow> (\<exists>col \<in> set (ts_columns sch). cs_name col = c)"

definition find_column :: "table_schema \<Rightarrow> string \<Rightarrow> column_schema option" where
  "find_column sch c = find (\<lambda>col. cs_name col = c) (ts_columns sch)"

lemma row_get_simps [simp]:
  "row_get fmempty c = VNull"
  "row_get (fmupd c v r) c' = (if c = c' then v else row_get r c')"
  by (simp_all add: row_get_def)

lemma row_get_Some [simp]: "fmlookup r c = Some v \<Longrightarrow> row_get r c = v"
  by (simp add: row_get_def)

lemma find_column_SomeD:
  "find_column sch c = Some col \<Longrightarrow> col \<in> set (ts_columns sch) \<and> cs_name col = c"
  by (auto simp: find_column_def find_Some_iff)

lemma find_column_None: "find_column sch c = None \<longleftrightarrow> \<not> has_column sch c"
  by (auto simp: find_column_def has_column_def find_None_iff)

lemma find_column_distinct:
  "distinct (map cs_name (ts_columns sch)) \<Longrightarrow> col \<in> set (ts_columns sch) \<Longrightarrow>
   find_column sch (cs_name col) = Some col"
proof -
  have "distinct (map cs_name cols) \<Longrightarrow> col \<in> set cols \<Longrightarrow>
      find (\<lambda>c. cs_name c = cs_name col) cols = Some col" for cols
    by (induction cols) (auto simp: rev_image_eqI)
  then show "distinct (map cs_name (ts_columns sch)) \<Longrightarrow> col \<in> set (ts_columns sch) \<Longrightarrow>
      find_column sch (cs_name col) = Some col"
    by (simp add: find_column_def)
qed

end
