(* ===== verification/Roles.thy ===== *)
theory Roles
  imports Data_Model
begin

text \<open>
  Roles, identities and permissions of \<open>src/security.rs\<close>: which role may run which statement,
  the action names of the audit log, and the persisted user records.
\<close>

datatype role = Admin | ReadWrite | ReadOnly

definition role_parse :: "string \<Rightarrow> role result" where
  "role_parse input = (let u = to_ascii_lowercase (trim input) in
     if u = ''admin'' then Ok Admin
     else if u = ''read_write'' \<or> u = ''readwrite'' \<or> u = ''rw'' then Ok ReadWrite
     else if u = ''read_only'' \<or> u = ''readonly'' \<or> u = ''ro'' then Ok ReadOnly
     else Err (Configuration (''unknown role '' @ quoted input @
       '' (expected admin|read_write|read_only)'')))"

primrec show_role :: "role \<Rightarrow> string" where
  "show_role Admin = ''admin''"
| "show_role ReadWrite = ''read_write''"
| "show_role ReadOnly = ''read_only''"

fun role_allows :: "role \<Rightarrow> statement \<Rightarrow> bool" where
  "role_allows Admin st = True"
| "role_allows ReadWrite (Insert _ _ _) = True"
| "role_allows ReadWrite (Update _ _ _) = True"
| "role_allows ReadWrite (Select _ _ _ _ _ _ _ _ _) = True"
| "role_allows ReadWrite (Delete _ _) = True"
| "role_allows ReadWrite Begin = True"
| "role_allows ReadWrite Commit = True"
| "role_allows ReadWrite Rollback = True"
| "role_allows ReadWrite ShowTables = True"
| "role_allows ReadWrite ShowMigrations = True"
| "role_allows ReadWrite (Describe _) = True"
| "role_allows ReadWrite _ = False"
| "role_allows ReadOnly (Select _ _ _ _ _ _ _ _ _) = True"
| "role_allows ReadOnly ShowTables = True"
| "role_allows ReadOnly ShowMigrations = True"
| "role_allows ReadOnly (Describe _) = True"
| "role_allows ReadOnly _ = False"

record identity =
  id_username :: string
  id_role :: role

fun statement_action :: "statement \<Rightarrow> string" where
  "statement_action (CreateTable _ _) = ''CREATE_TABLE''"
| "statement_action (DropTable _) = ''DROP_TABLE''"
| "statement_action (CreateIndex _ _ _) = ''CREATE_INDEX''"
| "statement_action (DropIndex _) = ''DROP_INDEX''"
| "statement_action (AlterTableAddColumn _ _ _) = ''ALTER_TABLE_ADD_COLUMN''"
| "statement_action (AlterTableDropColumn _ _) = ''ALTER_TABLE_DROP_COLUMN''"
| "statement_action (AlterTableRenameColumn _ _ _) = ''ALTER_TABLE_RENAME_COLUMN''"
| "statement_action (Insert _ _ _) = ''INSERT''"
| "statement_action (Update _ _ _) = ''UPDATE''"
| "statement_action (Select _ _ _ _ _ _ _ _ _) = ''SELECT''"
| "statement_action (Delete _ _) = ''DELETE''"
| "statement_action Begin = ''BEGIN''"
| "statement_action Commit = ''COMMIT''"
| "statement_action Rollback = ''ROLLBACK''"
| "statement_action ShowTables = ''SHOW_TABLES''"
| "statement_action ShowMigrations = ''SHOW_MIGRATIONS''"
| "statement_action (Describe _) = ''DESCRIBE''"

record user_record =
  ur_role :: role
  ur_salt_b64 :: string
  ur_hash_b64 :: string
  ur_iterations :: u32

type_synonym auth_store = "(string, user_record) fmap"

record audit_entry =
  ae_timestamp :: nat
  ae_username :: string
  ae_role :: role
  ae_action :: string
  ae_success :: bool
  ae_message :: "string option"

instance role :: countable by countable_datatype

instance user_record_ext :: (countable) countable
  by (rule countable_classI [of "\<lambda>r. to_nat (ur_role r, ur_salt_b64 r, ur_hash_b64 r,
       ur_iterations r, user_record.more r)"]) simp

section \<open>Permissions\<close>

text \<open>The statements that only read, and those that change the schema.\<close>

fun is_query :: "statement \<Rightarrow> bool" where
  "is_query (Select _ _ _ _ _ _ _ _ _) = True"
| "is_query ShowTables = True"
| "is_query ShowMigrations = True"
| "is_query (Describe _) = True"
| "is_query _ = False"

fun is_schema_change :: "statement \<Rightarrow> bool" where
  "is_schema_change (CreateTable _ _) = True"
| "is_schema_change (DropTable _) = True"
| "is_schema_change (CreateIndex _ _ _) = True"
| "is_schema_change (DropIndex _) = True"
| "is_schema_change (AlterTableAddColumn _ _ _) = True"
| "is_schema_change (AlterTableDropColumn _ _) = True"
| "is_schema_change (AlterTableRenameColumn _ _ _) = True"
| "is_schema_change _ = False"

lemma read_only_allows_iff: "role_allows ReadOnly st \<longleftrightarrow> is_query st"
  by (cases st) simp_all

lemma read_write_allows_iff: "role_allows ReadWrite st \<longleftrightarrow> \<not> is_schema_change st"
  by (cases st) simp_all

lemma role_allows_mono:
  "role_allows ReadOnly st \<Longrightarrow> role_allows ReadWrite st" "role_allows ReadWrite st \<Longrightarrow> role_allows Admin st"
  by (cases st; simp)+

end
