(* ===== verification/Crypto.thy ===== *)
theory Crypto
  imports Roles "HOL-Library.Multiset"
begin

text \<open>
  The library code the program calls and its encryption layer. \<open>deps\<close> collects the functions
  of third-party crates and of the operating system that the sources only call, and the one
  behaviour that the standard library leaves open: they are a parameter of every definition that
  uses them, and \<open>deps_ok\<close> states what the code relies on (decoding inverts encoding, decryption
  inverts encryption, base64 text stays in its alphabet, sorting neither adds nor drops a row). Above them, \<open>CryptoManager\<close> of \<open>src/security.rs\<close> is translated, and its
  round trip is proved from \<open>deps_ok\<close>.
\<close>

section \<open>The functions of other crates\<close>

text \<open>
  Bytes (\<open>Vec<u8>\<close>) are lists of 8-bit words. \<open>d_random n len\<close> is the \<open>n\<close>-th draw of \<open>len\<close>
  bytes from \<open>OsRng\<close>, \<open>d_now n\<close> the \<open>n\<close>-th reading of the clock in milliseconds (none when the
  clock is before the epoch). \<open>d_sort cmp rows\<close> is what \<open>sort_by\<close> of the standard library does with
  rows on which \<open>cmp\<close> is not a total order: the documentation leaves it open whether it unwinds
  (\<open>Inl\<close>, with the message) or returns the rows in some order.
\<close>

record deps =
  d_random :: "nat \<Rightarrow> nat \<Rightarrow> u8 list"
  d_now :: "nat \<Rightarrow> nat option"
  d_b64_encode :: "u8 list \<Rightarrow> string"
  d_b64_decode :: "string \<Rightarrow> u8 list option"
  d_encrypt :: "u8 list \<Rightarrow> u8 list \<Rightarrow> u8 list \<Rightarrow> u8 list option"   \<comment> \<open>key, nonce, plaintext\<close>
  d_decrypt :: "u8 list \<Rightarrow> u8 list \<Rightarrow> u8 list \<Rightarrow> u8 list option"   \<comment> \<open>key, nonce, ciphertext\<close>
  d_pbkdf2 :: "u8 list \<Rightarrow> u8 list \<Rightarrow> u32 \<Rightarrow> nat \<Rightarrow> u8 list"   \<comment> \<open>password, salt, rounds, length\<close>
  d_value_json :: "value_t \<Rightarrow> string"
  d_row_json :: "stored_row \<Rightarrow> u8 list"
  d_row_unjson :: "u8 list \<Rightarrow> stored_row option"
  d_catalog_json :: "catalog \<Rightarrow> u8 list"
  d_catalog_unjson :: "u8 list \<Rightarrow> catalog option"
  d_migrations_json :: "migration_record list \<Rightarrow> u8 list"
  d_migrations_unjson :: "u8 list \<Rightarrow> migration_record list option"
  d_indexes_json :: "index_catalog \<Rightarrow> u8 list"
  d_indexes_unjson :: "u8 list \<Rightarrow> index_catalog option"
  d_index_map_json :: "index_map \<Rightarrow> u8 list"
  d_index_map_unjson :: "u8 list \<Rightarrow> index_map option"
  d_users_json :: "auth_store \<Rightarrow> u8 list"
  d_users_unjson :: "u8 list \<Rightarrow> auth_store option"
  d_audit_json :: "audit_entry \<Rightarrow> string"
  d_sort :: "(value_t list \<Rightarrow> value_t list \<Rightarrow> ordering result) \<Rightarrow> value_t list list \<Rightarrow> string + value_t list list"

definition b64_char :: "char \<Rightarrow> bool" where
  "b64_char c \<longleftrightarrow> is_ascii_alnum c \<or> c = CHR ''+'' \<or> c = CHR ''/'' \<or> c = CHR ''=''"

text \<open>The documented behaviour of the crates.\<close>

definition random_ok :: "deps \<Rightarrow> bool" where
  "random_ok D \<longleftrightarrow> (\<forall>n len. length (d_random D n len) = len)"

definition base64_ok :: "deps \<Rightarrow> bool" where
  "base64_ok D \<longleftrightarrow> (\<forall>bs. d_b64_decode D (d_b64_encode D bs) = Some bs \<and>
     list_all b64_char (d_b64_encode D bs) \<and> (bs \<noteq> [] \<longrightarrow> d_b64_encode D bs \<noteq> []))"

text \<open>The Poly1305 tag makes a ciphertext longer than its plaintext, so never empty.\<close>

definition cipher_ok :: "deps \<Rightarrow> bool" where
  "cipher_ok D \<longleftrightarrow> (\<forall>k n p. length n = 24 \<longrightarrow>
     (\<exists>c. d_encrypt D k n p = Some c \<and> c \<noteq> [] \<and> d_decrypt D k n c = Some p))"

definition json_ok :: "deps \<Rightarrow> bool" where
  "json_ok D \<longleftrightarrow> inj (d_value_json D) \<and>
     (\<forall>x. d_row_unjson D (d_row_json D x) = Some x) \<and>
     (\<forall>x. d_catalog_unjson D (d_catalog_json D x) = Some x) \<and>
     (\<forall>x. d_migrations_unjson D (d_migrations_json D x) = Some x) \<and>
     (\<forall>x. d_indexes_unjson D (d_indexes_json D x) = Some x) \<and>
     (\<forall>x. d_index_map_unjson D (d_index_map_json D x) = Some x) \<and>
     (\<forall>x. d_users_unjson D (d_users_json D x) = Some x)"

text \<open>A sort that returns, whatever the comparator, returns the rows it was given.\<close>

definition sort_ok :: "deps \<Rightarrow> bool" where
  "sort_ok D \<longleftrightarrow> (\<forall>cmp xs ys. d_sort D cmp xs = Inr ys \<longrightarrow> mset ys = mset xs)"

definition deps_ok :: "deps \<Rightarrow> bool" where
  "deps_ok D \<longleftrightarrow> random_ok D \<and> base64_ok D \<and> cipher_ok D \<and> json_ok D \<and> sort_ok D"

lemma sort_okD: "deps_ok D \<Longrightarrow> d_sort D cmp xs = Inr ys \<Longrightarrow> mset ys = mset xs"
  unfolding deps_ok_def sort_ok_def by blast

lemma json_okD [simp]:
  assumes "deps_ok D"
  shows "inj (d_value_json D)"
    "d_row_unjson D (d_row_json D r) = Some r"
    "d_catalog_unjson D (d_catalog_json D c) = Some c"
    "d_migrations_unjson D (d_migrations_json D m) = Some m"
    "d_indexes_unjson D (d_indexes_json D i) = Some i"
    "d_index_map_unjson D (d_index_map_json D x) = Some x"
    "d_users_unjson D (d_users_json D u) = Some u"
  using assms by (simp_all add: deps_ok_def json_ok_def)

lemma value_json_eq_iff [simp]:
  "deps_ok D \<Longrightarrow> d_value_json D a = d_value_json D b \<longleftrightarrow> a = b"
  by (simp add: inj_eq)

section \<open>CryptoManager\<close>

definition KEY_LEN :: nat where "KEY_LEN = 32"
definition NONCE_LEN :: nat where "NONCE_LEN = 24"

definition from_base64_key :: "deps \<Rightarrow> string \<Rightarrow> u8 list result" where
  "from_base64_key D key_b64 =
     (case d_b64_decode D (trim key_b64) of
        None \<Rightarrow> Err Base64
      | Some raw \<Rightarrow>
          if length raw \<noteq> KEY_LEN
          then Err (Configuration
            ''invalid master key length: expected 32 bytes after base64 decoding'')
          else Ok raw)"

definition generate_base64_key :: "deps \<Rightarrow> (nat, flux_error, string) op" where
  "generate_base64_key D = (\<lambda>rng. (Ok (d_b64_encode D (d_random D rng KEY_LEN)), Suc rng))"

text \<open>The state is the number of draws made from the random source so far.\<close>

definition encrypt_to_base64 :: "deps \<Rightarrow> u8 list \<Rightarrow> u8 list \<Rightarrow> (nat, flux_error, string) op" where
  "encrypt_to_base64 D key plaintext = (\<lambda>rng.
     (let nonce = d_random D rng NONCE_LEN in
      case d_encrypt D key nonce plaintext of
        None \<Rightarrow> (Err (Crypto ''encryption failed''), Suc rng)
      | Some ciphertext \<Rightarrow> (Ok (d_b64_encode D (nonce @ ciphertext)), Suc rng)))"

definition decrypt_from_base64 :: "deps \<Rightarrow> u8 list \<Rightarrow> string \<Rightarrow> u8 list result" where
  "decrypt_from_base64 D key encoded =
     (case d_b64_decode D (trim encoded) of
        None \<Rightarrow> Err Base64
      | Some payload \<Rightarrow>
          if length payload \<le> NONCE_LEN
          then Err (Crypto ''encrypted payload is too short'')
          else (case d_decrypt D key (take NONCE_LEN payload) (drop NONCE_LEN payload) of
                  None \<Rightarrow> Err (Crypto ''decryption failed'')
                | Some p \<Rightarrow> Ok p))"

section \<open>Base64 text\<close>

lemma b64_char_facts:
  assumes "b64_char c"
  shows "byte c < 128" "\<not> is_whitespace [c]" "c \<noteq> CHR 0x0A" "c \<noteq> CHR 0x0D"
  using assms
  by (auto simp: b64_char_def is_ascii_alnum_def is_ascii_digit_def is_whitespace_def byte_def)

lemma is_ascii_b64: "list_all b64_char s \<Longrightarrow> is_ascii s"
  by (induction s) (auto dest: b64_char_facts)

lemma dropWhile_singletons:
  "\<forall>c \<in> set s. \<not> P [c] \<Longrightarrow> dropWhile P (map (\<lambda>c. [c]) s) = map (\<lambda>c. [c]) s"
  by (cases s) auto

lemma trim_no_whitespace:
  assumes "is_ascii s" and "\<forall>c \<in> set s. \<not> is_whitespace [c]"
  shows "trim s = s" "trim_start s = s" "trim_end s = s"
proof -
  have c: "concat (map (\<lambda>c. [c]) s) = s" by (induction s) auto
  have r: "dropWhile is_whitespace (rev (map (\<lambda>c. [c]) s)) = rev (map (\<lambda>c. [c]) s)"
    using assms(2) by (simp add: rev_map dropWhile_singletons)
  show "trim_start s = s"
    using assms by (simp add: trim_start_def chars_ascii dropWhile_singletons c)
  moreover show "trim_end s = s"
    using assms by (simp add: trim_end_def chars_ascii r c)
  ultimately show "trim s = s" by (simp add: trim_def)
qed

lemma trim_b64: "list_all b64_char s \<Longrightarrow> trim s = s"
  by (rule trim_no_whitespace) (auto simp: is_ascii_b64 list_all_iff dest: b64_char_facts)

lemma b64_no_newline: "list_all b64_char s \<Longrightarrow> CHR 0x0A \<notin> set s \<and> CHR 0x0D \<notin> set s"
  by (auto simp: list_all_iff dest: b64_char_facts)

section \<open>The round trip\<close>

lemma encrypt_ok:
  assumes "deps_ok D"
  obtains s where "encrypt_to_base64 D key p rng = (Ok s, Suc rng)"
    "list_all b64_char s" "s \<noteq> []" "decrypt_from_base64 D key s = Ok p"
proof -
  let ?n = "d_random D rng NONCE_LEN"
  from assms have n: "length ?n = 24"
    by (simp add: deps_ok_def random_ok_def NONCE_LEN_def)
  with assms obtain c where c: "d_encrypt D key ?n p = Some c" "c \<noteq> []" "d_decrypt D key ?n c = Some p"
    unfolding deps_ok_def cipher_ok_def by metis
  let ?s = "d_b64_encode D (?n @ c)"
  from assms c(2) have s: "d_b64_decode D ?s = Some (?n @ c)" "list_all b64_char ?s" "?s \<noteq> []"
    by (auto simp: deps_ok_def base64_ok_def)
  moreover have "encrypt_to_base64 D key p rng = (Ok ?s, Suc rng)"
    by (simp add: encrypt_to_base64_def c)
  moreover have "decrypt_from_base64 D key ?s = Ok p"
    using s n c by (simp add: decrypt_from_base64_def trim_b64 NONCE_LEN_def)
  ultimately show ?thesis using that by blast
qed

lemma encrypt_Ok_imp:
  assumes "deps_ok D" and "encrypt_to_base64 D key p rng = (Ok s, rng')"
  shows "rng' = Suc rng" "list_all b64_char s" "s \<noteq> []" "decrypt_from_base64 D key s = Ok p"
  using encrypt_ok [OF assms(1), of key p rng] assms(2) by auto

lemma encrypt_not_Err:
  "deps_ok D \<Longrightarrow> encrypt_to_base64 D key p rng \<noteq> (Err e, rng')"
  "deps_ok D \<Longrightarrow> encrypt_to_base64 D key p rng \<noteq> (Panic m, rng')"
  by (metis encrypt_ok fst_conv res.distinct(1), metis encrypt_ok fst_conv res.distinct(3))

lemma generated_key_accepted:
  assumes "deps_ok D"
  shows "from_base64_key D (d_b64_encode D (d_random D rng KEY_LEN)) = Ok (d_random D rng KEY_LEN)"
  using assms
  by (simp add: from_base64_key_def deps_ok_def base64_ok_def random_ok_def trim_b64)

end
