(* ===== verification/Table_File.thy ===== *)
theory Table_File
  imports Crypto
begin

text \<open>
  A table file at the byte level: one sealed (serialised, encrypted, base64) row per line. The
  loops of \<open>read_stored_rows_located\<close>, \<open>read_rows_at\<close>, \<open>rewrite_rows\<close> and
  \<open>write_stored_rows\<close> (\<open>src/storage.rs\<close>) over such a file are translated here over an encoder and a
  decoder of lines; the interface \<open>line_codec\<close> states what they need of these, and the row
  codec of the program provides it. The lemmas show what a scan and a positioned read of a
  well-formed file return.
\<close>

abbreviation NL :: char where "NL \<equiv> CHR 0x0A"
abbreviation CR :: char where "CR \<equiv> CHR 0x0D"

section \<open>Reading\<close>

lemma dropWhile_Cons_length: "dropWhile P s = n # rest \<Longrightarrow> length rest < length s"
  using length_dropWhile_le [of P s] by simp

text \<open>The pieces \<open>BufRead::read_line\<close> returns one after the other, newlines included.\<close>

function split_lines :: "string \<Rightarrow> string list" where
  "split_lines s = (if s = [] then []
     else (case dropWhile (\<lambda>c. c \<noteq> NL) s of
             [] \<Rightarrow> [s]
           | n # rest \<Rightarrow> (takeWhile (\<lambda>c. c \<noteq> NL) s @ [NL]) # split_lines rest))"
  by pat_completeness auto
termination
  by (relation "measure length") (auto dest: dropWhile_Cons_length)

declare split_lines.simps [simp del]

lemma split_lines_length: "l \<in> set (split_lines s) \<Longrightarrow> length l \<le> length s"
proof (induction s rule: split_lines.induct)
  case (1 s)
  show ?case
  proof (cases "dropWhile (\<lambda>c. c \<noteq> NL) s")
    case Nil
    with "1.prems" show ?thesis
      by (simp add: split_lines.simps [of s] del: dropWhile_eq_Nil_conv split: if_splits)
  next
    case (Cons n rest)
    then have "s \<noteq> []" by auto
    with Cons "1.prems" have "l = takeWhile (\<lambda>c. c \<noteq> NL) s @ [NL] \<or> l \<in> set (split_lines rest)"
      by (simp add: split_lines.simps [of s])
    moreover have "length s = length (takeWhile (\<lambda>c. c \<noteq> NL) s) + Suc (length rest)"
      by (metis Cons length_Cons length_append takeWhile_dropWhile_id)
    ultimately show ?thesis
      using "1.IH" [OF \<open>s \<noteq> []\<close> Cons] by auto
  qed
qed

text \<open>The loop of \<open>read_stored_rows_located\<close>: every non-blank line, with its position.\<close>

fun scan_lines :: "(string \<Rightarrow> stored_row result) \<Rightarrow> u64 \<Rightarrow> string list \<Rightarrow>
    (row_locator \<times> stored_row) list result" where
  "scan_lines decode offset [] = Ok []"
| "scan_lines decode offset (line # lines) =
     (if \<not> utf8_valid line then Err Io
      else (let encrypted_line = trim_end_matches {NL, CR} line;
                next = offset + of_nat (length line)
            in if trim encrypted_line \<noteq> []
               then tryq (decode encrypted_line) (\<lambda>stored.
                    tryq (scan_lines decode next lines) (\<lambda>rows.
                    Ok ((\<lparr>rl_id = sr_id stored, rl_offset = offset,
                          rl_len = of_nat (length encrypted_line)\<rparr>, stored) # rows)))
               else scan_lines decode next lines))"

definition scan_file :: "(string \<Rightarrow> stored_row result) \<Rightarrow> string \<Rightarrow>
    (row_locator \<times> stored_row) list result" where
  "scan_file decode content = scan_lines decode 0 (split_lines content)"

text \<open>The loop of \<open>read_rows_at\<close>: seek, read exactly \<open>len\<close> bytes, decode, compare the id.\<close>

fun read_at :: "(string \<Rightarrow> stored_row result) \<Rightarrow> string \<Rightarrow> row_locator list \<Rightarrow> row list result" where
  "read_at decode content [] = Ok []"
| "read_at decode content (l # ls) =
     (let off = unat (rl_offset l); n = unat (rl_len l); buf = take n (drop off content) in
      if n \<noteq> 0 \<and> length content < off + n then Err Io
      else if \<not> utf8_valid buf then Err Utf8
      else tryq (decode buf) (\<lambda>stored.
           if sr_id stored \<noteq> rl_id l
           then Err (Configuration ''index locator does not match stored row'')
           else tryq (read_at decode content ls) (\<lambda>rows. Ok (sr_data stored # rows))))"

section \<open>Writing\<close>

text \<open>The lines of \<open>BufRead::lines\<close>: without the newline and one carriage return before it.\<close>

definition chomp :: "string \<Rightarrow> string" where
  "chomp line = (if str_ends_with NL line
     then (let l = butlast line in if str_ends_with CR l then butlast l else l) else line)"

text \<open>
  The loop of \<open>rewrite_rows\<close>. The state is the output file so far, the number of dropped
  rows, the counter captured by the mapper closure, and the random source. An early return
  leaves the output written so far.
\<close>

record rewrite_state =
  rw_output :: string
  rw_affected :: nat
  rw_counter :: nat
  rw_rng :: nat

fun rewrite_lines :: "(stored_row \<Rightarrow> (nat, flux_error, string) op) \<Rightarrow> (string \<Rightarrow> stored_row result) \<Rightarrow>
    (row \<Rightarrow> (nat, flux_error, row option) op) \<Rightarrow> string list \<Rightarrow> (rewrite_state, flux_error, unit) op" where
  "rewrite_lines encode decode mapper [] = op_ret ()"
| "rewrite_lines encode decode mapper (line # lines) =
     op_seq (\<lambda>w.
        (if \<not> utf8_valid line then (Err Io, w)
         else if trim (chomp line) = [] then (Ok (), w)
         else (case decode (chomp line) of
             Err e \<Rightarrow> (Err e, w) | Panic p \<Rightarrow> (Panic p, w)
           | Ok stored \<Rightarrow>
              (case mapper (sr_data stored) (rw_counter w) of
                 (Err e, c) \<Rightarrow> (Err e, w\<lparr>rw_counter := c\<rparr>)
               | (Panic p, c) \<Rightarrow> (Panic p, w\<lparr>rw_counter := c\<rparr>)
               | (Ok None, c) \<Rightarrow> (Ok (), w\<lparr>rw_counter := c, rw_affected := rw_affected w + 1\<rparr>)
               | (Ok (Some data), c) \<Rightarrow>
                   (case encode \<lparr>sr_id = sr_id stored, sr_data = data\<rparr> (rw_rng w) of
                      (Ok l, g) \<Rightarrow> (Ok (), w\<lparr>rw_counter := c, rw_rng := g,
                                              rw_output := rw_output w @ l @ [NL]\<rparr>)
                    | (Err e, g) \<Rightarrow> (Err e, w\<lparr>rw_counter := c, rw_rng := g\<rparr>)
                    | (Panic p, g) \<Rightarrow> (Panic p, w\<lparr>rw_counter := c, rw_rng := g\<rparr>))))))
       (rewrite_lines encode decode mapper lines)"

text \<open>The loop of \<open>write_stored_rows\<close>, which builds the whole file in a buffer.\<close>

fun encode_rows :: "(stored_row \<Rightarrow> (nat, flux_error, string) op) \<Rightarrow> stored_row list \<Rightarrow>
    (nat, flux_error, string) op" where
  "encode_rows encode [] = op_ret []"
| "encode_rows encode (r # rs) =
     op_bind (encode r) (\<lambda>l. op_bind (encode_rows encode rs) (\<lambda>buf. op_ret (l @ [NL] @ buf)))"

section \<open>The row codec\<close>

definition encode_row :: "deps \<Rightarrow> u8 list \<Rightarrow> stored_row \<Rightarrow> (nat, flux_error, string) op" where
  "encode_row D key r = encrypt_to_base64 D key (d_row_json D r)"

definition decode_row :: "deps \<Rightarrow> u8 list \<Rightarrow> string \<Rightarrow> stored_row result" where
  "decode_row D key line = tryq (decrypt_from_base64 D key line) (\<lambda>p. ok_or (d_row_unjson D p) Serde)"

section \<open>Well-formed files\<close>

text \<open>A line that holds a row, and a file that holds a list of such lines.\<close>

definition sealed :: "(string \<Rightarrow> 'r result) \<Rightarrow> string \<Rightarrow> 'r \<Rightarrow> bool" where
  "sealed decode l r \<longleftrightarrow> list_all b64_char l \<and> l \<noteq> [] \<and> decode l = Ok r"

definition file_of :: "(string \<times> 'r) list \<Rightarrow> string" where
  "file_of ps = concat (map (\<lambda>(l, r). l @ [NL]) ps)"

definition file_holds :: "(string \<Rightarrow> 'r result) \<Rightarrow> string \<Rightarrow> (string \<times> 'r) list \<Rightarrow> bool" where
  "file_holds decode content ps \<longleftrightarrow>
     content = file_of ps \<and> (\<forall>(l, r) \<in> set ps. sealed decode l r)"

fun locate :: "u64 \<Rightarrow> (string \<times> stored_row) list \<Rightarrow> (row_locator \<times> stored_row) list" where
  "locate off [] = []"
| "locate off ((l, r) # ps) =
     (\<lparr>rl_id = sr_id r, rl_offset = off, rl_len = of_nat (length l)\<rparr>, r) #
     locate (off + of_nat (length l + 1)) ps"

lemma file_of_simps [simp]:
  "file_of [] = []" "file_of ((l, r) # ps) = l @ NL # file_of ps"
  "file_of (ps @ qs) = file_of ps @ file_of qs"
  by (simp_all add: file_of_def)

lemma file_holds_append:
  "file_holds decode c ps \<Longrightarrow> file_holds decode c' qs \<Longrightarrow> file_holds decode (c @ c') (ps @ qs)"
  by (auto simp: file_holds_def)

lemma file_holds_Nil [simp]: "file_holds decode [] []"
  by (simp add: file_holds_def)

lemma map_snd_locate [simp]: "map snd (locate off ps) = map snd ps"
  by (induction off ps rule: locate.induct) auto

lemma locate_append:
  "locate off (ps @ qs) = locate off ps @ locate (off + of_nat (length (file_of ps))) qs"
  by (induction off ps rule: locate.induct) (auto simp: algebra_simps)

lemma locate_id: "(loc, r) \<in> set (locate off ps) \<Longrightarrow> rl_id loc = sr_id r"
  by (induction off ps rule: locate.induct) auto

lemma split_lines_file_of:
  "(\<forall>(l, r) \<in> set ps. NL \<notin> set l) \<Longrightarrow> split_lines (file_of ps) = map (\<lambda>(l, r). l @ [NL]) ps"
proof (induction ps)
  case Nil
  then show ?case by (simp add: split_lines.simps)
next
  case (Cons p ps)
  obtain l r where p: "p = (l, r)" by fastforce
  with Cons.prems have n: "NL \<notin> set l" by auto
  then have "dropWhile (\<lambda>c. c \<noteq> NL) (l @ NL # file_of ps) = NL # file_of ps"
    "takeWhile (\<lambda>c. c \<noteq> NL) (l @ NL # file_of ps) = l"
    by (auto simp: dropWhile_append3 takeWhile_append)
  with Cons p show ?case
    by (subst split_lines.simps) auto
qed

section \<open>The codec interface\<close>

locale line_codec =
  fixes encode :: "stored_row \<Rightarrow> (nat, flux_error, string) op"
    and decode :: "string \<Rightarrow> stored_row result"
    and lawful :: bool
  assumes encode_sealed: "lawful \<Longrightarrow> \<exists>l. encode r n = (Ok l, Suc n) \<and> sealed decode l r"
begin

lemma encode_Ok:
  assumes lawful "encode r n = (x, n')"
  obtains l where "x = Ok l" "n' = Suc n" "sealed decode l r"
  using encode_sealed [OF assms(1), of r n] assms(2) by auto

lemma encode_rows_ok:
  assumes lawful
  shows "\<exists>ls. encode_rows encode rs n = (Ok (file_of (zip ls rs)), n + length rs) \<and>
    length ls = length rs \<and> (\<forall>(l, r) \<in> set (zip ls rs). sealed decode l r)"
proof (induction rs arbitrary: n)
  case Nil
  then show ?case by (simp add: op_defs)
next
  case (Cons r rs)
  obtain l where l: "encode r n = (Ok l, Suc n)" "sealed decode l r"
    using encode_sealed [OF assms] by blast
  from Cons.IH [of "Suc n"] obtain ls where ls:
    "encode_rows encode rs (Suc n) = (Ok (file_of (zip ls rs)), Suc n + length rs)"
    "length ls = length rs" "\<forall>(l, r) \<in> set (zip ls rs). sealed decode l r" by blast
  from l ls show ?case
    by (intro exI [of _ "l # ls"]) (auto simp: op_bind_step op_defs)
qed

end

lemma encode_row_ok:
  assumes "deps_ok D"
  shows "\<exists>l. encode_row D key r n = (Ok l, Suc n) \<and> sealed (decode_row D key) l r"
  using encrypt_ok [OF assms, of key "d_row_json D r" n] assms
  by (metis (no_types) decode_row_def encode_row_def json_okD(2) ok_or_simps(1) sealed_def tryq.simps(1))

interpretation row_codec: line_codec "encode_row D key" "decode_row D key" "deps_ok D" for D key
  by unfold_locales (rule encode_row_ok)

section \<open>What a scan and a positioned read return\<close>

lemma sealed_facts:
  assumes "sealed decode l r"
  shows "utf8_valid l" "utf8_valid (l @ [NL])" "NL \<notin> set l" "CR \<notin> set l" "trim l = l" "l \<noteq> []"
    "decode l = Ok r" "trim_end_matches {NL, CR} (l @ [NL]) = l" "chomp (l @ [NL]) = l"
proof -
  from assms have l: "list_all b64_char l" "l \<noteq> []" "decode l = Ok r" by (auto simp: sealed_def)
  then show "trim l = l" "l \<noteq> []" "decode l = Ok r" by (simp_all add: trim_b64)
  from l(1) have a: "is_ascii l" by (rule is_ascii_b64)
  then show "utf8_valid l" by (rule utf8_valid_ascii)
  from a show "utf8_valid (l @ [NL])" by (intro utf8_valid_ascii) (simp add: byte_def)
  from l(1) show n: "NL \<notin> set l" "CR \<notin> set l" using b64_no_newline by auto
  obtain c cs where c: "rev l = c # cs" using l(2) by (metis neq_Nil_conv rev_is_Nil_conv)
  with n have c': "c \<noteq> NL" "c \<noteq> CR"
    by (metis list.set_intros(1) set_rev)+
  with c have "rev (c # cs) = l" by (metis rev_rev_ident)
  with c c' show "trim_end_matches {NL, CR} (l @ [NL]) = l"
    by (simp add: trim_end_matches_def)
  from c c' show "chomp (l @ [NL]) = l"
    by (simp add: chomp_def str_ends_with_def str_starts_with_def butlast_append)
qed

lemma scan_lines_sealed:
  assumes "\<forall>(l, r) \<in> set ps. sealed decode l r"
  shows "scan_lines decode off (map (\<lambda>(l, r). l @ [NL]) ps) = Ok (locate off ps)"
  using assms
proof (induction ps arbitrary: off)
  case (Cons p ps)
  obtain l r where p: "p = (l, r)" by fastforce
  with Cons.prems have s: "sealed decode l r" by auto
  from Cons show ?case
    by (simp add: p sealed_facts [OF s] Let_def)
qed simp

lemma file_holds_lines:
  "file_holds decode content ps \<Longrightarrow> split_lines content = map (\<lambda>(l, r). l @ [NL]) ps"
  by (auto simp: file_holds_def intro!: split_lines_file_of dest: sealed_facts(3))

lemma scan_file_holds:
  "file_holds decode content ps \<Longrightarrow> scan_file decode content = Ok (locate 0 ps)"
  by (simp add: scan_file_def file_holds_lines) (auto simp: file_holds_def intro: scan_lines_sealed)

text \<open>Files below the limits of the locator fields; the limits of a file offset and a length.\<close>

definition file_fits :: "(string \<times> 'r) list \<Rightarrow> bool" where
  "file_fits ps \<longleftrightarrow> length (file_of ps) < 2 ^ 64 \<and> (\<forall>(l, r) \<in> set ps. length l < 2 ^ 32)"

lemma locate_split:
  "x \<in> set (locate off ps) \<Longrightarrow>
   \<exists>us l vs. ps = us @ (l, snd x) # vs \<and> x = (\<lparr>rl_id = sr_id (snd x),
      rl_offset = off + of_nat (length (file_of us)), rl_len = of_nat (length l)\<rparr>, snd x)"
proof (induction off ps rule: locate.induct)
  case (2 off l r ps)
  show ?case
  proof (cases "x \<in> set (locate (off + of_nat (length l + 1)) ps)")
    case True
    from "2.IH" [OF this] obtain us l' vs where "ps = us @ (l', snd x) # vs"
      "x = (\<lparr>rl_id = sr_id (snd x), rl_offset = off + of_nat (length l + 1) +
        of_nat (length (file_of us)), rl_len = of_nat (length l')\<rparr>, snd x)" by blast
    then show ?thesis
      by (intro exI [of _ "(l, r) # us"] exI [of _ l'] exI [of _ vs]) (simp add: algebra_simps)
  next
    case False
    with "2.prems" show ?thesis
      by (intro exI [of _ "[]"] exI [of _ l] exI [of _ ps]) auto
  qed
qed simp

lemma read_at_locate:
  assumes "file_holds decode content ps" "file_fits ps" "set xs \<subseteq> set (locate 0 ps)"
  shows "read_at decode content (map fst xs) = Ok (map (\<lambda>x. sr_data (snd x)) xs)"
  using assms(3)
proof (induction xs)
  case (Cons x xs)
  then obtain us l vs where x: "ps = us @ (l, snd x) # vs" "x = (\<lparr>rl_id = sr_id (snd x),
      rl_offset = of_nat (length (file_of us)), rl_len = of_nat (length l)\<rparr>, snd x)"
    using locate_split [of x 0 ps] by auto
  from assms(1) x(1) have s: "sealed decode l (snd x)" and
    c: "content = file_of us @ l @ NL # file_of vs"
    by (auto simp: file_holds_def)
  from assms(2) x(1) have b: "length (file_of us) < 2 ^ 64" "length l < 2 ^ 32"
    by (auto simp: file_fits_def)
  have "unat (rl_offset (fst x)) = length (file_of us)" "unat (rl_len (fst x)) = length l"
    "rl_id (fst x) = sr_id (snd x)"
    using b by (subst x(2), simp add: unat_of_nat)+
  moreover have "take (length l) (drop (length (file_of us)) content) = l"
    by (simp add: c)
  ultimately show ?case
    using Cons by (simp add: Let_def sealed_facts [OF s]) (simp add: c)
qed simp

section \<open>What the rewriting loops produce\<close>

text \<open>
  On a well-formed file, with a mapper that never fails, the loop writes the mapped rows in
  order, keeping each row's id, and drops the rows the mapper drops.
\<close>

definition mapped_rows :: "(row \<Rightarrow> row option) \<Rightarrow> stored_row list \<Rightarrow> stored_row list" where
  "mapped_rows f rs = List.map_filter (\<lambda>r. map_option (\<lambda>d. r\<lparr>sr_data := d\<rparr>) (f (sr_data r))) rs"

lemma mapped_rows_simps [simp]:
  "mapped_rows f [] = []"
  "mapped_rows f (r # rs) = (case f (sr_data r) of None \<Rightarrow> mapped_rows f rs
     | Some d \<Rightarrow> r\<lparr>sr_data := d\<rparr> # mapped_rows f rs)"
  by (simp_all add: mapped_rows_def List.map_filter_simps split: option.splits)

context line_codec begin

lemma rewrite_lines_result:
  assumes lawful and "\<forall>(l, r) \<in> set ps. sealed decode l r"
    and m: "\<And>d c. fst (mapper d c) = m d"
    and "rewrite_lines encode decode mapper (map (\<lambda>(l, r). l @ [NL]) ps) w = (x, w')"
    and "x = Ok () \<or> (\<forall>r \<in> snd ` set ps. is_ok (m (sr_data r)))"
  shows "x = Ok () \<and> (\<exists>qs. rw_output w' = rw_output w @ file_of qs \<and>
    (\<forall>(l, r) \<in> set qs. sealed decode l r) \<and> (\<forall>r \<in> snd ` set ps. is_ok (m (sr_data r))) \<and>
    map snd qs = mapped_rows (\<lambda>d. case m d of Ok y \<Rightarrow> y | _ \<Rightarrow> None) (map snd ps) \<and>
    rw_affected w' = rw_affected w + length (filter (\<lambda>r. m (sr_data r) = Ok None) (map snd ps)) \<and>
    rw_counter w' = fold (\<lambda>r c. snd (mapper (sr_data r) c)) (map snd ps) (rw_counter w))"
  using assms(2,4,5)
proof (induction ps arbitrary: w)
  case Nil
  then show ?case by (auto simp: op_defs intro!: exI [of _ "[]"])
next
  case (Cons p ps)
  obtain l r where p: "p = (l, r)" by fastforce
  with Cons.prems(1) have s: "sealed decode l r" and ss: "\<forall>(l, r) \<in> set ps. sealed decode l r"
    by auto
  obtain y c where y: "mapper (sr_data r) (rw_counter w) = (y, c)" by fastforce
  with m have my: "m (sr_data r) = y" by (metis fst_conv)
  show ?case
  proof (cases y)
    case (Ok z)
    show ?thesis
    proof (cases z)
      case None
      let ?w = "w\<lparr>rw_counter := c, rw_affected := rw_affected w + 1\<rparr>"
      from Cons.prems(2) have "rewrite_lines encode decode mapper (map (\<lambda>(l, r). l @ [NL]) ps) ?w = (x, w')"
        by (simp add: p sealed_facts [OF s] y Ok None op_seq_def op_bind_def)
      with Cons.IH [OF ss this] Cons.prems(3) show ?thesis
        by (auto simp: p y my Ok None)
    next
      case (Some d)
      obtain l' where l': "encode \<lparr>sr_id = sr_id r, sr_data = d\<rparr> (rw_rng w) = (Ok l', Suc (rw_rng w))"
        "sealed decode l' \<lparr>sr_id = sr_id r, sr_data = d\<rparr>"
        using encode_sealed [OF assms(1)] by blast
      let ?w = "w\<lparr>rw_counter := c, rw_rng := Suc (rw_rng w), rw_output := rw_output w @ l' @ [NL]\<rparr>"
      from Cons.prems(2) have "rewrite_lines encode decode mapper (map (\<lambda>(l, r). l @ [NL]) ps) ?w = (x, w')"
        by (simp add: p sealed_facts [OF s] y Ok Some l' op_seq_def op_bind_def)
      from Cons.IH [OF ss this] Cons.prems(3)
      obtain qs where qs: "x = Ok ()" "rw_output w' = rw_output ?w @ file_of qs"
        "\<forall>(l, r) \<in> set qs. sealed decode l r" "\<forall>r \<in> snd ` set ps. is_ok (m (sr_data r))"
        "map snd qs = mapped_rows (\<lambda>d. case m d of Ok y \<Rightarrow> y | _ \<Rightarrow> None) (map snd ps)"
        "rw_affected w' = rw_affected ?w + length (filter (\<lambda>r. m (sr_data r) = Ok None) (map snd ps))"
        "rw_counter w' = fold (\<lambda>r c. snd (mapper (sr_data r) c)) (map snd ps) (rw_counter ?w)"
        by auto
      moreover have "sealed decode l' (r\<lparr>sr_data := d\<rparr>)"
        using l'(2) by (cases r) simp
      ultimately show ?thesis
        by (intro conjI exI [of _ "(l', r\<lparr>sr_data := d\<rparr>) # qs"])
          (auto simp: p y my Ok Some)
    qed
  next
    case (Err e)
    with Cons.prems(2,3) my show ?thesis
      by (auto simp: p sealed_facts [OF s] y op_seq_def op_bind_def)
  next
    case (Panic e)
    with Cons.prems(2,3) my show ?thesis
      by (auto simp: p sealed_facts [OF s] y op_seq_def op_bind_def)
  qed
qed

end

end
