(* ===== verification/Storage.thy ===== *)
theory Storage
  imports Table_File
begin

text \<open>
  The storage engine, \<open>src/storage.rs\<close>: the state of \<open>Storage\<close>, the files it keeps in its
  directory, and every method. The directory is a map from file names to contents; an
  operation of the file system succeeds unless it needs a file that is not there. The files
  that hold metadata are sealed documents (serialised, encrypted, base64), as in the code.
\<close>

section \<open>State\<close>

text \<open>What survives the process: the files of the data directory, the snapshot directory of an
  open transaction, and the positions of the random source and of the clock.\<close>

record disk =
  dk_files :: "string \<rightharpoonup> string"
  dk_snapshot :: "(string \<rightharpoonup> string) option"
  dk_rng :: nat
  dk_clock :: nat

text \<open>
  \<open>st_table_files\<close> holds the tables whose append handle is open: the code closes a handle
  before it replaces or removes the file, so an open handle is the file of that name.
\<close>

record storage = disk +
  st_key :: "u8 list"
  st_catalog :: catalog
  st_migrations :: "migration_record list"
  st_index_catalog :: index_catalog
  st_index_maps :: "(string, index_map) fmap"
  st_cursors :: "(string, u64 \<times> u64) fmap"
  st_table_files :: "string set"
  st_unique_caches :: "(string, (string, string set) fmap) fmap"
  st_dirty :: "string fset"
  st_indexes_clean :: bool
  st_txn :: bool

type_synonym 'a storage_op = "(storage, flux_error, 'a) op"

definition ROW_ID_BATCH :: u64 where "ROW_ID_BATCH = 256"

section \<open>Paths and files\<close>

definition table_path :: "string \<Rightarrow> string" where
  "table_path t = t @ ''.table''"

definition catalog_path :: string where "catalog_path = ''catalog.enc''"
definition migrations_path :: string where "migrations_path = ''migrations.enc''"
definition index_catalog_path :: string where "index_catalog_path = ''indexes.enc''"

definition index_path :: "string \<Rightarrow> string" where
  "index_path n = ''index_'' @ n @ ''.enc''"

definition index_marker_path :: string where "index_marker_path = ''indexes.clean''"

definition is_table_name :: "string \<Rightarrow> bool" where
  "is_table_name f \<longleftrightarrow> take 6 (rev f) = rev ''.table''"

definition is_index_name :: "string \<Rightarrow> bool" where
  "is_index_name f \<longleftrightarrow> take 6 f = ''index_''"

text \<open>\<open>Path::with_extension\<close> on a file name: replaces what follows the last dot.\<close>

definition with_extension :: "string \<Rightarrow> string \<Rightarrow> string" where
  "with_extension f ext = (case str_rfind (CHR ''.'') f of
     Some (Suc i) \<Rightarrow> take (Suc i) f @ ''.'' @ ext | _ \<Rightarrow> f @ ''.'' @ ext)"

definition put_file :: "string \<Rightarrow> string \<Rightarrow> 'a disk_scheme \<Rightarrow> 'a disk_scheme" where
  "put_file path data s = s\<lparr>dk_files := (dk_files s)(path \<mapsto> data)\<rparr>"

definition remove_file :: "string \<Rightarrow> 'a disk_scheme \<Rightarrow> 'a disk_scheme" where
  "remove_file path s = s\<lparr>dk_files := (dk_files s)(path := None)\<rparr>"

text \<open>\<open>atomic_write\<close>: write a temporary file, then rename it over the target.\<close>

definition atomic_write :: "string \<Rightarrow> string \<Rightarrow> 'a disk_scheme \<Rightarrow> 'a disk_scheme" where
  "atomic_write path data s =
     (let tmp = with_extension path ''tmp_write'' in
      put_file path data (remove_file tmp (put_file tmp data s)))"

definition with_rng :: "(nat, flux_error, 'b) op \<Rightarrow> ('a disk_scheme, flux_error, 'b) op" where
  "with_rng m = (\<lambda>s. case m (dk_rng s) of (r, g) \<Rightarrow> (r, s\<lparr>dk_rng := g\<rparr>))"

definition load_encrypted_json ::
  "deps \<Rightarrow> u8 list \<Rightarrow> (string \<rightharpoonup> string) \<Rightarrow> string \<Rightarrow> (u8 list \<Rightarrow> 'b option) \<Rightarrow> 'b \<Rightarrow> 'b result" where
  "load_encrypted_json D key files path unjson dflt =
     (case files path of
        None \<Rightarrow> Ok dflt
      | Some encrypted \<Rightarrow>
          if \<not> utf8_valid encrypted then Err Io
          else if trim encrypted = [] then Ok dflt
          else tryq (decrypt_from_base64 D key encrypted) (\<lambda>p. ok_or (unjson p) Serde))"

definition save_encrypted_json :: "deps \<Rightarrow> string \<Rightarrow> u8 list \<Rightarrow> unit storage_op" where
  "save_encrypted_json D path serialized =
     op_bind (\<lambda>s. with_rng (encrypt_to_base64 D (st_key s) serialized) s) (\<lambda>encrypted.
     op_mod (atomic_write path encrypted))"

definition save_catalog :: "deps \<Rightarrow> unit storage_op" where
  "save_catalog D = (\<lambda>s. save_encrypted_json D catalog_path (d_catalog_json D (st_catalog s)) s)"

definition save_migrations :: "deps \<Rightarrow> unit storage_op" where
  "save_migrations D =
     (\<lambda>s. save_encrypted_json D migrations_path (d_migrations_json D (st_migrations s)) s)"

definition save_index_catalog :: "deps \<Rightarrow> unit storage_op" where
  "save_index_catalog D =
     (\<lambda>s. save_encrypted_json D index_catalog_path (d_indexes_json D (st_index_catalog s)) s)"

section \<open>Reading rows\<close>

definition get_schema :: "storage \<Rightarrow> string \<Rightarrow> table_schema result" where
  "get_schema s t = ok_or (fmlookup (st_catalog s) t) (TableNotFound t)"

definition list_tables :: "storage \<Rightarrow> string list" where
  "list_tables s = sorted_list_of_fset (fmdom (st_catalog s))"

definition list_migrations :: "storage \<Rightarrow> migration_record list" where
  "list_migrations s = st_migrations s"

definition read_stored_rows_located ::
  "deps \<Rightarrow> storage \<Rightarrow> string \<Rightarrow> (row_locator \<times> stored_row) list result" where
  "read_stored_rows_located D s t =
     (if fmlookup (st_catalog s) t = None then Err (TableNotFound t)
      else (case dk_files s (table_path t) of
              None \<Rightarrow> Ok []
            | Some content \<Rightarrow> scan_file (decode_row D (st_key s)) content))"

definition read_stored_rows :: "deps \<Rightarrow> storage \<Rightarrow> string \<Rightarrow> stored_row list result" where
  "read_stored_rows D s t = tryq (read_stored_rows_located D s t) (\<lambda>xs. Ok (map snd xs))"

definition read_rows :: "deps \<Rightarrow> storage \<Rightarrow> string \<Rightarrow> row list result" where
  "read_rows D s t = tryq (read_stored_rows D s t) (\<lambda>xs. Ok (map sr_data xs))"

definition read_rows_at :: "deps \<Rightarrow> storage \<Rightarrow> string \<Rightarrow> row_locator list \<Rightarrow> row list result" where
  "read_rows_at D s t locators =
     (if fmlookup (st_catalog s) t = None then Err (TableNotFound t)
      else (case dk_files s (table_path t) of
              None \<Rightarrow> Ok []
            | Some content \<Rightarrow> read_at (decode_row D (st_key s)) content locators))"

definition read_rows_filtered ::
  "deps \<Rightarrow> storage \<Rightarrow> string \<Rightarrow> row_locator list option \<Rightarrow> row list result" where
  "read_rows_filtered D s t locators =
     (case locators of
        None \<Rightarrow> read_rows D s t
      | Some wanted \<Rightarrow>
          (case read_rows_at D s t wanted of
             Ok rows \<Rightarrow> Ok rows
           | Err _ \<Rightarrow>
               (let wanted_ids = rl_id ` set wanted in
                tryq (read_stored_rows D s t) (\<lambda>xs.
                Ok (map sr_data (filter (\<lambda>r. sr_id r \<in> wanted_ids) xs))))
           | Panic p \<Rightarrow> Panic p))"

section \<open>The unique-value cache\<close>

definition unique_cache_of :: "storage \<Rightarrow> string \<Rightarrow> string \<Rightarrow> string set option" where
  "unique_cache_of s t c =
     Option.bind (fmlookup (st_unique_caches s) t) (\<lambda>columns. fmlookup columns c)"

definition column_keys :: "deps \<Rightarrow> string \<Rightarrow> row list \<Rightarrow> string set" where
  "column_keys D c rows =
     set (map (d_value_json D) (filter (\<lambda>v. v \<noteq> VNull) (List.map_filter (\<lambda>r. fmlookup r c) rows)))"

definition unique_value_exists :: "deps \<Rightarrow> string \<Rightarrow> string \<Rightarrow> value_t \<Rightarrow> bool storage_op" where
  "unique_value_exists D t c v =
     (\<lambda>s. let key = d_value_json D v in
      case unique_cache_of s t c of
        Some cached \<Rightarrow> (Ok (key \<in> cached), s)
      | None \<Rightarrow>
          op_bind (op_read (\<lambda>s. read_stored_rows D s t)) (\<lambda>rows.
            let keys = column_keys D c (map sr_data rows) in
            op_seq (op_mod (\<lambda>s. s\<lparr>st_unique_caches := fmupd t
                (fmupd c keys (case fmlookup (st_unique_caches s) t of
                   None \<Rightarrow> fmempty | Some columns \<Rightarrow> columns)) (st_unique_caches s)\<rparr>))
              (op_ret (key \<in> keys))) s)"

definition note_unique_values :: "deps \<Rightarrow> string \<Rightarrow> row \<Rightarrow> storage \<Rightarrow> storage" where
  "note_unique_values D t row s =
     (case fmlookup (st_unique_caches s) t of
        None \<Rightarrow> s
      | Some columns \<Rightarrow> s\<lparr>st_unique_caches := fmupd t
          (fmmap_keys (\<lambda>c keys. case fmlookup row c of
               Some v \<Rightarrow> if v \<noteq> VNull then insert (d_value_json D v) keys else keys
             | None \<Rightarrow> keys) columns) (st_unique_caches s)\<rparr>)"

definition invalidate_unique_cache :: "string \<Rightarrow> storage \<Rightarrow> storage" where
  "invalidate_unique_cache t s = s\<lparr>st_unique_caches := fmdrop t (st_unique_caches s)\<rparr>"

definition close_table_file :: "string \<Rightarrow> storage \<Rightarrow> storage" where
  "close_table_file t s = s\<lparr>st_table_files := st_table_files s - {t}\<rparr>"

section \<open>Indexes\<close>

definition write_index_map :: "string \<Rightarrow> index_map \<Rightarrow> storage \<Rightarrow> storage" where
  "write_index_map name m s =
     (let s1 = s\<lparr>st_index_maps := fmupd name m (st_index_maps s),
                 st_dirty := finsert name (st_dirty s)\<rparr>
      in if st_indexes_clean s1 then remove_file index_marker_path (s1\<lparr>st_indexes_clean := False\<rparr>)
         else s1)"

definition build_index :: "deps \<Rightarrow> string \<Rightarrow> (row_locator \<times> stored_row) list \<Rightarrow> index_map" where
  "build_index D c rows =
     fold (\<lambda>(loc, stored) m. entry_push (d_value_json D (row_get (sr_data stored) c)) loc m)
       rows fmempty"

definition rebuild_index :: "deps \<Rightarrow> string \<Rightarrow> nat storage_op" where
  "rebuild_index D name =
     op_bind (op_read (\<lambda>s. ok_or (find (\<lambda>ix. ix_name ix = name) (st_index_catalog s))
       (InvalidSchema (''index '' @ quoted name @ '' not found'')))) (\<lambda>ix.
     op_bind (op_read (\<lambda>s. read_stored_rows_located D s (ix_table ix))) (\<lambda>rows.
     let m = build_index D (ix_column ix) rows in
     op_seq (op_mod (write_index_map name m)) (op_ret (fcard (fmdom m)))))"

definition rebuild_index_unit :: "deps \<Rightarrow> string \<Rightarrow> unit storage_op" where
  "rebuild_index_unit D name = op_bind (rebuild_index D name) (\<lambda>_. op_ret ())"

definition rebuild_indexes_for_table :: "deps \<Rightarrow> string \<Rightarrow> unit storage_op" where
  "rebuild_indexes_for_table D t =
     (\<lambda>s. op_each (rebuild_index_unit D)
        (map ix_name (filter (\<lambda>ix. ix_table ix = t) (st_index_catalog s))) s)"

definition rebuild_all_indexes :: "deps \<Rightarrow> unit storage_op" where
  "rebuild_all_indexes D =
     op_seq (op_mod (\<lambda>s. s\<lparr>st_index_maps := fmempty\<rparr>))
       (\<lambda>s. op_each (rebuild_index_unit D) (map ix_name (st_index_catalog s)) s)"

text \<open>A damaged index file (one that does not deserialise) loads as an empty map.\<close>

definition load_index_map_from_disk :: "deps \<Rightarrow> storage \<Rightarrow> string \<Rightarrow> index_map result" where
  "load_index_map_from_disk D s name =
     (case load_encrypted_json D (st_key s) (dk_files s) (index_path name) (d_index_map_unjson D)
        fmempty of
        Ok m \<Rightarrow> Ok m
      | Err Serde \<Rightarrow> Ok fmempty
      | Err e \<Rightarrow> Err e
      | Panic p \<Rightarrow> Panic p)"

definition load_all_index_maps :: "deps \<Rightarrow> unit storage_op" where
  "load_all_index_maps D =
     op_seq (op_mod (\<lambda>s. s\<lparr>st_index_maps := fmempty\<rparr>))
       (\<lambda>s. op_each (\<lambda>name. op_bind (op_read (\<lambda>s. load_index_map_from_disk D s name)) (\<lambda>m.
            op_mod (\<lambda>s. s\<lparr>st_index_maps := fmupd name m (st_index_maps s)\<rparr>)))
          (map ix_name (st_index_catalog s)) s)"

text \<open>The dirty set is a hash set; its iteration order only decides which nonce seals which file.\<close>

definition flush_indexes :: "deps \<Rightarrow> unit storage_op" where
  "flush_indexes D = (\<lambda>s.
     op_seq (op_mod (\<lambda>s. s\<lparr>st_dirty := {||}\<rparr>))
    (op_seq (op_each (\<lambda>name s. case fmlookup (st_index_maps s) name of
               Some m \<Rightarrow> save_encrypted_json D (index_path name) (d_index_map_json D m) s
             | None \<Rightarrow> (Ok (), s)) (sorted_list_of_fset (st_dirty s)))
    (op_seq (op_mod (put_file index_marker_path []))
            (op_mod (\<lambda>s. s\<lparr>st_indexes_clean := True\<rparr>)))) s)"

definition find_indexed_locators ::
  "deps \<Rightarrow> storage \<Rightarrow> string \<Rightarrow> string \<Rightarrow> value_t \<Rightarrow> row_locator list option result" where
  "find_indexed_locators D s t c v =
     (case find (\<lambda>ix. ix_table ix = t \<and> ix_column ix = c) (st_index_catalog s) of
        None \<Rightarrow> Ok None
      | Some ix \<Rightarrow>
          (case fmlookup (st_index_maps s) (ix_name ix) of
             None \<Rightarrow> Ok None
           | Some m \<Rightarrow> Ok (Some (entry_get m (d_value_json D v)))))"

section \<open>Migrations\<close>

definition record_migration :: "deps \<Rightarrow> string \<Rightarrow> string \<Rightarrow> string \<Rightarrow> unit storage_op" where
  "record_migration D t operation details =
     (\<lambda>s. let id = (if st_migrations s = [] then 1 else mr_id (last (st_migrations s)) + 1);
              s1 = s\<lparr>dk_clock := Suc (dk_clock s)\<rparr>
          in case d_now D (dk_clock s) of
               None \<Rightarrow> (Err (Configuration ''system clock error''), s1)
             | Some now \<Rightarrow>
                 save_migrations D (s1\<lparr>st_migrations := st_migrations s @
                   [\<lparr>mr_id = id, mr_executed_at = now, mr_table_name = t,
                     mr_operation = operation, mr_details = details\<rparr>]\<rparr>))"

end
