(* ===== verification/Storage_Ops.thy ===== *)
theory Storage_Ops
  imports Storage
begin

text \<open>
  The mutating methods of \<open>Storage\<close> (\<open>src/storage.rs\<close>): appending and rewriting rows, the
  schema changes, the transaction commands, opening and dropping. Each is the whole method, in
  the order of the source, early returns included.
\<close>

section \<open>Rows\<close>

definition allocate_row_id :: "deps \<Rightarrow> string \<Rightarrow> u64 storage_op" where
  "allocate_row_id D t = (\<lambda>s.
     let fresh =
       op_bind (op_read (\<lambda>s. get_schema s t)) (\<lambda>schema.
       let start = ts_next_row_id schema in
       op_seq (op_mod (\<lambda>s. s\<lparr>st_catalog :=
           fmupd t (schema\<lparr>ts_next_row_id := start + ROW_ID_BATCH\<rparr>) (st_catalog s)\<rparr>))
      (op_seq (save_catalog D)
      (op_seq (op_mod (\<lambda>s. s\<lparr>st_cursors :=
           fmupd t (start + 1, start + ROW_ID_BATCH) (st_cursors s)\<rparr>))
      (op_ret start)))) s
     in case fmlookup (st_cursors s) t of
          Some (next, limit) \<Rightarrow>
            if next < limit then (Ok next, s\<lparr>st_cursors := fmupd t (next + 1, limit) (st_cursors s)\<rparr>)
            else fresh
        | None \<Rightarrow> fresh)"

definition index_append :: "deps \<Rightarrow> row \<Rightarrow> row_locator \<Rightarrow> (string \<times> string) \<Rightarrow> storage \<Rightarrow> storage" where
  "index_append D row loc nc s =
     (let m = (case fmlookup (st_index_maps s) (fst nc) of None \<Rightarrow> fmempty | Some m \<Rightarrow> m) in
      write_index_map (fst nc) (entry_push (d_value_json D (row_get row (snd nc))) loc m)
        (s\<lparr>st_index_maps := fmdrop (fst nc) (st_index_maps s)\<rparr>))"

definition append_row :: "deps \<Rightarrow> string \<Rightarrow> row \<Rightarrow> unit storage_op" where
  "append_row D t row =
     op_bind (allocate_row_id D t) (\<lambda>row_id.
     op_bind (\<lambda>s. with_rng (encode_row D (st_key s) \<lparr>sr_id = row_id, sr_data = row\<rparr>) s) (\<lambda>encrypted.
     op_seq (op_mod (\<lambda>s. s\<lparr>st_table_files := insert t (st_table_files s)\<rparr>))
    (op_bind (op_read (\<lambda>s. Ok (case dk_files s (table_path t) of None \<Rightarrow> [] | Some c \<Rightarrow> c)))
      (\<lambda>content.
     let loc = \<lparr>rl_id = row_id, rl_offset = of_nat (length content),
                rl_len = of_nat (length encrypted)\<rparr> in
     op_seq (op_mod (put_file (table_path t) (content @ encrypted @ [NL])))
    (op_seq (\<lambda>s. op_each (\<lambda>nc. op_mod (index_append D row loc nc))
              (map (\<lambda>ix. (ix_name ix, ix_column ix))
                (filter (\<lambda>ix. ix_table ix = t) (st_index_catalog s))) s)
            (op_mod (note_unique_values D t row)))))))"

text \<open>
  \<open>rewrite_rows\<close> returns the number of dropped rows; the counter of the mapper closure is
  returned with it. On an error of the mapper the temporary file stays and the table file is
  untouched.
\<close>

definition rewrite_tmp_path :: "string \<Rightarrow> string" where
  "rewrite_tmp_path t = table_path (t @ ''.tmp_rewrite'')"

definition rewrite_copy :: "deps \<Rightarrow> string \<Rightarrow> (row \<Rightarrow> (nat, flux_error, row option) op) \<Rightarrow>
    string option \<Rightarrow> (nat \<times> nat) storage_op" where
  "rewrite_copy D t mapper input = (\<lambda>s.
     case rewrite_lines (encode_row D (st_key s)) (decode_row D (st_key s)) mapper
            (case input of None \<Rightarrow> [] | Some content \<Rightarrow> split_lines content)
            \<lparr>rw_output = [], rw_affected = 0, rw_counter = 0, rw_rng = dk_rng s\<rparr> of
       (r, w) \<Rightarrow> (tryq r (\<lambda>_. Ok (rw_affected w, rw_counter w)),
                  put_file (rewrite_tmp_path t) (rw_output w) (s\<lparr>dk_rng := rw_rng w\<rparr>)))"

text \<open>The old file goes, the temporary file takes its name.\<close>

definition rewrite_swap :: "string \<Rightarrow> string option \<Rightarrow> storage \<Rightarrow> storage" where
  "rewrite_swap t input s =
     (let s1 = (if input = None then s else remove_file (table_path t) s) in
      put_file (table_path t) (case dk_files s1 (rewrite_tmp_path t) of None \<Rightarrow> [] | Some c \<Rightarrow> c)
        (remove_file (rewrite_tmp_path t) s1))"

definition rewrite_rows ::
  "deps \<Rightarrow> string \<Rightarrow> (row \<Rightarrow> (nat, flux_error, row option) op) \<Rightarrow> (nat \<times> nat) storage_op" where
  "rewrite_rows D t mapper =
     op_bind (op_read (\<lambda>s. get_schema s t)) (\<lambda>_.
     op_seq (op_mod (close_table_file t))
    (op_seq (op_mod (invalidate_unique_cache t))
    (op_bind (op_read (\<lambda>s. Ok (dk_files s (table_path t)))) (\<lambda>input.
     op_seq (op_mod (put_file (rewrite_tmp_path t) []))
    (op_bind (rewrite_copy D t mapper input) (\<lambda>result.
     op_seq (op_mod (rewrite_swap t input))
    (op_seq (rebuild_indexes_for_table D t)
            (op_ret result))))))))"

definition write_stored_rows :: "deps \<Rightarrow> string \<Rightarrow> stored_row list \<Rightarrow> unit storage_op" where
  "write_stored_rows D t rows =
     op_bind (op_read (\<lambda>s. get_schema s t)) (\<lambda>_.
     op_seq (op_mod (close_table_file t))
    (op_seq (op_mod (invalidate_unique_cache t))
    (op_bind (\<lambda>s. with_rng (encode_rows (encode_row D (st_key s)) rows) s) (\<lambda>buf.
     op_seq (op_mod (atomic_write (table_path t) buf))
            (rebuild_indexes_for_table D t)))))"

section \<open>Tables and indexes\<close>

definition show_column_schema :: "column_schema \<Rightarrow> string" where
  "show_column_schema col = cs_name col @ '' '' @ show_data_type (cs_type col) @
     concat (map (\<lambda>c. '' '' @ show_constraint c) (cs_constraints col))"

definition storage_create_table :: "deps \<Rightarrow> table_schema \<Rightarrow> unit storage_op" where
  "storage_create_table D schema = (\<lambda>s.
     if fmlookup (st_catalog s) (ts_name schema) \<noteq> None then (Err (TableExists (ts_name schema)), s)
     else
      op_seq (op_mod (\<lambda>s. s\<lparr>st_catalog := fmupd (ts_name schema) schema (st_catalog s)\<rparr>))
     (op_seq (op_mod (close_table_file (ts_name schema)))
     (op_seq (op_mod (put_file (table_path (ts_name schema)) []))
     (op_seq (save_catalog D)
             (record_migration D (ts_name schema) ''CREATE_TABLE''
               (''CREATE TABLE '' @ ts_name schema @ '' ('' @
                join_with '', '' (map show_column_schema (ts_columns schema)) @ '')''))))) s)"

definition forget_index :: "string \<Rightarrow> storage \<Rightarrow> storage" where
  "forget_index name s = (remove_file (index_path name) s)
     \<lparr>st_index_maps := fmdrop name (st_index_maps s), st_dirty := st_dirty s |-| {|name|}\<rparr>"

definition storage_drop_table :: "deps \<Rightarrow> string \<Rightarrow> unit storage_op" where
  "storage_drop_table D t = (\<lambda>s.
     if fmlookup (st_catalog s) t = None then (Err (TableNotFound t), s)
     else
      op_seq (op_each (\<lambda>name. op_mod (forget_index name))
                (map ix_name (filter (\<lambda>ix. ix_table ix = t) (st_index_catalog s))))
     (op_seq (op_mod (\<lambda>s. s\<lparr>st_index_catalog :=
                filter (\<lambda>ix. ix_table ix \<noteq> t) (st_index_catalog s)\<rparr>))
     (op_seq (save_index_catalog D)
     (op_seq (op_mod (close_table_file t))
     (op_seq (op_mod (invalidate_unique_cache t))
     (op_seq (op_mod (remove_file (table_path t)))
     (op_seq (op_mod (\<lambda>s. s\<lparr>st_catalog := fmdrop t (st_catalog s),
                             st_cursors := fmdrop t (st_cursors s)\<rparr>))
     (op_seq (save_catalog D)
             (record_migration D t ''DROP_TABLE'' (''DROP TABLE '' @ t))))))))) s)"

definition storage_create_index :: "deps \<Rightarrow> string \<Rightarrow> string \<Rightarrow> string \<Rightarrow> nat storage_op" where
  "storage_create_index D name t c =
     op_bind (op_read (\<lambda>s. get_schema s t)) (\<lambda>schema s.
     if \<not> has_column schema c then (Err (ColumnNotFound t c), s)
     else if \<exists>ix \<in> set (st_index_catalog s). ix_name ix = name
     then (Err (InvalidSchema (''index '' @ quoted name @ '' already exists'')), s)
     else if \<exists>ix \<in> set (st_index_catalog s). ix_table ix = t \<and> ix_column ix = c
     then (Err (InvalidSchema (''table '' @ quoted t @ '' already has an index on column '' @ quoted c)), s)
     else
      op_seq (op_mod (\<lambda>s. s\<lparr>st_index_catalog := st_index_catalog s @
                [\<lparr>ix_name = name, ix_table = t, ix_column = c\<rparr>]\<rparr>))
     (op_seq (save_index_catalog D)
     (op_bind (rebuild_index D name) (\<lambda>keys.
      op_seq (record_migration D t ''CREATE_INDEX''
                (''CREATE INDEX '' @ name @ '' ON '' @ t @ ''('' @ c @ '')''))
             (op_ret keys)))) s)"

definition storage_drop_index :: "deps \<Rightarrow> string \<Rightarrow> string storage_op" where
  "storage_drop_index D name =
     op_bind (op_read (\<lambda>s. ok_or (find (\<lambda>ix. ix_name ix = name) (st_index_catalog s))
       (InvalidSchema (''index '' @ quoted name @ '' not found'')))) (\<lambda>ix.
     op_seq (op_mod (forget_index name))
    (op_seq (op_mod (\<lambda>s. s\<lparr>st_index_catalog :=
                filter (\<lambda>ix. ix_name ix \<noteq> name) (st_index_catalog s)\<rparr>))
    (op_seq (save_index_catalog D)
    (op_seq (record_migration D (ix_table ix) ''DROP_INDEX'' (''DROP INDEX '' @ name))
            (op_ret (ix_table ix))))))"

section \<open>Columns\<close>

definition put_schema :: "string \<Rightarrow> table_schema \<Rightarrow> storage \<Rightarrow> storage" where
  "put_schema t schema s = s\<lparr>st_catalog := fmupd t schema (st_catalog s)\<rparr>"

definition add_column :: "deps \<Rightarrow> string \<Rightarrow> column_schema \<Rightarrow> value_t \<Rightarrow> nat storage_op" where
  "add_column D t col dflt =
     op_bind (op_read (\<lambda>s. get_schema s t)) (\<lambda>schema.
     if has_column schema (cs_name col)
     then op_err (InvalidSchema (''column '' @ quoted (cs_name col) @ '' already exists in table '' @ quoted t))
     else
      op_seq (op_mod (put_schema t (schema\<lparr>ts_columns := ts_columns schema @ [col]\<rparr>)))
     (op_seq (save_catalog D)
     (op_bind (op_read (\<lambda>s. read_stored_rows D s t)) (\<lambda>rows.
      op_seq (write_stored_rows D t
                (map (\<lambda>r. r\<lparr>sr_data := fmupd (cs_name col) dflt (sr_data r)\<rparr>) rows))
     (op_seq (record_migration D t ''ALTER_TABLE_ADD_COLUMN''
                (''ALTER TABLE '' @ t @ '' ADD COLUMN '' @ cs_name col @ '' '' @
                 show_data_type (cs_type col) @ '' DEFAULT '' @ show_value dflt))
             (op_ret (length rows)))))))"

definition drop_column :: "deps \<Rightarrow> string \<Rightarrow> string \<Rightarrow> nat storage_op" where
  "drop_column D t c =
     op_bind (op_read (\<lambda>s. get_schema s t)) (\<lambda>schema.
     if length (ts_columns schema) \<le> 1
     then op_err (InvalidSchema ''cannot drop the last column of a table'')
     else if \<not> has_column schema c then op_err (ColumnNotFound t c)
     else
      op_seq (op_mod (put_schema t
                (schema\<lparr>ts_columns := filter (\<lambda>col. cs_name col \<noteq> c) (ts_columns schema)\<rparr>)))
     (op_seq (save_catalog D)
     (op_bind (op_read (\<lambda>s. Ok (map ix_name
         (filter (\<lambda>ix. ix_table ix = t \<and> ix_column ix = c) (st_index_catalog s))))) (\<lambda>to_remove.
      op_seq (op_each (\<lambda>name. op_mod (forget_index name)) to_remove)
     (op_seq (if to_remove = [] then op_ret ()
              else op_seq (op_mod (\<lambda>s. s\<lparr>st_index_catalog := filter
                     (\<lambda>ix. \<not> (ix_table ix = t \<and> ix_column ix = c)) (st_index_catalog s)\<rparr>))
                   (save_index_catalog D))
     (op_bind (op_read (\<lambda>s. read_stored_rows D s t)) (\<lambda>rows.
      op_seq (write_stored_rows D t (map (\<lambda>r. r\<lparr>sr_data := fmdrop c (sr_data r)\<rparr>) rows))
     (op_seq (record_migration D t ''ALTER_TABLE_DROP_COLUMN''
                (''ALTER TABLE '' @ t @ '' DROP COLUMN '' @ c))
             (op_ret (length rows))))))))))"

definition rename_key :: "string \<Rightarrow> string \<Rightarrow> row \<Rightarrow> row" where
  "rename_key old new r = (case fmlookup r old of None \<Rightarrow> r | Some v \<Rightarrow> fmupd new v (fmdrop old r))"

definition rename_column :: "deps \<Rightarrow> string \<Rightarrow> string \<Rightarrow> string \<Rightarrow> nat storage_op" where
  "rename_column D t old new =
     op_bind (op_read (\<lambda>s. get_schema s t)) (\<lambda>schema.
     if \<not> has_column schema old then op_err (ColumnNotFound t old)
     else if has_column schema new
     then op_err (InvalidSchema (''column '' @ quoted new @ '' already exists in table '' @ quoted t))
     else
      op_seq (op_mod (put_schema t (schema\<lparr>ts_columns :=
                map (\<lambda>col. if cs_name col = old then col\<lparr>cs_name := new\<rparr> else col)
                  (ts_columns schema)\<rparr>)))
     (op_seq (save_catalog D)
     (op_seq (op_mod (\<lambda>s. s\<lparr>st_index_catalog := map
                (\<lambda>ix. if ix_table ix = t \<and> ix_column ix = old then ix\<lparr>ix_column := new\<rparr> else ix)
                (st_index_catalog s)\<rparr>))
     (op_seq (save_index_catalog D)
     (op_bind (op_read (\<lambda>s. read_stored_rows D s t)) (\<lambda>rows.
      op_seq (write_stored_rows D t (map (\<lambda>r. r\<lparr>sr_data := rename_key old new (sr_data r)\<rparr>) rows))
     (op_seq (rebuild_indexes_for_table D t)
     (op_seq (record_migration D t ''ALTER_TABLE_RENAME_COLUMN''
                (''ALTER TABLE '' @ t @ '' RENAME COLUMN '' @ old @ '' TO '' @ new))
             (op_ret (length rows))))))))))"

section \<open>Transactions\<close>

definition is_data_name :: "string \<Rightarrow> bool" where
  "is_data_name f \<longleftrightarrow> is_table_name f \<or> is_index_name f"

definition is_metadata_name :: "string \<Rightarrow> bool" where
  "is_metadata_name f \<longleftrightarrow> f = catalog_path \<or> f = migrations_path \<or> f = index_catalog_path"

definition begin_transaction :: "deps \<Rightarrow> unit storage_op" where
  "begin_transaction D = (\<lambda>s.
     if st_txn s then (Err (Transaction ''transaction already in progress''), s)
     else
      op_seq (op_mod (\<lambda>s. s\<lparr>st_table_files := {}\<rparr>))
     (op_seq (flush_indexes D)
     (op_seq (op_mod (\<lambda>s. s\<lparr>dk_snapshot := Some (\<lambda>f. if is_metadata_name f \<or> is_data_name f
                              then dk_files s f else None)\<rparr>))
             (op_mod (\<lambda>s. s\<lparr>st_txn := True\<rparr>)))) s)"

definition commit_transaction :: "unit storage_op" where
  "commit_transaction = (\<lambda>s.
     if \<not> st_txn s then (Err (Transaction ''no transaction in progress''), s)
     else (Ok (), s\<lparr>st_txn := False, dk_snapshot := None\<rparr>))"

definition rollback_transaction :: "deps \<Rightarrow> unit storage_op" where
  "rollback_transaction D = (\<lambda>s.
     if \<not> st_txn s then (Err (Transaction ''no transaction in progress''), s)
     else
      (let s1 = s\<lparr>st_txn := False\<rparr> in
       case dk_snapshot s of
         None \<Rightarrow> (Err (Transaction ''transaction snapshot missing''), s1)
       | Some snap \<Rightarrow>
           op_seq (op_mod (\<lambda>s. s\<lparr>st_table_files := {}, st_unique_caches := fmempty\<rparr>))
          (op_seq (op_mod (\<lambda>s. s\<lparr>dk_files := (\<lambda>f. if is_data_name f \<or> is_metadata_name f
                                    then None else dk_files s f)\<rparr>))
          (op_seq (op_mod (\<lambda>s. s\<lparr>dk_files := dk_files s ++ snap, dk_snapshot := None\<rparr>))
          (op_bind (op_read (\<lambda>s. load_encrypted_json D (st_key s) (dk_files s) catalog_path
                              (d_catalog_unjson D) fmempty)) (\<lambda>catalog.
           op_seq (op_mod (\<lambda>s. s\<lparr>st_catalog := catalog\<rparr>))
          (op_bind (op_read (\<lambda>s. load_encrypted_json D (st_key s) (dk_files s) migrations_path
                              (d_migrations_unjson D) [])) (\<lambda>migrations.
           op_seq (op_mod (\<lambda>s. s\<lparr>st_migrations := migrations\<rparr>))
          (op_bind (op_read (\<lambda>s. load_encrypted_json D (st_key s) (dk_files s) index_catalog_path
                              (d_indexes_unjson D) [])) (\<lambda>indexes.
           op_seq (op_mod (\<lambda>s. s\<lparr>st_index_catalog := indexes, st_dirty := {||}\<rparr>))
          (op_seq (load_all_index_maps D)
                  (op_mod (\<lambda>s. s\<lparr>st_cursors := fmempty\<rparr>))))))))))) s1))"

section \<open>Opening and dropping\<close>

text \<open>A new process knows what is on disk and nothing else.\<close>

definition fresh_storage :: "disk \<Rightarrow> u8 list \<Rightarrow> catalog \<Rightarrow> migration_record list \<Rightarrow> index_catalog \<Rightarrow> storage" where
  "fresh_storage d key catalog migrations indexes = disk.extend d
     (storage.fields key catalog migrations indexes fmempty fmempty {} fmempty {||} False False)"

definition storage_open :: "deps \<Rightarrow> u8 list \<Rightarrow> disk \<Rightarrow> storage result" where
  "storage_open D key d =
     tryq (load_encrypted_json D key (dk_files d) catalog_path (d_catalog_unjson D) fmempty) (\<lambda>catalog.
     tryq (load_encrypted_json D key (dk_files d) migrations_path (d_migrations_unjson D) []) (\<lambda>migrations.
     tryq (load_encrypted_json D key (dk_files d) index_catalog_path (d_indexes_unjson D) []) (\<lambda>indexes.
     let s = (fresh_storage d key catalog migrations indexes)\<lparr>dk_snapshot := None\<rparr> in
     case (if dk_files s index_marker_path \<noteq> None
           then op_seq (op_mod (remove_file index_marker_path)) (load_all_index_maps D) s
           else rebuild_all_indexes D s)
     of (Ok _, s') \<Rightarrow> Ok s' | (Err e, _) \<Rightarrow> Err e | (Panic p, _) \<Rightarrow> Panic p)))"

text \<open>\<open>Drop\<close>: flush the indexes, whatever the outcome; the disk is what remains.\<close>

definition storage_close :: "deps \<Rightarrow> storage \<Rightarrow> disk" where
  "storage_close D s = disk.truncate (snd (flush_indexes D s))"

end
