(* ===== verification/Values.thy ===== *)
theory Values
  imports Data_Model
begin

text \<open>
  The value operations at the end of \<open>src/engine.rs\<close>: coercion of a literal to a column type,
  the partial order on values, the comparison operators, and the \<open>LIKE\<close> matcher with its
  dynamic-programming table. The matcher is proved equal to the declarative reading of a
  pattern; coercion is proved to yield values of the column's type.
\<close>

section \<open>Coercion\<close>

fun coerce_value :: "string \<Rightarrow> data_type \<Rightarrow> value_t \<Rightarrow> value_t result" where
  "coerce_value col expected VNull = Ok VNull"
| "coerce_value col TInt (VInt v) = Ok (VInt v)"
| "coerce_value col TInt (VText v) =
     (case parse_i64 v of Some i \<Rightarrow> Ok (VInt i)
      | None \<Rightarrow> Err (TypeMismatch col TInt (Some TText)))"
| "coerce_value col TBool (VBool v) = Ok (VBool v)"
| "coerce_value col TBool (VText v) =
     (if to_ascii_lowercase v = ''true'' then Ok (VBool True)
      else if to_ascii_lowercase v = ''false'' then Ok (VBool False)
      else Err (TypeMismatch col TBool (Some TText)))"
| "coerce_value col TText (VText v) = Ok (VText v)"
| "coerce_value col TText (VInt v) = Ok (VText (show_i64 v))"
| "coerce_value col TText (VBool v) = Ok (VText (show_bool v))"
| "coerce_value col expected v = Err (TypeMismatch col expected (value_type v))"

section \<open>Comparison\<close>

fun compare_ordering :: "value_t \<Rightarrow> value_t \<Rightarrow> ordering option" where
  "compare_ordering (VInt a) (VInt b) = Some (cmp_of (sint a) (sint b))"
| "compare_ordering (VText a) (VText b) = Some (cmp_of a b)"
| "compare_ordering (VBool a) (VBool b) = Some (cmp_of a b)"
| "compare_ordering _ _ = None"

text \<open>
  \<open>like_matches\<close>: \<open>dp[i][j]\<close> says whether the first \<open>i\<close> pattern characters match the first
  \<open>j\<close> input characters. The two loops fill column 0 and then the table row by row.
\<close>

definition dp_get :: "bool list list \<Rightarrow> nat \<Rightarrow> nat \<Rightarrow> bool" where
  "dp_get dp i j = dp ! i ! j"

definition dp_set :: "bool list list \<Rightarrow> nat \<Rightarrow> nat \<Rightarrow> bool \<Rightarrow> bool list list" where
  "dp_set dp i j v = dp[i := (dp ! i)[j := v]]"

definition like_cell :: "string list \<Rightarrow> string list \<Rightarrow> nat \<Rightarrow> nat \<Rightarrow> bool list list \<Rightarrow> bool" where
  "like_cell pc ic i j dp =
     (let p = pc ! (i - 1); c = ic ! (j - 1) in
      if p = ''%'' then dp_get dp (i - 1) j \<or> dp_get dp i (j - 1)
      else if p = ''_'' then dp_get dp (i - 1) (j - 1)
      else dp_get dp (i - 1) (j - 1) \<and> p = c)"

definition like_column0 :: "string list \<Rightarrow> bool list list \<Rightarrow> bool list list" where
  "like_column0 pc dp = fold (\<lambda>i dp. if pc ! (i - 1) = ''%'' then dp_set dp i 0 (dp_get dp (i - 1) 0)
     else dp) [1..<length pc + 1] dp"

definition like_row :: "string list \<Rightarrow> string list \<Rightarrow> nat \<Rightarrow> bool list list \<Rightarrow> bool list list" where
  "like_row pc ic i dp =
     fold (\<lambda>j dp. dp_set dp i j (like_cell pc ic i j dp)) [1..<length ic + 1] dp"

definition like_table :: "string list \<Rightarrow> string list \<Rightarrow> bool list list" where
  "like_table pc ic =
     (let dp0 = dp_set (replicate (length pc + 1) (replicate (length ic + 1) False)) 0 0 True
      in fold (like_row pc ic) [1..<length pc + 1] (like_column0 pc dp0))"

definition like_matches :: "string \<Rightarrow> string \<Rightarrow> bool" where
  "like_matches input pattern =
     (let ic = chars input; pc = chars pattern
      in dp_get (like_table pc ic) (length pc) (length ic))"

fun compare_values :: "value_t \<Rightarrow> compare_op \<Rightarrow> value_t \<Rightarrow> bool" where
  "compare_values l OpEq r = (l = r)"
| "compare_values l OpNotEq r = (l \<noteq> r)"
| "compare_values l OpGt r = (compare_ordering l r = Some Greater)"
| "compare_values l OpGte r = (compare_ordering l r \<in> {Some Greater, Some Equal})"
| "compare_values l OpLt r = (compare_ordering l r = Some Less)"
| "compare_values l OpLte r = (compare_ordering l r \<in> {Some Less, Some Equal})"
| "compare_values (VText input) OpLike (VText pattern) = like_matches input pattern"
| "compare_values _ OpLike _ = False"

section \<open>Coercion yields values of the column type\<close>

definition has_type :: "data_type \<Rightarrow> value_t \<Rightarrow> bool" where
  "has_type t v \<longleftrightarrow> v = VNull \<or> value_type v = Some t"

lemma coerce_has_type: "coerce_value c t v = Ok w \<Longrightarrow> has_type t w"
  by (induction c t v rule: coerce_value.induct)
    (auto simp: has_type_def split: option.splits if_splits)

lemma coerce_typed_id: "has_type t v \<Longrightarrow> coerce_value c t v = Ok v"
  by (cases t; cases v) (auto simp: has_type_def)

lemma coerce_null_iff: "coerce_value c t v = Ok VNull \<longleftrightarrow> v = VNull"
  by (induction c t v rule: coerce_value.induct) (auto split: option.splits if_splits)

lemma coerce_cases:
  "(\<exists>w. coerce_value c t v = Ok w) \<or>
   (v \<noteq> VNull \<and> coerce_value c t v = Err (TypeMismatch c t (value_type v)))"
  by (induction c t v rule: coerce_value.induct) (auto split: option.splits if_splits)

section \<open>The order on values\<close>

lemma compare_ordering_reverse:
  "compare_ordering b a = map_option ord_reverse (compare_ordering a b)"
  by (induction a b rule: compare_ordering.induct) (auto simp: cmp_of_def)

lemma compare_ordering_Equal: "compare_ordering a b = Some Equal \<Longrightarrow> a = b"
  by (induction a b rule: compare_ordering.induct) (auto simp: signed_word_eqI)

lemma compare_ordering_typed:
  "value_type a = Some t \<Longrightarrow> value_type b = Some t \<Longrightarrow> \<exists>o'. compare_ordering a b = Some o'"
  by (cases a; cases b) auto

lemma compare_ordering_trans:
  "compare_ordering a b = Some Less \<Longrightarrow> compare_ordering b c = Some Less \<Longrightarrow>
   compare_ordering a c = Some Less"
  by (cases a; cases b; cases c) auto

section \<open>LIKE\<close>

text \<open>
  The declarative reading of a pattern: the input splits into one segment per pattern
  character; a percent sign takes any segment, an underscore one character, any other
  character itself.
\<close>

definition like_seg :: "string \<Rightarrow> string list \<Rightarrow> bool" where
  "like_seg p seg \<longleftrightarrow> p = ''%'' \<or> (p = ''_'' \<and> length seg = 1) \<or> seg = [p]"

definition like_spec :: "string list \<Rightarrow> string list \<Rightarrow> bool" where
  "like_spec ps s \<longleftrightarrow> (\<exists>segs. list_all2 like_seg ps segs \<and> concat segs = s)"

lemma like_spec_Nil [simp]: "like_spec [] s \<longleftrightarrow> s = []"
  by (auto simp: like_spec_def)

lemma like_spec_snoc:
  "like_spec (ps @ [p]) s \<longleftrightarrow> (\<exists>u v. s = u @ v \<and> like_spec ps u \<and> like_seg p v)"
proof
  assume "like_spec (ps @ [p]) s"
  then obtain segs where "list_all2 like_seg (ps @ [p]) segs" "concat segs = s"
    by (auto simp: like_spec_def)
  then show "\<exists>u v. s = u @ v \<and> like_spec ps u \<and> like_seg p v"
    by (fastforce simp: like_spec_def list_all2_append1 list_all2_Cons1)
next
  assume "\<exists>u v. s = u @ v \<and> like_spec ps u \<and> like_seg p v"
  then obtain u v segs where "s = u @ v" "like_seg p v" "list_all2 like_seg ps segs"
    "concat segs = u" by (auto simp: like_spec_def)
  then have "list_all2 like_seg (ps @ [p]) (segs @ [v])" "concat (segs @ [v]) = s"
    by (auto intro: list_all2_appendI)
  then show "like_spec (ps @ [p]) s" unfolding like_spec_def by blast
qed

lemma like_spec_snocI: "like_spec ps u \<Longrightarrow> like_seg p v \<Longrightarrow> like_spec (ps @ [p]) (u @ v)"
  by (auto simp: like_spec_snoc)

lemma like_seg_percent [simp]: "like_seg ''%'' v"
  by (simp add: like_seg_def)

lemma like_spec_percent_Nil: "like_spec (ps @ [''%'']) [] \<longleftrightarrow> like_spec ps []"
  by (simp add: like_spec_snoc)

lemma like_spec_percent_snoc:
  "like_spec (ps @ [''%'']) (s @ [c]) \<longleftrightarrow> like_spec ps (s @ [c]) \<or> like_spec (ps @ [''%'']) s"
proof
  assume "like_spec (ps @ [''%'']) (s @ [c])"
  then obtain u v where uv: "s @ [c] = u @ v" "like_spec ps u"
    by (auto simp: like_spec_snoc)
  show "like_spec ps (s @ [c]) \<or> like_spec (ps @ [''%'']) s"
  proof (cases v rule: rev_cases)
    case Nil
    with uv show ?thesis by simp
  next
    case (snoc v' x)
    with uv have "s = u @ v'" by simp
    with uv(2) show ?thesis by (auto simp: like_spec_snoc)
  qed
next
  assume "like_spec ps (s @ [c]) \<or> like_spec (ps @ [''%'']) s"
  then show "like_spec (ps @ [''%'']) (s @ [c])"
  proof
    assume "like_spec ps (s @ [c])"
    from like_spec_snocI [OF this like_seg_percent [of "[]"]] show ?thesis by simp
  next
    assume "like_spec (ps @ [''%'']) s"
    then obtain u v where "s = u @ v" "like_spec ps u" by (auto simp: like_spec_snoc)
    with like_spec_snocI [OF this(2) like_seg_percent [of "v @ [c]"]] show ?thesis by simp
  qed
qed

lemma like_spec_other_Nil: "p \<noteq> ''%'' \<Longrightarrow> \<not> like_spec (ps @ [p]) []"
  by (auto simp: like_spec_snoc like_seg_def)

lemma like_spec_other_snoc:
  assumes "p \<noteq> ''%''"
  shows "like_spec (ps @ [p]) (s @ [c]) \<longleftrightarrow> like_spec ps s \<and> (p = ''_'' \<or> p = c)"
proof
  assume "like_spec (ps @ [p]) (s @ [c])"
  then obtain u v where "s @ [c] = u @ v" "like_spec ps u" "like_seg p v"
    by (auto simp: like_spec_snoc)
  with assms show "like_spec ps s \<and> (p = ''_'' \<or> p = c)"
    by (auto simp: like_seg_def length_Suc_conv)
next
  assume "like_spec ps s \<and> (p = ''_'' \<or> p = c)"
  then show "like_spec (ps @ [p]) (s @ [c])"
    by (intro like_spec_snocI) (auto simp: like_seg_def)
qed

subsection \<open>The table computes the specification\<close>

definition dp_shape :: "nat \<Rightarrow> nat \<Rightarrow> bool list list \<Rightarrow> bool" where
  "dp_shape m n dp \<longleftrightarrow> length dp = Suc m \<and> (\<forall>i \<le> m. length (dp ! i) = Suc n)"

lemma dp_shape_set [simp]: "dp_shape m n dp \<Longrightarrow> dp_shape m n (dp_set dp i j v)"
  by (cases "i < length dp") (auto simp: dp_shape_def dp_set_def nth_list_update)

lemma dp_get_set:
  "dp_shape m n dp \<Longrightarrow> i \<le> m \<Longrightarrow> j \<le> n \<Longrightarrow>
   dp_get (dp_set dp i j v) i' j' = (if i' = i \<and> j' = j then v else dp_get dp i' j')"
  by (auto simp: dp_shape_def dp_set_def dp_get_def nth_list_update)

definition cell_ok :: "string list \<Rightarrow> string list \<Rightarrow> bool list list \<Rightarrow> nat \<Rightarrow> nat \<Rightarrow> bool" where
  "cell_ok pc ic dp i j \<longleftrightarrow> dp_get dp i j = like_spec (take i pc) (take j ic)"

lemma take_Suc_snoc: "i < length xs \<Longrightarrow> take (Suc i) xs = take i xs @ [xs ! i]"
  by (rule take_Suc_conv_app_nth)

lemma column0_ok:
  assumes "dp_shape (length pc) n dp" "dp_get dp 0 0"
    and "\<And>i. 0 < i \<Longrightarrow> i \<le> length pc \<Longrightarrow> \<not> dp_get dp i 0" and "k \<le> length pc"
  defines "f \<equiv> \<lambda>i dp. if pc ! (i - 1) = ''%'' then dp_set dp i 0 (dp_get dp (i - 1) 0) else dp"
  shows "dp_shape (length pc) n (fold f [1..<k + 1] dp) \<and>
    (\<forall>i \<le> k. cell_ok pc ic (fold f [1..<k + 1] dp) i 0) \<and>
    (\<forall>i j. i > k \<or> j > 0 \<longrightarrow> dp_get (fold f [1..<k + 1] dp) i j = dp_get dp i j)"
  using assms(4)
proof (induction k)
  case 0
  with assms(1,2) show ?case by (simp add: cell_ok_def)
next
  case (Suc k)
  define d where "d = fold f [1..<k + 1] dp"
  from Suc have IH: "dp_shape (length pc) n d" "\<forall>i \<le> k. cell_ok pc ic d i 0"
    "\<forall>i j. i > k \<or> j > 0 \<longrightarrow> dp_get d i j = dp_get dp i j" by (auto simp: d_def)
  have step: "fold f [1..<Suc k + 1] dp = f (Suc k) d" by (simp add: d_def)
  from IH(2) have k: "dp_get d k 0 = like_spec (take k pc) []" by (simp add: cell_ok_def)
  from Suc.prems have tk: "take (Suc k) pc = take k pc @ [pc ! k]" by (simp add: take_Suc_snoc)
  from assms(3)[of "Suc k"] Suc.prems IH(3) have n0: "\<not> dp_get d (Suc k) 0" by simp
  show ?case
    unfolding step using IH k n0 Suc.prems
    by (auto simp: f_def cell_ok_def dp_get_set [OF IH(1)] tk like_spec_percent_Nil
        like_spec_other_Nil le_Suc_eq)
qed

lemma row_ok:
  assumes "dp_shape (length pc) (length ic) dp" and i: "0 < i" "i \<le> length pc"
    and prev: "\<forall>j \<le> length ic. cell_ok pc ic dp (i - 1) j" and c0: "cell_ok pc ic dp i 0"
    and "k \<le> length ic"
  defines "f \<equiv> \<lambda>j dp. dp_set dp i j (like_cell pc ic i j dp)"
  shows "dp_shape (length pc) (length ic) (fold f [1..<k + 1] dp) \<and>
    (\<forall>j \<le> k. cell_ok pc ic (fold f [1..<k + 1] dp) i j) \<and>
    (\<forall>i' j. i' \<noteq> i \<longrightarrow> dp_get (fold f [1..<k + 1] dp) i' j = dp_get dp i' j)"
  using assms(6)
proof (induction k)
  case 0
  with assms(1) c0 show ?case by simp
next
  case (Suc k)
  define d where "d = fold f [1..<k + 1] dp"
  from Suc have IH: "dp_shape (length pc) (length ic) d" "\<forall>j \<le> k. cell_ok pc ic d i j"
    "\<forall>i' j. i' \<noteq> i \<longrightarrow> dp_get d i' j = dp_get dp i' j" by (auto simp: d_def)
  have step: "fold f [1..<Suc k + 1] dp = f (Suc k) d" by (simp add: d_def)
  from i obtain i0 where i0: "i = Suc i0" "i0 < length pc" by (cases i) auto
  from i0 have tp: "take i pc = take i0 pc @ [pc ! i0]" by (simp add: take_Suc_snoc)
  from Suc.prems have ti: "take (Suc k) ic = take k ic @ [ic ! k]" by (simp add: take_Suc_snoc)
  from prev IH(3) i0 Suc.prems have p: "dp_get d i0 k = like_spec (take i0 pc) (take k ic)"
    "dp_get d i0 (Suc k) = like_spec (take i0 pc) (take (Suc k) ic)" by (auto simp: cell_ok_def)
  from IH(2) have l: "dp_get d i k = like_spec (take i pc) (take k ic)"
    by (simp add: cell_ok_def)
  have cell: "like_cell pc ic i (Suc k) d = like_spec (take i pc) (take (Suc k) ic)"
  proof (cases "pc ! i0 = ''%''")
    case True
    with p l i0 like_spec_percent_snoc [of "take i0 pc" "take k ic" "ic ! k"] show ?thesis
      unfolding tp ti by (simp add: like_cell_def Let_def tp ti)
  next
    case False
    with p i0 like_spec_other_snoc [OF False, of "take i0 pc" "take k ic" "ic ! k"]
    show ?thesis unfolding tp ti by (auto simp: like_cell_def Let_def tp ti)
  qed
  show ?case
    unfolding step using IH cell i Suc.prems
    by (auto simp: f_def cell_ok_def dp_get_set [OF IH(1)] le_Suc_eq)
qed

lemma rows_ok:
  assumes "dp_shape (length pc) (length ic) dp"
    and "\<forall>j \<le> length ic. cell_ok pc ic dp 0 j"
    and "\<forall>i \<le> length pc. cell_ok pc ic dp i 0" and "k \<le> length pc"
  shows "dp_shape (length pc) (length ic) (fold (like_row pc ic) [1..<k + 1] dp) \<and>
    (\<forall>i \<le> k. \<forall>j \<le> length ic. cell_ok pc ic (fold (like_row pc ic) [1..<k + 1] dp) i j) \<and>
    (\<forall>i j. i > k \<longrightarrow> dp_get (fold (like_row pc ic) [1..<k + 1] dp) i j = dp_get dp i j)"
  using assms(4)
proof (induction k)
  case 0
  with assms show ?case by simp
next
  case (Suc k)
  define d where "d = fold (like_row pc ic) [1..<k + 1] dp"
  from Suc have IH: "dp_shape (length pc) (length ic) d"
    "\<forall>i \<le> k. \<forall>j \<le> length ic. cell_ok pc ic d i j"
    "\<forall>i j. i > k \<longrightarrow> dp_get d i j = dp_get dp i j" by (auto simp: d_def)
  from IH(3) assms(3) Suc.prems have c0: "cell_ok pc ic d (Suc k) 0" by (simp add: cell_ok_def)
  have step: "fold (like_row pc ic) [1..<Suc k + 1] dp = like_row pc ic (Suc k) d" by (simp add: d_def)
  from row_ok [OF IH(1) _ Suc.prems _ c0 order_refl] IH(2)
  have R: "dp_shape (length pc) (length ic) (like_row pc ic (Suc k) d)"
    "\<forall>j \<le> length ic. cell_ok pc ic (like_row pc ic (Suc k) d) (Suc k) j"
    "\<forall>i' j. i' \<noteq> Suc k \<longrightarrow> dp_get (like_row pc ic (Suc k) d) i' j = dp_get d i' j"
    by (simp_all add: like_row_def)
  show ?case
    unfolding step using R IH by (auto simp: cell_ok_def le_Suc_eq)
qed

lemma like_matches_spec:
  "like_matches input pattern \<longleftrightarrow> like_spec (chars pattern) (chars input)"
proof -
  let ?pc = "chars pattern" and ?ic = "chars input"
  let ?d0 = "dp_set (replicate (length ?pc + 1) (replicate (length ?ic + 1) False)) 0 0 True"
  have sh: "dp_shape (length ?pc) (length ?ic)
      (replicate (length ?pc + 1) (replicate (length ?ic + 1) False))"
    by (simp add: dp_shape_def del: replicate.simps)
  then have sh0: "dp_shape (length ?pc) (length ?ic) ?d0" by (rule dp_shape_set)
  have g0: "dp_get ?d0 i j = (i = 0 \<and> j = 0)" if "i \<le> length ?pc" "j \<le> length ?ic" for i j
    using that by (subst dp_get_set [OF sh]) (auto simp: dp_get_def simp del: replicate.simps)
  let ?d1 = "like_column0 ?pc ?d0"
  have C: "dp_shape (length ?pc) (length ?ic) ?d1"
    "\<forall>i \<le> length ?pc. cell_ok ?pc ?ic ?d1 i 0"
    "\<forall>i j. i > length ?pc \<or> j > 0 \<longrightarrow> dp_get ?d1 i j = dp_get ?d0 i j"
    using column0_ok [OF sh0 _ _ order_refl, of ?ic] g0
    unfolding like_column0_def by auto
  have "\<forall>j \<le> length ?ic. cell_ok ?pc ?ic ?d1 0 j"
  proof (intro allI impI)
    fix j assume j: "j \<le> length ?ic"
    show "cell_ok ?pc ?ic ?d1 0 j"
    proof (cases j)
      case 0
      with C(2) show ?thesis by simp
    next
      case (Suc j')
      with C(3) g0 [OF _ j, of 0] j show ?thesis by (auto simp: cell_ok_def)
    qed
  qed
  from rows_ok [OF C(1) this C(2) order_refl]
  have "cell_ok ?pc ?ic (like_table ?pc ?ic) (length ?pc) (length ?ic)"
    unfolding like_table_def Let_def by auto
  then show ?thesis by (simp add: like_matches_def Let_def cell_ok_def)
qed

section \<open>Properties\<close>

text \<open>
  C24: The matcher of \<open>LIKE\<close> (a table of all prefix pairs) accepts exactly the inputs that split
  into one segment per pattern character, where a percent sign takes any segment, an underscore
  any one character, and every other character itself.
\<close>
theorem like_matches_correct:
  "like_matches input pattern \<longleftrightarrow>
   (\<exists>segs. list_all2 (\<lambda>p seg. p = ''%'' \<or> (p = ''_'' \<and> length seg = 1) \<or> seg = [p])
      (chars pattern) segs \<and> concat segs = chars input)"
  by (simp add: like_matches_spec like_spec_def like_seg_def [abs_def])

end
