(* ===== verification/Filters.thy ===== *)
theory Filters
  imports Values
begin

text \<open>
  Filters and assignments of \<open>src/engine.rs\<close>: checking and coercing a filter against a schema,
  evaluating it on a row, collecting the equality conditions an index can answer, and checking
  the assignments of an \<open>UPDATE\<close>.
\<close>

section \<open>Definitions\<close>

text \<open>
  \<open>prepare_filter\<close> resolves every column against the schema and coerces the literals to the
  column's type; \<open>LIKE\<close> needs a text column and a text literal.
\<close>

fun prepare_filter :: "table_schema \<Rightarrow> string \<Rightarrow> filter_expr \<Rightarrow> filter_expr result" where
  "prepare_filter sch t (Compare c op v) =
     (case find_column sch c of
        None \<Rightarrow> Err (ColumnNotFound t c)
      | Some col \<Rightarrow>
          (if op = OpLike then
             (if cs_type col \<noteq> TText then Err (TypeMismatch c TText (Some (cs_type col)))
              else (case v of VText s \<Rightarrow> Ok (Compare c op (VText s))
                    | other \<Rightarrow> Err (TypeMismatch c TText (value_type other))))
           else tryq (coerce_value c (cs_type col) v) (\<lambda>v'. Ok (Compare c op v'))))"
| "prepare_filter sch t (IsNull c) =
     (if has_column sch c then Ok (IsNull c) else Err (ColumnNotFound t c))"
| "prepare_filter sch t (IsNotNull c) =
     (if has_column sch c then Ok (IsNotNull c) else Err (ColumnNotFound t c))"
| "prepare_filter sch t (InList c vs negated) =
     (case find_column sch c of
        None \<Rightarrow> Err (ColumnNotFound t c)
      | Some col \<Rightarrow> tryq (map_res (coerce_value c (cs_type col)) vs)
          (\<lambda>vs'. Ok (InList c vs' negated)))"
| "prepare_filter sch t (InSubquery c q negated) = Err (Parse ''unresolved subquery in filter'')"
| "prepare_filter sch t (FAnd l r) =
     tryq (prepare_filter sch t l) (\<lambda>l'. tryq (prepare_filter sch t r) (\<lambda>r'. Ok (FAnd l' r')))"
| "prepare_filter sch t (FOr l r) =
     tryq (prepare_filter sch t l) (\<lambda>l'. tryq (prepare_filter sch t r) (\<lambda>r'. Ok (FOr l' r')))"

definition prepare_opt :: "table_schema \<Rightarrow> string \<Rightarrow> filter_expr option \<Rightarrow> filter_expr option result" where
  "prepare_opt sch t f = (case f of None \<Rightarrow> Ok None
     | Some g \<Rightarrow> tryq (prepare_filter sch t g) (\<lambda>g'. Ok (Some g')))"

fun evaluate_filter :: "row \<Rightarrow> filter_expr \<Rightarrow> bool" where
  "evaluate_filter r (Compare c op v) = compare_values (row_get r c) op v"
| "evaluate_filter r (IsNull c) = (fmlookup r c \<in> {None, Some VNull})"
| "evaluate_filter r (IsNotNull c) =
     (case fmlookup r c of Some v \<Rightarrow> v \<noteq> VNull | None \<Rightarrow> False)"
| "evaluate_filter r (InList c vs negated) =
     (let left = row_get r c in
      if left = VNull then False
      else if negated then left \<notin> set vs else left \<in> set vs)"
| "evaluate_filter r (InSubquery c q negated) = False"
| "evaluate_filter r (FAnd l g) = (evaluate_filter r l \<and> evaluate_filter r g)"
| "evaluate_filter r (FOr l g) = (evaluate_filter r l \<or> evaluate_filter r g)"

definition row_matches_filter :: "row \<Rightarrow> filter_expr option \<Rightarrow> bool" where
  "row_matches_filter r f = (case f of None \<Rightarrow> True | Some g \<Rightarrow> evaluate_filter r g)"

fun collect_index_candidates ::
  "filter_expr \<Rightarrow> (string \<times> value_t) list \<Rightarrow> (string \<times> value_t) list" where
  "collect_index_candidates (Compare c op v) out = (if op = OpEq then out @ [(c, v)] else out)"
| "collect_index_candidates (FAnd l r) out =
     collect_index_candidates r (collect_index_candidates l out)"
| "collect_index_candidates (FOr l r) out = out"
| "collect_index_candidates (IsNull c) out = out"
| "collect_index_candidates (IsNotNull c) out = out"
| "collect_index_candidates (InList c vs n) out = out"
| "collect_index_candidates (InSubquery c q n) out = out"

text \<open>The loop of \<open>prepare_assignments\<close> with its \<open>seen\<close> set and \<open>prepared\<close> vector.\<close>

fun prepare_assignments_loop :: "table_schema \<Rightarrow> string \<Rightarrow> string set \<Rightarrow> (string \<times> value_t) list \<Rightarrow>
    (string \<times> value_t) list \<Rightarrow> (string \<times> value_t) list result" where
  "prepare_assignments_loop sch t seen prepared [] = Ok prepared"
| "prepare_assignments_loop sch t seen prepared ((c, v) # rest) =
     (if c \<in> seen
      then Err (InvalidSchema (''column '' @ quoted c @ '' assigned multiple times in UPDATE''))
      else tryq (ok_or (map_of (rev (map (\<lambda>col. (cs_name col, cs_type col)) (ts_columns sch))) c)
                   (ColumnNotFound t c)) (\<lambda>ty.
           tryq (coerce_value c ty v) (\<lambda>v'.
           prepare_assignments_loop sch t (insert c seen) (prepared @ [(c, v')]) rest)))"

definition prepare_assignments ::
  "table_schema \<Rightarrow> string \<Rightarrow> (string \<times> value_t) list \<Rightarrow> (string \<times> value_t) list result" where
  "prepare_assignments sch t assignments =
     (if assignments = [] then Err (Parse ''UPDATE requires at least one assignment'')
      else prepare_assignments_loop sch t {} [] assignments)"

section \<open>Prepared filters\<close>

text \<open>What a prepared filter looks like: known columns, typed literals, no subquery left.\<close>

fun filter_typed :: "table_schema \<Rightarrow> filter_expr \<Rightarrow> bool" where
  "filter_typed sch (Compare c op v) = (\<exists>col. find_column sch c = Some col \<and>
     (if op = OpLike then cs_type col = TText \<and> value_type v = Some TText
      else has_type (cs_type col) v))"
| "filter_typed sch (IsNull c) = has_column sch c"
| "filter_typed sch (IsNotNull c) = has_column sch c"
| "filter_typed sch (InList c vs n) =
     (\<exists>col. find_column sch c = Some col \<and> list_all (has_type (cs_type col)) vs)"
| "filter_typed sch (InSubquery c q n) = False"
| "filter_typed sch (FAnd l r) = (filter_typed sch l \<and> filter_typed sch r)"
| "filter_typed sch (FOr l r) = (filter_typed sch l \<and> filter_typed sch r)"

lemma map_res_coerce_typed:
  "map_res (coerce_value c t) vs = Ok ws \<Longrightarrow> list_all (has_type t) ws"
  by (induction vs arbitrary: ws) (auto simp: res_simps coerce_has_type)

lemma map_res_coerce_id:
  "list_all (has_type t) vs \<Longrightarrow> map_res (coerce_value c t) vs = Ok vs"
  by (induction vs) (auto simp: coerce_typed_id)

lemma prepare_filter_typed:
  "prepare_filter sch t f = Ok g \<Longrightarrow> filter_typed sch g"
proof (induction sch t f arbitrary: g rule: prepare_filter.induct)
  case (4 sch t c vs negated)
  then show ?case
    by (auto simp: res_simps map_res_coerce_typed split: option.splits)
qed (auto simp: res_simps coerce_has_type split: option.splits if_splits value_splits)

lemma prepare_filter_idem:
  "filter_typed sch f \<Longrightarrow> prepare_filter sch t f = Ok f"
proof (induction sch t f rule: prepare_filter.induct)
  case (1 sch t c op v)
  then show ?case
    by (cases v) (auto simp: coerce_typed_id split: if_splits)
next
  case (4 sch t c vs negated)
  then show ?case by (auto simp: map_res_coerce_id)
qed auto

section \<open>Index candidates are necessary conditions\<close>

lemma filter_induct [case_names Compare IsNull IsNotNull InList InSubquery FAnd FOr]:
  assumes "\<And>c op v. P (Compare c op v)" "\<And>c. P (IsNull c)" "\<And>c. P (IsNotNull c)"
    and "\<And>c vs n. P (InList c vs n)" "\<And>c q n. P (InSubquery c q n)"
    and "\<And>l r. P l \<Longrightarrow> P r \<Longrightarrow> P (FAnd l r)" "\<And>l r. P l \<Longrightarrow> P r \<Longrightarrow> P (FOr l r)"
  shows "P f"
  using assms by (rule evaluate_filter.induct [of "\<lambda>r f. P f"])

lemma collect_index_candidates_append:
  "collect_index_candidates f out = out @ collect_index_candidates f []"
proof (induction f arbitrary: out rule: filter_induct)
  case (FAnd l r)
  then show ?case by (metis append.assoc collect_index_candidates.simps(2))
qed auto

lemma collect_index_candidates_FAnd:
  "collect_index_candidates (FAnd l r) [] =
   collect_index_candidates l [] @ collect_index_candidates r []"
  using collect_index_candidates_append [of r "collect_index_candidates l []"] by simp

lemma collect_index_candidates_sound:
  "(c, v) \<in> set (collect_index_candidates f []) \<Longrightarrow> evaluate_filter r f \<Longrightarrow> row_get r c = v"
proof (induction f rule: filter_induct)
  case (FAnd l g)
  then show ?case unfolding collect_index_candidates_FAnd by auto
qed (auto split: if_splits)

section \<open>Prepared assignments\<close>

lemma column_types_find:
  assumes "distinct (map cs_name (ts_columns sch))"
  shows "map_of (rev (map (\<lambda>col. (cs_name col, cs_type col)) (ts_columns sch))) c =
    map_option cs_type (find_column sch c)"
proof -
  have "distinct (map fst ps) \<Longrightarrow> map_of (rev ps) c = map_of ps c" for ps :: "(string \<times> data_type) list"
    by (subst map_of_inject_set [of "rev ps" ps, THEN iffD2]) (auto simp: rev_map [symmetric])
  moreover have "map_of (map (\<lambda>col. (cs_name col, cs_type col)) cols) c =
      map_option cs_type (find (\<lambda>col. cs_name col = c) cols)" for cols
    by (induction cols) auto
  moreover have "map fst (map (\<lambda>col. (cs_name col, cs_type col)) (ts_columns sch)) =
      map cs_name (ts_columns sch)" by simp
  ultimately show ?thesis
    using assms by (metis find_column_def)
qed

lemma prepare_assignments_loop_ok:
  assumes "prepare_assignments_loop sch t seen prepared as = Ok bs"
    and dist: "distinct (map cs_name (ts_columns sch))"
  shows "\<exists>cs. bs = prepared @ cs \<and> map fst cs = map fst as \<and> distinct (map fst as) \<and>
    set (map fst as) \<inter> seen = {} \<and>
    (\<forall>(c, v) \<in> set cs. \<exists>col. find_column sch c = Some col \<and> has_type (cs_type col) v)"
  using assms(1)
proof (induction as arbitrary: seen prepared)
  case Nil
  then show ?case by simp
next
  case (Cons a rest)
  obtain c v where a: "a = (c, v)" by fastforce
  from Cons.prems obtain col v' where 1: "c \<notin> seen" "find_column sch c = Some col"
    "coerce_value c (cs_type col) v = Ok v'"
    "prepare_assignments_loop sch t (insert c seen) (prepared @ [(c, v')]) rest = Ok bs"
    by (auto simp: a res_simps column_types_find [OF dist] split: if_splits)
  from Cons.IH [OF 1(4)] obtain cs where "bs = (prepared @ [(c, v')]) @ cs"
    "map fst cs = map fst rest" "distinct (map fst rest)" "set (map fst rest) \<inter> insert c seen = {}"
    "\<forall>(c, v) \<in> set cs. \<exists>col. find_column sch c = Some col \<and> has_type (cs_type col) v" by blast
  with 1 show ?case
    by (intro exI [of _ "(c, v') # cs"]) (auto simp: a coerce_has_type)
qed

lemma prepare_assignments_ok:
  assumes "prepare_assignments sch t as = Ok bs"
    and "distinct (map cs_name (ts_columns sch))"
  shows "map fst bs = map fst as" "distinct (map fst bs)" "bs \<noteq> []"
    "\<And>c v. (c, v) \<in> set bs \<Longrightarrow> \<exists>col. find_column sch c = Some col \<and> has_type (cs_type col) v"
  using prepare_assignments_loop_ok [of sch t "{}" "[]" as bs] assms
  by (force simp: prepare_assignments_def split: if_splits)+

end
