(* ===== verification/Constraints.thy ===== *)
theory Constraints
  imports Storage_Ops Filters
begin

text \<open>
  The constraint checks of \<open>src/engine.rs\<close>: NOT NULL, UNIQUE and PRIMARY KEY at an insertion and
  at an update, foreign keys from the child's and from the parent's side, and the schema checks
  of \<open>CREATE TABLE\<close>.
\<close>

section \<open>Schemas\<close>

primrec lower_constraint :: "column_constraint \<Rightarrow> constraint_t" where
  "lower_constraint CPrimaryKey = PrimaryKey"
| "lower_constraint CNotNull = NotNull"
| "lower_constraint CUnique = Unique"
| "lower_constraint (CReferences t c) = References t c"

definition lower_column :: "column_def \<Rightarrow> column_schema" where
  "lower_column col = \<lparr>cs_name = cd_name col, cs_type = cd_type col,
     cs_constraints = map lower_constraint (cd_constraints col)\<rparr>"

text \<open>The first loop of \<open>create_table\<close>, with its \<open>seen\<close> set, \<open>pk_count\<close> and \<open>schema_columns\<close>.\<close>

fun create_columns :: "string set \<Rightarrow> nat \<Rightarrow> column_schema list \<Rightarrow> column_def list \<Rightarrow>
    column_schema list result" where
  "create_columns seen pk_count out [] = Ok out"
| "create_columns seen pk_count out (col # cols) =
     (if cd_name col \<in> seen
      then Err (InvalidSchema (''duplicate column '' @ quoted (cd_name col)))
      else (let is_pk = PrimaryKey \<in> set (cs_constraints (lower_column col));
                pk = (if is_pk then pk_count + 1 else pk_count)
            in if is_pk \<and> 1 < pk
               then Err (InvalidSchema ''table can have at most one PRIMARY KEY column'')
               else create_columns (insert (cd_name col) seen) pk (out @ [lower_column col]) cols))"

definition reference_type :: "storage \<Rightarrow> string \<Rightarrow> column_schema list \<Rightarrow> string \<Rightarrow> string \<Rightarrow>
    data_type option" where
  "reference_type s t cols pt pc =
     (if pt = t then map_option cs_type (find (\<lambda>c. cs_name c = pc) cols)
      else (case get_schema s pt of
              Ok parent \<Rightarrow> map_option cs_type (find (\<lambda>c. cs_name c = pc) (ts_columns parent))
            | _ \<Rightarrow> None))"

definition check_reference :: "storage \<Rightarrow> string \<Rightarrow> column_schema list \<Rightarrow> column_schema \<Rightarrow>
    constraint_t \<Rightarrow> unit result" where
  "check_reference s t cols col con =
     (case con of
        References pt pc \<Rightarrow>
          (case reference_type s t cols pt pc of
             None \<Rightarrow> Err (InvalidSchema (''REFERENCES target '' @ quoted (pt @ ''('' @ pc @ '')'') @
               '' does not exist''))
           | Some ty \<Rightarrow>
               if ty \<noteq> cs_type col
               then Err (InvalidSchema (''type of column '' @ quoted (cs_name col) @
                 '' does not match referenced column '' @ quoted (pt @ ''('' @ pc @ '')'')))
               else Ok ())
      | _ \<Rightarrow> Ok ())"

definition check_references :: "storage \<Rightarrow> string \<Rightarrow> column_schema list \<Rightarrow> unit result" where
  "check_references s t cols =
     each_res (\<lambda>col. each_res (check_reference s t cols col) (cs_constraints col)) cols"

section \<open>Building the row of an insertion\<close>

definition has_constraint :: "column_schema \<Rightarrow> constraint_t \<Rightarrow> bool" where
  "has_constraint col con \<longleftrightarrow> con \<in> set (cs_constraints col)"

text \<open>With column names: \<open>find(..).unwrap()\<close> panics on an unknown name, which the loop before it
  has excluded.\<close>

fun insert_named :: "table_schema \<Rightarrow> (string \<times> value_t) list \<Rightarrow> row \<Rightarrow> row result" where
  "insert_named sch [] r = Ok r"
| "insert_named sch ((n, v) # ps) r =
     (case find_column sch n of
        None \<Rightarrow> Panic ''unwrap on None''
      | Some col \<Rightarrow> tryq (coerce_value (cs_name col) (cs_type col) v) (\<lambda>casted.
          insert_named sch ps (fmupd n casted r)))"

definition fill_missing :: "table_schema \<Rightarrow> row \<Rightarrow> row" where
  "fill_missing sch r = fold (\<lambda>col r. if fmlookup r (cs_name col) = None
     then fmupd (cs_name col) VNull r else r) (ts_columns sch) r"

fun insert_positional :: "(column_schema \<times> value_t) list \<Rightarrow> row \<Rightarrow> row result" where
  "insert_positional [] r = Ok r"
| "insert_positional ((col, v) # ps) r =
     tryq (coerce_value (cs_name col) (cs_type col) v) (\<lambda>casted.
     insert_positional ps (fmupd (cs_name col) casted r))"

definition build_row :: "table_schema \<Rightarrow> string \<Rightarrow> string list option \<Rightarrow> value_t list \<Rightarrow> row result" where
  "build_row sch t columns vals =
     (case columns of
        Some names \<Rightarrow>
          if length vals \<noteq> length names then Err (ValueCountMismatch (length names) (length vals))
          else tryq (each_res (\<lambda>n. if has_column sch n then Ok () else Err (ColumnNotFound t n)) names)
            (\<lambda>_. tryq (insert_named sch (zip names vals) fmempty) (\<lambda>r. Ok (fill_missing sch r)))
      | None \<Rightarrow>
          if length vals \<noteq> length (ts_columns sch)
          then Err (ValueCountMismatch (length (ts_columns sch)) (length vals))
          else insert_positional (zip (ts_columns sch) vals) fmempty)"

section \<open>NOT NULL and UNIQUE at an insertion\<close>

definition unique_violation :: "string \<Rightarrow> value_t \<Rightarrow> flux_error" where
  "unique_violation c v = ConstraintViolation (''duplicate value for column '' @ quoted c @ '': '' @ show_value v)"

definition null_violation :: "string \<Rightarrow> flux_error" where
  "null_violation c = ConstraintViolation (''column '' @ quoted c @ '' cannot be NULL'')"

fun unique_columns :: "row \<Rightarrow> column_schema list \<Rightarrow> (string \<times> value_t) list \<Rightarrow>
    (string \<times> value_t) list result" where
  "unique_columns r [] out = Ok out"
| "unique_columns r (col # cols) out =
     (let v = row_get r (cs_name col) in
      if v = VNull then
        (if has_constraint col NotNull \<or> has_constraint col PrimaryKey
         then Err (null_violation (cs_name col)) else unique_columns r cols out)
      else if has_constraint col Unique \<or> has_constraint col PrimaryKey
      then unique_columns r cols (out @ [(cs_name col, v)])
      else unique_columns r cols out)"

definition check_constraints_for_insert ::
  "deps \<Rightarrow> string \<Rightarrow> table_schema \<Rightarrow> row \<Rightarrow> unit storage_op" where
  "check_constraints_for_insert D t sch r =
     op_bind (op_lift (unique_columns r (ts_columns sch) [])) (\<lambda>cols.
     op_each (\<lambda>(c, v). op_bind (unique_value_exists D t c v) (\<lambda>found.
        if found then op_err (unique_violation c v) else op_ret ())) cols)"

section \<open>UNIQUE at an update\<close>

definition updated_value :: "(string \<times> value_t) list \<Rightarrow> filter_expr option \<Rightarrow> string \<Rightarrow> row \<Rightarrow>
    value_t option" where
  "updated_value assignments f c r =
     (if row_matches_filter r f
      then (case map_of assignments c of Some v \<Rightarrow> Some v | None \<Rightarrow> fmlookup r c)
      else fmlookup r c)"

fun unique_scan :: "(value_t \<Rightarrow> string) \<Rightarrow> string \<Rightarrow> (row \<Rightarrow> value_t option) \<Rightarrow> string set \<Rightarrow> row list \<Rightarrow>
    unit result" where
  "unique_scan key c val seen [] = Ok ()"
| "unique_scan key c val seen (r # rs) =
     (case val r of
        None \<Rightarrow> unique_scan key c val seen rs
      | Some v \<Rightarrow>
          if v = VNull then unique_scan key c val seen rs
          else if key v \<in> seen then Err (unique_violation c v)
          else unique_scan key c val (insert (key v) seen) rs)"

definition check_unique_constraints_for_update :: "deps \<Rightarrow> storage \<Rightarrow> string \<Rightarrow> table_schema \<Rightarrow>
    (string \<times> value_t) list \<Rightarrow> filter_expr option \<Rightarrow> unit result" where
  "check_unique_constraints_for_update D s t sch assignments f =
     (let unique_cols = map cs_name (filter (\<lambda>col. (has_constraint col Unique \<or> has_constraint col PrimaryKey) \<and>
            cs_name col \<in> fst ` set assignments) (ts_columns sch))
      in if unique_cols = [] then Ok ()
         else tryq (read_rows D s t) (\<lambda>rows.
           each_res (\<lambda>c. unique_scan (d_value_json D) c (updated_value assignments f c) {} rows) unique_cols))"

section \<open>Foreign keys\<close>

definition child_violation :: "string \<Rightarrow> string \<Rightarrow> value_t \<Rightarrow> string \<Rightarrow> string \<Rightarrow> flux_error" where
  "child_violation t c v pt pc = ConstraintViolation (''foreign key violation: '' @ t @ ''.'' @ c @ '' = '' @
     show_value v @ '' has no match in '' @ pt @ ''.'' @ pc)"

definition parent_violation :: "string \<Rightarrow> string \<Rightarrow> string \<Rightarrow> value_t \<Rightarrow> flux_error" where
  "parent_violation child t pc v = ConstraintViolation (''foreign key violation: rows in '' @ quoted child @
     '' reference '' @ t @ ''.'' @ pc @ '' = '' @ show_value v)"

definition check_foreign_key :: "deps \<Rightarrow> storage \<Rightarrow> string \<Rightarrow> string \<Rightarrow> value_t \<Rightarrow> constraint_t \<Rightarrow> unit result" where
  "check_foreign_key D s t c v con =
     (case con of
        References pt pc \<Rightarrow>
          if v = VNull then Ok ()
          else tryq (read_rows D s pt) (\<lambda>parents.
            if \<exists>p \<in> set parents. fmlookup p pc = Some v then Ok ()
            else Err (child_violation t c v pt pc))
      | _ \<Rightarrow> Ok ())"

definition check_foreign_keys_row :: "deps \<Rightarrow> storage \<Rightarrow> string \<Rightarrow> table_schema \<Rightarrow> row \<Rightarrow> unit result" where
  "check_foreign_keys_row D s t sch r =
     each_res (\<lambda>col. each_res (check_foreign_key D s t (cs_name col) (row_get r (cs_name col)))
       (cs_constraints col)) (ts_columns sch)"

text \<open>The loop of \<open>update\<close> over the assigned values.\<close>

definition check_assigned_keys :: "deps \<Rightarrow> storage \<Rightarrow> string \<Rightarrow> table_schema \<Rightarrow>
    (string \<times> value_t) list \<Rightarrow> unit result" where
  "check_assigned_keys D s t sch assignments =
     each_res (\<lambda>(c, v). if v = VNull then Ok ()
       else (case find_column sch c of None \<Rightarrow> Ok ()
             | Some col \<Rightarrow> each_res (check_foreign_key D s t c v) (cs_constraints col))) assignments"

text \<open>The columns that reference a table: child table, child column, referenced column.\<close>

definition references_to :: "string \<Rightarrow> string \<Rightarrow> column_schema \<Rightarrow> (string \<times> string \<times> string) list" where
  "references_to parent t col = List.map_filter (\<lambda>con. case con of
     References pt pc \<Rightarrow> if pt = parent then Some (t, cs_name col, pc) else None
   | _ \<Rightarrow> None) (cs_constraints col)"

definition referencing_columns :: "storage \<Rightarrow> string \<Rightarrow> (string \<times> string \<times> string) list result" where
  "referencing_columns s parent =
     tryq (map_res (\<lambda>t. tryq (get_schema s t) (\<lambda>sch.
       Ok (concat (map (references_to parent t) (ts_columns sch))))) (list_tables s)) (\<lambda>out.
     Ok (concat out))"

definition check_referencing_children_on_update :: "deps \<Rightarrow> storage \<Rightarrow> string \<Rightarrow>
    (string \<times> value_t) list \<Rightarrow> filter_expr option \<Rightarrow> unit result" where
  "check_referencing_children_on_update D s t assignments f =
     tryq (referencing_columns s t) (\<lambda>referencing.
     if referencing = [] then Ok ()
     else tryq (read_rows D s t) (\<lambda>rows.
       each_res (\<lambda>(child, cc, pc).
         case map_of assignments pc of
           None \<Rightarrow> Ok ()
         | Some new_value \<Rightarrow>
             tryq (read_rows D s child) (\<lambda>child_rows.
             each_res (\<lambda>r. case fmlookup r pc of
                 None \<Rightarrow> Ok ()
               | Some old_value \<Rightarrow>
                   if old_value = VNull \<or> old_value = new_value then Ok ()
                   else if \<exists>cr \<in> set child_rows. fmlookup cr cc = Some old_value
                   then Err (parent_violation child t pc old_value)
                   else Ok ())
               (filter (\<lambda>r. row_matches_filter r f) rows))) referencing))"

definition check_referencing_children_on_delete :: "deps \<Rightarrow> storage \<Rightarrow> string \<Rightarrow>
    filter_expr option \<Rightarrow> unit result" where
  "check_referencing_children_on_delete D s t f =
     tryq (referencing_columns s t) (\<lambda>referencing.
     if referencing = [] then Ok ()
     else tryq (read_rows D s t) (\<lambda>rows.
       each_res (\<lambda>(child, cc, pc).
         tryq (read_rows D s child) (\<lambda>child_rows.
         each_res (\<lambda>doomed. case fmlookup doomed pc of
             None \<Rightarrow> Ok ()
           | Some v \<Rightarrow>
               if v = VNull then Ok ()
               else if \<exists>r \<in> set rows. \<not> row_matches_filter r f \<and> fmlookup r pc = Some v then Ok ()
               else if \<exists>cr \<in> set child_rows. fmlookup cr cc = Some v
               then Err (parent_violation child t pc v)
               else Ok ())
           (filter (\<lambda>r. row_matches_filter r f) rows))) referencing))"

end
