(* ===== verification/Aggregates.thy ===== *)
theory Aggregates
  imports Filters
begin

text \<open>
  Aggregate functions, \<open>GROUP BY\<close> and \<open>HAVING\<close>, and the column lists of a query
  (\<open>src/engine.rs\<close>). Integer sums wrap, as in a release build. \<open>key\<close> is the serialised form of
  a value that groups, joins and indexes are keyed by.
\<close>

section \<open>Aggregate functions\<close>

definition agg_column :: "aggregate_target \<Rightarrow> string result" where
  "agg_column target = (case target of AggColumn c \<Rightarrow> Ok c
     | Star \<Rightarrow> Err (Parse ''this aggregate function requires a column name, not *''))"

text \<open>The loop of \<open>SUM\<close> and \<open>AVG\<close> over the rows, with its running sum and count.\<close>

fun sum_loop :: "string \<Rightarrow> row list \<Rightarrow> i64 \<Rightarrow> i64 \<Rightarrow> (i64 \<times> i64) result" where
  "sum_loop c [] acc count = Ok (acc, count)"
| "sum_loop c (r # rs) acc count =
     (case fmlookup r c of
        Some (VInt v) \<Rightarrow> sum_loop c rs (acc + v) (count + 1)
      | Some VNull \<Rightarrow> sum_loop c rs acc count
      | None \<Rightarrow> sum_loop c rs acc count
      | Some other \<Rightarrow> Err (TypeMismatch c TInt (value_type other)))"

text \<open>The loops of \<open>MIN\<close> and \<open>MAX\<close>: keep the first of the extreme values.\<close>

definition extreme_step :: "ordering \<Rightarrow> string \<Rightarrow> row \<Rightarrow> value_t option \<Rightarrow> value_t option" where
  "extreme_step better c r best =
     (case fmlookup r c of
        None \<Rightarrow> best
      | Some VNull \<Rightarrow> best
      | Some v \<Rightarrow> (case best of None \<Rightarrow> Some v
          | Some w \<Rightarrow> if compare_ordering v w = Some better then Some v else best))"

definition i64_div :: "i64 \<Rightarrow> i64 \<Rightarrow> i64" where
  "i64_div a b = word_of_int (sint a sdiv sint b)"

fun compute_aggregate :: "aggregate_func \<Rightarrow> aggregate_target \<Rightarrow> row list \<Rightarrow> value_t result" where
  "compute_aggregate Count target rows =
     (let count = (case target of Star \<Rightarrow> length rows
        | AggColumn c \<Rightarrow> length (filter (\<lambda>r. fmlookup r c \<notin> {None, Some VNull}) rows))
      in Ok (VInt (of_nat count)))"
| "compute_aggregate Sum target rows =
     tryq (agg_column target) (\<lambda>c. tryq (sum_loop c rows 0 0) (\<lambda>(acc, _). Ok (VInt acc)))"
| "compute_aggregate Avg target rows =
     tryq (agg_column target) (\<lambda>c. tryq (sum_loop c rows 0 0) (\<lambda>(acc, count).
       if count = 0 then Ok VNull else Ok (VInt (i64_div acc count))))"
| "compute_aggregate Min target rows =
     tryq (agg_column target) (\<lambda>c.
       Ok (case fold (extreme_step Less c) rows None of None \<Rightarrow> VNull | Some v \<Rightarrow> v))"
| "compute_aggregate Max target rows =
     tryq (agg_column target) (\<lambda>c.
       Ok (case fold (extreme_step Greater c) rows None of None \<Rightarrow> VNull | Some v \<Rightarrow> v))"

section \<open>Column lists\<close>

fun execute_aggregate_loop :: "table_schema \<Rightarrow> string \<Rightarrow> row list \<Rightarrow> select_expr list \<Rightarrow>
    string list \<Rightarrow> value_t list \<Rightarrow> (string list \<times> value_t list) result" where
  "execute_aggregate_loop sch t rows [] names vals = Ok (names, vals)"
| "execute_aggregate_loop sch t rows (Aggregate func target # es) names vals =
     (if (case target of AggColumn c \<Rightarrow> \<not> has_column sch c | Star \<Rightarrow> False)
      then Err (ColumnNotFound t (case target of AggColumn c \<Rightarrow> c | Star \<Rightarrow> []))
      else tryq (compute_aggregate func target rows) (\<lambda>v.
           execute_aggregate_loop sch t rows es (names @ [aggregate_label func target]) (vals @ [v])))"
| "execute_aggregate_loop sch t rows (Column c # es) names vals =
     (if \<not> has_column sch c then Err (ColumnNotFound t c)
      else execute_aggregate_loop sch t rows es (names @ [c])
             (vals @ [case rows of [] \<Rightarrow> VNull | r # _ \<Rightarrow> row_get r c]))"
| "execute_aggregate_loop sch t rows (AllColumns # es) names vals =
     Err (Parse ''cannot mix * with aggregate functions'')"

definition execute_aggregate :: "select_expr list \<Rightarrow> table_schema \<Rightarrow> string \<Rightarrow> row list \<Rightarrow>
    (string list \<times> value_t list list) result" where
  "execute_aggregate exprs sch t rows =
     tryq (execute_aggregate_loop sch t rows exprs [] []) (\<lambda>(names, vals). Ok (names, [vals]))"

fun resolve_select_columns :: "table_schema \<Rightarrow> string \<Rightarrow> select_expr list \<Rightarrow> string list \<Rightarrow>
    string list result" where
  "resolve_select_columns sch t [] out = Ok out"
| "resolve_select_columns sch t (AllColumns # es) out =
     resolve_select_columns sch t es (out @ map cs_name (ts_columns sch))"
| "resolve_select_columns sch t (Column c # es) out =
     (if \<not> has_column sch c then Err (ColumnNotFound t c)
      else resolve_select_columns sch t es (out @ [c]))"
| "resolve_select_columns sch t (Aggregate f a # es) out = resolve_select_columns sch t es out"

section \<open>HAVING\<close>

text \<open>
  A label such as \<open>COUNT(*)\<close>. The slice between the parentheses is in range and on character
  boundaries, because the label has an opening parenthesis and ends with a closing one.
\<close>

definition parse_aggregate_label :: "string \<Rightarrow> (aggregate_func \<times> aggregate_target) option" where
  "parse_aggregate_label label =
     (case str_find (CHR ''('') label of
        None \<Rightarrow> None
      | Some i \<Rightarrow>
          if \<not> str_ends_with (CHR '')'') label then None
          else (let u = to_ascii_uppercase (take i label);
                    inner = trim (take (length label - 1 - (i + 1)) (drop (i + 1) label));
                    target = (if inner = ''*'' then Star else AggColumn inner)
                in if u = ''COUNT'' then Some (Count, target)
                   else if u = ''SUM'' then Some (Sum, target)
                   else if u = ''MIN'' then Some (Min, target)
                   else if u = ''MAX'' then Some (Max, target)
                   else if u = ''AVG'' then Some (Avg, target)
                   else None))"

fun collect_having_aggregates_inner :: "filter_expr \<Rightarrow>
    (string \<times> aggregate_func \<times> aggregate_target) list \<Rightarrow>
    (string \<times> aggregate_func \<times> aggregate_target) list" where
  "collect_having_aggregates_inner (Compare c op v) out =
     (case parse_aggregate_label c of
        Some (func, target) \<Rightarrow> if c \<in> fst ` set out then out else out @ [(c, func, target)]
      | None \<Rightarrow> out)"
| "collect_having_aggregates_inner (FAnd l r) out =
     collect_having_aggregates_inner r (collect_having_aggregates_inner l out)"
| "collect_having_aggregates_inner (FOr l r) out =
     collect_having_aggregates_inner r (collect_having_aggregates_inner l out)"
| "collect_having_aggregates_inner (IsNull c) out = out"
| "collect_having_aggregates_inner (IsNotNull c) out = out"
| "collect_having_aggregates_inner (InList c vs n) out = out"
| "collect_having_aggregates_inner (InSubquery c q n) out = out"

definition collect_having_aggregates ::
  "filter_expr \<Rightarrow> (string \<times> aggregate_func \<times> aggregate_target) list" where
  "collect_having_aggregates having = collect_having_aggregates_inner having []"

section \<open>GROUP BY\<close>

fun group_by_check :: "table_schema \<Rightarrow> string \<Rightarrow> string list \<Rightarrow> select_expr \<Rightarrow> unit result" where
  "group_by_check sch t group_by AllColumns = Err (Parse ''cannot use * with GROUP BY'')"
| "group_by_check sch t group_by (Column c) =
     (if c \<notin> set group_by
      then Err (Parse (''column '' @ quoted c @ '' must appear in GROUP BY or an aggregate function''))
      else Ok ())"
| "group_by_check sch t group_by (Aggregate f (AggColumn c)) =
     (if \<not> has_column sch c then Err (ColumnNotFound t c) else Ok ())"
| "group_by_check sch t group_by (Aggregate f Star) = Ok ()"

definition group_key :: "(value_t \<Rightarrow> string) \<Rightarrow> string list \<Rightarrow> row \<Rightarrow> string list" where
  "group_key key group_by r = map (\<lambda>c. key (row_get r c)) group_by"

text \<open>One turn of the grouping loop: the keys in order of appearance, and the groups.\<close>

definition group_step :: "(value_t \<Rightarrow> string) \<Rightarrow> string list \<Rightarrow> row \<Rightarrow>
    string list list \<times> (string list, row list) fmap \<Rightarrow>
    string list list \<times> (string list, row list) fmap" where
  "group_step key group_by r og = (case og of (group_order, groups) \<Rightarrow>
     let k = group_key key group_by r in
     (if k |\<in>| fmdom groups then group_order else group_order @ [k], entry_push k r groups))"

fun group_out_column :: "select_expr \<Rightarrow> string result" where
  "group_out_column (Column c) = Ok c"
| "group_out_column (Aggregate f a) = Ok (aggregate_label f a)"
| "group_out_column AllColumns = Panic ''unreachable''"

fun group_out_value :: "row list \<Rightarrow> row \<Rightarrow> select_expr \<Rightarrow> value_t result" where
  "group_out_value group_rows sample (Column c) = Ok (row_get sample c)"
| "group_out_value group_rows sample (Aggregate f a) = compute_aggregate f a group_rows"
| "group_out_value group_rows sample AllColumns = Panic ''unreachable''"

definition group_having :: "row list \<Rightarrow> row \<Rightarrow> filter_expr option \<Rightarrow> bool result" where
  "group_having group_rows sample having =
     (case having of
        None \<Rightarrow> Ok True
      | Some h \<Rightarrow>
          tryq (fold_res (\<lambda>(label, func, target) synthetic.
                  tryq (compute_aggregate func target group_rows) (\<lambda>v. Ok (fmupd label v synthetic)))
                (collect_having_aggregates h) sample) (\<lambda>synthetic.
          Ok (evaluate_filter synthetic h)))"

text \<open>The output loop over the groups; \<open>groups[&key]\<close> and \<open>group_rows[0]\<close> panic when absent.\<close>

fun group_output :: "select_expr list \<Rightarrow> filter_expr option \<Rightarrow> (string list, row list) fmap \<Rightarrow>
    string list list \<Rightarrow> value_t list list result" where
  "group_output exprs having groups [] = Ok []"
| "group_output exprs having groups (k # ks) =
     (case fmlookup groups k of
        None \<Rightarrow> Panic ''no entry found for key''
      | Some [] \<Rightarrow> Panic ''index out of bounds''
      | Some (sample # others) \<Rightarrow>
          tryq (group_having (sample # others) sample having) (\<lambda>keep.
          if \<not> keep then group_output exprs having groups ks
          else tryq (map_res (group_out_value (sample # others) sample) exprs) (\<lambda>out_row.
               tryq (group_output exprs having groups ks) (\<lambda>rest. Ok (out_row # rest)))))"

definition compute_group_by :: "(value_t \<Rightarrow> string) \<Rightarrow> select_expr list \<Rightarrow> table_schema \<Rightarrow> string \<Rightarrow>
    row list \<Rightarrow> string list \<Rightarrow> filter_expr option \<Rightarrow> (string list \<times> value_t list list) result" where
  "compute_group_by key exprs sch t rows group_by having =
     tryq (each_res (\<lambda>c. if has_column sch c then Ok () else Err (ColumnNotFound t c)) group_by) (\<lambda>_.
     tryq (each_res (group_by_check sch t group_by) exprs) (\<lambda>_.
     let (group_order, groups) = fold (group_step key group_by) rows ([], fmempty) in
     tryq (map_res group_out_column exprs) (\<lambda>out_columns.
     tryq (group_output exprs having groups group_order) (\<lambda>out_rows.
     Ok (out_columns, out_rows)))))"

section \<open>What the aggregates return\<close>

text \<open>The non-null values of a column, and the integers among them.\<close>

definition column_values :: "string \<Rightarrow> row list \<Rightarrow> value_t list" where
  "column_values c rows = filter (\<lambda>v. v \<noteq> VNull) (map (\<lambda>r. row_get r c) rows)"

primrec int_of_value :: "value_t \<Rightarrow> i64" where
  "int_of_value (VInt i) = i"
| "int_of_value (VText s) = 0"
| "int_of_value (VBool b) = 0"
| "int_of_value VNull = 0"

lemma column_values_Nil [simp]: "column_values c [] = []"
  by (simp add: column_values_def)

lemma column_values_Cons:
  "column_values c (r # rs) =
   (if row_get r c = VNull then column_values c rs else row_get r c # column_values c rs)"
  by (simp add: column_values_def)

lemma column_values_append [simp]:
  "column_values c (xs @ ys) = column_values c xs @ column_values c ys"
  by (simp add: column_values_def)

lemma row_get_null_iff: "row_get r c = VNull \<longleftrightarrow> fmlookup r c \<in> {None, Some VNull}"
  by (auto simp: row_get_def split: option.splits)

lemma count_non_null:
  "length (filter (\<lambda>r. fmlookup r c \<notin> {None, Some VNull}) rows) = length (column_values c rows)"
  by (induction rows) (simp_all add: column_values_Cons row_get_null_iff)

lemma row_get_cases [case_names null given]:
  obtains "row_get r c = VNull" "fmlookup r c = None \<or> fmlookup r c = Some VNull"
  | v where "fmlookup r c = Some v" "row_get r c = v" "v \<noteq> VNull"
  by (metis row_get_null_iff row_get_Some insertE insertCI not_None_eq singletonD)

lemma sum_loop_null:
  "row_get r c = VNull \<Longrightarrow> sum_loop c (r # rs) acc n = sum_loop c rs acc n"
  by (auto simp: row_get_null_iff)

lemma sum_loop_ints:
  assumes "\<forall>v \<in> set (column_values c rows). value_type v = Some TInt"
  shows "sum_loop c rows acc n = Ok (acc + sum_list (map int_of_value (column_values c rows)),
    n + of_nat (length (column_values c rows)))"
  using assms
proof (induction rows arbitrary: acc n)
  case (Cons r rs)
  show ?case
  proof (cases r c rule: row_get_cases)
    case null
    with Cons show ?thesis by (simp only: sum_loop_null column_values_Cons) simp
  next
    case (given v)
    with Cons.prems obtain i where "v = VInt i"
      by (cases v) (auto simp: column_values_Cons)
    with given Cons show ?thesis by (simp add: column_values_Cons)
  qed
qed simp

lemma sum_loop_Err:
  assumes "\<not> (\<forall>v \<in> set (column_values c rows). value_type v = Some TInt)"
  shows "\<exists>t. t \<noteq> TInt \<and> sum_loop c rows acc n = Err (TypeMismatch c TInt (Some t))"
  using assms
proof (induction rows arbitrary: acc n)
  case (Cons r rs)
  show ?case
  proof (cases r c rule: row_get_cases)
    case null
    with Cons show ?thesis by (simp only: sum_loop_null column_values_Cons) simp
  next
    case (given v)
    with Cons show ?thesis by (cases v) (auto simp: column_values_Cons)
  qed
qed simp

lemma sint_word_of_int_range:
  "- (2 ^ 63) \<le> i \<Longrightarrow> i < 2 ^ 63 \<Longrightarrow> sint (word_of_int i :: i64) = i"
  by (simp add: signed_take_bit_int_eq_self signed_of_int)

lemma sint_of_nat_range:
  assumes "n < 2 ^ 63" shows "sint (of_nat n :: i64) = int n"
proof -
  from assms have "int n < 2 ^ 63" by (metis of_nat_less_iff of_nat_numeral of_nat_power)
  then show ?thesis using sint_word_of_int_range [of "int n"] by simp
qed

lemma sint_sum_list:
  fixes ws :: "i64 list"
  assumes "- (2 ^ 63) \<le> (\<Sum>w\<leftarrow>ws. sint w)" "(\<Sum>w\<leftarrow>ws. sint w) < 2 ^ 63"
  shows "sint (sum_list ws) = (\<Sum>w\<leftarrow>ws. sint w)"
proof -
  have "sum_list ws = word_of_int (\<Sum>w\<leftarrow>ws. sint w)" by (induction ws) simp_all
  then show ?thesis using assms by (simp add: sint_word_of_int_range)
qed

lemma compare_better:
  assumes "better \<noteq> Equal"
  shows "compare_ordering v v \<noteq> Some better"
    "compare_ordering u v = Some better \<Longrightarrow> compare_ordering v w = Some better \<Longrightarrow>
     compare_ordering u w = Some better"
  using assms by (cases better; cases u; cases v; cases w; auto)+

lemma extreme_step_None:
  "row_get r c = VNull \<Longrightarrow> extreme_step better c r best = best"
  by (auto simp: extreme_step_def row_get_def split: option.splits)

lemma extreme_step_Some:
  "row_get r c \<noteq> VNull \<Longrightarrow> extreme_step better c r best =
   (case best of None \<Rightarrow> Some (row_get r c)
    | Some w \<Rightarrow> if compare_ordering (row_get r c) w = Some better then Some (row_get r c) else best)"
  by (auto simp: extreme_step_def row_get_def split: option.splits value_splits)

lemma extreme_fold:
  assumes "better \<noteq> Equal"
  shows "case fold (extreme_step better c) rows None of
      None \<Rightarrow> column_values c rows = []
    | Some m \<Rightarrow> m \<in> set (column_values c rows) \<and>
        (\<forall>v \<in> set (column_values c rows). compare_ordering v m \<noteq> Some better)"
proof (induction rows rule: rev_induct)
  case (snoc r rows)
  show ?case
  proof (cases "row_get r c = VNull")
    case True
    with snoc show ?thesis
      by (simp add: extreme_step_None column_values_Cons split: option.splits)
  next
    case False
    then show ?thesis
      using snoc compare_better [OF assms] 
      by (auto simp: extreme_step_Some column_values_Cons split: option.splits)
  qed
qed simp

section \<open>The groups\<close>

text \<open>The distinct keys in the order they first appear.\<close>

fun first_keys :: "'k list \<Rightarrow> 'k list" where
  "first_keys [] = []"
| "first_keys (k # ks) = k # filter (\<lambda>x. x \<noteq> k) (first_keys ks)"

lemma set_first_keys [simp]: "set (first_keys ks) = set ks"
  by (induction ks) auto

lemma distinct_first_keys [simp]: "distinct (first_keys ks)"
  by (induction ks) auto

lemma first_keys_inj: "inj f \<Longrightarrow> first_keys (map f ks) = map f (first_keys ks)"
  by (induction ks) (auto simp: filter_map comp_def inj_eq)

lemma first_keys_snoc:
  "first_keys (ks @ [k]) = (if k \<in> set ks then first_keys ks else first_keys ks @ [k])"
  by (induction ks) auto

definition group_rows :: "(value_t \<Rightarrow> string) \<Rightarrow> string list \<Rightarrow> row list \<Rightarrow> string list \<Rightarrow> row list" where
  "group_rows key group_by rows k = filter (\<lambda>r. group_key key group_by r = k) rows"

lemma group_fold:
  "fst (fold (group_step key gb) rows ([], fmempty)) = first_keys (map (group_key key gb) rows) \<and>
   fset (fmdom (snd (fold (group_step key gb) rows ([], fmempty)))) = group_key key gb ` set rows \<and>
   entry_get (snd (fold (group_step key gb) rows ([], fmempty))) k = group_rows key gb rows k"
proof (induction rows rule: rev_induct)
  case (snoc r rows)
  obtain ks gs where *: "fold (group_step key gb) rows ([], fmempty) = (ks, gs)" by fastforce
  have d: "group_key key gb r |\<in>| fmdom gs \<longleftrightarrow> group_key key gb r \<in> group_key key gb ` set rows"
    using snoc * by (metis snd_conv)
  have "group_step key gb r (ks, gs) =
      (if group_key key gb r |\<in>| fmdom gs then ks else ks @ [group_key key gb r],
       entry_push (group_key key gb r) r gs)"
    by (simp add: group_step_def Let_def)
  with snoc d show ?case
    by (auto simp: * first_keys_snoc group_rows_def fmdom_entry_push)
qed (simp add: group_rows_def)

lemma group_lookup:
  assumes "fold (group_step key gb) rows ([], fmempty) = (ks, gs)" "k \<in> set ks"
  shows "fmlookup gs k = Some (group_rows key gb rows k)" "group_rows key gb rows k \<noteq> []"
proof -
  from assms have "k \<in> group_key key gb ` set rows" "k |\<in>| fmdom gs"
    using group_fold [of key gb rows k] by auto
  then show "group_rows key gb rows k \<noteq> []" by (auto simp: group_rows_def filter_empty_conv)
  from \<open>k |\<in>| fmdom gs\<close> obtain xs where "fmlookup gs k = Some xs" by (auto simp: fmlookup_dom_iff)
  then show "fmlookup gs k = Some (group_rows key gb rows k)"
    using group_fold [of key gb rows k] assms(1) by (simp add: entry_get_def)
qed

lemma group_output_map:
  assumes "\<And>k. k \<in> set ks \<Longrightarrow> fmlookup gs k = Some (G k) \<and> G k \<noteq> []"
    and "group_output exprs having gs ks = Ok out"
  shows "(\<forall>k \<in> set ks. \<exists>b. group_having (G k) (hd (G k)) having = Ok b) \<and>
    map_res (\<lambda>k. map_res (group_out_value (G k) (hd (G k))) exprs)
      (filter (\<lambda>k. group_having (G k) (hd (G k)) having = Ok True) ks) = Ok out"
  using assms
proof (induction ks arbitrary: out)
  case (Cons k ks)
  from Cons.prems(1) obtain x xs where g: "fmlookup gs k = Some (x # xs)" "G k = x # xs"
    by (metis list.set_intros(1) neq_Nil_conv)
  with Cons show ?case by (auto simp: res_simps split: if_splits)
qed simp

lemma compute_group_by_groups:
  assumes "compute_group_by key exprs sch t rows gb having = Ok (cols, out)"
  shows "\<exists>ks. ks = first_keys (map (group_key key gb) rows) \<and>
    map_res group_out_column exprs = Ok cols \<and>
    (\<forall>k \<in> set ks. \<exists>b. group_having (group_rows key gb rows k) (hd (group_rows key gb rows k)) having = Ok b) \<and>
    map_res (\<lambda>k. map_res (group_out_value (group_rows key gb rows k) (hd (group_rows key gb rows k))) exprs)
      (filter (\<lambda>k. group_having (group_rows key gb rows k) (hd (group_rows key gb rows k)) having = Ok True) ks)
      = Ok out"
proof -
  obtain ks gs where f: "fold (group_step key gb) rows ([], fmempty) = (ks, gs)" by fastforce
  with assms have o: "map_res group_out_column exprs = Ok cols" "group_output exprs having gs ks = Ok out"
    by (auto simp: compute_group_by_def res_simps)
  have "ks = first_keys (map (group_key key gb) rows)"
    using group_fold [of key gb rows undefined] f by auto
  with o(1) group_output_map [OF _ o(2), of "group_rows key gb rows"] group_lookup [OF f]
  show ?thesis by blast
qed

lemma sum_loop_no_panic [simp]: "no_panic (sum_loop c rows acc n)"
  by (induction c rows acc n rule: sum_loop.induct) (auto split: option.splits value_splits)

lemma agg_column_no_panic [simp]: "no_panic (agg_column a)"
  by (cases a) (simp_all add: agg_column_def)

lemma compute_aggregate_no_panic [simp]: "no_panic (compute_aggregate f a rows)"
  by (cases f) (auto intro!: no_panic_intros simp: Let_def)

lemma group_having_no_panic [simp]: "no_panic (group_having g sample having)"
  by (auto intro!: no_panic_intros simp: group_having_def split: option.splits)

lemma group_check_not_all:
  "each_res (group_by_check sch t gb) exprs = Ok u \<Longrightarrow> AllColumns \<notin> set exprs"
  by (auto simp: each_res_Ok_iff)

lemma group_by_check_no_panic [simp]: "no_panic (group_by_check sch t gb e)"
  by (cases "(sch, t, gb, e)" rule: group_by_check.cases) auto

lemma group_out_no_panic:
  assumes "AllColumns \<notin> set exprs"
  shows "no_panic (map_res (group_out_value g sample) exprs)" "no_panic (map_res group_out_column exprs)"
proof -
  have "no_panic (group_out_value g sample e) \<and> no_panic (group_out_column e)"
    if "e \<in> set exprs" for e
    using assms that by (cases e) auto
  then show "no_panic (map_res (group_out_value g sample) exprs)"
    "no_panic (map_res group_out_column exprs)"
    by (auto intro: no_panic_intros)
qed

lemma group_output_no_panic:
  assumes "\<And>k. k \<in> set ks \<Longrightarrow> \<exists>x xs. fmlookup gs k = Some (x # xs)" "AllColumns \<notin> set exprs"
  shows "no_panic (group_output exprs having gs ks)"
  using assms(1)
proof (induction ks)
  case (Cons k ks)
  from Cons.prems [of k] obtain x xs where "fmlookup gs k = Some (x # xs)" by auto
  with Cons show ?case
    by (auto intro!: no_panic_intros group_out_no_panic assms(2))
qed simp

lemma compute_group_by_no_panic: "no_panic (compute_group_by key exprs sch t rows gb having)"
proof -
  obtain ks gs where f: "fold (group_step key gb) rows ([], fmempty) = (ks, gs)" by fastforce
  have g: "no_panic (group_output exprs having gs ks)" if "AllColumns \<notin> set exprs"
    using group_lookup [OF f] that by (intro group_output_no_panic) (metis neq_Nil_conv)+
  show ?thesis
    unfolding compute_group_by_def f
    by (auto intro!: no_panic_tryq no_panic_each_res g group_out_no_panic dest!: group_check_not_all)
qed

section \<open>Properties\<close>

text \<open>
  C26: Over a column whose non-null values are integers and whose exact sum fits in 64 bits, SUM
  returns that sum and AVG the sum divided by the number of non-null values, truncated towards
  zero (NULL when there is none); NULLs and missing entries do not count.
\<close>
theorem sum_avg_correct:
  assumes "\<forall>v \<in> set (column_values c rows). value_type v = Some TInt"
    and "- (2 ^ 63) \<le> (\<Sum>v \<leftarrow> column_values c rows. sint (int_of_value v))"
    and "(\<Sum>v \<leftarrow> column_values c rows. sint (int_of_value v)) < 2 ^ 63"
    and "length rows < 2 ^ 63"
  shows "\<exists>s. sint s = (\<Sum>v \<leftarrow> column_values c rows. sint (int_of_value v)) \<and>
    compute_aggregate Sum (AggColumn c) rows = Ok (VInt s) \<and>
    compute_aggregate Avg (AggColumn c) rows = Ok (if column_values c rows = [] then VNull
      else VInt (word_of_int (sint s sdiv int (length (column_values c rows)))))"
proof -
  let ?vs = "column_values c rows"
  let ?t = "sum_list (map int_of_value ?vs)"
  have s: "sint ?t = (\<Sum>v \<leftarrow> ?vs. sint (int_of_value v))"
    using sint_sum_list [of "map int_of_value ?vs"] assms(2,3) by (simp add: comp_def)
  have "length ?vs \<le> length rows" by (metis column_values_def length_filter_le length_map)
  with assms(4) have n: "length ?vs < 2 ^ 63" by linarith
  note of = sint_of_nat_range [OF n]
  from n have "compute_aggregate Avg (AggColumn c) rows =
      Ok (if ?vs = [] then VNull else VInt (i64_div ?t (of_nat (length ?vs))))"
    using sum_loop_ints [OF assms(1), of 0 0] of by (simp add: agg_column_def) auto
  moreover have "compute_aggregate Sum (AggColumn c) rows = Ok (VInt ?t)"
    using sum_loop_ints [OF assms(1), of 0 0] by (simp add: agg_column_def)
  ultimately show ?thesis
    using s unfolding i64_div_def of by blast
qed

theorem sum_avg_correct_witness:
  "\<exists>s. sint s = - 7 \<and>
    compute_aggregate Sum (AggColumn ''n'') [fmupd ''n'' (VInt (- 9)) fmempty, fmempty,
      fmupd ''n'' (VInt 2) fmempty] = Ok (VInt s) \<and>
    compute_aggregate Avg (AggColumn ''n'') [fmupd ''n'' (VInt (- 9)) fmempty, fmempty,
      fmupd ''n'' (VInt 2) fmempty] = Ok (VInt (word_of_int (- 3)))"
  using sum_avg_correct [of "''n''" "[fmupd ''n'' (VInt (- 9)) fmempty, fmempty, fmupd ''n'' (VInt 2) fmempty]"]
  by (auto simp: column_values_def signed_divide_int_def simp del: compute_aggregate.simps)

text \<open>
  SUM and AVG over a column with a non-null value that is not an integer fail with a type
  mismatch on that column, whatever the other rows hold.
\<close>

lemma sum_avg_type_error:
  assumes "\<exists>r \<in> set rows. row_get r c \<noteq> VNull \<and> value_type (row_get r c) \<noteq> Some TInt"
  shows "\<exists>t. t \<noteq> TInt \<and>
    compute_aggregate Sum (AggColumn c) rows = Err (TypeMismatch c TInt (Some t)) \<and>
    compute_aggregate Avg (AggColumn c) rows = Err (TypeMismatch c TInt (Some t))"
proof -
  from assms have "\<not> (\<forall>v \<in> set (column_values c rows). value_type v = Some TInt)"
    by (auto simp: column_values_def)
  from sum_loop_Err [OF this, of 0 0] show ?thesis by (auto simp: agg_column_def)
qed

text \<open>
  C27: MIN and MAX return NULL exactly when the column holds no non-null value, and otherwise one
  of its values, with no value of the column below (above) it.
\<close>
theorem min_max_correct:
  "\<exists>lo hi. compute_aggregate Min (AggColumn c) rows = Ok lo \<and>
    compute_aggregate Max (AggColumn c) rows = Ok hi \<and>
    (lo = VNull \<longleftrightarrow> column_values c rows = []) \<and> (hi = VNull \<longleftrightarrow> column_values c rows = []) \<and>
    (column_values c rows = [] \<or> lo \<in> set (column_values c rows) \<and> hi \<in> set (column_values c rows)) \<and>
    Ball (set (column_values c rows))
      (\<lambda>v. compare_ordering v lo \<noteq> Some Less \<and> compare_ordering v hi \<noteq> Some Greater)"
proof -
  have "VNull \<notin> set (column_values c rows)" by (simp add: column_values_def)
  then show ?thesis
    using extreme_fold [of Less c rows] extreme_fold [of Greater c rows]
    by (auto simp: agg_column_def split: option.splits)
qed

theorem min_max_correct_witness:
  "\<exists>lo hi. compute_aggregate Min (AggColumn ''n'') [fmupd ''n'' (VInt 3) fmempty, fmupd ''n'' (VInt 1) fmempty] = Ok lo \<and>
    compute_aggregate Max (AggColumn ''n'') [fmupd ''n'' (VInt 3) fmempty, fmupd ''n'' (VInt 1) fmempty] = Ok hi \<and>
    lo \<in> {VInt 3, VInt 1} \<and> compare_ordering (VInt 1) lo \<noteq> Some Less \<and> compare_ordering (VInt 3) hi \<noteq> Some Greater"
proof -
  have v: "column_values ''n'' [fmupd ''n'' (VInt 3) fmempty, fmupd ''n'' (VInt 1) fmempty] = [VInt 3, VInt 1]"
    by (simp add: column_values_def)
  show ?thesis
    using min_max_correct [of "''n''" "[fmupd ''n'' (VInt 3) fmempty, fmupd ''n'' (VInt 1) fmempty]"]
    unfolding v by (elim exE conjE) (intro exI conjI, assumption+, simp_all)
qed

text \<open>
  GROUP BY never panics: the branches marked unreachable are unreachable, every key of the order has
  a group, and no group is empty.
\<close>

lemma group_by_no_panic: "compute_group_by key exprs sch t rows gb having \<noteq> Panic p"
  using compute_group_by_no_panic unfolding no_panic_def by blast

end
