(* ===== verification/Query.thy ===== *)
theory Query
  imports Aggregates Storage
begin

text \<open>
  \<open>SELECT\<close> (\<open>src/engine.rs\<close>): the choice of an index, hash joins, projection, sorting, limit and
  offset, and the resolution of subqueries, which runs queries itself.
\<close>

datatype query_result = Message string | Rows "string list" "value_t list list"

section \<open>Index choice\<close>

text \<open>
  The loop of \<open>find_best_index_candidate\<close> over the equality conditions; \<open>probe\<close> is
  \<open>storage.find_indexed_locators\<close>.
\<close>

fun best_candidate_loop :: "(string \<Rightarrow> string \<Rightarrow> value_t \<Rightarrow> 'l list option result) \<Rightarrow> string \<Rightarrow>
    (string \<times> value_t) list \<Rightarrow> 'l list option \<Rightarrow> 'l list option result" where
  "best_candidate_loop probe t [] best = Ok best"
| "best_candidate_loop probe t ((c, v) # rest) best =
     tryq (probe t c v) (\<lambda>found. case found of
        Some locators \<Rightarrow>
          (case best of
             None \<Rightarrow> best_candidate_loop probe t rest (Some locators)
           | Some existing \<Rightarrow>
               if length locators < length existing
               then best_candidate_loop probe t rest (Some locators)
               else best_candidate_loop probe t rest best)
      | None \<Rightarrow> best_candidate_loop probe t rest best)"

definition find_best_index_candidate :: "(string \<Rightarrow> string \<Rightarrow> value_t \<Rightarrow> 'l list option result) \<Rightarrow>
    string \<Rightarrow> filter_expr option \<Rightarrow> 'l list option result" where
  "find_best_index_candidate probe t f = (case f of
     None \<Rightarrow> Ok None
   | Some g \<Rightarrow> best_candidate_loop probe t (collect_index_candidates g []) None)"

section \<open>Joins\<close>

record join_state =
  js_rows :: "row list"
  js_columns :: "column_schema list"
  js_names :: "(string \<times> string, string) fmap"

definition right_join_key :: "(value_t \<Rightarrow> string) \<Rightarrow> value_t option \<Rightarrow> string" where
  "right_join_key key v = key (case v of None \<Rightarrow> VNull | Some w \<Rightarrow> w)"

text \<open>The columns of the joined table are appended; a name already taken is qualified.\<close>

definition right_column_name :: "string \<Rightarrow> column_schema list \<Rightarrow> column_schema \<Rightarrow> string" where
  "right_column_name t merged rc =
     (if \<exists>c \<in> set merged. cs_name c = cs_name rc then t @ ''_'' @ cs_name rc else cs_name rc)"

fun merge_right_columns :: "string \<Rightarrow> column_schema list \<Rightarrow> column_schema list \<Rightarrow>
    (string \<times> string, string) fmap \<Rightarrow> (string \<times> string) list \<Rightarrow>
    column_schema list \<times> (string \<times> string, string) fmap \<times> (string \<times> string) list" where
  "merge_right_columns t [] merged names right_names = (merged, names, right_names)"
| "merge_right_columns t (rc # rcs) merged names right_names =
     (let name = right_column_name t merged rc in
      merge_right_columns t rcs (merged @ [rc\<lparr>cs_name := name\<rparr>])
        (fmupd (t, cs_name rc) name names) (right_names @ [(cs_name rc, name)]))"

definition merge_row :: "(string \<times> string) list \<Rightarrow> row \<Rightarrow> row \<Rightarrow> row" where
  "merge_row right_names rr lr =
     fold (\<lambda>(original, renamed) m. fmupd renamed (row_get rr original) m) right_names lr"

definition join_buckets :: "(value_t \<Rightarrow> string) \<Rightarrow> string \<Rightarrow> row list \<Rightarrow> (string, row list) fmap" where
  "join_buckets key c rows =
     fold (\<lambda>rr m. entry_push (right_join_key key (fmlookup rr c)) rr m) rows fmempty"

fun join_rows :: "(value_t \<Rightarrow> string) \<Rightarrow> string \<Rightarrow> (string, row list) fmap \<Rightarrow> (string \<times> string) list \<Rightarrow>
    row list \<Rightarrow> row list" where
  "join_rows key lookup buckets right_names [] = []"
| "join_rows key lookup buckets right_names (lr # lrs) =
     (case fmlookup buckets (right_join_key key (fmlookup lr lookup)) of
        None \<Rightarrow> []
      | Some found \<Rightarrow> map (\<lambda>rr. merge_row right_names rr lr) found) @
     join_rows key lookup buckets right_names lrs"

definition left_lookup :: "(string \<times> string, string) fmap \<Rightarrow> join_clause \<Rightarrow> string" where
  "left_lookup names jc = (case jc_left_table jc of
     Some qualifier \<Rightarrow>
       (case fmlookup names (qualifier, jc_left_column jc) of
          Some n \<Rightarrow> n | None \<Rightarrow> jc_left_column jc)
   | None \<Rightarrow> jc_left_column jc)"

definition join_step :: "deps \<Rightarrow> storage \<Rightarrow> join_clause \<Rightarrow> join_state \<Rightarrow> join_state result" where
  "join_step D s jc js =
     tryq (get_schema s (jc_table jc)) (\<lambda>right_schema.
     tryq (read_rows D s (jc_table jc)) (\<lambda>right_rows.
     case merge_right_columns (jc_table jc) (ts_columns right_schema) (js_columns js) (js_names js) []
     of (merged, names, right_names) \<Rightarrow>
       let buckets = join_buckets (d_value_json D) (jc_right_column jc) right_rows in
       Ok (js\<lparr>js_rows := join_rows (d_value_json D) (left_lookup names jc) buckets right_names (js_rows js),
              js_columns := merged, js_names := names\<rparr>)))"

definition join_start :: "string \<Rightarrow> table_schema \<Rightarrow> row list \<Rightarrow> join_state" where
  "join_start t sch rows = \<lparr>js_rows = rows, js_columns = ts_columns sch,
     js_names = fold (\<lambda>col m. fmupd (t, cs_name col) (cs_name col) m) (ts_columns sch) fmempty\<rparr>"

definition select_source :: "deps \<Rightarrow> storage \<Rightarrow> string \<Rightarrow> table_schema \<Rightarrow> join_clause list \<Rightarrow>
    filter_expr option \<Rightarrow> (row list \<times> table_schema) result" where
  "select_source D s t sch joins f =
     (if joins \<noteq> [] then
        tryq (read_rows D s t) (\<lambda>rows.
        tryq (fold_res (join_step D s) joins (join_start t sch rows)) (\<lambda>js.
        Ok (js_rows js, \<lparr>ts_name = t, ts_columns = js_columns js, ts_next_row_id = 0\<rparr>)))
      else
        tryq (prepare_opt sch t f) (\<lambda>prepared.
        tryq (find_best_index_candidate (find_indexed_locators D s) t prepared) (\<lambda>candidates.
        tryq (read_rows_filtered D s t candidates) (\<lambda>rows. Ok (rows, sch)))))"

section \<open>Sorting\<close>

text \<open>
  \<open>sort_by\<close> of the standard library. Its documentation asks for a comparator that is a total order
  (up to elements that compare equal). Then it returns the one stable ordering of the elements,
  which an insertion sort computes. Otherwise it may unwind, or return the elements in an order it
  does not specify: that is the parameter \<open>d_sort\<close>. A comparator that itself unwinds on two of the
  elements is no total order.
\<close>

definition total_preorder :: "'a set \<Rightarrow> ('a \<Rightarrow> 'a \<Rightarrow> ordering) \<Rightarrow> bool" where
  "total_preorder A cmp \<longleftrightarrow> (\<forall>a\<in>A. \<forall>b\<in>A. cmp b a = ord_reverse (cmp a b)) \<and>
     (\<forall>a\<in>A. \<forall>b\<in>A. \<forall>c\<in>A. cmp a b \<noteq> Greater \<longrightarrow> cmp b c \<noteq> Greater \<longrightarrow> cmp a c \<noteq> Greater)"

definition ordering_of :: "ordering result \<Rightarrow> ordering" where
  "ordering_of r = (case r of Ok o' \<Rightarrow> o' | _ \<Rightarrow> Equal)"

definition total_order :: "('a \<Rightarrow> 'a \<Rightarrow> ordering result) \<Rightarrow> 'a list \<Rightarrow> bool" where
  "total_order cmp xs \<longleftrightarrow> (\<forall>a \<in> set xs. \<forall>b \<in> set xs. is_ok (cmp a b)) \<and>
     total_preorder (set xs) (\<lambda>a b. ordering_of (cmp a b))"

fun insert_by :: "('a \<Rightarrow> 'a \<Rightarrow> ordering) \<Rightarrow> 'a \<Rightarrow> 'a list \<Rightarrow> 'a list" where
  "insert_by cmp x [] = [x]"
| "insert_by cmp x (y # ys) = (if cmp x y = Greater then y # insert_by cmp x ys else x # y # ys)"

definition insertion_sort :: "('a \<Rightarrow> 'a \<Rightarrow> ordering) \<Rightarrow> 'a list \<Rightarrow> 'a list" where
  "insertion_sort cmp xs = foldr (insert_by cmp) xs []"

definition sort_by :: "deps \<Rightarrow> (value_t list \<Rightarrow> value_t list \<Rightarrow> ordering result) \<Rightarrow> value_t list list \<Rightarrow>
    value_t list list result" where
  "sort_by D cmp rows =
     (if total_order cmp rows then Ok (insertion_sort (\<lambda>a b. ordering_of (cmp a b)) rows)
      else case d_sort D cmp rows of Inl message \<Rightarrow> Panic message | Inr out \<Rightarrow> Ok out)"

fun position :: "string \<Rightarrow> string list \<Rightarrow> nat option" where
  "position c [] = None"
| "position c (x # xs) = (if x = c then Some 0 else map_option Suc (position c xs))"

definition order_indices :: "string list \<Rightarrow> order_by_clause list \<Rightarrow> (nat \<times> bool) list" where
  "order_indices out_columns order_by =
     List.map_filter (\<lambda>ob. map_option (\<lambda>i. (i, ob_order ob = Asc)) (position (ob_column ob) out_columns))
       order_by"

definition value_at :: "value_t list \<Rightarrow> nat \<Rightarrow> value_t result" where
  "value_at r i = (if i < length r then Ok (r ! i) else Panic ''index out of bounds'')"

fun order_compare :: "(nat \<times> bool) list \<Rightarrow> value_t list \<Rightarrow> value_t list \<Rightarrow> ordering result" where
  "order_compare [] a b = Ok Equal"
| "order_compare ((i, asc) # rest) a b =
     tryq (value_at a i) (\<lambda>x. tryq (value_at b i) (\<lambda>y.
     let o1 = (case compare_ordering x y of None \<Rightarrow> Equal | Some o' \<Rightarrow> o');
         o2 = (if asc then o1 else ord_reverse o1)
     in if o2 \<noteq> Equal then Ok o2 else order_compare rest a b))"

section \<open>SELECT\<close>

definition USIZE_MAX :: nat where "USIZE_MAX = 2 ^ 64 - 1"

definition is_aggregate :: "select_expr \<Rightarrow> bool" where
  "is_aggregate e = (case e of Aggregate _ _ \<Rightarrow> True | _ \<Rightarrow> False)"

text \<open>What follows once the filter has its subqueries replaced.\<close>

definition select_output :: "deps \<Rightarrow> string \<Rightarrow> select_expr list \<Rightarrow> string list \<Rightarrow>
    filter_expr option \<Rightarrow> row list \<Rightarrow> table_schema \<Rightarrow> (string list \<times> value_t list list) result" where
  "select_output D t exprs group_by having filtered sch =
     (if group_by \<noteq> [] then compute_group_by (d_value_json D) exprs sch t filtered group_by having
      else if \<exists>e \<in> set exprs. is_aggregate e then execute_aggregate exprs sch t filtered
      else if having \<noteq> None then Err (Parse ''HAVING requires GROUP BY'')
      else tryq (resolve_select_columns sch t exprs []) (\<lambda>projected.
           Ok (projected, map (\<lambda>r. map (row_get r) projected) filtered)))"

definition select_finish :: "deps \<Rightarrow> order_by_clause list \<Rightarrow> nat option \<Rightarrow> nat option \<Rightarrow>
    string list \<Rightarrow> value_t list list \<Rightarrow> query_result result" where
  "select_finish D order_by limit offset cols rows =
     tryq (if order_by \<noteq> [] then sort_by D (order_compare (order_indices cols order_by)) rows else Ok rows) (\<lambda>sorted.
     Ok (Rows cols (take (case limit of None \<Rightarrow> USIZE_MAX | Some n \<Rightarrow> n)
       (drop (case offset of None \<Rightarrow> 0 | Some n \<Rightarrow> n) sorted))))"

definition select_resolved :: "deps \<Rightarrow> storage \<Rightarrow> string \<Rightarrow> table_schema \<Rightarrow> select_expr list \<Rightarrow>
    join_clause list \<Rightarrow> filter_expr option \<Rightarrow> string list \<Rightarrow> filter_expr option \<Rightarrow>
    order_by_clause list \<Rightarrow> nat option \<Rightarrow> nat option \<Rightarrow> query_result result" where
  "select_resolved D s t sch exprs joins f group_by having order_by limit offset =
     tryq (select_source D s t sch joins f) (\<lambda>(rows, eff).
     tryq (prepare_opt eff t f) (\<lambda>prepared.
     tryq (select_output D t exprs group_by having
             (filter (\<lambda>r. row_matches_filter r prepared) rows) eff) (\<lambda>(cols, result_rows).
     select_finish D order_by limit offset cols result_rows)))"

text \<open>The single column of a subquery's answer becomes the list of an \<open>IN\<close>.\<close>

definition subquery_list :: "string \<Rightarrow> bool \<Rightarrow> query_result \<Rightarrow> filter_expr result" where
  "subquery_list c negated qr = (case qr of
     Message _ \<Rightarrow> Err (Parse ''subquery did not produce rows'')
   | Rows cols rows \<Rightarrow>
       if length cols \<noteq> 1 then Err (Parse ''subquery must return exactly one column'')
       else Ok (InList c (List.map_filter (\<lambda>r. case r of [] \<Rightarrow> None | v # _ \<Rightarrow> Some v) rows) negated))"

fun resolve_subqueries :: "deps \<Rightarrow> storage \<Rightarrow> filter_expr \<Rightarrow> filter_expr result" where
  "resolve_subqueries D s (InSubquery c (Select t exprs joins f group_by having order_by limit offset) negated) =
     tryq (get_schema s t) (\<lambda>sch.
     tryq (case f of None \<Rightarrow> Ok None
           | Some g \<Rightarrow> tryq (resolve_subqueries D s g) (\<lambda>g'. Ok (Some g'))) (\<lambda>f'.
     tryq (select_resolved D s t sch exprs joins f' group_by having order_by limit offset) (\<lambda>qr.
     subquery_list c negated qr)))"
| "resolve_subqueries D s (InSubquery c q negated) =
     Err (Parse ''only SELECT is allowed as a subquery'')"
| "resolve_subqueries D s (FAnd l r) =
     tryq (resolve_subqueries D s l) (\<lambda>l'. tryq (resolve_subqueries D s r) (\<lambda>r'. Ok (FAnd l' r')))"
| "resolve_subqueries D s (FOr l r) =
     tryq (resolve_subqueries D s l) (\<lambda>l'. tryq (resolve_subqueries D s r) (\<lambda>r'. Ok (FOr l' r')))"
| "resolve_subqueries D s other = Ok other"

definition resolve_opt :: "deps \<Rightarrow> storage \<Rightarrow> filter_expr option \<Rightarrow> filter_expr option result" where
  "resolve_opt D s f = (case f of None \<Rightarrow> Ok None
     | Some g \<Rightarrow> tryq (resolve_subqueries D s g) (\<lambda>g'. Ok (Some g')))"

definition select :: "deps \<Rightarrow> storage \<Rightarrow> string \<Rightarrow> select_expr list \<Rightarrow> join_clause list \<Rightarrow>
    filter_expr option \<Rightarrow> string list \<Rightarrow> filter_expr option \<Rightarrow> order_by_clause list \<Rightarrow>
    nat option \<Rightarrow> nat option \<Rightarrow> query_result result" where
  "select D s t exprs joins f group_by having order_by limit offset =
     tryq (get_schema s t) (\<lambda>sch.
     tryq (resolve_opt D s f) (\<lambda>f'.
     select_resolved D s t sch exprs joins f' group_by having order_by limit offset))"

lemma resolve_subqueries_select:
  "resolve_subqueries D s (InSubquery c (Select t exprs joins f group_by having order_by limit offset) negated) =
   tryq (select D s t exprs joins f group_by having order_by limit offset) (subquery_list c negated)"
  by (simp add: select_def resolve_opt_def)

end
