(* ===== verification/Engine.thy ===== *)
theory Engine
  imports Constraints Query
begin

text \<open>
  \<open>Engine\<close> of \<open>src/engine.rs\<close>: one handler per statement, the dispatcher, and the execution of a
  statement under the role of the session with its audit entry. A handler works on the storage
  only; \<open>execute_statement\<close> works on the whole engine.
\<close>

section \<open>Schema statements\<close>

definition create_table :: "deps \<Rightarrow> string \<Rightarrow> column_def list \<Rightarrow> query_result storage_op" where
  "create_table D t columns =
     (if columns = [] then op_err (InvalidSchema ''table must contain at least one column'')
      else
        op_bind (op_lift (create_columns {} 0 [] columns)) (\<lambda>schema_columns.
        op_bind (op_read (\<lambda>s. check_references s t schema_columns)) (\<lambda>_.
        op_seq (storage_create_table D \<lparr>ts_name = t, ts_columns = schema_columns, ts_next_row_id = 0\<rparr>)
               (op_ret (Message (''table '' @ quoted t @ '' created''))))))"

definition drop_table :: "deps \<Rightarrow> string \<Rightarrow> query_result storage_op" where
  "drop_table D t =
     op_bind (op_read (\<lambda>s. referencing_columns s t)) (\<lambda>referencing.
     case find (\<lambda>(child, _, _). child \<noteq> t) referencing of
       Some (child, cc, _) \<Rightarrow>
         op_err (ConstraintViolation (''cannot drop table '' @ quoted t @ '': column '' @
           quoted (child @ ''.'' @ cc) @ '' references it''))
     | None \<Rightarrow> op_seq (storage_drop_table D t) (op_ret (Message (''table '' @ quoted t @ '' dropped''))))"

definition create_index :: "deps \<Rightarrow> string \<Rightarrow> string \<Rightarrow> string \<Rightarrow> query_result storage_op" where
  "create_index D name t c =
     op_bind (storage_create_index D name t c) (\<lambda>keys.
     op_ret (Message (''index '' @ quoted name @ '' created on '' @ t @ ''('' @ c @ '') with '' @
       show_nat keys @ '' key(s)'')))"

definition drop_index :: "deps \<Rightarrow> string \<Rightarrow> query_result storage_op" where
  "drop_index D name =
     op_bind (storage_drop_index D name) (\<lambda>_.
     op_ret (Message (''index '' @ quoted name @ '' dropped'')))"

definition alter_table_add_column :: "deps \<Rightarrow> string \<Rightarrow> column_def \<Rightarrow> value_t option \<Rightarrow>
    query_result storage_op" where
  "alter_table_add_column D t col dflt =
     op_bind (op_lift (coerce_value (cd_name col) (cd_type col)
       (case dflt of None \<Rightarrow> VNull | Some v \<Rightarrow> v))) (\<lambda>coerced.
     op_bind (add_column D t (lower_column col) coerced) (\<lambda>updated.
     op_ret (Message (''table '' @ quoted t @ '' altered: added column '' @ quoted (cd_name col) @ '' ('' @
       show_nat updated @ '' rows backfilled)''))))"

definition alter_table_drop_column :: "deps \<Rightarrow> string \<Rightarrow> string \<Rightarrow> query_result storage_op" where
  "alter_table_drop_column D t c =
     op_bind (drop_column D t c) (\<lambda>count.
     op_ret (Message (''table '' @ quoted t @ '' altered: dropped column '' @ quoted c @ '' ('' @
       show_nat count @ '' rows updated)'')))"

definition alter_table_rename_column :: "deps \<Rightarrow> string \<Rightarrow> string \<Rightarrow> string \<Rightarrow> query_result storage_op" where
  "alter_table_rename_column D t old new =
     op_bind (rename_column D t old new) (\<lambda>count.
     op_ret (Message (''table '' @ quoted t @ '' altered: renamed '' @ quoted old @ '' to '' @ quoted new @
       '' ('' @ show_nat count @ '' rows updated)'')))"

section \<open>Data statements\<close>

definition insert_row :: "deps \<Rightarrow> string \<Rightarrow> string list option \<Rightarrow> value_t list \<Rightarrow> query_result storage_op" where
  "insert_row D t columns vals =
     op_bind (op_read (\<lambda>s. get_schema s t)) (\<lambda>sch.
     op_bind (op_lift (build_row sch t columns vals)) (\<lambda>row.
     op_seq (check_constraints_for_insert D t sch row)
    (op_bind (op_read (\<lambda>s. check_foreign_keys_row D s t sch row)) (\<lambda>_.
     op_seq (append_row D t row)
            (op_ret (Message ''1 row inserted''))))))"

text \<open>The closure \<open>update\<close> passes to \<open>rewrite_rows\<close>; the counter is \<open>updated\<close>.\<close>

definition assign_row :: "(string \<times> value_t) list \<Rightarrow> row \<Rightarrow> row" where
  "assign_row assignments r = fold (\<lambda>(c, v) r. fmupd c v r) assignments r"

definition check_assigned_nulls :: "table_schema \<Rightarrow> (string \<times> value_t) list \<Rightarrow> unit result" where
  "check_assigned_nulls sch assignments =
     each_res (\<lambda>(c, v). if v = VNull then
        (case find_column sch c of
           None \<Rightarrow> Ok ()
         | Some col \<Rightarrow> if has_constraint col NotNull \<or> has_constraint col PrimaryKey
             then Err (null_violation c) else Ok ())
       else Ok ()) assignments"

definition update_mapper :: "table_schema \<Rightarrow> (string \<times> value_t) list \<Rightarrow> filter_expr option \<Rightarrow>
    row \<Rightarrow> (nat, flux_error, row option) op" where
  "update_mapper sch assignments f r = (\<lambda>n.
     if \<not> row_matches_filter r f then (Ok (Some r), n)
     else (case check_assigned_nulls sch assignments of
             Ok _ \<Rightarrow> (Ok (Some (assign_row assignments r)), n + 1)
           | Err e \<Rightarrow> (Err e, n)
           | Panic p \<Rightarrow> (Panic p, n)))"

definition update_rows :: "deps \<Rightarrow> string \<Rightarrow> (string \<times> value_t) list \<Rightarrow> filter_expr option \<Rightarrow>
    query_result storage_op" where
  "update_rows D t assignments f =
     op_bind (op_read (\<lambda>s. get_schema s t)) (\<lambda>sch.
     op_bind (op_read (\<lambda>s. resolve_opt D s f)) (\<lambda>f'.
     op_bind (op_lift (prepare_opt sch t f')) (\<lambda>prepared.
     op_bind (op_lift (prepare_assignments sch t assignments)) (\<lambda>assigned.
     op_bind (op_read (\<lambda>s. check_assigned_keys D s t sch assigned)) (\<lambda>_.
     op_bind (op_read (\<lambda>s. check_referencing_children_on_update D s t assigned prepared)) (\<lambda>_.
     op_bind (op_read (\<lambda>s. check_unique_constraints_for_update D s t sch assigned prepared)) (\<lambda>_.
     op_bind (rewrite_rows D t (update_mapper sch assigned prepared)) (\<lambda>(_, updated).
     op_ret (Message (show_nat updated @ '' rows updated''))))))))))"

definition delete_mapper :: "filter_expr option \<Rightarrow> row \<Rightarrow> (nat, flux_error, row option) op" where
  "delete_mapper f r = (\<lambda>n.
     if row_matches_filter r f then (Ok None, n + 1) else (Ok (Some r), n))"

definition delete_rows :: "deps \<Rightarrow> string \<Rightarrow> filter_expr option \<Rightarrow> query_result storage_op" where
  "delete_rows D t f =
     op_bind (op_read (\<lambda>s. get_schema s t)) (\<lambda>sch.
     op_bind (op_read (\<lambda>s. resolve_opt D s f)) (\<lambda>f'.
     op_bind (op_lift (prepare_opt sch t f')) (\<lambda>prepared.
     op_bind (op_read (\<lambda>s. check_referencing_children_on_delete D s t prepared)) (\<lambda>_.
     op_bind (rewrite_rows D t (delete_mapper prepared)) (\<lambda>(_, deleted).
     op_ret (Message (show_nat deleted @ '' rows deleted'')))))))"

section \<open>Listings\<close>

definition show_tables :: "storage \<Rightarrow> query_result" where
  "show_tables s = Rows [''table_name''] (map (\<lambda>t. [VText t]) (list_tables s))"

definition show_migrations :: "storage \<Rightarrow> query_result" where
  "show_migrations s = Rows [''id'', ''executed_at_unix_ms'', ''table_name'', ''operation'', ''details'']
     (map (\<lambda>m. [VText (show_nat (unat (mr_id m))), VText (show_nat (mr_executed_at m)),
        VText (mr_table_name m), VText (mr_operation m), VText (mr_details m)]) (list_migrations s))"

definition describe :: "storage \<Rightarrow> string \<Rightarrow> query_result result" where
  "describe s t = tryq (get_schema s t) (\<lambda>sch.
     Ok (Rows [''column_name'', ''data_type'', ''constraints'']
       (map (\<lambda>col. [VText (cs_name col), VText (show_data_type (cs_type col)),
          VText (join_with '', '' (map show_constraint (cs_constraints col)))]) (ts_columns sch))))"

section \<open>Dispatch\<close>

fun execute_statement_unchecked :: "deps \<Rightarrow> statement \<Rightarrow> query_result storage_op" where
  "execute_statement_unchecked D (CreateTable t columns) = create_table D t columns"
| "execute_statement_unchecked D (DropTable t) = drop_table D t"
| "execute_statement_unchecked D (CreateIndex n t c) = create_index D n t c"
| "execute_statement_unchecked D (DropIndex n) = drop_index D n"
| "execute_statement_unchecked D (AlterTableAddColumn t col dflt) = alter_table_add_column D t col dflt"
| "execute_statement_unchecked D (AlterTableDropColumn t c) = alter_table_drop_column D t c"
| "execute_statement_unchecked D (AlterTableRenameColumn t old new) = alter_table_rename_column D t old new"
| "execute_statement_unchecked D (Insert t columns vals) = insert_row D t columns vals"
| "execute_statement_unchecked D (Update t assignments f) = update_rows D t assignments f"
| "execute_statement_unchecked D (Select t exprs joins f group_by having order_by limit offset) =
     op_read (\<lambda>s. select D s t exprs joins f group_by having order_by limit offset)"
| "execute_statement_unchecked D (Delete t f) = delete_rows D t f"
| "execute_statement_unchecked D Begin =
     op_seq (begin_transaction D) (op_ret (Message ''transaction started''))"
| "execute_statement_unchecked D Commit =
     op_seq commit_transaction (op_ret (Message ''transaction committed''))"
| "execute_statement_unchecked D Rollback =
     op_seq (rollback_transaction D) (op_ret (Message ''transaction rolled back''))"
| "execute_statement_unchecked D ShowTables = op_read (\<lambda>s. Ok (show_tables s))"
| "execute_statement_unchecked D ShowMigrations = op_read (\<lambda>s. Ok (show_migrations s))"
| "execute_statement_unchecked D (Describe t) = op_read (\<lambda>s. describe s t)"

section \<open>The engine\<close>

text \<open>
  \<open>en_audit\<close> is the content of the audit log. The clock is read for an audit entry as for a
  migration record, so it is the one of the storage's disk.
\<close>

record engine =
  en_storage :: storage
  en_identity :: identity
  en_audit :: string

type_synonym 'a engine_op = "(engine, flux_error, 'a) op"

definition on_storage :: "'a storage_op \<Rightarrow> 'a engine_op" where
  "on_storage m = (\<lambda>e. case m (en_storage e) of (r, s) \<Rightarrow> (r, e\<lparr>en_storage := s\<rparr>))"

definition engine_open :: "deps \<Rightarrow> u8 list \<Rightarrow> disk \<Rightarrow> identity \<Rightarrow> string \<Rightarrow> engine result" where
  "engine_open D key d who log = tryq (storage_open D key d) (\<lambda>s.
     Ok \<lparr>en_storage = s, en_identity = who, en_audit = log\<rparr>)"

text \<open>\<open>AuditLogger::log\<close>: one serialised entry and a newline are appended.\<close>

definition audit_log :: "deps \<Rightarrow> string \<Rightarrow> bool \<Rightarrow> string option \<Rightarrow> unit engine_op" where
  "audit_log D action success message = (\<lambda>e.
     let s = en_storage e; e1 = e\<lparr>en_storage := s\<lparr>dk_clock := Suc (dk_clock s)\<rparr>\<rparr> in
     case d_now D (dk_clock s) of
       None \<Rightarrow> (Err (Configuration ''system clock error''), e1)
     | Some now \<Rightarrow>
         (Ok (), e1\<lparr>en_audit := en_audit e @ d_audit_json D
            \<lparr>ae_timestamp = now, ae_username = id_username (en_identity e), ae_role = id_role (en_identity e),
             ae_action = action, ae_success = success, ae_message = message\<rparr> @ [NL]\<rparr>))"

definition execute_statement :: "deps \<Rightarrow> statement \<Rightarrow> query_result engine_op" where
  "execute_statement D st = (\<lambda>e.
     let action = statement_action st in
     if \<not> role_allows (id_role (en_identity e)) st then
       (let error = AuthorizationDenied (id_username (en_identity e)) action in
        op_seq (audit_log D action False (Some (show_error error))) (op_err error) e)
     else
       (case on_storage (execute_statement_unchecked D st) e of
          (Ok r, e1) \<Rightarrow> op_seq (audit_log D action True None) (op_ret r) e1
        | (Err err, e1) \<Rightarrow> op_seq (audit_log D action False (Some (show_error err))) (op_err err) e1
        | (Panic p, e1) \<Rightarrow> (Panic p, e1)))"

text \<open>The statements of a script, up to the first that fails.\<close>

definition execute_all :: "deps \<Rightarrow> statement list \<Rightarrow> query_result list engine_op" where
  "execute_all D sts = op_map (execute_statement D) sts"

end
