(* ===== verification/Storage_Inv.thy ===== *)
theory Storage_Inv
  imports Storage_Ops
begin

text \<open>
  The invariant of the storage engine and the effect of its methods. \<open>rows_of\<close> is the
  abstraction of a table file to the list of its rows; \<open>storage_inv\<close> says that every table file
  decodes, that every index map is the one a rebuild would produce, that every cached set of
  unique keys is the set of keys in the table, and that the metadata files hold the metadata.
\<close>

section \<open>Paths do not collide\<close>

lemma table_path_inject [simp]: "table_path a = table_path b \<longleftrightarrow> a = b"
  by (simp add: table_path_def)

lemma index_path_inject [simp]: "index_path a = index_path b \<longleftrightarrow> a = b"
  by (simp add: index_path_def)

lemma is_table_name_path [simp]: "is_table_name (table_path t)"
  by (simp add: is_table_name_def table_path_def)

lemma is_index_name_path [simp]: "is_index_name (index_path n)"
  by (simp add: is_index_name_def index_path_def)

lemma not_table_name [simp]:
  "\<not> is_table_name catalog_path" "\<not> is_table_name migrations_path"
  "\<not> is_table_name index_catalog_path" "\<not> is_table_name index_marker_path"
  "\<not> is_table_name (index_path n)"
  by (simp_all add: is_table_name_def catalog_path_def migrations_path_def index_catalog_path_def
      index_marker_path_def index_path_def)

lemma not_index_name [simp]:
  "\<not> is_index_name catalog_path" "\<not> is_index_name migrations_path"
  "\<not> is_index_name index_catalog_path" "\<not> is_index_name index_marker_path"
  by (simp_all add: is_index_name_def catalog_path_def migrations_path_def index_catalog_path_def
      index_marker_path_def)

lemma metadata_names [simp]:
  "is_metadata_name catalog_path" "is_metadata_name migrations_path"
  "is_metadata_name index_catalog_path" "\<not> is_metadata_name index_marker_path"
  "\<not> is_metadata_name (table_path t)" "\<not> is_metadata_name (index_path n)"
proof -
  show "\<not> is_metadata_name (table_path t)"
    by (metis is_metadata_name_def is_table_name_path not_table_name(1-3))
  show "\<not> is_metadata_name (index_path n)"
    by (metis is_metadata_name_def is_index_name_path not_index_name(1-3))
qed (simp_all add: is_metadata_name_def catalog_path_def migrations_path_def index_catalog_path_def
    index_marker_path_def)

lemma table_path_neq [simp]:
  "table_path t \<noteq> catalog_path" "table_path t \<noteq> migrations_path"
  "table_path t \<noteq> index_catalog_path" "table_path t \<noteq> index_marker_path" "table_path t \<noteq> index_path n"
  "catalog_path \<noteq> table_path t" "migrations_path \<noteq> table_path t"
  "index_catalog_path \<noteq> table_path t" "index_marker_path \<noteq> table_path t" "index_path n \<noteq> table_path t"
  by (metis is_table_name_path not_table_name)+

lemma index_path_neq [simp]:
  "index_path n \<noteq> catalog_path" "index_path n \<noteq> migrations_path"
  "index_path n \<noteq> index_catalog_path" "index_path n \<noteq> index_marker_path"
  "catalog_path \<noteq> index_path n" "migrations_path \<noteq> index_path n"
  "index_catalog_path \<noteq> index_path n" "index_marker_path \<noteq> index_path n"
  by (metis is_index_name_path not_index_name)+

lemma metadata_path_neq [simp]:
  "catalog_path \<noteq> migrations_path" "catalog_path \<noteq> index_catalog_path"
  "catalog_path \<noteq> index_marker_path" "migrations_path \<noteq> catalog_path"
  "migrations_path \<noteq> index_catalog_path" "migrations_path \<noteq> index_marker_path"
  "index_catalog_path \<noteq> catalog_path" "index_catalog_path \<noteq> migrations_path"
  "index_catalog_path \<noteq> index_marker_path" "index_marker_path \<noteq> catalog_path"
  "index_marker_path \<noteq> migrations_path" "index_marker_path \<noteq> index_catalog_path"
  by (simp_all add: catalog_path_def migrations_path_def index_catalog_path_def index_marker_path_def)

text \<open>The temporary name of an atomic write is none of the names the engine keeps.\<close>

definition kept_name :: "string \<Rightarrow> bool" where
  "kept_name f \<longleftrightarrow> (\<exists>t. f = table_path t) \<or> (\<exists>n. f = index_path n) \<or> is_metadata_name f \<or>
     f = index_marker_path"

lemma kept_names [simp]:
  "kept_name (table_path t)" "kept_name (index_path n)" "kept_name catalog_path"
  "kept_name migrations_path" "kept_name index_catalog_path" "kept_name index_marker_path"
  by (auto simp: kept_name_def)

lemma with_extension_ends: "\<exists>p. with_extension f ext = p @ ''.'' @ ext"
  by (auto simp: with_extension_def split: option.splits nat.splits)

lemma rev_prefix_neq:
  assumes "take 5 (rev f) \<noteq> take 5 (rev g)" shows "f \<noteq> g"
  using assms by auto

lemma tmp_write_not_kept [simp]: "\<not> kept_name (with_extension f ''tmp_write'')"
proof -
  obtain p where p: "with_extension f ''tmp_write'' = p @ ''.'' @ ''tmp_write''"
    using with_extension_ends by blast
  have "take 5 (rev (with_extension f ''tmp_write'')) = ''etirw''"
    by (simp add: p)
  moreover have "take 5 (rev g) \<noteq> ''etirw''" if "kept_name g" for g
    using that by (auto simp: kept_name_def is_metadata_name_def table_path_def index_path_def
        catalog_path_def migrations_path_def index_catalog_path_def index_marker_path_def)
  ultimately show ?thesis by metis
qed

lemma tmp_write_neq [simp]:
  "kept_name f \<Longrightarrow> with_extension g ''tmp_write'' \<noteq> f" "kept_name f \<Longrightarrow> f \<noteq> with_extension g ''tmp_write''"
  by auto

lemma atomic_write_files:
  "kept_name f \<Longrightarrow> dk_files (atomic_write path data s) f = (if f = path then Some data else dk_files s f)"
  by (simp add: atomic_write_def Let_def put_file_def remove_file_def)

lemma atomic_write_eq:
  "atomic_write path data s = s\<lparr>dk_files := dk_files (atomic_write path data s)\<rparr>"
  by (simp add: atomic_write_def Let_def put_file_def remove_file_def)

section \<open>Saving and loading sealed documents\<close>

text \<open>A document that is on disk: it loads back.\<close>

definition file_loads :: "deps \<Rightarrow> u8 list \<Rightarrow> (string \<rightharpoonup> string) \<Rightarrow> string \<Rightarrow> (u8 list \<Rightarrow> 'b option) \<Rightarrow>
    'b \<Rightarrow> 'b \<Rightarrow> bool" where
  "file_loads D key f path unjson dflt v \<longleftrightarrow> load_encrypted_json D key f path unjson dflt = Ok v"

lemma file_loads_cong:
  "f path = g path \<Longrightarrow> file_loads D key f path unjson dflt v = file_loads D key g path unjson dflt v"
  by (simp add: file_loads_def load_encrypted_json_def)

lemma save_encrypted_json_ok:
  assumes "deps_ok D" "kept_name path"
  obtains f g where "save_encrypted_json D path bytes s = (Ok (), s\<lparr>dk_files := f, dk_rng := g\<rparr>)"
    "\<And>x. kept_name x \<Longrightarrow> x \<noteq> path \<Longrightarrow> f x = dk_files s x"
    "f path \<noteq> None"
    "\<And>(unjson :: u8 list \<Rightarrow> 'b option) dflt v.
       unjson bytes = Some v \<Longrightarrow> file_loads D (st_key s) f path unjson dflt v"
proof -
  obtain e where e: "encrypt_to_base64 D (st_key s) bytes (dk_rng s) = (Ok e, Suc (dk_rng s))"
    "list_all b64_char e" "e \<noteq> []" "decrypt_from_base64 D (st_key s) e = Ok bytes"
    using encrypt_ok [OF assms(1)] by blast
  define f where "f = dk_files (atomic_write path e (s\<lparr>dk_rng := Suc (dk_rng s)\<rparr>))"
  have 1: "save_encrypted_json D path bytes s = (Ok (), s\<lparr>dk_files := f, dk_rng := Suc (dk_rng s)\<rparr>)"
    unfolding save_encrypted_json_def op_bind_def with_rng_def f_def
    by (simp add: e(1) op_defs) (subst atomic_write_eq, simp)
  have 2: "f path = Some e" "\<And>x. kept_name x \<Longrightarrow> x \<noteq> path \<Longrightarrow> f x = dk_files s x"
    using assms(2) by (simp_all add: atomic_write_files f_def)
  have "utf8_valid e" "trim e \<noteq> []"
    using e(2,3) by (simp_all add: utf8_valid_ascii is_ascii_b64 trim_b64)
  with e(4) have 3: "file_loads D (st_key s) f path unjson dflt v"
    if "unjson bytes = Some v" for unjson :: "u8 list \<Rightarrow> 'b option" and dflt v
    using that by (simp add: file_loads_def load_encrypted_json_def 2(1))
  from 2(1) have "f path \<noteq> None" by simp
  with that [OF 1] 2(2) 3 show ?thesis by blast
qed

section \<open>The abstraction and the invariant\<close>

definition content_of :: "storage \<Rightarrow> string \<Rightarrow> string" where
  "content_of s t = (case dk_files s (table_path t) of None \<Rightarrow> [] | Some c \<Rightarrow> c)"

definition located :: "deps \<Rightarrow> storage \<Rightarrow> string \<Rightarrow> (row_locator \<times> stored_row) list" where
  "located D s t = (case scan_file (decode_row D (st_key s)) (content_of s t) of
     Ok xs \<Rightarrow> xs | Err _ \<Rightarrow> [] | Panic _ \<Rightarrow> [])"

definition stored_of :: "deps \<Rightarrow> storage \<Rightarrow> string \<Rightarrow> stored_row list" where
  "stored_of D s t = map snd (located D s t)"

definition rows_of :: "deps \<Rightarrow> storage \<Rightarrow> string \<Rightarrow> row list" where
  "rows_of D s t = map sr_data (stored_of D s t)"

definition plain_name :: "string \<Rightarrow> bool" where
  "plain_name t \<longleftrightarrow> CHR ''.'' \<notin> set t \<and> CHR ''/'' \<notin> set t"

definition schema_ok :: "string \<Rightarrow> table_schema \<Rightarrow> bool" where
  "schema_ok t sch \<longleftrightarrow> ts_name sch = t \<and> ts_columns sch \<noteq> [] \<and>
     distinct (map cs_name (ts_columns sch)) \<and> plain_name t"

definition tables_ok :: "deps \<Rightarrow> storage \<Rightarrow> bool" where
  "tables_ok D s \<longleftrightarrow> (\<forall>t sch. fmlookup (st_catalog s) t = Some sch \<longrightarrow> schema_ok t sch \<and>
     (\<exists>ps. file_holds (decode_row D (st_key s)) (content_of s t) ps))"

definition index_ok :: "deps \<Rightarrow> storage \<Rightarrow> index_definition \<Rightarrow> bool" where
  "index_ok D s ix \<longleftrightarrow> fmlookup (st_index_maps s) (ix_name ix) =
     Some (build_index D (ix_column ix) (located D s (ix_table ix)))"

definition indexes_ok :: "deps \<Rightarrow> storage \<Rightarrow> bool" where
  "indexes_ok D s \<longleftrightarrow> distinct (map ix_name (st_index_catalog s)) \<and>
     (\<forall>ix \<in> set (st_index_catalog s). fmlookup (st_catalog s) (ix_table ix) \<noteq> None \<and> index_ok D s ix)"

definition caches_ok :: "deps \<Rightarrow> storage \<Rightarrow> bool" where
  "caches_ok D s \<longleftrightarrow> (\<forall>t c ks. unique_cache_of s t c = Some ks \<longrightarrow>
     fmlookup (st_catalog s) t \<noteq> None \<and> ks = column_keys D c (rows_of D s t))"

definition metadata_ok :: "deps \<Rightarrow> storage \<Rightarrow> bool" where
  "metadata_ok D s \<longleftrightarrow>
     file_loads D (st_key s) (dk_files s) catalog_path (d_catalog_unjson D) fmempty (st_catalog s) \<and>
     file_loads D (st_key s) (dk_files s) migrations_path (d_migrations_unjson D) [] (st_migrations s) \<and>
     file_loads D (st_key s) (dk_files s) index_catalog_path (d_indexes_unjson D) [] (st_index_catalog s)"

definition index_files_ok :: "deps \<Rightarrow> storage \<Rightarrow> bool" where
  "index_files_ok D s \<longleftrightarrow>
     (\<forall>ix \<in> set (st_index_catalog s). ix_name ix |\<notin>| st_dirty s \<longrightarrow>
        (\<exists>m. fmlookup (st_index_maps s) (ix_name ix) = Some m \<and>
          file_loads D (st_key s) (dk_files s) (index_path (ix_name ix)) (d_index_map_unjson D) fmempty m)) \<and>
     (dk_files s index_marker_path \<noteq> None \<longrightarrow> st_dirty s = {||} \<and> st_indexes_clean s)"

definition storage_inv :: "deps \<Rightarrow> storage \<Rightarrow> bool" where
  "storage_inv D s \<longleftrightarrow> deps_ok D \<and> tables_ok D s \<and> indexes_ok D s \<and> caches_ok D s \<and>
     metadata_ok D s \<and> index_files_ok D s"

text \<open>Two states with the same columns in every table.\<close>

definition columns_of :: "storage \<Rightarrow> string \<Rightarrow> column_schema list option" where
  "columns_of s t = map_option ts_columns (fmlookup (st_catalog s) t)"

lemma columns_of_None [simp]: "columns_of s t = None \<longleftrightarrow> fmlookup (st_catalog s) t = None"
  by (simp add: columns_of_def)

lemma storage_invD:
  assumes "storage_inv D s"
  shows "deps_ok D" "tables_ok D s" "indexes_ok D s" "caches_ok D s" "metadata_ok D s"
    "index_files_ok D s"
  using assms by (simp_all add: storage_inv_def)

lemma located_cong:
  "st_key s' = st_key s \<Longrightarrow> content_of s' t = content_of s t \<Longrightarrow> located D s' t = located D s t"
  by (simp add: located_def)

lemma located_holds:
  "file_holds (decode_row D (st_key s)) (content_of s t) ps \<Longrightarrow> located D s t = locate 0 ps"
  by (simp add: located_def scan_file_holds)

lemma tables_ok_holds:
  assumes "tables_ok D s" "fmlookup (st_catalog s) t \<noteq> None"
  obtains ps where "file_holds (decode_row D (st_key s)) (content_of s t) ps"
    "located D s t = locate 0 ps"
  using assms located_holds unfolding tables_ok_def by blast

lemma tables_ok_schema:
  "tables_ok D s \<Longrightarrow> fmlookup (st_catalog s) t = Some sch \<Longrightarrow> schema_ok t sch"
  by (simp add: tables_ok_def)

section \<open>Reading\<close>

lemma read_located_ok:
  assumes "tables_ok D s" "fmlookup (st_catalog s) t \<noteq> None"
  shows "read_stored_rows_located D s t = Ok (located D s t)"
proof -
  obtain ps where ps: "file_holds (decode_row D (st_key s)) (content_of s t) ps"
    using tables_ok_holds [OF assms] by blast
  from scan_file_holds [OF ps] assms(2) show ?thesis
    by (auto simp: read_stored_rows_located_def located_def content_of_def scan_file_def
        split_lines.simps split: option.splits)
qed

lemma read_rows_ok:
  assumes "tables_ok D s" "fmlookup (st_catalog s) t \<noteq> None"
  shows "read_stored_rows D s t = Ok (stored_of D s t)" "read_rows D s t = Ok (rows_of D s t)"
  using read_located_ok [OF assms]
  by (simp_all add: read_stored_rows_def read_rows_def stored_of_def rows_of_def)

lemma read_missing:
  assumes "fmlookup (st_catalog s) t = None"
  shows "read_stored_rows_located D s t = Err (TableNotFound t)"
    "read_stored_rows D s t = Err (TableNotFound t)" "read_rows D s t = Err (TableNotFound t)"
  using assms by (simp_all add: read_stored_rows_located_def read_stored_rows_def read_rows_def)

section \<open>Index maps\<close>

lemma build_index_append:
  "build_index D c (xs @ [(loc, r)]) =
   entry_push (d_value_json D (row_get (sr_data r) c)) loc (build_index D c xs)"
  by (simp add: build_index_def)

lemma build_index_get:
  "entry_get (build_index D c xs) k =
   map fst (filter (\<lambda>x. d_value_json D (row_get (sr_data (snd x)) c) = k) xs)"
proof (induction xs rule: rev_induct)
  case (snoc x xs)
  then show ?case by (cases x) (simp add: build_index_append)
qed (simp add: build_index_def)

lemma write_index_map_eq:
  "write_index_map n m s = s\<lparr>dk_files := dk_files (write_index_map n m s),
     st_index_maps := fmupd n m (st_index_maps s), st_dirty := finsert n (st_dirty s),
     st_indexes_clean := False\<rparr>"
  by (simp add: write_index_map_def Let_def remove_file_def)

lemma write_index_map_files [simp]:
  "dk_files (write_index_map n m s) f =
   (if f = index_marker_path \<and> st_indexes_clean s then None else dk_files s f)"
  by (simp add: write_index_map_def Let_def remove_file_def)

lemma write_index_map_fields [simp]:
  "st_key (write_index_map n m s) = st_key s"
  "st_catalog (write_index_map n m s) = st_catalog s"
  "st_migrations (write_index_map n m s) = st_migrations s"
  "st_index_catalog (write_index_map n m s) = st_index_catalog s"
  "st_index_maps (write_index_map n m s) = fmupd n m (st_index_maps s)"
  "st_cursors (write_index_map n m s) = st_cursors s"
  "st_table_files (write_index_map n m s) = st_table_files s"
  "st_unique_caches (write_index_map n m s) = st_unique_caches s"
  "st_dirty (write_index_map n m s) = finsert n (st_dirty s)"
  "st_txn (write_index_map n m s) = st_txn s"
  "dk_snapshot (write_index_map n m s) = dk_snapshot s"
  "dk_rng (write_index_map n m s) = dk_rng s"
  "dk_clock (write_index_map n m s) = dk_clock s"
  "st_indexes_clean (write_index_map n m s) = False"
  by (simp_all add: write_index_map_def Let_def remove_file_def)

end
