(* ===== verification/Storage_Rows.thy ===== *)
theory Storage_Rows
  imports Storage_Inv
begin

text \<open>
  The methods of \<open>Storage\<close> that change rows (\<open>append_row\<close>, \<open>rewrite_rows\<close>,
  \<open>write_stored_rows\<close>, \<open>unique_value_exists\<close>): each keeps the invariant, and its effect on
  the rows of the tables is stated through \<open>stored_of\<close>.
\<close>

section \<open>Saving metadata\<close>

text \<open>The files a save leaves alone.\<close>

definition same_files :: "string set \<Rightarrow> (string \<rightharpoonup> string) \<Rightarrow> (string \<rightharpoonup> string) \<Rightarrow> bool" where
  "same_files X f g \<longleftrightarrow> (\<forall>x. kept_name x \<longrightarrow> x \<notin> X \<longrightarrow> g x = f x)"

lemma same_filesD: "same_files X f g \<Longrightarrow> kept_name x \<Longrightarrow> x \<notin> X \<Longrightarrow> g x = f x"
  by (simp add: same_files_def)

lemma save_ok:
  assumes "deps_ok D" "kept_name path" and u: "(unjson :: u8 list \<Rightarrow> 'a option) bytes = Some v"
  obtains f g where "save_encrypted_json D path bytes s = (Ok (), s\<lparr>dk_files := f, dk_rng := g\<rparr>)"
    "same_files {path} (dk_files s) f" "file_loads D (st_key s) f path unjson dflt v"
proof (rule save_encrypted_json_ok [OF assms(1,2)])
  fix f g
  assume *: "save_encrypted_json D path bytes s = (Ok (), s\<lparr>dk_files := f, dk_rng := g\<rparr>)"
    "\<And>x. kept_name x \<Longrightarrow> x \<noteq> path \<Longrightarrow> f x = dk_files s x"
    "\<And>(unjson :: u8 list \<Rightarrow> 'a option) dflt v.
      unjson bytes = Some v \<Longrightarrow> file_loads D (st_key s) f path unjson dflt v"
  from *(2) have "same_files {path} (dk_files s) f" by (simp add: same_files_def)
  with *(1) *(3) [of unjson v dflt] u show thesis by (intro that)
qed

lemma save_catalog_ok:
  assumes "deps_ok D"
  obtains f g where "save_catalog D s = (Ok (), s\<lparr>dk_files := f, dk_rng := g\<rparr>)"
    "same_files {catalog_path} (dk_files s) f"
    "file_loads D (st_key s) f catalog_path (d_catalog_unjson D) fmempty (st_catalog s)"
proof (rule save_ok [of D catalog_path "d_catalog_unjson D" "d_catalog_json D (st_catalog s)" "st_catalog s" s fmempty])
  fix f g
  assume "save_encrypted_json D catalog_path (d_catalog_json D (st_catalog s)) s = (Ok (), s\<lparr>dk_files := f, dk_rng := g\<rparr>)"
    "same_files {catalog_path} (dk_files s) f"
    "file_loads D (st_key s) f catalog_path (d_catalog_unjson D) fmempty (st_catalog s)"
  then show thesis by (intro that) (simp_all add: save_catalog_def)
qed (simp_all add: assms)

lemma save_migrations_ok:
  assumes "deps_ok D"
  obtains f g where "save_migrations D s = (Ok (), s\<lparr>dk_files := f, dk_rng := g\<rparr>)"
    "same_files {migrations_path} (dk_files s) f"
    "file_loads D (st_key s) f migrations_path (d_migrations_unjson D) [] (st_migrations s)"
proof (rule save_ok [of D migrations_path "d_migrations_unjson D" "d_migrations_json D (st_migrations s)" "st_migrations s" s "[]"])
  fix f g
  assume "save_encrypted_json D migrations_path (d_migrations_json D (st_migrations s)) s = (Ok (), s\<lparr>dk_files := f, dk_rng := g\<rparr>)"
    "same_files {migrations_path} (dk_files s) f"
    "file_loads D (st_key s) f migrations_path (d_migrations_unjson D) [] (st_migrations s)"
  then show thesis by (intro that) (simp_all add: save_migrations_def)
qed (simp_all add: assms)

lemma save_index_catalog_ok:
  assumes "deps_ok D"
  obtains f g where "save_index_catalog D s = (Ok (), s\<lparr>dk_files := f, dk_rng := g\<rparr>)"
    "same_files {index_catalog_path} (dk_files s) f"
    "file_loads D (st_key s) f index_catalog_path (d_indexes_unjson D) [] (st_index_catalog s)"
proof (rule save_ok [of D index_catalog_path "d_indexes_unjson D" "d_indexes_json D (st_index_catalog s)" "st_index_catalog s" s "[]"])
  fix f g
  assume "save_encrypted_json D index_catalog_path (d_indexes_json D (st_index_catalog s)) s = (Ok (), s\<lparr>dk_files := f, dk_rng := g\<rparr>)"
    "same_files {index_catalog_path} (dk_files s) f"
    "file_loads D (st_key s) f index_catalog_path (d_indexes_unjson D) [] (st_index_catalog s)"
  then show thesis by (intro that) (simp_all add: save_index_catalog_def)
qed (simp_all add: assms)

lemma save_index_map_ok:
  assumes "deps_ok D"
  obtains f g where "save_encrypted_json D (index_path n) (d_index_map_json D m) s =
      (Ok (), s\<lparr>dk_files := f, dk_rng := g\<rparr>)"
    "same_files {index_path n} (dk_files s) f"
    "file_loads D (st_key s) f (index_path n) (d_index_map_unjson D) fmempty m"
proof (rule save_ok [of D "index_path n" "d_index_map_unjson D" "d_index_map_json D m" m s fmempty])
  fix f g
  assume "save_encrypted_json D (index_path n) (d_index_map_json D m) s = (Ok (), s\<lparr>dk_files := f, dk_rng := g\<rparr>)"
    "same_files {index_path n} (dk_files s) f"
    "file_loads D (st_key s) f (index_path n) (d_index_map_unjson D) fmempty m"
  then show thesis by (rule that)
qed (simp_all add: assms)

section \<open>Writing several index maps\<close>

definition write_maps :: "(string \<times> index_map) list \<Rightarrow> storage \<Rightarrow> storage" where
  "write_maps ps s = fold (\<lambda>(n, m). write_index_map n m) ps s"

lemma write_maps_simps [simp]:
  "write_maps [] s = s" "write_maps ((n, m) # ps) s = write_maps ps (write_index_map n m s)"
  by (simp_all add: write_maps_def)

lemma write_maps_fields [simp]:
  "st_key (write_maps ps s) = st_key s"
  "st_catalog (write_maps ps s) = st_catalog s"
  "st_migrations (write_maps ps s) = st_migrations s"
  "st_index_catalog (write_maps ps s) = st_index_catalog s"
  "st_cursors (write_maps ps s) = st_cursors s"
  "st_table_files (write_maps ps s) = st_table_files s"
  "st_unique_caches (write_maps ps s) = st_unique_caches s"
  "st_txn (write_maps ps s) = st_txn s"
  "dk_snapshot (write_maps ps s) = dk_snapshot s"
  "dk_rng (write_maps ps s) = dk_rng s"
  "dk_clock (write_maps ps s) = dk_clock s"
  by (induction ps arbitrary: s) auto

lemma write_maps_files:
  "f \<noteq> index_marker_path \<Longrightarrow> dk_files (write_maps ps s) f = dk_files s f"
  "dk_files (write_maps ps s) index_marker_path =
    (if ps \<noteq> [] \<and> st_indexes_clean s then None else dk_files s index_marker_path)"
  by (induction ps arbitrary: s) auto

lemma write_maps_flags:
  "st_indexes_clean (write_maps ps s) = (ps = [] \<and> st_indexes_clean s)"
  "st_dirty (write_maps ps s) = st_dirty s |\<union>| fset_of_list (map fst ps)"
  by (induction ps arbitrary: s) (auto simp del: fset_of_list_map)

lemma write_maps_lookup:
  "fmlookup (st_index_maps (write_maps ps s)) n =
   (case map_of (rev ps) n of None \<Rightarrow> fmlookup (st_index_maps s) n | Some m \<Rightarrow> Some m)"
  by (induction ps arbitrary: s) (auto simp: map_add_def split: option.splits)

lemma map_of_rev_distinct: "distinct (map fst ps) \<Longrightarrow> map_of (rev ps) n = map_of ps n"
  by (subst map_of_inject_set [of "rev ps" ps, THEN iffD2]) (auto simp: rev_map [symmetric])

lemma map_of_map_find:
  "map_of (map (\<lambda>x. (f x, g x)) xs) n = map_option g (find (\<lambda>x. f x = n) xs)"
  by (induction xs) auto

lemma map_of_rev_map:
  "distinct (map f xs) \<Longrightarrow>
   map_of (rev (map (\<lambda>x. (f x, g x)) xs)) n = map_option g (find (\<lambda>x. f x = n) xs)"
  by (simp add: map_of_rev_distinct comp_def map_of_map_find)

text \<open>The maps of the indexes of a table, as a rebuild on \<open>s1\<close> computes them.\<close>

definition table_indexes :: "storage \<Rightarrow> string \<Rightarrow> index_definition list" where
  "table_indexes s t = filter (\<lambda>ix. ix_table ix = t) (st_index_catalog s)"

definition rebuilt_maps :: "deps \<Rightarrow> storage \<Rightarrow> string \<Rightarrow> (string \<times> index_map) list" where
  "rebuilt_maps D s t =
     map (\<lambda>ix. (ix_name ix, build_index D (ix_column ix) (located D s t))) (table_indexes s t)"

lemma find_name_distinct:
  assumes "distinct (map ix_name ixs)" "ix \<in> set ixs"
  shows "find (\<lambda>i. ix_name i = ix_name ix) ixs = Some ix"
  using assms by (induction ixs) (auto simp: rev_image_eqI)

lemma rebuilt_maps_lookup:
  assumes "distinct (map ix_name (st_index_catalog s))" "ix \<in> set (st_index_catalog s)"
  shows "map_of (rev (rebuilt_maps D s t)) (ix_name ix) =
    (if ix_table ix = t then Some (build_index D (ix_column ix) (located D s t)) else None)"
proof -
  from assms have d: "distinct (map ix_name (table_indexes s t))"
    by (simp add: table_indexes_def distinct_map_filter)
  have "find (\<lambda>i. ix_name i = ix_name ix) (table_indexes s t) = (if ix_table ix = t then Some ix else None)"
    using assms find_name_distinct [OF d, of ix]
    by (auto simp: table_indexes_def find_None_iff dest: eq_key_imp_eq_value)
      (metis distinct_map inj_onD)
  then show ?thesis by (simp add: rebuilt_maps_def map_of_rev_map [OF d])
qed

lemma located_write_maps [simp]: "located D (write_maps ps s) t = located D s t"
  by (rule located_cong) (simp_all add: content_of_def write_maps_files)

lemma located_write_index_map [simp]: "located D (write_index_map n m s) t = located D s t"
  by (rule located_cong) (simp_all add: content_of_def)

lemma content_write_index_map [simp]: "content_of (write_index_map n m s) t = content_of s t"
  by (simp add: content_of_def)

lemma tables_ok_write_index_map [simp]: "tables_ok D (write_index_map n m s) = tables_ok D s"
  by (simp add: tables_ok_def)

lemma rebuild_index_ok:
  assumes "tables_ok D s" "find (\<lambda>i. ix_name i = n) (st_index_catalog s) = Some ix"
    and "fmlookup (st_catalog s) (ix_table ix) \<noteq> None"
  defines "m \<equiv> build_index D (ix_column ix) (located D s (ix_table ix))"
  shows "rebuild_index D n s = (Ok (fcard (fmdom m)), write_index_map n m s)"
  using assms(2) read_located_ok [OF assms(1,3)]
  by (simp add: rebuild_index_def Let_def m_def op_apply)

lemma rebuild_each_ok:
  assumes "tables_ok D s" "distinct (map ix_name (st_index_catalog s))"
    and "set ixs \<subseteq> set (st_index_catalog s)"
    and "\<And>ix. ix \<in> set ixs \<Longrightarrow> fmlookup (st_catalog s) (ix_table ix) \<noteq> None"
  shows "op_each (rebuild_index_unit D) (map ix_name ixs) s =
    (Ok (), write_maps (map (\<lambda>ix. (ix_name ix, build_index D (ix_column ix)
       (located D s (ix_table ix)))) ixs) s)"
  using assms(1,2,3,4)
proof (induction ixs arbitrary: s)
  case (Cons ix ixs)
  let ?m = "build_index D (ix_column ix) (located D s (ix_table ix))"
  have "rebuild_index D (ix_name ix) s = (Ok (fcard (fmdom ?m)), write_index_map (ix_name ix) ?m s)"
    using Cons.prems by (intro rebuild_index_ok find_name_distinct) auto
  then have 1: "rebuild_index_unit D (ix_name ix) s = (Ok (), write_index_map (ix_name ix) ?m s)"
    by (simp add: rebuild_index_unit_def op_bind_step op_apply)
  from Cons.IH [of "write_index_map (ix_name ix) ?m s"] Cons.prems
  show ?case by (simp add: op_seq_step(1) [where m = "rebuild_index_unit D (ix_name ix)", OF 1])
qed (simp add: op_apply)

lemma rebuild_table_ok:
  assumes "tables_ok D s" "distinct (map ix_name (st_index_catalog s))" "fmlookup (st_catalog s) t \<noteq> None"
  shows "rebuild_indexes_for_table D t s = (Ok (), write_maps (rebuilt_maps D s t) s)"
proof -
  have "map (\<lambda>ix. (ix_name ix, build_index D (ix_column ix) (located D s (ix_table ix)))) (table_indexes s t)
      = rebuilt_maps D s t"
    by (auto simp: rebuilt_maps_def table_indexes_def)
  with rebuild_each_ok [OF assms(1,2), of "table_indexes s t"] assms(3)
  show ?thesis by (auto simp: rebuild_indexes_for_table_def table_indexes_def)
qed

section \<open>Congruence of the parts of the invariant\<close>

lemma content_same_files:
  "same_files X (dk_files s) (dk_files s') \<Longrightarrow> table_path t \<notin> X \<Longrightarrow> content_of s' t = content_of s t"
  by (simp add: content_of_def same_filesD)

lemma file_loads_same:
  "same_files X f g \<Longrightarrow> kept_name path \<Longrightarrow> path \<notin> X \<Longrightarrow>
   file_loads D key g path u d v = file_loads D key f path u d v"
  by (rule file_loads_cong) (rule same_filesD)

lemma tables_ok_cong:
  assumes "tables_ok D s" "st_key s' = st_key s"
    and "\<And>t sch. fmlookup (st_catalog s') t = Some sch \<Longrightarrow> content_of s' t = content_of s t \<and>
      (\<exists>sch0. fmlookup (st_catalog s) t = Some sch0 \<and> (schema_ok t sch0 \<longrightarrow> schema_ok t sch))"
  shows "tables_ok D s'"
  using assms unfolding tables_ok_def by metis

lemma metadata_ok_cong:
  assumes "metadata_ok D s" "same_files X (dk_files s) (dk_files s')"
    and "catalog_path \<notin> X" "migrations_path \<notin> X" "index_catalog_path \<notin> X"
    and "st_key s' = st_key s" "st_catalog s' = st_catalog s" "st_migrations s' = st_migrations s"
      "st_index_catalog s' = st_index_catalog s"
  shows "metadata_ok D s'"
  using assms by (simp add: metadata_ok_def file_loads_same [OF assms(2)])

lemma index_files_ok_cong:
  assumes "index_files_ok D s" "same_files X (dk_files s) (dk_files s')"
    and "index_marker_path \<notin> X" "\<And>n. index_path n \<notin> X"
    and "st_key s' = st_key s" "st_index_catalog s' = st_index_catalog s"
      "st_index_maps s' = st_index_maps s" "st_dirty s' = st_dirty s"
      "st_indexes_clean s' = st_indexes_clean s"
  shows "index_files_ok D s'"
  using assms
  by (simp add: index_files_ok_def file_loads_same [OF assms(2)] same_filesD [OF assms(2)])

lemma indexes_ok_cong:
  assumes "indexes_ok D s" "st_index_catalog s' = st_index_catalog s" "st_index_maps s' = st_index_maps s"
    and "fmdom (st_catalog s') = fmdom (st_catalog s)" "\<And>t. located D s' t = located D s t"
  shows "indexes_ok D s'"
proof -
  have "fmlookup (st_catalog s') t = None \<longleftrightarrow> fmlookup (st_catalog s) t = None" for t
    using assms(4) by (metis fmdom_notD fmdom_notI)
  with assms show ?thesis by (auto simp: indexes_ok_def index_ok_def)
qed

lemma caches_ok_cong:
  assumes "caches_ok D s" "st_unique_caches s' = st_unique_caches s"
    and "fmdom (st_catalog s') = fmdom (st_catalog s)" "\<And>t. located D s' t = located D s t"
  shows "caches_ok D s'"
proof -
  have "fmlookup (st_catalog s') t = None \<longleftrightarrow> fmlookup (st_catalog s) t = None" for t
    using assms(3) by (metis fmdom_notD fmdom_notI)
  with assms show ?thesis
    by (simp add: caches_ok_def unique_cache_of_def rows_of_def stored_of_def)
qed

section \<open>Effects\<close>

text \<open>What the operations on rows leave alone.\<close>

definition row_frame :: "storage \<Rightarrow> storage \<Rightarrow> bool" where
  "row_frame s s' \<longleftrightarrow> st_key s' = st_key s \<and> columns_of s' = columns_of s \<and>
     st_index_catalog s' = st_index_catalog s \<and> st_migrations s' = st_migrations s \<and>
     st_txn s' = st_txn s \<and> dk_snapshot s' = dk_snapshot s"

lemma row_frame_refl [simp]: "row_frame s s"
  by (simp add: row_frame_def)

lemma row_frame_trans: "row_frame s s' \<Longrightarrow> row_frame s' s'' \<Longrightarrow> row_frame s s''"
  by (simp add: row_frame_def)

lemma columns_of_eq_None:
  "columns_of s' = columns_of s \<Longrightarrow> fmlookup (st_catalog s') t = None \<longleftrightarrow> fmlookup (st_catalog s) t = None"
  by (metis columns_of_None)

lemma row_frame_None:
  "row_frame s s' \<Longrightarrow> fmlookup (st_catalog s') t = None \<longleftrightarrow> fmlookup (st_catalog s) t = None"
  unfolding row_frame_def using columns_of_eq_None by blast

definition same_rows :: "deps \<Rightarrow> string set \<Rightarrow> storage \<Rightarrow> storage \<Rightarrow> bool" where
  "same_rows D X s s' \<longleftrightarrow> (\<forall>t. t \<notin> X \<longrightarrow> fmlookup (st_catalog s) t \<noteq> None \<longrightarrow>
     stored_of D s' t = stored_of D s t)"

lemma same_rows_refl [simp]: "same_rows D X s s"
  by (simp add: same_rows_def)

lemma same_rows_trans:
  "row_frame s s' \<Longrightarrow> same_rows D X s s' \<Longrightarrow> same_rows D X s' s'' \<Longrightarrow> same_rows D X s s''"
  unfolding same_rows_def using row_frame_None by metis

lemma same_rows_rows:
  "same_rows D X s s' \<Longrightarrow> t \<notin> X \<Longrightarrow> fmlookup (st_catalog s) t \<noteq> None \<Longrightarrow> rows_of D s' t = rows_of D s t"
  by (simp add: same_rows_def rows_of_def)

text \<open>The files a rewrite of a table touches: the table file and the temporary file beside it.\<close>

definition rewrite_paths :: "string \<Rightarrow> string set" where
  "rewrite_paths t = {table_path t, rewrite_tmp_path t}"

lemma rewrite_paths_simps [simp]:
  "table_path t \<in> rewrite_paths t" "catalog_path \<notin> rewrite_paths t" "migrations_path \<notin> rewrite_paths t"
  "index_catalog_path \<notin> rewrite_paths t" "index_path n \<notin> rewrite_paths t"
  "index_marker_path \<notin> rewrite_paths t"
  by (simp_all add: rewrite_paths_def rewrite_tmp_path_def)

lemma rewrite_paths_plain: "plain_name u \<Longrightarrow> u \<noteq> t \<Longrightarrow> table_path u \<notin> rewrite_paths t"
  by (auto simp: rewrite_paths_def rewrite_tmp_path_def plain_name_def)

lemma tables_ok_plain: "tables_ok D s \<Longrightarrow> fmlookup (st_catalog s) u \<noteq> None \<Longrightarrow> plain_name u"
  by (auto simp: schema_ok_def dest!: tables_ok_schema)

text \<open>The invariant, but the maps of the indexes of one table may be out of date.\<close>

definition storage_inv_but :: "deps \<Rightarrow> string \<Rightarrow> storage \<Rightarrow> bool" where
  "storage_inv_but D t s \<longleftrightarrow> deps_ok D \<and> tables_ok D s \<and> caches_ok D s \<and> metadata_ok D s \<and>
     index_files_ok D s \<and> distinct (map ix_name (st_index_catalog s)) \<and>
     (\<forall>ix \<in> set (st_index_catalog s). fmlookup (st_catalog s) (ix_table ix) \<noteq> None \<and>
        (ix_table ix \<noteq> t \<longrightarrow> index_ok D s ix))"

lemma storage_inv_butD:
  assumes "storage_inv_but D t s"
  shows "deps_ok D" "tables_ok D s" "caches_ok D s" "metadata_ok D s" "index_files_ok D s"
    "distinct (map ix_name (st_index_catalog s))"
    "\<And>ix. ix \<in> set (st_index_catalog s) \<Longrightarrow> fmlookup (st_catalog s) (ix_table ix) \<noteq> None"
    "\<And>ix. ix \<in> set (st_index_catalog s) \<Longrightarrow> ix_table ix \<noteq> t \<Longrightarrow> index_ok D s ix"
  using assms by (auto simp: storage_inv_but_def)

lemma storage_inv_imp_but: "storage_inv D s \<Longrightarrow> storage_inv_but D t s"
  by (simp add: storage_inv_but_def storage_inv_def indexes_ok_def)

text \<open>A table file is replaced and the indexes of the table are rebuilt.\<close>

lemma storage_inv_table_change:
  assumes inv: "storage_inv_but D t s"
    and s1: "st_key s1 = st_key s" "st_catalog s1 = st_catalog s" "st_migrations s1 = st_migrations s"
      "st_index_catalog s1 = st_index_catalog s" "st_index_maps s1 = st_index_maps s"
      "st_dirty s1 = st_dirty s" "st_indexes_clean s1 = st_indexes_clean s"
    and files: "same_files (rewrite_paths t) (dk_files s) (dk_files s1)"
    and t: "fmlookup (st_catalog s) t \<noteq> None"
    and holds: "file_holds (decode_row D (st_key s)) (content_of s1 t) ps"
    and caches: "caches_ok D s1"
  shows "storage_inv D (write_maps (rebuilt_maps D s1 t) s1)"
proof -
  let ?s = "write_maps (rebuilt_maps D s1 t) s1"
  note plain = tables_ok_plain [OF storage_inv_butD(2) [OF inv]]
  have c: "content_of s1 t' = content_of s t'" if "t' \<noteq> t" "fmlookup (st_catalog s) t' \<noteq> None" for t'
    using rewrite_paths_plain [OF plain [OF that(2)] that(1)] by (intro content_same_files [OF files])
  have l: "located D s1 t' = located D s t'" if "t' \<noteq> t" "fmlookup (st_catalog s) t' \<noteq> None" for t'
    using c [OF that] s1(1) by (rule located_cong [rotated])
  have t1: "tables_ok D s1"
    unfolding tables_ok_def
  proof (intro allI impI)
    fix u sch assume u: "fmlookup (st_catalog s1) u = Some sch"
    with storage_inv_butD(2) [OF inv] have "schema_ok u sch \<and>
        (\<exists>ps. file_holds (decode_row D (st_key s)) (content_of s u) ps)"
      by (simp add: tables_ok_def s1)
    with holds c [of u] u show "schema_ok u sch \<and> (\<exists>ps. file_holds (decode_row D (st_key s1)) (content_of s1 u) ps)"
      by (cases "u = t") (auto simp: s1)
  qed
  then have tables: "tables_ok D ?s" by (simp add: tables_ok_def content_of_def write_maps_files)
  have d: "distinct (map ix_name (st_index_catalog s1))"
    using storage_inv_butD(6) [OF inv] s1 by simp
  have "index_ok D ?s ix" if "ix \<in> set (st_index_catalog s1)" for ix
    using that rebuilt_maps_lookup [OF d that, of D t] storage_inv_butD(7,8) [OF inv, of ix] s1 l [of "ix_table ix"]
    by (auto simp: index_ok_def write_maps_lookup)
  with storage_inv_butD(6,7) [OF inv] s1 have indexes: "indexes_ok D ?s"
    by (simp add: indexes_ok_def)
  have "caches_ok D ?s"
    using caches by (rule caches_ok_cong) simp_all
  moreover have "metadata_ok D ?s"
  proof (rule metadata_ok_cong [OF storage_inv_butD(4) [OF inv]])
    show "same_files (insert index_marker_path (rewrite_paths t)) (dk_files s) (dk_files ?s)"
      unfolding same_files_def
    proof (intro allI impI)
      fix x assume x: "kept_name x" "x \<notin> insert index_marker_path (rewrite_paths t)"
      then have "dk_files ?s x = dk_files s1 x" by (intro write_maps_files(1)) simp
      also have "\<dots> = dk_files s x" using x by (intro same_filesD [OF files]) simp_all
      finally show "dk_files ?s x = dk_files s x" .
    qed
  qed (simp_all add: s1)
  moreover have "index_files_ok D ?s"
  proof -
    have m: "fmlookup (st_index_maps ?s) (ix_name ix) = fmlookup (st_index_maps s) (ix_name ix) \<and>
        ix_name ix |\<notin>| st_dirty s"
      if "ix_name ix |\<notin>| st_dirty ?s" for ix
    proof -
      from that have "ix_name ix |\<notin>| st_dirty s" and n: "ix_name ix \<notin> fst ` set (rebuilt_maps D s1 t)"
        by (auto simp: write_maps_flags s1 fset_of_list.rep_eq)
      from n have "map_of (rev (rebuilt_maps D s1 t)) (ix_name ix) = None"
        by (simp add: map_of_eq_None_iff)
      with \<open>ix_name ix |\<notin>| st_dirty s\<close> show ?thesis by (simp add: write_maps_lookup s1)
    qed
    have "dk_files ?s (index_path n) = dk_files s (index_path n)" for n
      using files by (simp add: write_maps_files same_filesD)
    then have fl: "file_loads D k (dk_files ?s) (index_path n) u d v =
        file_loads D k (dk_files s) (index_path n) u d v" for k n u d and v :: index_map
      by (rule file_loads_cong)
    have mk: "dk_files s1 index_marker_path = dk_files s index_marker_path"
      using files by (simp add: same_filesD)
    note i = storage_inv_butD(5) [OF inv, unfolded index_files_ok_def]
    show ?thesis
      unfolding index_files_ok_def
    proof (intro conjI ballI impI)
      fix ix assume ix: "ix \<in> set (st_index_catalog ?s)" "ix_name ix |\<notin>| st_dirty ?s"
      with i m [OF ix(2)] s1 show "\<exists>m. fmlookup (st_index_maps ?s) (ix_name ix) = Some m \<and>
          file_loads D (st_key ?s) (dk_files ?s) (index_path (ix_name ix)) (d_index_map_unjson D) fmempty m"
        unfolding fl by simp
    next
      assume p: "dk_files ?s index_marker_path \<noteq> None"
      then have "dk_files s index_marker_path \<noteq> None"
        and n: "rebuilt_maps D s1 t = [] \<or> \<not> st_indexes_clean s"
        by (auto simp: write_maps_files mk s1 split: if_splits)
      with i have "st_dirty s = {||}" "st_indexes_clean s" by auto
      with n show "st_dirty ?s = {||}" "st_indexes_clean ?s"
        by (auto simp: write_maps_flags s1)
    qed
  qed
  ultimately show ?thesis
    using tables indexes storage_inv_butD(1) [OF inv] by (simp add: storage_inv_def)
qed

text \<open>Fields the invariant does not mention.\<close>

lemma content_of_irrelevant [simp]:
  "content_of (s\<lparr>st_cursors := c\<rparr>) t = content_of s t"
  "content_of (s\<lparr>st_table_files := h\<rparr>) t = content_of s t"
  "content_of (s\<lparr>st_txn := b\<rparr>) t = content_of s t"
  "content_of (s\<lparr>dk_snapshot := sn\<rparr>) t = content_of s t"
  "content_of (s\<lparr>dk_rng := g\<rparr>) t = content_of s t"
  "content_of (s\<lparr>dk_clock := k\<rparr>) t = content_of s t"
  "content_of (s\<lparr>st_unique_caches := u\<rparr>) t = content_of s t"
  "content_of (s\<lparr>st_catalog := cat\<rparr>) t = content_of s t"
  "content_of (s\<lparr>st_migrations := ms\<rparr>) t = content_of s t"
  "content_of (s\<lparr>st_index_catalog := ic\<rparr>) t = content_of s t"
  "content_of (s\<lparr>st_index_maps := im\<rparr>) t = content_of s t"
  "content_of (s\<lparr>st_dirty := dd\<rparr>) t = content_of s t"
  "content_of (s\<lparr>st_indexes_clean := b\<rparr>) t = content_of s t"
  by (simp_all add: content_of_def)

lemma located_irrelevant [simp]:
  "located D (s\<lparr>st_cursors := c\<rparr>) t = located D s t"
  "located D (s\<lparr>st_table_files := h\<rparr>) t = located D s t"
  "located D (s\<lparr>st_txn := b\<rparr>) t = located D s t"
  "located D (s\<lparr>dk_snapshot := sn\<rparr>) t = located D s t"
  "located D (s\<lparr>dk_rng := g\<rparr>) t = located D s t"
  "located D (s\<lparr>dk_clock := k\<rparr>) t = located D s t"
  "located D (s\<lparr>st_unique_caches := u\<rparr>) t = located D s t"
  "located D (s\<lparr>st_catalog := cat\<rparr>) t = located D s t"
  "located D (s\<lparr>st_migrations := ms\<rparr>) t = located D s t"
  "located D (s\<lparr>st_index_catalog := ic\<rparr>) t = located D s t"
  "located D (s\<lparr>st_index_maps := im\<rparr>) t = located D s t"
  "located D (s\<lparr>st_dirty := dd\<rparr>) t = located D s t"
  "located D (s\<lparr>st_indexes_clean := b\<rparr>) t = located D s t"
  by (simp_all add: located_def)

lemmas inv_parts = tables_ok_def indexes_ok_def index_ok_def caches_ok_def unique_cache_of_def
  rows_of_def stored_of_def metadata_ok_def index_files_ok_def

lemma storage_inv_irrelevant [simp]:
  "storage_inv D (s\<lparr>st_cursors := c\<rparr>) = storage_inv D s"
  "storage_inv D (s\<lparr>st_table_files := h\<rparr>) = storage_inv D s"
  "storage_inv D (s\<lparr>st_txn := b\<rparr>) = storage_inv D s"
  "storage_inv D (s\<lparr>dk_snapshot := sn\<rparr>) = storage_inv D s"
  "storage_inv D (s\<lparr>dk_rng := g\<rparr>) = storage_inv D s"
  "storage_inv D (s\<lparr>dk_clock := k\<rparr>) = storage_inv D s"
  by (simp_all add: storage_inv_def inv_parts)

lemma stored_of_located: "(\<And>t. located D s' t = located D s t) \<Longrightarrow> same_rows D X s s'"
  by (simp add: same_rows_def stored_of_def)

text \<open>The metadata changes, the tables keep their rows and their indexes.\<close>

definition meta_paths :: "string set" where
  "meta_paths = {catalog_path, migrations_path, index_catalog_path}"

lemma table_path_meta [simp]: "table_path t \<notin> meta_paths" "index_path n \<notin> meta_paths"
  "index_marker_path \<notin> meta_paths"
  by (simp_all add: meta_paths_def)

lemma same_files_mono: "same_files X f g \<Longrightarrow> X \<subseteq> Y \<Longrightarrow> same_files Y f g"
  unfolding same_files_def by blast

lemma same_files_trans: "same_files X f g \<Longrightarrow> same_files X g h \<Longrightarrow> same_files X f h"
  unfolding same_files_def by simp

lemma same_files_refl [simp]: "same_files X f f"
  by (simp add: same_files_def)

lemma storage_inv_metadata_change:
  assumes inv: "storage_inv D s"
    and same: "st_key s' = st_key s" "st_index_catalog s' = st_index_catalog s"
      "st_index_maps s' = st_index_maps s" "st_dirty s' = st_dirty s"
      "st_indexes_clean s' = st_indexes_clean s" "st_unique_caches s' = st_unique_caches s"
    and dom: "fmdom (st_catalog s') = fmdom (st_catalog s)"
    and schemas: "\<And>t sch. fmlookup (st_catalog s') t = Some sch \<Longrightarrow> schema_ok t sch"
    and files: "same_files meta_paths (dk_files s) (dk_files s')"
    and meta: "metadata_ok D s'"
  shows "storage_inv D s'" and "located D s' t = located D s t"
proof -
  have c: "content_of s' t = content_of s t" for t
    by (rule content_same_files [OF files]) simp
  have l: "located D s' t = located D s t" for t
    using same(1) c by (rule located_cong)
  then show "located D s' t = located D s t" .
  have "\<exists>sch0. fmlookup (st_catalog s) t = Some sch0" if "fmlookup (st_catalog s') t = Some sch" for t sch
    using dom that by (metis fmdomI fmlookup_dom_iff)
  then have "tables_ok D s'"
    using storage_invD(2) [OF inv] same(1) c schemas unfolding tables_ok_def by metis
  moreover have "indexes_ok D s'"
    by (rule indexes_ok_cong [OF storage_invD(3) [OF inv]]) (simp_all add: same dom l)
  moreover have "caches_ok D s'"
    by (rule caches_ok_cong [OF storage_invD(4) [OF inv]]) (simp_all add: same dom l)
  moreover have "index_files_ok D s'"
    by (rule index_files_ok_cong [OF storage_invD(6) [OF inv] files]) (simp_all add: same)
  ultimately show "storage_inv D s'"
    using meta storage_invD(1) [OF inv] by (simp add: storage_inv_def)
qed

section \<open>Row ids\<close>

lemma schema_ok_next [simp]: "schema_ok t (sch\<lparr>ts_next_row_id := n\<rparr>) = schema_ok t sch"
  by (simp add: schema_ok_def)

lemma storage_inv_schema: "storage_inv D s \<Longrightarrow> fmlookup (st_catalog s) t = Some sch \<Longrightarrow> schema_ok t sch"
  using storage_invD(2) tables_ok_schema by blast

lemma allocate_row_id_ok:
  assumes inv: "storage_inv D s" and t: "fmlookup (st_catalog s) t \<noteq> None"
  obtains rid s' where "allocate_row_id D t s = (Ok rid, s')" "storage_inv D s'" "row_frame s s'"
    "\<And>t'. located D s' t' = located D s t'" "st_unique_caches s' = st_unique_caches s"
proof -
  note D = storage_invD(1) [OF inv]
  obtain sch where sch: "fmlookup (st_catalog s) t = Some sch" using t by auto
  let ?start = "ts_next_row_id sch"
  let ?s1 = "s\<lparr>st_catalog := fmupd t (sch\<lparr>ts_next_row_id := ?start + ROW_ID_BATCH\<rparr>) (st_catalog s)\<rparr>"
  obtain f g where f: "save_catalog D ?s1 = (Ok (), ?s1\<lparr>dk_files := f, dk_rng := g\<rparr>)"
    "same_files {catalog_path} (dk_files ?s1) f"
    "file_loads D (st_key ?s1) f catalog_path (d_catalog_unjson D) fmempty (st_catalog ?s1)"
    by (rule save_catalog_ok [OF D, of ?s1]) (rule that)
  let ?s2 = "?s1\<lparr>dk_files := f, dk_rng := g\<rparr>"
  let ?s3 = "?s2\<lparr>st_cursors := fmupd t (?start + 1, ?start + ROW_ID_BATCH) (st_cursors s)\<rparr>"
  from f(2) have files: "same_files {catalog_path} (dk_files s) (dk_files ?s2)" by simp
  have meta: "metadata_ok D ?s2"
    using storage_invD(5) [OF inv] f(3) by (simp add: metadata_ok_def file_loads_same [OF files, simplified])
  have dom: "fmdom (st_catalog ?s2) = fmdom (st_catalog s)"
    using sch by (simp add: fmdomI finsert_absorb)
  have schemas: "schema_ok u sc" if "fmlookup (st_catalog ?s2) u = Some sc" for u sc
    using storage_inv_schema [OF inv] sch that by (auto split: if_splits)
  have files': "same_files meta_paths (dk_files s) (dk_files ?s2)"
    by (rule same_files_mono [OF files]) (simp add: meta_paths_def)
  have ch: "storage_inv D ?s2" "located D ?s2 t' = located D s t'" for t'
    by (rule storage_inv_metadata_change [OF inv _ _ _ _ _ _ dom schemas files' meta]; simp)+
  have fresh: "op_bind (op_read (\<lambda>s. get_schema s t)) (\<lambda>schema.
       let start = ts_next_row_id schema in
       op_seq (op_mod (\<lambda>s. s\<lparr>st_catalog :=
           fmupd t (schema\<lparr>ts_next_row_id := start + ROW_ID_BATCH\<rparr>) (st_catalog s)\<rparr>))
      (op_seq (save_catalog D)
      (op_seq (op_mod (\<lambda>s. s\<lparr>st_cursors :=
           fmupd t (start + 1, start + ROW_ID_BATCH) (st_cursors s)\<rparr>))
      (op_ret start)))) s = (Ok ?start, ?s3)"
    by (simp add: get_schema_def sch Let_def op_seq_step f(1) op_apply)
  have fr: "row_frame s ?s3"
    using sch by (auto simp: row_frame_def columns_of_def fun_eq_iff)
  show ?thesis
  proof (cases "fmlookup (st_cursors s) t")
    case None
    with fresh ch fr show ?thesis
      by (intro that [of ?start ?s3]) (simp_all add: allocate_row_id_def Let_def)
  next
    case (Some c)
    obtain nx lim where c: "c = (nx, lim)" by fastforce
    show ?thesis
    proof (cases "nx < lim")
      case True
      with Some c inv show ?thesis
        by (intro that [of nx "s\<lparr>st_cursors := fmupd t (nx + 1, lim) (st_cursors s)\<rparr>"])
          (simp_all add: allocate_row_id_def row_frame_def columns_of_def fun_eq_iff)
    next
      case False
      with Some c fresh ch fr show ?thesis
        by (intro that [of ?start ?s3]) (simp_all add: allocate_row_id_def Let_def)
    qed
  qed
qed

section \<open>Appending a row\<close>

lemma index_append_eq:
  "fmlookup (st_index_maps s) n = Some m \<Longrightarrow>
   index_append D row loc (n, c) s = write_index_map n (entry_push (d_value_json D (row_get row c)) loc m) s"
proof -
  assume m: "fmlookup (st_index_maps s) n = Some m"
  have "fmupd n m' (fmdrop n (st_index_maps s)) = fmupd n m' (st_index_maps s)" for m'
    by (rule fmap_ext) simp
  with m show ?thesis by (simp add: index_append_def write_index_map_def Let_def remove_file_def)
qed

lemma index_append_fold:
  assumes "distinct (map ix_name ixs)"
    and "\<And>ix. ix \<in> set ixs \<Longrightarrow> fmlookup (st_index_maps s) (ix_name ix) = Some (M ix)"
  shows "fold (index_append D row loc) (map (\<lambda>ix. (ix_name ix, ix_column ix)) ixs) s =
    write_maps (map (\<lambda>ix. (ix_name ix, entry_push (d_value_json D (row_get row (ix_column ix))) loc (M ix))) ixs) s"
  using assms
proof (induction ixs arbitrary: s)
  case (Cons ix ixs)
  from Cons.prems(1) have "ix_name ix \<notin> ix_name ` set ixs" by simp
  then have "ix_name ix \<noteq> ix_name i" if "i \<in> set ixs" for i using that by (metis imageI)
  with Cons show ?case by (simp add: index_append_eq)
qed simp

text \<open>Recording the values of a row touches only the caches.\<close>

definition noted_caches :: "deps \<Rightarrow> string \<Rightarrow> row \<Rightarrow> storage \<Rightarrow> (string, (string, string set) fmap) fmap" where
  "noted_caches D t row s = st_unique_caches (note_unique_values D t row s)"

lemma note_unique_values_eq:
  "note_unique_values D t row s = s\<lparr>st_unique_caches := noted_caches D t row s\<rparr>"
  by (simp add: noted_caches_def note_unique_values_def split: option.splits)

lemma write_maps_caches:
  "write_maps ps (s\<lparr>st_unique_caches := u\<rparr>) = (write_maps ps s)\<lparr>st_unique_caches := u\<rparr>"
proof (induction ps arbitrary: s)
  case (Cons p ps)
  have "write_index_map n m (s\<lparr>st_unique_caches := u\<rparr>) = (write_index_map n m s)\<lparr>st_unique_caches := u\<rparr>" for n m
    by (simp add: write_index_map_def Let_def remove_file_def)
  with Cons show ?case by (cases p) simp
qed simp

lemma noted_caches_write_maps [simp]: "noted_caches D t row (write_maps ps s) = noted_caches D t row s"
  by (simp add: noted_caches_def note_unique_values_def split: option.splits)

lemma column_keys_append:
  "column_keys D c (rows @ [row]) = (case fmlookup row c of
     Some v \<Rightarrow> if v \<noteq> VNull then insert (d_value_json D v) (column_keys D c rows) else column_keys D c rows
   | None \<Rightarrow> column_keys D c rows)"
  by (auto simp: column_keys_def List.map_filter_def split: option.splits)

lemma unique_cache_noted:
  "Option.bind (fmlookup (noted_caches D t row s) u) (\<lambda>cols. fmlookup cols c) =
   (if u = t then map_option (\<lambda>keys. case fmlookup row c of
       Some v \<Rightarrow> if v \<noteq> VNull then insert (d_value_json D v) keys else keys | None \<Rightarrow> keys)
      (unique_cache_of s t c) else unique_cache_of s u c)"
  by (auto simp: noted_caches_def note_unique_values_def unique_cache_of_def split: option.splits)

lemma noted_caches_ok:
  assumes "caches_ok D s" "fmdom (st_catalog s') = fmdom (st_catalog s)"
    "st_unique_caches s' = noted_caches D t row s"
    "rows_of D s' t = rows_of D s t @ [row]" "\<And>u. u \<noteq> t \<Longrightarrow> rows_of D s' u = rows_of D s u"
  shows "caches_ok D s'"
  unfolding caches_ok_def
proof (intro allI impI)
  fix u c ks assume c: "unique_cache_of s' u c = Some ks"
  then have *: "(if u = t then map_option (\<lambda>keys. case fmlookup row c of
       Some v \<Rightarrow> if v \<noteq> VNull then insert (d_value_json D v) keys else keys | None \<Rightarrow> keys)
      (unique_cache_of s t c) else unique_cache_of s u c) = Some ks"
    unfolding unique_cache_of_def [of s'] assms(3) unique_cache_noted .
  then obtain ks0 where "unique_cache_of s u c = Some ks0" by (auto split: if_splits)
  with assms(1) have k: "fmlookup (st_catalog s) u \<noteq> None" "ks0 = column_keys D c (rows_of D s u)"
    by (auto simp: caches_ok_def)
  then have "fmlookup (st_catalog s') u \<noteq> None"
    using assms(2) by (metis fmdom_notD fmdom_notI)
  moreover have "ks = column_keys D c (rows_of D s' u)"
    using * k(2) \<open>unique_cache_of s u c = Some ks0\<close> assms(4,5)
    by (cases "u = t") (simp_all add: column_keys_append split: option.splits)
  ultimately show "fmlookup (st_catalog s') u \<noteq> None \<and> ks = column_keys D c (rows_of D s' u)" by simp
qed

lemma append_row_ok:
  assumes inv: "storage_inv D s" and t: "fmlookup (st_catalog s) t \<noteq> None"
  obtains rid s' where "append_row D t row s = (Ok (), s')" "storage_inv D s'" "row_frame s s'"
    "stored_of D s' t = stored_of D s t @ [\<lparr>sr_id = rid, sr_data = row\<rparr>]" "same_rows D {t} s s'"
    "\<exists>n l. encode_row D (st_key s) \<lparr>sr_id = rid, sr_data = row\<rparr> n = (Ok l, Suc n) \<and>
      (content_of s t = [] \<longrightarrow> content_of s' t = l @ [NL])"
proof -
  obtain rid s0 where s0: "allocate_row_id D t s = (Ok rid, s0)" "storage_inv D s0" "row_frame s s0"
    "\<And>t'. located D s0 t' = located D s t'" "st_unique_caches s0 = st_unique_caches s"
    using allocate_row_id_ok [OF inv t] by metis
  note D = storage_invD(1) [OF inv]
  let ?r = "\<lparr>sr_id = rid, sr_data = row\<rparr>"
  have t0: "fmlookup (st_catalog s0) t \<noteq> None" using row_frame_None [OF s0(3)] t by simp
  obtain l where l: "encode_row D (st_key s0) ?r (dk_rng s0) = (Ok l, Suc (dk_rng s0))"
    "sealed (decode_row D (st_key s0)) l ?r" using encode_row_ok [OF D] by blast
  obtain ps where ps: "file_holds (decode_row D (st_key s0)) (content_of s0 t) ps"
    "located D s0 t = locate 0 ps" using tables_ok_holds [OF storage_invD(2) [OF s0(2)] t0] by blast
  define c where "c = content_of s0 t @ l @ [NL]"
  define loc where "loc = \<lparr>rl_id = rid, rl_offset = of_nat (length (content_of s0 t)), rl_len = of_nat (length l)\<rparr>"
  define s1 where "s1 = s0\<lparr>dk_rng := Suc (dk_rng s0), st_table_files := insert t (st_table_files s0),
    dk_files := (dk_files s0)(table_path t \<mapsto> c)\<rparr>"
  have c1: "content_of s1 t = c" by (simp add: s1_def content_of_def)
  have h1: "file_holds (decode_row D (st_key s0)) c (ps @ [(l, ?r)])"
    unfolding c_def using l(2) by (intro file_holds_append [OF ps(1)]) (simp add: file_holds_def)
  have k1: "st_key s1 = st_key s0" by (simp add: s1_def)
  have "located D s1 t = locate 0 (ps @ [(l, ?r)])"
    using h1 by (intro located_holds) (simp add: c1 k1)
  then have l1: "located D s1 t = located D s0 t @ [(loc, ?r)]"
    using ps by (simp add: locate_append loc_def file_holds_def)
  have l1': "located D s1 u = located D s0 u" if "u \<noteq> t" for u
    using that by (intro located_cong) (simp_all add: s1_def content_of_def)
  have ixd: "distinct (map ix_name (st_index_catalog s0))"
    and ixm: "\<And>ix. ix \<in> set (st_index_catalog s0) \<Longrightarrow> fmlookup (st_index_maps s0) (ix_name ix) =
      Some (build_index D (ix_column ix) (located D s0 (ix_table ix)))"
    using storage_invD(3) [OF s0(2)] by (auto simp: indexes_ok_def index_ok_def)
  have "fold (index_append D row loc) (map (\<lambda>ix. (ix_name ix, ix_column ix)) (table_indexes s0 t)) s1 =
      write_maps (map (\<lambda>ix. (ix_name ix, entry_push (d_value_json D (row_get row (ix_column ix))) loc
        (build_index D (ix_column ix) (located D s0 t)))) (table_indexes s0 t)) s1"
    using ixd ixm
    by (intro index_append_fold) (auto simp: table_indexes_def distinct_map_filter s1_def)
  also have "\<dots> = write_maps (rebuilt_maps D s1 t) s1"
    by (simp add: rebuilt_maps_def l1 build_index_append) (simp add: table_indexes_def s1_def)
  finally have ix: "fold (index_append D row loc) (map (\<lambda>ix. (ix_name ix, ix_column ix)) (table_indexes s0 t)) s1
      = write_maps (rebuilt_maps D s1 t) s1" .
  define s2 where "s2 = s1\<lparr>st_unique_caches := noted_caches D t row s1\<rparr>"
  define s' where "s' = write_maps (rebuilt_maps D s2 t) s2"
  have run: "append_row D t row s = (Ok (), s')"
  proof -
    have e: "with_rng (encode_row D (st_key s0) ?r) s0 = (Ok l, s0\<lparr>dk_rng := Suc (dk_rng s0)\<rparr>)"
      by (simp add: with_rng_def l(1))
    have r: "rebuilt_maps D s2 t = rebuilt_maps D s1 t"
      by (simp add: rebuilt_maps_def s2_def table_indexes_def)
    have "put_file (table_path t) (c) (s0\<lparr>dk_rng := Suc (dk_rng s0), st_table_files := insert t (st_table_files s0)\<rparr>) = s1"
      by (simp add: put_file_def s1_def)
    moreover have "st_index_catalog s1 = st_index_catalog s0" by (simp add: s1_def)
    ultimately show ?thesis
      using ix r
      by (simp add: append_row_def op_bind_step op_seq_step s0(1) e Let_def op_each_mod op_apply
          content_of_def [symmetric] c_def [symmetric] loc_def [symmetric] table_indexes_def
          note_unique_values_eq s'_def s2_def write_maps_caches)
  qed
  have rows: "rows_of D s2 t = rows_of D s1 t" for t
    by (simp add: s2_def rows_of_def stored_of_def)
  have "caches_ok D s2"
  proof (rule noted_caches_ok [OF storage_invD(4) [OF s0(2)]])
    show "st_unique_caches s2 = noted_caches D t row s0"
      by (simp add: s2_def s1_def noted_caches_def note_unique_values_def split: option.splits)
    show "rows_of D s2 t = rows_of D s0 t @ [row]"
      by (simp add: rows) (simp add: rows_of_def stored_of_def l1)
    show "rows_of D s2 u = rows_of D s0 u" if "u \<noteq> t" for u
      by (simp add: rows) (simp add: rows_of_def stored_of_def l1' [OF that])
  qed (simp add: s2_def s1_def)
  then have "storage_inv D s'"
    unfolding s'_def using t0 h1 c1
    by (intro storage_inv_table_change [OF storage_inv_imp_but [OF s0(2)]])
      (simp_all add: s2_def s1_def same_files_def content_of_def)
  moreover have "row_frame s s'"
    using s0(3) by (simp add: row_frame_def s'_def s2_def s1_def columns_of_def fun_eq_iff)
  moreover have "stored_of D s' t = stored_of D s t @ [?r]"
    by (simp add: stored_of_def s'_def s2_def l1 s0(4))
  moreover have "same_rows D {t} s s'"
    by (simp add: same_rows_def stored_of_def s'_def s2_def l1' s0(4))
  moreover have "content_of s' t = l @ [NL]" if "content_of s t = []"
  proof -
    have "located D s t = []" by (simp add: located_def that scan_file_def split_lines.simps)
    then have "ps = []" using ps(2) s0(4) by (cases ps) auto
    then have "content_of s0 t = []" using ps(1) by (simp add: file_holds_def)
    then show ?thesis using c1 by (simp add: c_def s'_def s2_def content_of_def write_maps_files)
  qed
  moreover have "encode_row D (st_key s) ?r (dk_rng s0) = (Ok l, Suc (dk_rng s0))"
    using l(1) s0(3) by (simp add: row_frame_def)
  ultimately show ?thesis using run that by blast
qed

section \<open>Rewriting a table\<close>

text \<open>
  The tail shared by the two rewriting methods: the table file has its new content, the
  handle and the cache of the table are closed, and the indexes are rebuilt.
\<close>

lemma caches_ok_drop:
  assumes "caches_ok D s" "st_unique_caches s' = fmdrop t (st_unique_caches s)"
    and "fmdom (st_catalog s') = fmdom (st_catalog s)" "\<And>u. u \<noteq> t \<Longrightarrow> fmlookup (st_catalog s) u \<noteq> None \<Longrightarrow> located D s' u = located D s u"
  shows "caches_ok D s'"
  unfolding caches_ok_def
proof (intro allI impI)
  fix u c ks assume c: "unique_cache_of s' u c = Some ks"
  then have u: "u \<noteq> t" "unique_cache_of s u c = Some ks"
    by (auto simp: unique_cache_of_def assms(2) split: if_splits)
  then have "fmlookup (st_catalog s) u \<noteq> None" "ks = column_keys D c (rows_of D s u)"
    using assms(1) by (auto simp: caches_ok_def)
  moreover have "fmlookup (st_catalog s') u = None \<longleftrightarrow> fmlookup (st_catalog s) u = None"
    using assms(3) by (metis fmdom_notD fmdom_notI)
  ultimately show "fmlookup (st_catalog s') u \<noteq> None \<and> ks = column_keys D c (rows_of D s' u)"
    using assms(4) [OF u(1)] by (simp add: rows_of_def stored_of_def)
qed

lemma rewritten_table_ok:
  assumes inv: "storage_inv_but D t s" and t: "fmlookup (st_catalog s) t \<noteq> None"
    and f: "same_files (rewrite_paths t) (dk_files s) f" "f (table_path t) = Some (file_of qs)"
    and qs: "\<forall>(l, r) \<in> set qs. sealed (decode_row D (st_key s)) l r"
    and s1_def: "s1 = s\<lparr>st_table_files := h, st_unique_caches := fmdrop t (st_unique_caches s),
      dk_rng := g, dk_files := f\<rparr>"
  shows "rebuild_indexes_for_table D t s1 = (Ok (), write_maps (rebuilt_maps D s1 t) s1)"
    "storage_inv D (write_maps (rebuilt_maps D s1 t) s1)"
    "row_frame s (write_maps (rebuilt_maps D s1 t) s1)"
    "stored_of D (write_maps (rebuilt_maps D s1 t) s1) t = map snd qs"
    "same_rows D {t} s (write_maps (rebuilt_maps D s1 t) s1)"
proof -
  have c: "content_of s1 t = file_of qs" by (simp add: s1_def content_of_def f(2))
  have k: "st_key s1 = st_key s" by (simp add: s1_def)
  have h: "file_holds (decode_row D (st_key s)) (content_of s1 t) qs"
    using qs c by (simp add: file_holds_def)
  note plain = tables_ok_plain [OF storage_inv_butD(2) [OF inv]]
  have cu: "content_of s1 u = content_of s u" if "u \<noteq> t" "fmlookup (st_catalog s) u \<noteq> None" for u
    using rewrite_paths_plain [OF plain [OF that(2)] that(1)]
    by (intro content_same_files [where X = "rewrite_paths t"]) (simp_all add: s1_def f(1))
  have l: "located D s1 u = located D s u" if "u \<noteq> t" "fmlookup (st_catalog s) u \<noteq> None" for u
    using cu [OF that] by (intro located_cong) (simp_all add: s1_def)
  have "caches_ok D s1"
    by (rule caches_ok_drop [OF storage_inv_butD(3) [OF inv]]) (use l in \<open>auto simp: s1_def\<close>)
  then show "storage_inv D (write_maps (rebuilt_maps D s1 t) s1)"
    using t f(1) h by (intro storage_inv_table_change [OF inv]) (simp_all add: s1_def)
  have "tables_ok D s1"
    unfolding tables_ok_def k
  proof (intro allI impI)
    fix u sch assume "fmlookup (st_catalog s1) u = Some sch"
    then have "fmlookup (st_catalog s) u = Some sch" by (simp add: s1_def)
    with storage_inv_butD(2) [OF inv] have "schema_ok u sch \<and>
        (\<exists>ps. file_holds (decode_row D (st_key s)) (content_of s u) ps)"
      by (simp add: tables_ok_def)
    with h cu [of u] \<open>fmlookup (st_catalog s) u = Some sch\<close> show "schema_ok u sch \<and> (\<exists>ps. file_holds (decode_row D (st_key s)) (content_of s1 u) ps)"
      by (cases "u = t") auto
  qed
  then show "rebuild_indexes_for_table D t s1 = (Ok (), write_maps (rebuilt_maps D s1 t) s1)"
    using storage_inv_butD(6) [OF inv] t by (intro rebuild_table_ok) (simp_all add: s1_def)
  show "row_frame s (write_maps (rebuilt_maps D s1 t) s1)"
    by (simp add: row_frame_def s1_def columns_of_def fun_eq_iff)
  have "located D s1 t = locate 0 qs"
    using h by (intro located_holds) (simp add: k)
  then show "stored_of D (write_maps (rebuilt_maps D s1 t) s1) t = map snd qs"
    by (simp add: stored_of_def)
  show "same_rows D {t} s (write_maps (rebuilt_maps D s1 t) s1)"
    using l by (simp add: same_rows_def stored_of_def)
qed

lemma atomic_write_same: "kept_name path \<Longrightarrow> same_files {path} (dk_files s) (dk_files (atomic_write path data s))"
  by (simp add: same_files_def atomic_write_files)

lemma write_stored_rows_ok:
  assumes inv: "storage_inv_but D t s" and t: "fmlookup (st_catalog s) t \<noteq> None"
  obtains s' where "write_stored_rows D t rows s = (Ok (), s')" "storage_inv D s'" "row_frame s s'"
    "stored_of D s' t = rows" "same_rows D {t} s s'"
proof -
  note D = storage_inv_butD(1) [OF inv]
  define sa where "sa = invalidate_unique_cache t (close_table_file t s)"
  obtain ls where ls: "encode_rows (encode_row D (st_key s)) rows (dk_rng s) =
      (Ok (file_of (zip ls rows)), dk_rng s + length rows)" "length ls = length rows"
    "\<forall>(l, r) \<in> set (zip ls rows). sealed (decode_row D (st_key s)) l r"
    using row_codec.encode_rows_ok [OF D] by blast
  define g where "g = dk_rng s + length rows"
  define f where "f = dk_files (atomic_write (table_path t) (file_of (zip ls rows)) (sa\<lparr>dk_rng := g\<rparr>))"
  define s1 where "s1 = s\<lparr>st_table_files := st_table_files s - {t}, st_unique_caches := fmdrop t (st_unique_caches s),
    dk_rng := g, dk_files := f\<rparr>"
  have sa: "sa = s\<lparr>st_table_files := st_table_files s - {t}, st_unique_caches := fmdrop t (st_unique_caches s)\<rparr>"
    by (simp add: sa_def invalidate_unique_cache_def close_table_file_def)
  have 1: "atomic_write (table_path t) (file_of (zip ls rows)) (sa\<lparr>dk_rng := g\<rparr>) = s1"
    by (subst atomic_write_eq) (simp add: f_def s1_def sa)
  have "same_files {table_path t} (dk_files s) f"
    using atomic_write_same [OF kept_names(1), of t "sa\<lparr>dk_rng := g\<rparr>"] by (simp add: f_def sa)
  then have f: "same_files (rewrite_paths t) (dk_files s) f"
    by (rule same_files_mono) (simp add: rewrite_paths_def)
  have ft: "f (table_path t) = Some (file_of (zip ls rows))"
    by (simp add: f_def atomic_write_files)
  note R = rewritten_table_ok [OF inv t f ft ls(3) s1_def]
  obtain sch where "fmlookup (st_catalog s) t = Some sch" using t by auto
  moreover have "with_rng (encode_rows (encode_row D (st_key sa)) rows) sa =
      (Ok (file_of (zip ls rows)), sa\<lparr>dk_rng := g\<rparr>)"
    using ls(1) by (simp add: with_rng_def sa g_def)
  ultimately have "write_stored_rows D t rows s = (Ok (), write_maps (rebuilt_maps D s1 t) s1)"
    using R(1) 1 sa_def
    by (simp add: write_stored_rows_def get_schema_def op_bind_step op_seq_step)
  moreover have "map snd (zip ls rows) = rows" using ls(2) by simp
  ultimately show ?thesis using R(2-5) that by simp
qed

lemma closed_table_ok:
  assumes inv: "storage_inv D s"
    and f: "same_files (rewrite_paths t) (dk_files s) f" "f (table_path t) = dk_files s (table_path t)"
    and s1_def: "s1 = s\<lparr>st_table_files := h, st_unique_caches := fmdrop t (st_unique_caches s),
      dk_rng := g, dk_files := f\<rparr>"
  shows "storage_inv D s1" "row_frame s s1" "same_rows D {} s s1"
proof -
  note plain = tables_ok_plain [OF storage_invD(2) [OF inv]]
  have cu: "content_of s1 u = content_of s u" if "fmlookup (st_catalog s) u \<noteq> None" for u
  proof (cases "u = t")
    case True
    with f(2) show ?thesis by (simp add: content_of_def s1_def)
  next
    case False
    with rewrite_paths_plain [OF plain [OF that]] show ?thesis
      by (intro content_same_files [where X = "rewrite_paths t"]) (simp_all add: s1_def f(1))
  qed
  have l: "located D s1 u = located D s u" if "fmlookup (st_catalog s) u \<noteq> None" for u
    using cu [OF that] by (intro located_cong) (simp_all add: s1_def)
  have "tables_ok D s1"
    using cu by (intro tables_ok_cong [OF storage_invD(2) [OF inv]]) (auto simp: s1_def)
  moreover have "indexes_ok D s1"
    using storage_invD(3) [OF inv] l by (simp add: indexes_ok_def index_ok_def) (simp add: s1_def)
  moreover have "caches_ok D s1"
    by (rule caches_ok_drop [OF storage_invD(4) [OF inv]]) (use l in \<open>auto simp: s1_def\<close>)
  moreover have "metadata_ok D s1"
    by (rule metadata_ok_cong [OF storage_invD(5) [OF inv], where X = "rewrite_paths t"])
      (simp_all add: s1_def f(1))
  moreover have "index_files_ok D s1"
    by (rule index_files_ok_cong [OF storage_invD(6) [OF inv], where X = "rewrite_paths t"])
      (simp_all add: s1_def f(1))
  ultimately show "storage_inv D s1" using storage_invD(1) [OF inv] by (simp add: storage_inv_def)
  show "row_frame s s1" by (simp add: row_frame_def s1_def columns_of_def fun_eq_iff)
  show "same_rows D {} s s1" using l by (simp add: same_rows_def stored_of_def)
qed

lemma rewrite_tmp_neq [simp]: "rewrite_tmp_path t \<noteq> table_path t" "table_path t \<noteq> rewrite_tmp_path t"
  by (simp_all add: rewrite_tmp_path_def)

lemma rewrite_rows_cases:
  assumes inv: "storage_inv D s" and t: "fmlookup (st_catalog s) t \<noteq> None"
    and m: "\<And>d c. fst (mapper d c) = m d"
  obtains
    (finished) s' where "rewrite_rows D t mapper s =
        (Ok (length (filter (\<lambda>r. m (sr_data r) = Ok None) (stored_of D s t)),
             fold (\<lambda>r c. snd (mapper (sr_data r) c)) (stored_of D s t) 0), s')"
      "\<forall>r \<in> set (stored_of D s t). is_ok (m (sr_data r))" "storage_inv D s'" "row_frame s s'"
      "stored_of D s' t = mapped_rows (\<lambda>d. case m d of Ok y \<Rightarrow> y | _ \<Rightarrow> None) (stored_of D s t)"
      "same_rows D {t} s s'"
  | (failed) x s' where "rewrite_rows D t mapper s = (x, s')" "\<not> is_ok x"
      "\<exists>r \<in> set (stored_of D s t). \<not> is_ok (m (sr_data r))" "storage_inv D s'" "row_frame s s'"
      "same_rows D {} s s'"
proof -
  note D = storage_invD(1) [OF inv]
  obtain ps where ps: "file_holds (decode_row D (st_key s)) (content_of s t) ps"
    "located D s t = locate 0 ps" using tables_ok_holds [OF storage_invD(2) [OF inv] t] by blast
  have sp: "stored_of D s t = map snd ps" by (simp add: stored_of_def ps(2))
  have seal: "\<forall>(l, r) \<in> set ps. sealed (decode_row D (st_key s)) l r" using ps(1) by (simp add: file_holds_def)
  define sa where "sa = invalidate_unique_cache t (close_table_file t s)"
  have sa: "sa = s\<lparr>st_table_files := st_table_files s - {t}, st_unique_caches := fmdrop t (st_unique_caches s)\<rparr>"
    by (simp add: sa_def invalidate_unique_cache_def close_table_file_def)
  let ?w = "\<lparr>rw_output = [], rw_affected = 0, rw_counter = 0, rw_rng = dk_rng s\<rparr>"
  obtain x w where rw: "rewrite_lines (encode_row D (st_key s)) (decode_row D (st_key s)) mapper
      (map (\<lambda>(l, r). l @ [NL]) ps) ?w = (x, w)" by fastforce
  have lines: "(case dk_files s (table_path t) of None \<Rightarrow> [] | Some content \<Rightarrow> split_lines content) =
      map (\<lambda>(l, r). l @ [NL]) ps"
    using file_holds_lines [OF ps(1)]
    by (auto simp: content_of_def split_lines.simps split: option.splits)
  note RW = row_codec.rewrite_lines_result [OF D seal m rw]
  define fa where "fa = (dk_files s)(rewrite_tmp_path t \<mapsto> rw_output w)"
  define sb where "sb = s\<lparr>st_table_files := st_table_files s - {t}, st_unique_caches := fmdrop t (st_unique_caches s),
    dk_rng := rw_rng w, dk_files := fa\<rparr>"
  have sb: "put_file (rewrite_tmp_path t) (rw_output w) ((put_file (rewrite_tmp_path t) [] sa)\<lparr>dk_rng := rw_rng w\<rparr>) = sb"
    by (simp add: put_file_def sa sb_def fa_def)
  let ?sp = "put_file (rewrite_tmp_path t) [] sa"
  have "st_key ?sp = st_key s" "dk_rng ?sp = dk_rng s" by (simp_all add: put_file_def sa)
  then have copy: "rewrite_copy D t mapper (dk_files s (table_path t)) ?sp =
      (tryq x (\<lambda>_. Ok (rw_affected w, rw_counter w)), sb)"
    by (simp add: rewrite_copy_def lines rw sb)
  have open': "dk_files sa (table_path t) = dk_files s (table_path t)" by (simp add: sa)
  obtain sch where sch: "fmlookup (st_catalog s) t = Some sch" using t by auto
  show ?thesis
  proof (cases "x = Ok ()")
    case True
    with RW obtain qs where qs: "rw_output w = file_of qs"
      "\<forall>(l, r) \<in> set qs. sealed (decode_row D (st_key s)) l r"
      "\<forall>r \<in> snd ` set ps. is_ok (m (sr_data r))"
      "map snd qs = mapped_rows (\<lambda>d. case m d of Ok y \<Rightarrow> y | _ \<Rightarrow> None) (map snd ps)"
      "rw_affected w = length (filter (\<lambda>r. m (sr_data r) = Ok None) (map snd ps))"
      "rw_counter w = fold (\<lambda>r c. snd (mapper (sr_data r) c)) (map snd ps) 0"
      by auto
    define f where "f = ((dk_files s)(rewrite_tmp_path t := None))(table_path t \<mapsto> rw_output w)"
    define s1 where "s1 = s\<lparr>st_table_files := st_table_files s - {t},
      st_unique_caches := fmdrop t (st_unique_caches s), dk_rng := rw_rng w, dk_files := f\<rparr>"
    have f: "same_files (rewrite_paths t) (dk_files s) f"
      by (simp add: same_files_def f_def rewrite_paths_def)
    have ft: "f (table_path t) = Some (file_of qs)" by (simp add: f_def qs(1))
    note R = rewritten_table_ok [OF storage_inv_imp_but [OF inv] t f ft qs(2) s1_def]
    have mv: "rewrite_swap t (dk_files s (table_path t)) sb = s1"
      by (auto simp: rewrite_swap_def Let_def put_file_def remove_file_def sb_def fa_def s1_def
          f_def fun_upd_twist)
    have "rewrite_rows D t mapper s = (Ok (rw_affected w, rw_counter w), write_maps (rebuilt_maps D s1 t) s1)"
      using R(1) mv copy True
      by (simp add: rewrite_rows_def get_schema_def sch op_bind_step op_seq_step sa_def [symmetric]
          open' op_apply)
    with R(2-5) qs(3-6) show ?thesis by (intro finished) (simp_all add: sp)
  next
    case False
    then have nx: "\<not> is_ok x" by (cases x) auto
    have f: "same_files (rewrite_paths t) (dk_files s) fa" "fa (table_path t) = dk_files s (table_path t)"
      by (simp_all add: same_files_def fa_def rewrite_paths_def)
    note R = closed_table_ok [OF inv f sb_def]
    have "rewrite_rows D t mapper s = ((case x of Err e \<Rightarrow> Err e | Panic p \<Rightarrow> Panic p | Ok _ \<Rightarrow> Err Io), sb)"
      using copy nx
      by (cases x) (simp_all add: rewrite_rows_def get_schema_def sch op_bind_step op_seq_step
          sa_def [symmetric] open' op_apply)
    moreover from RW False have "\<exists>r \<in> set (stored_of D s t). \<not> is_ok (m (sr_data r))"
      by (auto simp: sp)
    ultimately show ?thesis
      using R nx by (intro failed) (auto split: res.splits)
  qed
qed

section \<open>Looking up a unique value\<close>

lemma column_keys_iff:
  "deps_ok D \<Longrightarrow> d_value_json D v \<in> column_keys D c rows \<longleftrightarrow>
   v \<noteq> VNull \<and> (\<exists>r \<in> set rows. fmlookup r c = Some v)"
  by (auto simp: column_keys_def List.map_filter_def image_iff)

lemma caches_ok_add:
  assumes "caches_ok D s" "fmlookup (st_catalog s) t \<noteq> None"
  shows "caches_ok D (s\<lparr>st_unique_caches := fmupd t (fmupd c (column_keys D c (rows_of D s t))
    (case fmlookup (st_unique_caches s) t of None \<Rightarrow> fmempty | Some columns \<Rightarrow> columns)) (st_unique_caches s)\<rparr>)"
  using assms
  by (auto simp: caches_ok_def unique_cache_of_def rows_of_def stored_of_def split: if_splits option.splits)

lemma storage_inv_caches:
  assumes "storage_inv D s" "caches_ok D (s\<lparr>st_unique_caches := u\<rparr>)"
  shows "storage_inv D (s\<lparr>st_unique_caches := u\<rparr>)"
proof -
  let ?s = "s\<lparr>st_unique_caches := u\<rparr>"
  have "tables_ok D ?s = tables_ok D s" "indexes_ok D ?s = indexes_ok D s"
    "metadata_ok D ?s = metadata_ok D s" "index_files_ok D ?s = index_files_ok D s"
    by (simp_all add: tables_ok_def indexes_ok_def index_ok_def metadata_ok_def index_files_ok_def)
  with assms show ?thesis unfolding storage_inv_def by blast
qed

lemma unique_value_exists_ok:
  assumes inv: "storage_inv D s" and t: "fmlookup (st_catalog s) t \<noteq> None"
  obtains s' where "unique_value_exists D t c v s =
      (Ok (v \<noteq> VNull \<and> (\<exists>r \<in> set (rows_of D s t). fmlookup r c = Some v)), s')"
    "storage_inv D s'" "row_frame s s'" "same_rows D {} s s'"
proof (cases "unique_cache_of s t c")
  case (Some ks)
  with storage_invD(4) [OF inv] have "ks = column_keys D c (rows_of D s t)" by (simp add: caches_ok_def)
  with Some inv show ?thesis
    by (intro that [of s]) (simp_all add: unique_value_exists_def Let_def column_keys_iff storage_invD(1))
next
  case None
  let ?s = "s\<lparr>st_unique_caches := fmupd t (fmupd c (column_keys D c (rows_of D s t))
    (case fmlookup (st_unique_caches s) t of None \<Rightarrow> fmempty | Some columns \<Rightarrow> columns)) (st_unique_caches s)\<rparr>"
  have "unique_value_exists D t c v s =
      (Ok (v \<noteq> VNull \<and> (\<exists>r \<in> set (rows_of D s t). fmlookup r c = Some v)), ?s)"
    using None read_rows_ok(1) [OF storage_invD(2) [OF inv] t] inv
    by (simp add: unique_value_exists_def Let_def column_keys_iff storage_invD(1) op_apply
        rows_of_def)
  moreover have "storage_inv D ?s"
    by (rule storage_inv_caches [OF inv caches_ok_add [OF storage_invD(4) [OF inv] t]])
  ultimately show ?thesis
    by (intro that [of ?s]) (simp_all add: row_frame_def same_rows_def stored_of_def columns_of_def fun_eq_iff)
qed

end
