(* ===== verification/Storage_DDL.thy ===== *)
theory Storage_DDL
  imports Storage_Rows
begin

text \<open>
  The schema changes of \<open>Storage\<close>: creating and dropping tables and indexes, adding, dropping
  and renaming columns. Each keeps the invariant whatever its outcome, and its effect on the
  catalog and on the rows is stated.
\<close>

section \<open>Migrations\<close>

text \<open>What recording a migration leaves alone.\<close>

definition data_frame :: "deps \<Rightarrow> storage \<Rightarrow> storage \<Rightarrow> bool" where
  "data_frame D s s' \<longleftrightarrow> st_key s' = st_key s \<and> st_catalog s' = st_catalog s \<and>
     st_index_catalog s' = st_index_catalog s \<and> st_txn s' = st_txn s \<and>
     dk_snapshot s' = dk_snapshot s \<and> (\<forall>t. located D s' t = located D s t)"

lemma data_frame_refl [simp]: "data_frame D s s"
  by (simp add: data_frame_def)

lemma data_frame_trans: "data_frame D s s' \<Longrightarrow> data_frame D s' s'' \<Longrightarrow> data_frame D s s''"
  by (simp add: data_frame_def)

lemma data_frameD:
  assumes "data_frame D s s'"
  shows "st_catalog s' = st_catalog s" "stored_of D s' t = stored_of D s t" "rows_of D s' t = rows_of D s t"
    "st_index_catalog s' = st_index_catalog s" "st_key s' = st_key s"
  using assms by (simp_all add: data_frame_def stored_of_def rows_of_def)

lemma record_migration_ok:
  assumes inv: "storage_inv D s"
  obtains r s' where "record_migration D t operation details s = (r, s')" "storage_inv D s'"
    "data_frame D s s'" "r = Ok () \<or> r = Err (Configuration ''system clock error'')"
    "d_now D (dk_clock s) \<noteq> None \<Longrightarrow> r = Ok ()"
proof (cases "d_now D (dk_clock s)")
  case None
  with inv show ?thesis
    by (intro that [of "Err (Configuration ''system clock error'')" "s\<lparr>dk_clock := Suc (dk_clock s)\<rparr>"])
      (simp_all add: record_migration_def data_frame_def)
next
  case (Some now)
  note D = storage_invD(1) [OF inv]
  define id where "id = (if st_migrations s = [] then 1 else mr_id (last (st_migrations s)) + 1)"
  define ms where "ms = st_migrations s @ [\<lparr>mr_id = id, mr_executed_at = now, mr_table_name = t,
    mr_operation = operation, mr_details = details\<rparr>]"
  let ?s1 = "s\<lparr>dk_clock := Suc (dk_clock s), st_migrations := ms\<rparr>"
  obtain f g where f: "save_migrations D ?s1 = (Ok (), ?s1\<lparr>dk_files := f, dk_rng := g\<rparr>)"
    "same_files {migrations_path} (dk_files ?s1) f"
    "file_loads D (st_key ?s1) f migrations_path (d_migrations_unjson D) [] (st_migrations ?s1)"
    by (rule save_migrations_ok [OF D, of ?s1]) (rule that)
  let ?s2 = "?s1\<lparr>dk_files := f, dk_rng := g\<rparr>"
  have files: "same_files {migrations_path} (dk_files s) (dk_files ?s2)" using f(2) by simp
  have meta: "metadata_ok D ?s2"
    using storage_invD(5) [OF inv] f(3) by (simp add: metadata_ok_def file_loads_same [OF files, simplified])
  have files': "same_files meta_paths (dk_files s) (dk_files ?s2)"
    by (rule same_files_mono [OF files]) (simp add: meta_paths_def)
  have ch: "storage_inv D ?s2" "located D ?s2 t' = located D s t'" for t'
    by (rule storage_inv_metadata_change [OF inv _ _ _ _ _ _ _ _ files' meta];
        simp add: storage_inv_schema [OF inv])+
  have "record_migration D t operation details s = (Ok (), ?s2)"
    using f(1) Some by (simp add: record_migration_def Let_def ms_def id_def)
  with ch show ?thesis by (intro that [of "Ok ()" ?s2]) (simp_all add: data_frame_def)
qed

section \<open>Creating a table\<close>

lemma storage_create_table_exists:
  "fmlookup (st_catalog s) (ts_name sch) \<noteq> None \<Longrightarrow>
   storage_create_table D sch s = (Err (TableExists (ts_name sch)), s)"
  by (simp add: storage_create_table_def)

lemma storage_create_table_ok:
  assumes inv: "storage_inv D s" and new: "fmlookup (st_catalog s) (ts_name sch) = None"
    and sch: "schema_ok (ts_name sch) sch"
  obtains r s' where "storage_create_table D sch s = (r, s')" "storage_inv D s'"
    "st_catalog s' = fmupd (ts_name sch) sch (st_catalog s)" "stored_of D s' (ts_name sch) = []"
    "\<And>t. t \<noteq> ts_name sch \<Longrightarrow> stored_of D s' t = stored_of D s t"
    "st_key s' = st_key s" "st_index_catalog s' = st_index_catalog s" "st_txn s' = st_txn s"
    "dk_snapshot s' = dk_snapshot s" "r = Ok () \<or> r = Err (Configuration ''system clock error'')"
    "d_now D (dk_clock s) \<noteq> None \<Longrightarrow> r = Ok ()"
proof -
  note D = storage_invD(1) [OF inv]
  let ?t = "ts_name sch"
  let ?s1 = "s\<lparr>st_catalog := fmupd ?t sch (st_catalog s), st_table_files := st_table_files s - {?t},
    dk_files := (dk_files s)(table_path ?t \<mapsto> [])\<rparr>"
  obtain f g where f: "save_catalog D ?s1 = (Ok (), ?s1\<lparr>dk_files := f, dk_rng := g\<rparr>)"
    "same_files {catalog_path} (dk_files ?s1) f"
    "file_loads D (st_key ?s1) f catalog_path (d_catalog_unjson D) fmempty (st_catalog ?s1)"
    by (rule save_catalog_ok [OF D, of ?s1]) (rule that)
  let ?s2 = "?s1\<lparr>dk_files := f, dk_rng := g\<rparr>"
  have files: "same_files {catalog_path, table_path ?t} (dk_files s) (dk_files ?s2)"
    using f(2) by (simp add: same_files_def)
  have c: "content_of ?s2 t = content_of s t" if "t \<noteq> ?t" for t
    using that by (intro content_same_files [OF files]) simp
  have ct: "content_of ?s2 ?t = []"
    using same_filesD [OF f(2) kept_names(1)] by (simp add: content_of_def)
  have l: "located D ?s2 t = located D s t" if "t \<noteq> ?t" for t
    using c [OF that] by (intro located_cong) simp_all
  have lt: "located D ?s2 ?t = []"
    using located_holds [of D ?s2 ?t "[]"] ct by simp
  have inv2: "storage_inv D ?s2"
    unfolding storage_inv_def
  proof (intro conjI)
    show "tables_ok D ?s2"
      unfolding tables_ok_def
    proof (intro allI impI)
      fix t sc assume sc: "fmlookup (st_catalog ?s2) t = Some sc"
      show "schema_ok t sc \<and> (\<exists>ps. file_holds (decode_row D (st_key ?s2)) (content_of ?s2 t) ps)"
      proof (cases "t = ?t")
        case True
        then have "sc = sch" using sc by simp
        moreover have "file_holds (decode_row D (st_key ?s2)) (content_of ?s2 t) []"
          unfolding True ct by simp
        ultimately show ?thesis using sch True by blast
      next
        case False
        then have "fmlookup (st_catalog s) t = Some sc" using sc by simp
        with storage_invD(2) [OF inv] c [OF False] show ?thesis by (simp add: tables_ok_def)
      qed
    qed
    show "indexes_ok D ?s2"
      using storage_invD(3) [OF inv] new l by (auto simp: indexes_ok_def index_ok_def)
    show "caches_ok D ?s2"
      unfolding caches_ok_def
    proof (intro allI impI)
      fix t cc ks assume "unique_cache_of ?s2 t cc = Some ks"
      then have "unique_cache_of s t cc = Some ks" by (simp add: unique_cache_of_def)
      with storage_invD(4) [OF inv] have k: "fmlookup (st_catalog s) t \<noteq> None" "ks = column_keys D cc (rows_of D s t)"
        by (auto simp: caches_ok_def)
      with new have "t \<noteq> ?t" by auto
      with k l [OF this] show "fmlookup (st_catalog ?s2) t \<noteq> None \<and> ks = column_keys D cc (rows_of D ?s2 t)"
        by (simp add: rows_of_def stored_of_def)
    qed
    show "metadata_ok D ?s2"
      using storage_invD(5) [OF inv] f(3)
      by (simp add: metadata_ok_def file_loads_same [OF files, simplified])
    show "index_files_ok D ?s2"
      by (rule index_files_ok_cong [OF storage_invD(6) [OF inv] files]) simp_all
  qed (rule D)
  obtain r s' where m: "record_migration D ?t ''CREATE_TABLE''
      (''CREATE TABLE '' @ ?t @ '' ('' @ join_with '', '' (map show_column_schema (ts_columns sch)) @ '')'') ?s2 = (r, s')"
    "storage_inv D s'" "data_frame D ?s2 s'" "r = Ok () \<or> r = Err (Configuration ''system clock error'')"
    "d_now D (dk_clock ?s2) \<noteq> None \<Longrightarrow> r = Ok ()"
    by (rule record_migration_ok [OF inv2]) (rule that)
  have run: "storage_create_table D sch s = (r, s')"
    using new m(1) f(1)
    by (simp add: storage_create_table_def op_seq_step close_table_file_def put_file_def)
  note df = m(3) [unfolded data_frame_def]
  show ?thesis
    by (rule that [OF run m(2)])
      (use df m(4,5) lt l in \<open>simp_all add: stored_of_def\<close>)
qed

section \<open>Forgetting indexes\<close>

definition forget_all :: "string list \<Rightarrow> storage \<Rightarrow> storage" where
  "forget_all ns s = fold forget_index ns s"

lemma forget_index_fields [simp]:
  "st_key (forget_index n s) = st_key s" "st_catalog (forget_index n s) = st_catalog s"
  "st_migrations (forget_index n s) = st_migrations s"
  "st_index_catalog (forget_index n s) = st_index_catalog s"
  "st_cursors (forget_index n s) = st_cursors s" "st_table_files (forget_index n s) = st_table_files s"
  "st_unique_caches (forget_index n s) = st_unique_caches s" "st_txn (forget_index n s) = st_txn s"
  "st_indexes_clean (forget_index n s) = st_indexes_clean s" "dk_snapshot (forget_index n s) = dk_snapshot s"
  "dk_rng (forget_index n s) = dk_rng s" "dk_clock (forget_index n s) = dk_clock s"
  "st_index_maps (forget_index n s) = fmdrop n (st_index_maps s)"
  "st_dirty (forget_index n s) = st_dirty s |-| {|n|}"
  "dk_files (forget_index n s) = (dk_files s)(index_path n := None)"
  by (simp_all add: forget_index_def remove_file_def)

lemma forget_all_fields [simp]:
  "st_key (forget_all ns s) = st_key s" "st_catalog (forget_all ns s) = st_catalog s"
  "st_migrations (forget_all ns s) = st_migrations s"
  "st_index_catalog (forget_all ns s) = st_index_catalog s"
  "st_cursors (forget_all ns s) = st_cursors s" "st_table_files (forget_all ns s) = st_table_files s"
  "st_unique_caches (forget_all ns s) = st_unique_caches s" "st_txn (forget_all ns s) = st_txn s"
  "st_indexes_clean (forget_all ns s) = st_indexes_clean s" "dk_snapshot (forget_all ns s) = dk_snapshot s"
  "dk_rng (forget_all ns s) = dk_rng s" "dk_clock (forget_all ns s) = dk_clock s"
  by (induction ns arbitrary: s) (simp_all add: forget_all_def)

lemma forget_all_maps:
  "fmlookup (st_index_maps (forget_all ns s)) n = (if n \<in> set ns then None else fmlookup (st_index_maps s) n)"
  by (induction ns arbitrary: s) (auto simp: forget_all_def)

lemma forget_all_dirty:
  "n |\<in>| st_dirty (forget_all ns s) \<longleftrightarrow> n |\<in>| st_dirty s \<and> n \<notin> set ns"
  by (induction ns arbitrary: s) (auto simp: forget_all_def)

lemma forget_all_files:
  "dk_files (forget_all ns s) f = (if f \<in> index_path ` set ns then None else dk_files s f)"
  by (induction ns arbitrary: s) (auto simp: forget_all_def)

lemma forget_all_run: "op_each (\<lambda>n. op_mod (forget_index n)) ns s = (Ok (), forget_all ns s)"
  by (simp add: op_each_mod forget_all_def)

lemma content_forget_all [simp]: "content_of (forget_all ns s) t = content_of s t"
  by (auto simp: content_of_def forget_all_files)

lemma located_forget_all [simp]: "located D (forget_all ns s) t = located D s t"
  by (rule located_cong) simp_all

text \<open>What is left of the index parts of the invariant once a set of indexes is gone.\<close>

lemma forgotten_name:
  assumes "distinct (map ix_name ixs)" "ix \<in> set ixs" "\<not> P ix"
  shows "ix_name ix \<notin> set (map ix_name (filter P ixs))"
proof
  assume "ix_name ix \<in> set (map ix_name (filter P ixs))"
  then obtain iy where "iy \<in> set ixs" "P iy" "ix_name iy = ix_name ix" by auto
  with assms show False by (metis distinct_map inj_onD)
qed

lemma index_files_forgotten:
  assumes inv: "storage_inv D s" and ns: "ns = map ix_name (filter P (st_index_catalog s))"
    and s': "st_key s' = st_key s" "st_index_catalog s' = filter (\<lambda>ix. \<not> P ix) (st_index_catalog s)"
      "st_index_maps s' = st_index_maps (forget_all ns s)" "st_dirty s' = st_dirty (forget_all ns s)"
      "st_indexes_clean s' = st_indexes_clean s"
    and f: "\<And>n. n \<notin> set ns \<Longrightarrow> dk_files s' (index_path n) = dk_files s (index_path n)"
      "dk_files s' index_marker_path = dk_files s index_marker_path"
  shows "index_files_ok D s'"
proof -
  note i = storage_invD(6) [OF inv, unfolded index_files_ok_def]
  have d: "distinct (map ix_name (st_index_catalog s))"
    using storage_invD(3) [OF inv] by (simp add: indexes_ok_def)
  show ?thesis
    unfolding index_files_ok_def
  proof (intro conjI ballI impI)
    fix ix assume ix: "ix \<in> set (st_index_catalog s')" "ix_name ix |\<notin>| st_dirty s'"
    then have ix': "ix \<in> set (st_index_catalog s)" "\<not> P ix" by (auto simp: s')
    then have n: "ix_name ix \<notin> set ns" unfolding ns using d by (intro forgotten_name) 
    with ix(2) have "ix_name ix |\<notin>| st_dirty s" by (simp add: s' forget_all_dirty)
    with i ix' obtain m where "fmlookup (st_index_maps s) (ix_name ix) = Some m"
      "file_loads D (st_key s) (dk_files s) (index_path (ix_name ix)) (d_index_map_unjson D) fmempty m"
      by blast
    with n show "\<exists>m. fmlookup (st_index_maps s') (ix_name ix) = Some m \<and>
        file_loads D (st_key s') (dk_files s') (index_path (ix_name ix)) (d_index_map_unjson D) fmempty m"
      by (simp add: s' forget_all_maps file_loads_cong [of "dk_files s'" _ "dk_files s", OF f(1) [OF n]])
  next
    assume "dk_files s' index_marker_path \<noteq> None"
    with i f(2) have *: "st_dirty s = {||}" "st_indexes_clean s" by auto
    have "st_dirty (forget_all ns s) = {||}" using *(1) forget_all_dirty [of _ ns s] by auto
    then show "st_dirty s' = {||}" by (simp add: s')
    show "st_indexes_clean s'" using * by (simp add: s')
  qed
qed

lemma indexes_forgotten:
  assumes inv: "storage_inv D s" and ns: "ns = map ix_name (filter P (st_index_catalog s))"
    and s': "st_index_catalog s' = filter (\<lambda>ix. \<not> P ix) (st_index_catalog s)"
      "st_index_maps s' = st_index_maps (forget_all ns s)"
    and keep: "\<And>ix. ix \<in> set (st_index_catalog s) \<Longrightarrow> \<not> P ix \<Longrightarrow>
      fmlookup (st_catalog s') (ix_table ix) \<noteq> None \<and> located D s' (ix_table ix) = located D s (ix_table ix)"
  shows "indexes_ok D s'"
proof -
  have d: "distinct (map ix_name (st_index_catalog s))"
    using storage_invD(3) [OF inv] by (simp add: indexes_ok_def)
  have "index_ok D s' ix" if "ix \<in> set (st_index_catalog s)" "\<not> P ix" for ix
  proof -
    have "ix_name ix \<notin> set ns" unfolding ns using d that by (intro forgotten_name)
    with storage_invD(3) [OF inv] keep [OF that] that show ?thesis
      by (simp add: indexes_ok_def index_ok_def s' forget_all_maps)
  qed
  with d keep show ?thesis by (simp add: indexes_ok_def s' distinct_map_filter)
qed

section \<open>Dropping a table\<close>

lemma storage_drop_table_missing:
  "fmlookup (st_catalog s) t = None \<Longrightarrow> storage_drop_table D t s = (Err (TableNotFound t), s)"
  by (simp add: storage_drop_table_def)

lemma storage_drop_table_ok:
  assumes inv: "storage_inv D s" and t: "fmlookup (st_catalog s) t \<noteq> None"
  obtains r s' where "storage_drop_table D t s = (r, s')" "storage_inv D s'"
    "st_catalog s' = fmdrop t (st_catalog s)"
    "\<And>u. u \<noteq> t \<Longrightarrow> stored_of D s' u = stored_of D s u"
    "st_index_catalog s' = filter (\<lambda>ix. ix_table ix \<noteq> t) (st_index_catalog s)"
    "st_key s' = st_key s" "st_txn s' = st_txn s" "dk_snapshot s' = dk_snapshot s"
    "r = Ok () \<or> r = Err (Configuration ''system clock error'')"
    "d_now D (dk_clock s) \<noteq> None \<Longrightarrow> r = Ok ()"
proof -
  note D = storage_invD(1) [OF inv]
  define ns where "ns = map ix_name (filter (\<lambda>ix. ix_table ix = t) (st_index_catalog s))"
  let ?s1 = "(forget_all ns s)\<lparr>st_index_catalog := filter (\<lambda>ix. ix_table ix \<noteq> t) (st_index_catalog s)\<rparr>"
  obtain f g where f: "save_index_catalog D ?s1 = (Ok (), ?s1\<lparr>dk_files := f, dk_rng := g\<rparr>)"
    "same_files {index_catalog_path} (dk_files ?s1) f"
    "file_loads D (st_key ?s1) f index_catalog_path (d_indexes_unjson D) [] (st_index_catalog ?s1)"
    by (rule save_index_catalog_ok [OF D, of ?s1]) (rule that)
  let ?s2 = "?s1\<lparr>dk_files := f, dk_rng := g,
    st_table_files := st_table_files s - {t}, st_unique_caches := fmdrop t (st_unique_caches s),
    dk_files := f(table_path t := None), st_catalog := fmdrop t (st_catalog s), st_cursors := fmdrop t (st_cursors s)\<rparr>"
  obtain f' g' where f': "save_catalog D ?s2 = (Ok (), ?s2\<lparr>dk_files := f', dk_rng := g'\<rparr>)"
    "same_files {catalog_path} (dk_files ?s2) f'"
    "file_loads D (st_key ?s2) f' catalog_path (d_catalog_unjson D) fmempty (st_catalog ?s2)"
    by (rule save_catalog_ok [OF D, of ?s2]) (rule that)
  let ?s3 = "?s2\<lparr>dk_files := f', dk_rng := g'\<rparr>"
  have files: "f' x = (if x \<in> index_path ` set ns then None else if x = table_path t then None else dk_files s x)"
    if "kept_name x" "x \<noteq> catalog_path" "x \<noteq> index_catalog_path" for x
    using that same_filesD [OF f'(2) that(1)] same_filesD [OF f(2) that(1)]
    by (auto simp: forget_all_files)
  have c: "content_of ?s3 u = content_of s u" if "u \<noteq> t" for u
    using that files [of "table_path u"] by (auto simp: content_of_def)
  have l: "located D ?s3 u = located D s u" if "u \<noteq> t" for u
    using c [OF that] by (intro located_cong) simp_all
  have "indexes_ok D ?s3"
    by (rule indexes_forgotten [OF inv ns_def])
      (use l storage_invD(3) [OF inv] in \<open>auto simp: indexes_ok_def\<close>)
  moreover have "index_files_ok D ?s3"
    by (rule index_files_forgotten [OF inv ns_def]) (use files in \<open>auto\<close>)
  moreover have "tables_ok D ?s3"
    using c by (intro tables_ok_cong [OF storage_invD(2) [OF inv]]) (auto split: if_splits)
  moreover have "caches_ok D ?s3"
    unfolding caches_ok_def
  proof (intro allI impI)
    fix u cc ks assume "unique_cache_of ?s3 u cc = Some ks"
    then have u: "u \<noteq> t" "unique_cache_of s u cc = Some ks"
      by (auto simp: unique_cache_of_def split: if_splits)
    with storage_invD(4) [OF inv] l [OF u(1)]
    show "fmlookup (st_catalog ?s3) u \<noteq> None \<and> ks = column_keys D cc (rows_of D ?s3 u)"
      by (auto simp: caches_ok_def rows_of_def stored_of_def)
  qed
  moreover have "metadata_ok D ?s3"
  proof -
    have "f' index_catalog_path = f index_catalog_path"
      using same_filesD [OF f'(2), of index_catalog_path] by simp
    with f(3) have "file_loads D (st_key s) f' index_catalog_path (d_indexes_unjson D) []
        (filter (\<lambda>ix. ix_table ix \<noteq> t) (st_index_catalog s))"
      by (simp add: file_loads_def load_encrypted_json_def)
    moreover have "f' migrations_path = dk_files s migrations_path" using files by auto
    with storage_invD(5) [OF inv]
    have "file_loads D (st_key s) f' migrations_path (d_migrations_unjson D) [] (st_migrations s)"
      by (simp add: metadata_ok_def file_loads_def load_encrypted_json_def)
    ultimately show ?thesis using f'(3) by (simp add: metadata_ok_def)
  qed
  ultimately have inv3: "storage_inv D ?s3" using D by (simp add: storage_inv_def)
  obtain r s' where m: "record_migration D t ''DROP_TABLE'' (''DROP TABLE '' @ t) ?s3 = (r, s')"
    "storage_inv D s'" "data_frame D ?s3 s'" "r = Ok () \<or> r = Err (Configuration ''system clock error'')"
    "d_now D (dk_clock ?s3) \<noteq> None \<Longrightarrow> r = Ok ()"
    by (rule record_migration_ok [OF inv3]) (rule that)
  have run: "storage_drop_table D t s = (r, s')"
    using t m(1) f(1) f'(1)
    by (auto simp: storage_drop_table_def op_seq_step forget_all_run ns_def [symmetric]
        close_table_file_def invalidate_unique_cache_def remove_file_def)
  note df = m(3) [unfolded data_frame_def]
  show ?thesis
    by (rule that [OF run m(2)]) (use df m(4,5) l in \<open>simp_all add: stored_of_def\<close>)
qed

section \<open>Indexes\<close>

lemma storage_create_index_errors:
  "fmlookup (st_catalog s) t = None \<Longrightarrow> storage_create_index D n t c s = (Err (TableNotFound t), s)"
  "fmlookup (st_catalog s) t = Some sch \<Longrightarrow> \<not> has_column sch c \<Longrightarrow>
    storage_create_index D n t c s = (Err (ColumnNotFound t c), s)"
  "fmlookup (st_catalog s) t = Some sch \<Longrightarrow> has_column sch c \<Longrightarrow>
    \<exists>ix \<in> set (st_index_catalog s). ix_name ix = n \<or> ix_table ix = t \<and> ix_column ix = c \<Longrightarrow>
    \<exists>m. storage_create_index D n t c s = (Err (InvalidSchema m), s)"
  by (auto simp: storage_create_index_def get_schema_def)

lemma find_snoc_None: "find P xs = None \<Longrightarrow> find P (xs @ [x]) = (if P x then Some x else None)"
  by (induction xs) (auto split: if_splits)

lemma storage_create_index_ok:
  assumes inv: "storage_inv D s" and t: "fmlookup (st_catalog s) t = Some sch" "has_column sch c"
    and new: "\<forall>ix \<in> set (st_index_catalog s). ix_name ix \<noteq> n \<and> \<not> (ix_table ix = t \<and> ix_column ix = c)"
  obtains r s' where "storage_create_index D n t c s = (r, s')" "storage_inv D s'"
    "st_catalog s' = st_catalog s" "\<And>u. stored_of D s' u = stored_of D s u"
    "st_index_catalog s' = st_index_catalog s @ [\<lparr>ix_name = n, ix_table = t, ix_column = c\<rparr>]"
    "st_key s' = st_key s" "st_txn s' = st_txn s" "dk_snapshot s' = dk_snapshot s"
    "is_ok r \<or> r = Err (Configuration ''system clock error'')"
    "d_now D (dk_clock s) \<noteq> None \<Longrightarrow>
      r = Ok (fcard (fmdom (build_index D c (located D s t))))"
proof -
  note D = storage_invD(1) [OF inv]
  let ?ix = "\<lparr>ix_name = n, ix_table = t, ix_column = c\<rparr>"
  let ?s1 = "s\<lparr>st_index_catalog := st_index_catalog s @ [?ix]\<rparr>"
  obtain f g where f: "save_index_catalog D ?s1 = (Ok (), ?s1\<lparr>dk_files := f, dk_rng := g\<rparr>)"
    "same_files {index_catalog_path} (dk_files ?s1) f"
    "file_loads D (st_key ?s1) f index_catalog_path (d_indexes_unjson D) [] (st_index_catalog ?s1)"
    by (rule save_index_catalog_ok [OF D, of ?s1]) (rule that)
  let ?s2 = "?s1\<lparr>dk_files := f, dk_rng := g\<rparr>"
  have files: "same_files {index_catalog_path} (dk_files s) f" using f(2) by simp
  have c2: "content_of ?s2 u = content_of s u" for u
    using same_filesD [OF files kept_names(1)] by (simp add: content_of_def)
  have l2: "located D ?s2 u = located D s u" for u
    using c2 by (intro located_cong) simp_all
  let ?m = "build_index D c (located D s t)"
  let ?s3 = "write_index_map n ?m ?s2"
  have t2: "tables_ok D ?s2"
    using c2 by (intro tables_ok_cong [OF storage_invD(2) [OF inv]]) auto
  have "find (\<lambda>i. ix_name i = n) (st_index_catalog s) = None" using new by (auto simp: find_None_iff)
  then have fi: "find (\<lambda>i. ix_name i = n) (st_index_catalog ?s2) = Some ?ix"
    by (simp add: find_snoc_None)
  have rb: "rebuild_index D n ?s2 = (Ok (fcard (fmdom ?m)), ?s3)"
    using rebuild_index_ok [OF t2 fi] t(1) l2 [of t] by simp
  have l3: "located D ?s3 u = located D s u" for u using l2 by simp
  have f3: "dk_files ?s3 x = f x" if "x \<noteq> index_marker_path" for x using that by simp
  have inv3: "storage_inv D ?s3"
    unfolding storage_inv_def
  proof (intro conjI)
    show "tables_ok D ?s3" using t2 by simp
    show "indexes_ok D ?s3"
      using storage_invD(3) [OF inv] new t(1) l3 by (auto simp: indexes_ok_def index_ok_def)
    show "caches_ok D ?s3"
      by (rule caches_ok_cong [OF storage_invD(4) [OF inv] _ _ l3]) simp_all
    have "f catalog_path = dk_files s catalog_path" "f migrations_path = dk_files s migrations_path"
      using same_filesD [OF files] by simp_all
    with storage_invD(5) [OF inv] f(3) show "metadata_ok D ?s3"
      by (simp add: metadata_ok_def file_loads_def load_encrypted_json_def)
    note i = storage_invD(6) [OF inv, unfolded index_files_ok_def]
    have fx: "f (index_path k) = dk_files s (index_path k)" for k using same_filesD [OF files] by simp
    have fm: "f index_marker_path = dk_files s index_marker_path" using same_filesD [OF files] by simp
    show "index_files_ok D ?s3"
      unfolding index_files_ok_def
    proof (intro conjI ballI impI)
      fix ix assume ix: "ix \<in> set (st_index_catalog ?s3)" "ix_name ix |\<notin>| st_dirty ?s3"
      then have "ix \<in> set (st_index_catalog s)" "ix_name ix |\<notin>| st_dirty s" "ix_name ix \<noteq> n" by auto
      with i fx show "\<exists>m. fmlookup (st_index_maps ?s3) (ix_name ix) = Some m \<and>
          file_loads D (st_key ?s3) (dk_files ?s3) (index_path (ix_name ix)) (d_index_map_unjson D) fmempty m"
        by (auto simp: file_loads_def load_encrypted_json_def)
    next
      assume "dk_files ?s3 index_marker_path \<noteq> None"
      with i fm have False by (auto split: if_splits)
      then show "st_dirty ?s3 = {||}" "st_indexes_clean ?s3" by auto
    qed
  qed (rule D)
  obtain r s' where m: "record_migration D t ''CREATE_INDEX''
      (''CREATE INDEX '' @ n @ '' ON '' @ t @ ''('' @ c @ '')'') ?s3 = (r, s')"
    "storage_inv D s'" "data_frame D ?s3 s'" "r = Ok () \<or> r = Err (Configuration ''system clock error'')"
    "d_now D (dk_clock ?s3) \<noteq> None \<Longrightarrow> r = Ok ()"
    by (rule record_migration_ok [OF inv3]) (rule that)
  have "storage_create_index D n t c s = (tryq r (\<lambda>_. Ok (fcard (fmdom ?m))), s')"
    using t new f(1) rb m(1,4)
    by (auto simp: storage_create_index_def get_schema_def op_seq_step op_bind_step op_apply)
  note run = this
  note df = m(3) [unfolded data_frame_def]
  show ?thesis
    by (rule that [OF run m(2)]) (use df m(4,5) l2 in \<open>auto simp: stored_of_def\<close>)
qed

lemma storage_drop_index_missing:
  "\<forall>ix \<in> set (st_index_catalog s). ix_name ix \<noteq> n \<Longrightarrow>
   \<exists>m. storage_drop_index D n s = (Err (InvalidSchema m), s)"
  by (simp add: storage_drop_index_def find_None_iff [THEN iffD2])

lemma filter_name_single:
  "distinct (map ix_name ixs) \<Longrightarrow> ix \<in> set ixs \<Longrightarrow> filter (\<lambda>i. ix_name i = ix_name ix) ixs = [ix]"
proof (induction ixs)
  case (Cons i ixs)
  then show ?case
  proof (cases "ix = i")
    case True
    with Cons.prems(1) have "ix_name ix \<notin> ix_name ` set ixs" by simp
    then have "filter (\<lambda>j. ix_name j = ix_name ix) ixs = []"
      by (metis (mono_tags, lifting) filter_False image_eqI)
    with True show ?thesis by simp
  next
    case False
    with Cons.prems have "ix_name i \<noteq> ix_name ix" by auto
    with Cons False show ?thesis by simp
  qed
qed simp

lemma storage_drop_index_ok:
  assumes inv: "storage_inv D s" and ix: "ix \<in> set (st_index_catalog s)" "ix_name ix = n"
  obtains r s' where "storage_drop_index D n s = (r, s')" "storage_inv D s'"
    "st_catalog s' = st_catalog s" "\<And>u. stored_of D s' u = stored_of D s u"
    "st_index_catalog s' = filter (\<lambda>ix. ix_name ix \<noteq> n) (st_index_catalog s)"
    "st_key s' = st_key s" "st_txn s' = st_txn s" "dk_snapshot s' = dk_snapshot s"
    "r = Ok (ix_table ix) \<or> r = Err (Configuration ''system clock error'')"
    "d_now D (dk_clock s) \<noteq> None \<Longrightarrow> r = Ok (ix_table ix)"
proof -
  note D = storage_invD(1) [OF inv]
  have d: "distinct (map ix_name (st_index_catalog s))"
    using storage_invD(3) [OF inv] by (simp add: indexes_ok_def)
  have ns: "[n] = map ix_name (filter (\<lambda>i. ix_name i = n) (st_index_catalog s))"
    using filter_name_single [OF d ix(1)] ix(2) by simp
  have fi: "find (\<lambda>i. ix_name i = n) (st_index_catalog s) = Some ix"
    using find_name_distinct [OF d ix(1)] ix(2) by simp
  let ?s1 = "(forget_all [n] s)\<lparr>st_index_catalog := filter (\<lambda>ix. ix_name ix \<noteq> n) (st_index_catalog s)\<rparr>"
  obtain f g where f: "save_index_catalog D ?s1 = (Ok (), ?s1\<lparr>dk_files := f, dk_rng := g\<rparr>)"
    "same_files {index_catalog_path} (dk_files ?s1) f"
    "file_loads D (st_key ?s1) f index_catalog_path (d_indexes_unjson D) [] (st_index_catalog ?s1)"
    by (rule save_index_catalog_ok [OF D, of ?s1]) (rule that)
  let ?s2 = "?s1\<lparr>dk_files := f, dk_rng := g\<rparr>"
  have files: "f x = (if x = index_path n then None else dk_files s x)"
    if "kept_name x" "x \<noteq> index_catalog_path" for x
    using that same_filesD [OF f(2) that(1)] by (simp add: forget_all_files)
  have c: "content_of ?s2 u = content_of s u" for u
    using files [of "table_path u"] by (simp add: content_of_def)
  have l: "located D ?s2 u = located D s u" for u
    using c by (intro located_cong) simp_all
  have inv2: "storage_inv D ?s2"
    unfolding storage_inv_def
  proof (intro conjI)
    show "tables_ok D ?s2" using c by (intro tables_ok_cong [OF storage_invD(2) [OF inv]]) auto
    show "indexes_ok D ?s2"
      by (rule indexes_forgotten [OF inv ns])
        (use l storage_invD(3) [OF inv] in \<open>auto simp: indexes_ok_def\<close>)
    show "caches_ok D ?s2"
      by (rule caches_ok_cong [OF storage_invD(4) [OF inv] _ _ l]) simp_all
    have "f catalog_path = dk_files s catalog_path" "f migrations_path = dk_files s migrations_path"
      using files by simp_all
    with storage_invD(5) [OF inv] f(3) show "metadata_ok D ?s2"
      by (simp add: metadata_ok_def file_loads_def load_encrypted_json_def)
    show "index_files_ok D ?s2"
      by (rule index_files_forgotten [OF inv ns]) (use files in auto)
  qed (rule D)
  obtain r s' where m: "record_migration D (ix_table ix) ''DROP_INDEX'' (''DROP INDEX '' @ n) ?s2 = (r, s')"
    "storage_inv D s'" "data_frame D ?s2 s'" "r = Ok () \<or> r = Err (Configuration ''system clock error'')"
    "d_now D (dk_clock ?s2) \<noteq> None \<Longrightarrow> r = Ok ()"
    by (rule record_migration_ok [OF inv2]) (rule that)
  have "forget_all [n] s = forget_index n s" by (simp add: forget_all_def)
  then have run: "storage_drop_index D n s = (tryq r (\<lambda>_. Ok (ix_table ix)), s')"
    using f(1) m(1,4)
    by (auto simp: storage_drop_index_def fi op_seq_step op_bind_step op_apply)
  note df = m(3) [unfolded data_frame_def]
  show ?thesis
    by (rule that [OF run m(2)]) (use df m(4,5) l in \<open>auto simp: stored_of_def\<close>)
qed

section \<open>Columns\<close>

text \<open>The first step of each column change: the schema is replaced and the catalog saved.\<close>

lemma put_schema_ok:
  assumes inv: "storage_inv D s" and t: "fmlookup (st_catalog s) t \<noteq> None" and sch: "schema_ok t sch"
  obtains f g where
    "save_catalog D (put_schema t sch s) = (Ok (), (put_schema t sch s)\<lparr>dk_files := f, dk_rng := g\<rparr>)"
    "storage_inv D ((put_schema t sch s)\<lparr>dk_files := f, dk_rng := g\<rparr>)"
    "\<And>u. located D ((put_schema t sch s)\<lparr>dk_files := f, dk_rng := g\<rparr>) u = located D s u"
proof -
  note D = storage_invD(1) [OF inv]
  let ?s1 = "put_schema t sch s"
  obtain f g where f: "save_catalog D ?s1 = (Ok (), ?s1\<lparr>dk_files := f, dk_rng := g\<rparr>)"
    "same_files {catalog_path} (dk_files ?s1) f"
    "file_loads D (st_key ?s1) f catalog_path (d_catalog_unjson D) fmempty (st_catalog ?s1)"
    by (rule save_catalog_ok [OF D, of ?s1]) (rule that)
  let ?s2 = "?s1\<lparr>dk_files := f, dk_rng := g\<rparr>"
  have files: "same_files {catalog_path} (dk_files s) (dk_files ?s2)" using f(2) by (simp add: put_schema_def)
  have files': "same_files meta_paths (dk_files s) (dk_files ?s2)"
    by (rule same_files_mono [OF files]) (simp add: meta_paths_def)
  have "f migrations_path = dk_files s migrations_path" "f index_catalog_path = dk_files s index_catalog_path"
    using same_filesD [OF files] by simp_all
  with storage_invD(5) [OF inv] f(3) have meta: "metadata_ok D ?s2"
    by (simp add: metadata_ok_def put_schema_def file_loads_def load_encrypted_json_def)
  have dom: "fmdom (st_catalog ?s2) = fmdom (st_catalog s)"
    using t by (auto simp: put_schema_def fmdomI finsert_absorb)
  have schemas: "schema_ok u sc" if "fmlookup (st_catalog ?s2) u = Some sc" for u sc
    using that storage_inv_schema [OF inv] sch by (auto simp: put_schema_def split: if_splits)
  have ch: "storage_inv D ?s2" "located D ?s2 t' = located D s t'" for t'
    by (rule storage_inv_metadata_change [OF inv _ _ _ _ _ _ dom schemas files' meta]; simp add: put_schema_def)+
  show ?thesis by (rule that [OF f(1) ch])
qed

text \<open>What a column change does: new columns, the rows of the table mapped, the rest kept.\<close>

definition column_change :: "deps \<Rightarrow> string \<Rightarrow> column_schema list \<Rightarrow> (row \<Rightarrow> row) \<Rightarrow> storage \<Rightarrow> storage \<Rightarrow> bool" where
  "column_change D t cols f s s' \<longleftrightarrow> storage_inv D s' \<and> columns_of s' = (columns_of s)(t \<mapsto> cols) \<and>
     rows_of D s' t = map f (rows_of D s t) \<and>
     (\<forall>u. u \<noteq> t \<longrightarrow> fmlookup (st_catalog s) u \<noteq> None \<longrightarrow> rows_of D s' u = rows_of D s u) \<and>
     st_key s' = st_key s \<and> st_txn s' = st_txn s \<and> dk_snapshot s' = dk_snapshot s"

lemma column_change_data_frame:
  "column_change D t cols f s s' \<Longrightarrow> data_frame D s' s'' \<Longrightarrow> storage_inv D s'' \<Longrightarrow> column_change D t cols f s s''"
proof -
  assume a: "column_change D t cols f s s'" "data_frame D s' s''" "storage_inv D s''"
  from a(2) have "columns_of s'' = columns_of s'" by (simp add: data_frame_def columns_of_def fun_eq_iff)
  with a data_frameD(3) [OF a(2)] show ?thesis
    by (simp add: column_change_def) (simp add: data_frame_def)
qed

text \<open>The second step: the rows are mapped and written back.\<close>

lemma map_rows_ok:
  assumes inv: "storage_inv_but D t s1" and t: "fmlookup (st_catalog s1) t \<noteq> None"
    and cols: "columns_of s1 = (columns_of s)(t \<mapsto> cols)" and l: "\<And>u. located D s1 u = located D s u"
    and k: "st_key s1 = st_key s" "st_txn s1 = st_txn s" "dk_snapshot s1 = dk_snapshot s"
  obtains s2 where "read_stored_rows D s1 t = Ok (stored_of D s t)"
    "write_stored_rows D t (map (\<lambda>r. r\<lparr>sr_data := f (sr_data r)\<rparr>) (stored_of D s t)) s1 = (Ok (), s2)"
    "column_change D t cols f s s2" "st_index_catalog s2 = st_index_catalog s1"
proof -
  have st: "stored_of D s1 u = stored_of D s u" for u by (simp add: stored_of_def l)
  obtain s2 where w: "write_stored_rows D t (map (\<lambda>r. r\<lparr>sr_data := f (sr_data r)\<rparr>) (stored_of D s t)) s1 = (Ok (), s2)"
    "storage_inv D s2" "row_frame s1 s2"
    "stored_of D s2 t = map (\<lambda>r. r\<lparr>sr_data := f (sr_data r)\<rparr>) (stored_of D s t)" "same_rows D {t} s1 s2"
    by (rule write_stored_rows_ok [OF inv t]) (rule that)
  have c: "columns_of s2 = (columns_of s)(t \<mapsto> cols)" using w(3) cols by (simp add: row_frame_def)
  have cat: "fmlookup (st_catalog s1) u \<noteq> None" if "u \<noteq> t" "fmlookup (st_catalog s) u \<noteq> None" for u
  proof -
    have "columns_of s1 u = columns_of s u" using cols that(1) by simp
    with that(2) show ?thesis using columns_of_None by metis
  qed
  have "stored_of D s2 u = stored_of D s u" if "u \<noteq> t" "fmlookup (st_catalog s) u \<noteq> None" for u
    using w(5) that cat [OF that] by (simp add: same_rows_def st)
  then have "column_change D t cols f s s2"
    using w(2-4) c k by (simp add: column_change_def rows_of_def row_frame_def)
  moreover have "read_stored_rows D s1 t = Ok (stored_of D s t)"
    using read_rows_ok(1) [OF storage_inv_butD(2) [OF inv] t] by (simp add: st)
  moreover have "st_index_catalog s2 = st_index_catalog s1" using w(3) by (simp add: row_frame_def)
  ultimately show ?thesis using w(1) that by blast
qed

lemma add_column_errors:
  "fmlookup (st_catalog s) t = None \<Longrightarrow> add_column D t col dflt s = (Err (TableNotFound t), s)"
  "fmlookup (st_catalog s) t = Some sch \<Longrightarrow> has_column sch (cs_name col) \<Longrightarrow>
    \<exists>m. add_column D t col dflt s = (Err (InvalidSchema m), s)"
  by (simp_all add: add_column_def get_schema_def op_apply)

lemma columns_of_row_frame:
  "row_frame s s' \<Longrightarrow> fmlookup (st_catalog s) t = Some sch \<Longrightarrow>
   \<exists>sch'. fmlookup (st_catalog s') t = Some sch' \<and> ts_columns sch' = ts_columns sch"
  by (auto simp: row_frame_def columns_of_def fun_eq_iff dest!: spec [of _ t])

lemma columns_of_put_schema:
  "columns_of ((put_schema t sch s)\<lparr>dk_files := f, dk_rng := g\<rparr>) = (columns_of s)(t \<mapsto> ts_columns sch)"
  by (auto simp: columns_of_def put_schema_def fun_eq_iff)

lemma put_schema_fields [simp]:
  "st_key (put_schema t sch s) = st_key s" "st_txn (put_schema t sch s) = st_txn s"
  "dk_snapshot (put_schema t sch s) = dk_snapshot s"
  "st_catalog (put_schema t sch s) = fmupd t sch (st_catalog s)"
  "st_index_catalog (put_schema t sch s) = st_index_catalog s"
  "dk_files (put_schema t sch s) = dk_files s"
  by (simp_all add: put_schema_def)

lemma add_column_ok:
  assumes inv: "storage_inv D s" and t: "fmlookup (st_catalog s) t = Some sch"
    and new: "\<not> has_column sch (cs_name col)"
  obtains r s' where "add_column D t col dflt s = (r, s')"
    "column_change D t (ts_columns sch @ [col]) (fmupd (cs_name col) dflt) s s'"
    "r = Ok (length (stored_of D s t)) \<or> r = Err (Configuration ''system clock error'')"
    "st_index_catalog s' = st_index_catalog s"
proof -
  let ?sch = "sch\<lparr>ts_columns := ts_columns sch @ [col]\<rparr>"
  have ok: "schema_ok t ?sch"
    using storage_inv_schema [OF inv t] new by (force simp: schema_ok_def has_column_def)
  have t': "fmlookup (st_catalog s) t \<noteq> None" using t by simp
  obtain f g where s1:
    "save_catalog D (put_schema t ?sch s) = (Ok (), (put_schema t ?sch s)\<lparr>dk_files := f, dk_rng := g\<rparr>)"
    "storage_inv D ((put_schema t ?sch s)\<lparr>dk_files := f, dk_rng := g\<rparr>)"
    "\<And>u. located D ((put_schema t ?sch s)\<lparr>dk_files := f, dk_rng := g\<rparr>) u = located D s u"
    by (rule put_schema_ok [OF inv t' ok]) (rule that)
  define s1 where "s1 = (put_schema t ?sch s)\<lparr>dk_files := f, dk_rng := g\<rparr>"
  note s1' = s1 [folded s1_def]
  have c1: "columns_of s1 = (columns_of s)(t \<mapsto> ts_columns sch @ [col])"
    unfolding s1_def columns_of_put_schema by simp
  have f1: "fmlookup (st_catalog s1) t \<noteq> None" "st_key s1 = st_key s" "st_txn s1 = st_txn s"
    "dk_snapshot s1 = dk_snapshot s" "st_index_catalog s1 = st_index_catalog s" by (simp_all add: s1_def)
  obtain s2 where s2: "read_stored_rows D s1 t = Ok (stored_of D s t)"
    "write_stored_rows D t (map (\<lambda>r. r\<lparr>sr_data := fmupd (cs_name col) dflt (sr_data r)\<rparr>) (stored_of D s t)) s1 = (Ok (), s2)"
    "column_change D t (ts_columns sch @ [col]) (fmupd (cs_name col) dflt) s s2"
    "st_index_catalog s2 = st_index_catalog s1"
    by (rule map_rows_ok [OF storage_inv_imp_but [OF s1'(2)] f1(1) c1 s1'(3) f1(2-4)]) (rule that)
  have inv2: "storage_inv D s2" using s2(3) by (simp add: column_change_def)
  obtain r s' where m: "record_migration D t ''ALTER_TABLE_ADD_COLUMN''
      (''ALTER TABLE '' @ t @ '' ADD COLUMN '' @ cs_name col @ '' '' @
       show_data_type (cs_type col) @ '' DEFAULT '' @ show_value dflt) s2 = (r, s')"
    "storage_inv D s'" "data_frame D s2 s'" "r = Ok () \<or> r = Err (Configuration ''system clock error'')"
    by (rule record_migration_ok [OF inv2]) (rule that)
  have "add_column D t col dflt s = (tryq r (\<lambda>_. Ok (length (stored_of D s t))), s')"
    using t new s1'(1) s2(1,2) m(1,4)
    by (auto simp: add_column_def get_schema_def op_seq_step op_bind_step op_apply)
  moreover have "tryq r (\<lambda>_. Ok (length (stored_of D s t))) = Ok (length (stored_of D s t)) \<or>
      tryq r (\<lambda>_. Ok (length (stored_of D s t))) = Err (Configuration ''system clock error'')"
    using m(4) by auto
  moreover have "st_index_catalog s' = st_index_catalog s"
    using s2(4) f1(5) data_frameD(4) [OF m(3)] by simp
  ultimately show ?thesis
    using column_change_data_frame [OF s2(3) m(3,2)] that by blast
qed

lemma drop_column_errors:
  "fmlookup (st_catalog s) t = None \<Longrightarrow> drop_column D t c s = (Err (TableNotFound t), s)"
  "fmlookup (st_catalog s) t = Some sch \<Longrightarrow> length (ts_columns sch) \<le> 1 \<Longrightarrow>
    \<exists>m. drop_column D t c s = (Err (InvalidSchema m), s)"
  "fmlookup (st_catalog s) t = Some sch \<Longrightarrow> \<not> length (ts_columns sch) \<le> 1 \<Longrightarrow> \<not> has_column sch c \<Longrightarrow>
    drop_column D t c s = (Err (ColumnNotFound t c), s)"
  by (simp_all add: drop_column_def get_schema_def op_apply)

text \<open>The middle step of \<open>drop_column\<close>: the indexes on the column go.\<close>

lemma forget_column_indexes:
  assumes inv: "storage_inv D s1"
    and ns: "ns = map ix_name (filter (\<lambda>ix. ix_table ix = t \<and> ix_column ix = c) (st_index_catalog s1))"
  obtains s2 where "(if ns = [] then op_ret ()
      else op_seq (op_mod (\<lambda>s. s\<lparr>st_index_catalog := filter
             (\<lambda>ix. \<not> (ix_table ix = t \<and> ix_column ix = c)) (st_index_catalog s)\<rparr>))
           (save_index_catalog D)) (forget_all ns s1) = (Ok (), s2)"
    "storage_inv D s2" "st_catalog s2 = st_catalog s1" "\<And>u. located D s2 u = located D s1 u"
    "st_index_catalog s2 = filter (\<lambda>ix. \<not> (ix_table ix = t \<and> ix_column ix = c)) (st_index_catalog s1)"
    "st_key s2 = st_key s1" "st_txn s2 = st_txn s1" "dk_snapshot s2 = dk_snapshot s1"
proof (cases "ns = []")
  case True
  then have "filter (\<lambda>ix. \<not> (ix_table ix = t \<and> ix_column ix = c)) (st_index_catalog s1) = st_index_catalog s1"
    by (auto simp: ns filter_empty_conv)
  with True inv show ?thesis by (intro that [of s1]) (simp_all add: op_apply forget_all_def)
next
  case False
  note D = storage_invD(1) [OF inv]
  let ?P = "\<lambda>ix. ix_table ix = t \<and> ix_column ix = c"
  let ?sa = "(forget_all ns s1)\<lparr>st_index_catalog := filter (\<lambda>ix. \<not> ?P ix) (st_index_catalog s1)\<rparr>"
  obtain f g where f: "save_index_catalog D ?sa = (Ok (), ?sa\<lparr>dk_files := f, dk_rng := g\<rparr>)"
    "same_files {index_catalog_path} (dk_files ?sa) f"
    "file_loads D (st_key ?sa) f index_catalog_path (d_indexes_unjson D) [] (st_index_catalog ?sa)"
    by (rule save_index_catalog_ok [OF D, of ?sa]) (rule that)
  define s2 where "s2 = ?sa\<lparr>dk_files := f, dk_rng := g\<rparr>"
  have files: "f x = (if x \<in> index_path ` set ns then None else dk_files s1 x)"
    if "kept_name x" "x \<noteq> index_catalog_path" for x
    using that same_filesD [OF f(2) that(1)] by (simp add: forget_all_files)
  have c: "content_of s2 u = content_of s1 u" for u
    using files [of "table_path u"] by (auto simp: content_of_def s2_def)
  have l: "located D s2 u = located D s1 u" for u
    using c by (intro located_cong) (simp_all add: s2_def)
  have "storage_inv D s2"
    unfolding storage_inv_def
  proof (intro conjI)
    show "tables_ok D s2" using c by (intro tables_ok_cong [OF storage_invD(2) [OF inv]]) (auto simp: s2_def)
    show "indexes_ok D s2"
      by (rule indexes_forgotten [OF inv ns])
        (use l storage_invD(3) [OF inv] in \<open>auto simp: indexes_ok_def s2_def\<close>)
    show "caches_ok D s2"
      by (rule caches_ok_cong [OF storage_invD(4) [OF inv] _ _ l]) (simp_all add: s2_def)
    have "f catalog_path = dk_files s1 catalog_path" "f migrations_path = dk_files s1 migrations_path"
      using files [of catalog_path] files [of migrations_path] by auto
    with storage_invD(5) [OF inv] f(3) show "metadata_ok D s2"
      by (simp add: metadata_ok_def file_loads_def load_encrypted_json_def s2_def)
    show "index_files_ok D s2"
      by (rule index_files_forgotten [OF inv ns]) (use files in \<open>auto simp: s2_def\<close>)
  qed (rule D)
  with f(1) False l show ?thesis by (intro that [of s2]) (simp_all add: s2_def)
qed

lemma drop_column_ok:
  assumes inv: "storage_inv D s" and t: "fmlookup (st_catalog s) t = Some sch"
    and len: "\<not> length (ts_columns sch) \<le> 1" and col: "has_column sch c"
  obtains r s' where "drop_column D t c s = (r, s')"
    "column_change D t (filter (\<lambda>col. cs_name col \<noteq> c) (ts_columns sch)) (fmdrop c) s s'"
    "r = Ok (length (stored_of D s t)) \<or> r = Err (Configuration ''system clock error'')"
    "st_index_catalog s' = filter (\<lambda>ix. \<not> (ix_table ix = t \<and> ix_column ix = c)) (st_index_catalog s)"
proof -
  let ?cols = "filter (\<lambda>col. cs_name col \<noteq> c) (ts_columns sch)"
  let ?sch = "sch\<lparr>ts_columns := ?cols\<rparr>"
  have so: "schema_ok t sch" by (rule storage_inv_schema [OF inv t])
  have "?cols \<noteq> []"
  proof
    assume "?cols = []"
    then have "set (map cs_name (ts_columns sch)) \<subseteq> {c}" by (auto simp: filter_empty_conv)
    moreover have "card (set (map cs_name (ts_columns sch))) = length (ts_columns sch)"
      using so by (metis distinct_card length_map schema_ok_def)
    ultimately have "length (ts_columns sch) \<le> 1"
      by (metis card.empty card_insert_disjoint card_mono empty_iff finite.emptyI finite.insertI One_nat_def)
    with len show False ..
  qed
  with so have ok: "schema_ok t ?sch" by (simp add: schema_ok_def distinct_map_filter)
  have t': "fmlookup (st_catalog s) t \<noteq> None" using t by simp
  obtain f g where s1:
    "save_catalog D (put_schema t ?sch s) = (Ok (), (put_schema t ?sch s)\<lparr>dk_files := f, dk_rng := g\<rparr>)"
    "storage_inv D ((put_schema t ?sch s)\<lparr>dk_files := f, dk_rng := g\<rparr>)"
    "\<And>u. located D ((put_schema t ?sch s)\<lparr>dk_files := f, dk_rng := g\<rparr>) u = located D s u"
    by (rule put_schema_ok [OF inv t' ok]) (rule that)
  define s1 where "s1 = (put_schema t ?sch s)\<lparr>dk_files := f, dk_rng := g\<rparr>"
  note s1' = s1 [folded s1_def]
  have c1: "columns_of s1 = (columns_of s)(t \<mapsto> ?cols)"
    unfolding s1_def columns_of_put_schema by simp
  have f1: "fmlookup (st_catalog s1) t \<noteq> None" "st_key s1 = st_key s" "st_txn s1 = st_txn s"
    "dk_snapshot s1 = dk_snapshot s" "st_index_catalog s1 = st_index_catalog s" by (simp_all add: s1_def)
  define ns where "ns = map ix_name (filter (\<lambda>ix. ix_table ix = t \<and> ix_column ix = c) (st_index_catalog s1))"
  obtain s2 where s2: "(if ns = [] then op_ret ()
      else op_seq (op_mod (\<lambda>s. s\<lparr>st_index_catalog := filter
             (\<lambda>ix. \<not> (ix_table ix = t \<and> ix_column ix = c)) (st_index_catalog s)\<rparr>))
           (save_index_catalog D)) (forget_all ns s1) = (Ok (), s2)"
    "storage_inv D s2" "st_catalog s2 = st_catalog s1" "\<And>u. located D s2 u = located D s1 u"
    "st_index_catalog s2 = filter (\<lambda>ix. \<not> (ix_table ix = t \<and> ix_column ix = c)) (st_index_catalog s1)"
    "st_key s2 = st_key s1" "st_txn s2 = st_txn s1" "dk_snapshot s2 = dk_snapshot s1"
    by (rule forget_column_indexes [OF s1'(2) ns_def]) (rule that)
  have c2: "columns_of s2 = (columns_of s)(t \<mapsto> ?cols)" using c1 by (simp add: columns_of_def s2(3) fun_eq_iff)
  have l2: "located D s2 u = located D s u" for u using s2(4) s1'(3) by simp
  obtain s3 where s3: "read_stored_rows D s2 t = Ok (stored_of D s t)"
    "write_stored_rows D t (map (\<lambda>r. r\<lparr>sr_data := fmdrop c (sr_data r)\<rparr>) (stored_of D s t)) s2 = (Ok (), s3)"
    "column_change D t ?cols (fmdrop c) s s3" "st_index_catalog s3 = st_index_catalog s2"
    by (rule map_rows_ok [OF storage_inv_imp_but [OF s2(2)] _ c2 l2]) (use s2 f1 that in auto)
  have inv3: "storage_inv D s3" using s3(3) by (simp add: column_change_def)
  obtain r s' where m: "record_migration D t ''ALTER_TABLE_DROP_COLUMN''
      (''ALTER TABLE '' @ t @ '' DROP COLUMN '' @ c) s3 = (r, s')"
    "storage_inv D s'" "data_frame D s3 s'" "r = Ok () \<or> r = Err (Configuration ''system clock error'')"
    by (rule record_migration_ok [OF inv3]) (rule that)
  have "drop_column D t c s = (tryq r (\<lambda>_. Ok (length (stored_of D s t))), s')"
    using t len col s1'(1) s2(1) s3(1,2) m(1,4)
    by (auto simp: drop_column_def get_schema_def op_seq_step op_bind_step op_apply forget_all_run
        ns_def [symmetric])
  moreover have "tryq r (\<lambda>_. Ok (length (stored_of D s t))) = Ok (length (stored_of D s t)) \<or>
      tryq r (\<lambda>_. Ok (length (stored_of D s t))) = Err (Configuration ''system clock error'')"
    using m(4) by auto
  moreover have "st_index_catalog s' = filter (\<lambda>ix. \<not> (ix_table ix = t \<and> ix_column ix = c)) (st_index_catalog s)"
    using s3(4) s2(5) f1(5) data_frameD(4) [OF m(3)] by simp
  ultimately show ?thesis
    using column_change_data_frame [OF s3(3) m(3,2)] that by blast
qed

text \<open>Renaming a column.\<close>

lemma rename_column_errors:
  "fmlookup (st_catalog s) t = None \<Longrightarrow> rename_column D t old new s = (Err (TableNotFound t), s)"
  "fmlookup (st_catalog s) t = Some sch \<Longrightarrow> \<not> has_column sch old \<Longrightarrow>
    rename_column D t old new s = (Err (ColumnNotFound t old), s)"
  "fmlookup (st_catalog s) t = Some sch \<Longrightarrow> has_column sch old \<Longrightarrow> has_column sch new \<Longrightarrow>
    \<exists>m. rename_column D t old new s = (Err (InvalidSchema m), s)"
  by (simp_all add: rename_column_def get_schema_def op_apply)

definition rename_columns :: "string \<Rightarrow> string \<Rightarrow> column_schema list \<Rightarrow> column_schema list" where
  "rename_columns old new cols = map (\<lambda>col. if cs_name col = old then col\<lparr>cs_name := new\<rparr> else col) cols"

lemma rename_columns_names:
  "map cs_name (rename_columns old new cols) = map (\<lambda>n. if n = old then new else n) (map cs_name cols)"
  by (simp add: rename_columns_def)

lemma distinct_rename: "distinct ns \<Longrightarrow> new \<notin> set ns \<Longrightarrow> distinct (map (\<lambda>n. if n = old then new else n) ns)"
  by (induction ns) (auto split: if_splits)

definition rename_index :: "string \<Rightarrow> string \<Rightarrow> string \<Rightarrow> index_definition \<Rightarrow> index_definition" where
  "rename_index t old new ix =
     (if ix_table ix = t \<and> ix_column ix = old then ix\<lparr>ix_column := new\<rparr> else ix)"

lemma rename_index_simps [simp]:
  "ix_name (rename_index t old new ix) = ix_name ix" "ix_table (rename_index t old new ix) = ix_table ix"
  "ix_table ix \<noteq> t \<Longrightarrow> rename_index t old new ix = ix"
  by (simp_all add: rename_index_def)

lemma rebuild_table_again:
  assumes inv: "storage_inv D s" and t: "fmlookup (st_catalog s) t \<noteq> None"
  obtains s' where "rebuild_indexes_for_table D t s = (Ok (), s')" "storage_inv D s'" "data_frame D s s'"
proof -
  have d: "distinct (map ix_name (st_index_catalog s))"
    using storage_invD(3) [OF inv] by (simp add: indexes_ok_def)
  note R = rebuild_table_ok [OF storage_invD(2) [OF inv] d t]
  obtain ps where ps: "file_holds (decode_row D (st_key s)) (content_of s t) ps"
    using tables_ok_holds [OF storage_invD(2) [OF inv] t] by blast
  have "storage_inv D (write_maps (rebuilt_maps D s t) s)"
    by (rule storage_inv_table_change [OF storage_inv_imp_but [OF inv] _ _ _ _ _ _ _ _ t ps
        storage_invD(4) [OF inv]]) simp_all
  moreover have "data_frame D s (write_maps (rebuilt_maps D s t) s)"
    by (simp add: data_frame_def)
  ultimately show ?thesis using R that by blast
qed

text \<open>The step that renames the column in the index catalog: the maps of the table are stale.\<close>

lemma rename_indexes_ok:
  assumes inv: "storage_inv D s1"
  obtains s2 where "save_index_catalog D (s1\<lparr>st_index_catalog :=
      map (rename_index t old new) (st_index_catalog s1)\<rparr>) = (Ok (), s2)" "storage_inv_but D t s2"
    "st_catalog s2 = st_catalog s1" "\<And>u. located D s2 u = located D s1 u"
    "st_index_catalog s2 = map (rename_index t old new) (st_index_catalog s1)"
    "st_key s2 = st_key s1" "st_txn s2 = st_txn s1" "dk_snapshot s2 = dk_snapshot s1"
proof -
  note D = storage_invD(1) [OF inv]
  define sa where "sa = s1\<lparr>st_index_catalog := map (rename_index t old new) (st_index_catalog s1)\<rparr>"
  obtain f g where f: "save_index_catalog D sa = (Ok (), sa\<lparr>dk_files := f, dk_rng := g\<rparr>)"
    "same_files {index_catalog_path} (dk_files sa) f"
    "file_loads D (st_key sa) f index_catalog_path (d_indexes_unjson D) [] (st_index_catalog sa)"
    by (rule save_index_catalog_ok [OF D, of sa]) (rule that)
  define s2 where "s2 = sa\<lparr>dk_files := f, dk_rng := g\<rparr>"
  have files: "f x = dk_files s1 x" if "kept_name x" "x \<noteq> index_catalog_path" for x
    using that same_filesD [OF f(2) that(1)] by (simp add: sa_def)
  have c: "content_of s2 u = content_of s1 u" for u
    using files [of "table_path u"] by (auto simp: content_of_def s2_def)
  have l: "located D s2 u = located D s1 u" for u
    using c by (intro located_cong) (simp_all add: s2_def sa_def)
  have ic: "st_index_catalog s2 = map (rename_index t old new) (st_index_catalog s1)"
    by (simp add: s2_def sa_def)
  have other: "st_key s2 = st_key s1" "st_catalog s2 = st_catalog s1" "st_index_maps s2 = st_index_maps s1"
    "st_dirty s2 = st_dirty s1" "st_indexes_clean s2 = st_indexes_clean s1" "st_migrations s2 = st_migrations s1"
    "st_unique_caches s2 = st_unique_caches s1" "dk_files s2 = f"
    by (simp_all add: s2_def sa_def)
  have "storage_inv_but D t s2"
    unfolding storage_inv_but_def
  proof (intro conjI ballI impI)
    show "tables_ok D s2"
      using c by (intro tables_ok_cong [OF storage_invD(2) [OF inv]]) (auto simp: other)
    show "caches_ok D s2"
      by (rule caches_ok_cong [OF storage_invD(4) [OF inv] _ _ l]) (simp_all add: other)
    have "f catalog_path = dk_files s1 catalog_path" "f migrations_path = dk_files s1 migrations_path"
      using files by simp_all
    with storage_invD(5) [OF inv] f(3) show "metadata_ok D s2"
      by (simp add: metadata_ok_def file_loads_def load_encrypted_json_def other ic sa_def)
    have "map ix_name (st_index_catalog s2) = map ix_name (st_index_catalog s1)" by (simp add: ic)
    with storage_invD(3) [OF inv] show "distinct (map ix_name (st_index_catalog s2))"
      by (simp only: indexes_ok_def)
    have "f (index_path k) = dk_files s1 (index_path k)" "f index_marker_path = dk_files s1 index_marker_path" for k
      using files by simp_all
    with storage_invD(6) [OF inv] show "index_files_ok D s2"
      by (auto simp: index_files_ok_def ic other file_loads_def load_encrypted_json_def)
    fix ix assume "ix \<in> set (st_index_catalog s2)"
    then obtain iy where iy: "iy \<in> set (st_index_catalog s1)" "ix = rename_index t old new iy"
      by (auto simp: ic)
    with storage_invD(3) [OF inv] show "fmlookup (st_catalog s2) (ix_table ix) \<noteq> None"
      by (simp add: indexes_ok_def other)
    assume "ix_table ix \<noteq> t"
    with iy storage_invD(3) [OF inv] show "index_ok D s2 ix"
      by (simp add: indexes_ok_def index_ok_def other l)
  qed (rule D)
  moreover have "st_txn s2 = st_txn s1" "dk_snapshot s2 = dk_snapshot s1" by (simp_all add: s2_def sa_def)
  moreover have "save_index_catalog D (s1\<lparr>st_index_catalog :=
      map (rename_index t old new) (st_index_catalog s1)\<rparr>) = (Ok (), s2)"
    using f(1) by (simp add: s2_def sa_def)
  ultimately show ?thesis using l ic other that by blast
qed

lemma rename_column_ok:
  assumes inv: "storage_inv D s" and t: "fmlookup (st_catalog s) t = Some sch"
    and old: "has_column sch old" and new: "\<not> has_column sch new"
  obtains r s' where "rename_column D t old new s = (r, s')"
    "column_change D t (rename_columns old new (ts_columns sch)) (rename_key old new) s s'"
    "r = Ok (length (stored_of D s t)) \<or> r = Err (Configuration ''system clock error'')"
    "st_index_catalog s' = map (rename_index t old new) (st_index_catalog s)"
proof -
  let ?cols = "rename_columns old new (ts_columns sch)"
  let ?sch = "sch\<lparr>ts_columns := ?cols\<rparr>"
  have so: "schema_ok t sch" by (rule storage_inv_schema [OF inv t])
  have "distinct (map cs_name ?cols)"
    unfolding rename_columns_names using so new
    by (intro distinct_rename) (auto simp: schema_ok_def has_column_def)
  with so have ok: "schema_ok t ?sch" by (auto simp: schema_ok_def rename_columns_def)
  have t': "fmlookup (st_catalog s) t \<noteq> None" using t by simp
  obtain f g where s1:
    "save_catalog D (put_schema t ?sch s) = (Ok (), (put_schema t ?sch s)\<lparr>dk_files := f, dk_rng := g\<rparr>)"
    "storage_inv D ((put_schema t ?sch s)\<lparr>dk_files := f, dk_rng := g\<rparr>)"
    "\<And>u. located D ((put_schema t ?sch s)\<lparr>dk_files := f, dk_rng := g\<rparr>) u = located D s u"
    by (rule put_schema_ok [OF inv t' ok]) (rule that)
  define s1 where "s1 = (put_schema t ?sch s)\<lparr>dk_files := f, dk_rng := g\<rparr>"
  note s1' = s1 [folded s1_def]
  have c1: "columns_of s1 = (columns_of s)(t \<mapsto> ?cols)"
    unfolding s1_def columns_of_put_schema by simp
  have f1: "fmlookup (st_catalog s1) t \<noteq> None" "st_key s1 = st_key s" "st_txn s1 = st_txn s"
    "dk_snapshot s1 = dk_snapshot s" "st_index_catalog s1 = st_index_catalog s" by (simp_all add: s1_def)
  obtain s2 where s2: "save_index_catalog D (s1\<lparr>st_index_catalog :=
      map (rename_index t old new) (st_index_catalog s1)\<rparr>) = (Ok (), s2)" "storage_inv_but D t s2"
    "st_catalog s2 = st_catalog s1" "\<And>u. located D s2 u = located D s1 u"
    "st_index_catalog s2 = map (rename_index t old new) (st_index_catalog s1)"
    "st_key s2 = st_key s1" "st_txn s2 = st_txn s1" "dk_snapshot s2 = dk_snapshot s1"
    by (rule rename_indexes_ok [OF s1'(2)]) (rule that)
  have c2: "columns_of s2 = (columns_of s)(t \<mapsto> ?cols)" using c1 by (simp add: columns_of_def s2(3) fun_eq_iff)
  have l2: "located D s2 u = located D s u" for u using s2(4) s1'(3) by simp
  obtain s3 where s3: "read_stored_rows D s2 t = Ok (stored_of D s t)"
    "write_stored_rows D t (map (\<lambda>r. r\<lparr>sr_data := rename_key old new (sr_data r)\<rparr>) (stored_of D s t)) s2 = (Ok (), s3)"
    "column_change D t ?cols (rename_key old new) s s3" "st_index_catalog s3 = st_index_catalog s2"
    by (rule map_rows_ok [OF s2(2) _ c2 l2]) (use s2 f1 that in auto)
  have inv3: "storage_inv D s3" and c3: "columns_of s3 t = Some ?cols"
    using s3(3) by (simp_all add: column_change_def)
  have t3: "fmlookup (st_catalog s3) t \<noteq> None" using c3 columns_of_None by (metis option.distinct(1))
  obtain s4 where s4: "rebuild_indexes_for_table D t s3 = (Ok (), s4)" "storage_inv D s4" "data_frame D s3 s4"
    by (rule rebuild_table_again [OF inv3 t3]) (rule that)
  obtain r s' where m: "record_migration D t ''ALTER_TABLE_RENAME_COLUMN''
      (''ALTER TABLE '' @ t @ '' RENAME COLUMN '' @ old @ '' TO '' @ new) s4 = (r, s')"
    "storage_inv D s'" "data_frame D s4 s'" "r = Ok () \<or> r = Err (Configuration ''system clock error'')"
    by (rule record_migration_ok [OF s4(2)]) (rule that)
  note df = data_frame_trans [OF s4(3) m(3)]
  have ri: "(\<lambda>ix. if ix_table ix = t \<and> ix_column ix = old then ix\<lparr>ix_column := new\<rparr> else ix) =
      rename_index t old new"
    by (simp add: fun_eq_iff rename_index_def)
  have "rename_column D t old new s = (tryq r (\<lambda>_. Ok (length (stored_of D s t))), s')"
    using t old new s1'(1) s2(1) s3(1,2) s4(1) m(1,4)
    by (auto simp: rename_column_def get_schema_def op_seq_step op_bind_step op_apply
        rename_columns_def [symmetric] ri)
  moreover have "tryq r (\<lambda>_. Ok (length (stored_of D s t))) = Ok (length (stored_of D s t)) \<or>
      tryq r (\<lambda>_. Ok (length (stored_of D s t))) = Err (Configuration ''system clock error'')"
    using m(4) by auto
  moreover have "st_index_catalog s' = map (rename_index t old new) (st_index_catalog s)"
    using s3(4) s2(5) f1(5) data_frameD(4) [OF df] by simp
  ultimately show ?thesis
    using column_change_data_frame [OF s3(3) df m(2)] that by blast
qed

end
