(* ===== verification/Storage_Txn.thy ===== *)
theory Storage_Txn
  imports Storage_DDL
begin

text \<open>
  Flushing the indexes, transactions, and opening a database: a rollback restores what a
  \<open>BEGIN\<close> saw, and opening after a process ended between two operations finds the catalog, the
  rows and the indexes it had.
\<close>

section \<open>Flushing\<close>

definition flush_step :: "deps \<Rightarrow> string \<Rightarrow> unit storage_op" where
  "flush_step D name s = (case fmlookup (st_index_maps s) name of
     Some m \<Rightarrow> save_encrypted_json D (index_path name) (d_index_map_json D m) s
   | None \<Rightarrow> (Ok (), s))"

lemma flush_loop_ok:
  assumes D: "deps_ok D"
  obtains f g where "op_each (flush_step D) ns s = (Ok (), s\<lparr>dk_files := f, dk_rng := g\<rparr>)"
    "same_files (index_path ` set ns) (dk_files s) f"
    "\<And>n m. n \<in> set ns \<Longrightarrow> fmlookup (st_index_maps s) n = Some m \<Longrightarrow>
      file_loads D (st_key s) f (index_path n) (d_index_map_unjson D) fmempty m"
proof (induction ns arbitrary: s thesis)
  case Nil
  show ?case by (rule Nil [of "dk_rng s" "dk_files s"]) (simp_all add: op_apply)
next
  case (Cons n ns)
  obtain f g where 1: "flush_step D n s = (Ok (), s\<lparr>dk_files := f, dk_rng := g\<rparr>)"
    "same_files {index_path n} (dk_files s) f"
    "\<And>m. fmlookup (st_index_maps s) n = Some m \<Longrightarrow>
      file_loads D (st_key s) f (index_path n) (d_index_map_unjson D) fmempty m"
  proof (cases "fmlookup (st_index_maps s) n")
    case None
    then show ?thesis by (intro that [of "dk_rng s" "dk_files s"]) (simp_all add: flush_step_def)
  next
    case (Some m)
    show ?thesis
      by (rule save_index_map_ok [OF D, of n m s]) (rule that, simp_all add: flush_step_def Some)
  qed
  obtain f' g' where 2: "op_each (flush_step D) ns (s\<lparr>dk_files := f, dk_rng := g\<rparr>) =
      (Ok (), s\<lparr>dk_files := f, dk_rng := g\<rparr>\<lparr>dk_files := f', dk_rng := g'\<rparr>)"
    "same_files (index_path ` set ns) f f'"
    "\<And>k m. k \<in> set ns \<Longrightarrow> fmlookup (st_index_maps s) k = Some m \<Longrightarrow>
      file_loads D (st_key s) f' (index_path k) (d_index_map_unjson D) fmempty m"
    by (rule Cons.IH [of "s\<lparr>dk_files := f, dk_rng := g\<rparr>"]) (rule that, simp_all)
  show ?case
  proof (rule Cons.prems)
    show "op_each (flush_step D) (n # ns) s = (Ok (), s\<lparr>dk_files := f', dk_rng := g'\<rparr>)"
      using 1(1) 2(1) by (simp add: op_seq_step)
    show "same_files (index_path ` set (n # ns)) (dk_files s) f'"
      using 1(2) 2(2) by (auto simp: same_files_def)
    fix k m assume k: "k \<in> set (n # ns)" "fmlookup (st_index_maps s) k = Some m"
    show "file_loads D (st_key s) f' (index_path k) (d_index_map_unjson D) fmempty m"
    proof (cases "k \<in> set ns")
      case True
      then show ?thesis using 2(3) k(2) by blast
    next
      case False
      with k have "k = n" by simp
      with False 1(3) k(2) show ?thesis by (auto simp: file_loads_same [OF 2(2)] image_iff)
    qed
  qed
qed

lemma flush_indexes_ok:
  assumes inv: "storage_inv D s"
  obtains f g where "flush_indexes D s = (Ok (), s\<lparr>st_dirty := {||}, dk_files := f, dk_rng := g, st_indexes_clean := True\<rparr>)"
    "storage_inv D (s\<lparr>st_dirty := {||}, dk_files := f, dk_rng := g, st_indexes_clean := True\<rparr>)"
    "data_frame D s (s\<lparr>st_dirty := {||}, dk_files := f, dk_rng := g, st_indexes_clean := True\<rparr>)"
proof -
  note D = storage_invD(1) [OF inv]
  let ?ns = "sorted_list_of_fset (st_dirty s)"
  have ns: "set ?ns = fset (st_dirty s)" by (simp add: sorted_list_of_fset.rep_eq)
  let ?s1 = "s\<lparr>st_dirty := {||}\<rparr>"
  obtain f g where fl: "op_each (flush_step D) ?ns ?s1 = (Ok (), ?s1\<lparr>dk_files := f, dk_rng := g\<rparr>)"
    "same_files (index_path ` set ?ns) (dk_files ?s1) f"
    "\<And>n m. n \<in> set ?ns \<Longrightarrow> fmlookup (st_index_maps ?s1) n = Some m \<Longrightarrow>
      file_loads D (st_key ?s1) f (index_path n) (d_index_map_unjson D) fmempty m"
    by (rule flush_loop_ok [OF D, of ?ns ?s1]) (rule that)
  define f' where "f' = f(index_marker_path \<mapsto> [])"
  define s2 where "s2 = s\<lparr>st_dirty := {||}, dk_files := f', dk_rng := g, st_indexes_clean := True\<rparr>"
  have files: "same_files (insert index_marker_path (index_path ` set ?ns)) (dk_files s) f'"
    using fl(2) by (simp add: same_files_def f'_def)
  have run: "flush_indexes D s = (Ok (), s2)"
  proof -
    have "(\<lambda>name s. case fmlookup (st_index_maps s) name of
               Some m \<Rightarrow> save_encrypted_json D (index_path name) (d_index_map_json D m) s
             | None \<Rightarrow> (Ok (), s)) = flush_step D" by (simp add: fun_eq_iff flush_step_def)
    with fl(1) show ?thesis
      by (simp add: flush_indexes_def op_seq_step op_apply put_file_def s2_def f'_def)
  qed
  have c: "content_of s2 t = content_of s t" for t
    by (rule content_same_files [where X = "insert index_marker_path (index_path ` set ?ns)"])
      (use files in \<open>auto simp: s2_def\<close>)
  have l: "located D s2 t = located D s t" for t
    using c by (intro located_cong) (simp_all add: s2_def)
  have i: "\<And>ix. ix \<in> set (st_index_catalog s) \<Longrightarrow> \<exists>m. fmlookup (st_index_maps s) (ix_name ix) = Some m"
    using storage_invD(3) [OF inv] by (auto simp: indexes_ok_def index_ok_def)
  have "index_files_ok D s2"
    unfolding index_files_ok_def
  proof (intro conjI ballI impI)
    fix ix assume "ix \<in> set (st_index_catalog s2)"
    then have ix: "ix \<in> set (st_index_catalog s)" by (simp add: s2_def)
    then obtain m where m: "fmlookup (st_index_maps s) (ix_name ix) = Some m" using i by blast
    have "file_loads D (st_key s) f (index_path (ix_name ix)) (d_index_map_unjson D) fmempty m"
    proof (cases "ix_name ix |\<in>| st_dirty s")
      case True
      with fl(3) m ns show ?thesis by simp
    next
      case False
      with storage_invD(6) [OF inv] ix m
      have "file_loads D (st_key s) (dk_files s) (index_path (ix_name ix)) (d_index_map_unjson D) fmempty m"
        by (auto simp: index_files_ok_def)
      with False ns show ?thesis by (auto simp: file_loads_same [OF fl(2)] image_iff)
    qed
    then have "file_loads D (st_key s) f' (index_path (ix_name ix)) (d_index_map_unjson D) fmempty m"
      by (simp add: f'_def file_loads_def load_encrypted_json_def)
    with m show "\<exists>m. fmlookup (st_index_maps s2) (ix_name ix) = Some m \<and>
        file_loads D (st_key s2) (dk_files s2) (index_path (ix_name ix)) (d_index_map_unjson D) fmempty m"
      by (simp add: s2_def)
  qed (simp_all add: s2_def)
  moreover have "tables_ok D s2"
    using c by (intro tables_ok_cong [OF storage_invD(2) [OF inv]]) (auto simp: s2_def)
  moreover have "indexes_ok D s2"
    by (rule indexes_ok_cong [OF storage_invD(3) [OF inv] _ _ _ l]) (simp_all add: s2_def)
  moreover have "caches_ok D s2"
    by (rule caches_ok_cong [OF storage_invD(4) [OF inv] _ _ l]) (simp_all add: s2_def)
  moreover have "metadata_ok D s2"
    by (rule metadata_ok_cong [OF storage_invD(5) [OF inv], where X = "insert index_marker_path (index_path ` set ?ns)"])
      (use files in \<open>auto simp: s2_def\<close>)
  ultimately have "storage_inv D s2" using D by (simp add: storage_inv_def)
  moreover have "data_frame D s s2" using l by (simp add: data_frame_def s2_def)
  ultimately show ?thesis using run that unfolding s2_def by blast
qed

section \<open>Loading the index maps\<close>

definition load_step :: "deps \<Rightarrow> string \<Rightarrow> unit storage_op" where
  "load_step D name = op_bind (op_read (\<lambda>s. load_index_map_from_disk D s name)) (\<lambda>m.
     op_mod (\<lambda>s. s\<lparr>st_index_maps := fmupd name m (st_index_maps s)\<rparr>))"

lemma load_index_map_ok:
  "file_loads D (st_key s) (dk_files s) (index_path n) (d_index_map_unjson D) fmempty m \<Longrightarrow>
   load_index_map_from_disk D s n = Ok m"
  by (simp add: load_index_map_from_disk_def file_loads_def)

lemma load_loop_ok:
  assumes "\<And>n. n \<in> set ns \<Longrightarrow>
    file_loads D (st_key s) (dk_files s) (index_path n) (d_index_map_unjson D) fmempty (M n)"
  shows "\<exists>im. op_each (load_step D) ns s = (Ok (), s\<lparr>st_index_maps := im\<rparr>) \<and>
    (\<forall>n \<in> set ns. fmlookup im n = Some (M n))"
proof -
  have "\<exists>im. op_each (load_step D) ns s = (Ok (), s\<lparr>st_index_maps := im\<rparr>) \<and>
      (\<forall>n. fmlookup im n = (if n \<in> set ns then Some (M n) else fmlookup (st_index_maps s) n))"
    using assms
  proof (induction ns arbitrary: s)
    case Nil
    show ?case by (intro exI [of _ "st_index_maps s"]) (simp add: op_apply)
  next
    case (Cons n ns)
    let ?s = "s\<lparr>st_index_maps := fmupd n (M n) (st_index_maps s)\<rparr>"
    have "load_index_map_from_disk D s n = Ok (M n)"
      using Cons.prems by (intro load_index_map_ok) simp
    then have 1: "load_step D n s = (Ok (), ?s)" by (simp add: load_step_def op_apply)
    from Cons.IH [of ?s] Cons.prems obtain im where
      "op_each (load_step D) ns ?s = (Ok (), ?s\<lparr>st_index_maps := im\<rparr>)"
      "\<forall>k. fmlookup im k = (if k \<in> set ns then Some (M k) else fmlookup (st_index_maps ?s) k)"
      by auto
    with 1 show ?case by (intro exI [of _ im]) (simp add: op_seq_step)
  qed
  then show ?thesis by auto
qed

lemma load_all_index_maps_eq:
  "load_all_index_maps D s = op_each (load_step D) (map ix_name (st_index_catalog s)) (s\<lparr>st_index_maps := fmempty\<rparr>)"
  by (simp add: load_all_index_maps_def load_step_def [abs_def])

section \<open>What a new set of files means\<close>

text \<open>
  A state put together from files: its metadata is what the files hold, its index maps are
  loaded, the caches are empty. \<open>s0\<close> is the state in its invariant whose files were taken.
\<close>

lemma loaded_state_ok:
  assumes inv: "storage_inv D s0" and clean: "st_dirty s0 = {||}"
    and same: "st_key s = st_key s0" "st_catalog s = st_catalog s0" "st_migrations s = st_migrations s0"
      "st_index_catalog s = st_index_catalog s0" "st_dirty s = {||}" "st_unique_caches s = fmempty"
    and files: "\<And>x. is_data_name x \<or> is_metadata_name x \<Longrightarrow> dk_files s x = dk_files s0 x"
    and marker: "dk_files s index_marker_path \<noteq> None \<Longrightarrow> st_indexes_clean s"
  shows "\<exists>im. load_all_index_maps D s = (Ok (), s\<lparr>st_index_maps := im\<rparr>) \<and>
    storage_inv D (s\<lparr>st_index_maps := im\<rparr>) \<and> (\<forall>t. located D (s\<lparr>st_index_maps := im\<rparr>) t = located D s0 t)"
proof -
  note D = storage_invD(1) [OF inv]
  have ft: "dk_files s (table_path t) = dk_files s0 (table_path t)" for t
    by (rule files) (simp add: is_data_name_def)
  have fi: "dk_files s (index_path n) = dk_files s0 (index_path n)" for n
    by (rule files) (simp add: is_data_name_def)
  have fm: "dk_files s x = dk_files s0 x" if "is_metadata_name x" for x
    using that by (intro files) simp
  define M where "M n = the (fmlookup (st_index_maps s0) n)" for n
  have M: "fmlookup (st_index_maps s0) (ix_name ix) = Some (M (ix_name ix))"
    "file_loads D (st_key s0) (dk_files s0) (index_path (ix_name ix)) (d_index_map_unjson D) fmempty (M (ix_name ix))"
    if "ix \<in> set (st_index_catalog s0)" for ix
    using storage_invD(6) [OF inv] that by (auto simp: index_files_ok_def clean M_def)
  have fl: "file_loads D (st_key s) (dk_files s) (index_path n) (d_index_map_unjson D) fmempty (M n)"
    if "n \<in> set (map ix_name (st_index_catalog s))" for n
  proof -
    from that obtain ix where "ix \<in> set (st_index_catalog s0)" "n = ix_name ix" by (auto simp: same)
    with M(2) [of ix] fi show ?thesis by (simp add: file_loads_def load_encrypted_json_def same)
  qed
  obtain im where im: "load_all_index_maps D s = (Ok (), s\<lparr>st_index_maps := im\<rparr>)"
    "\<And>ix. ix \<in> set (st_index_catalog s0) \<Longrightarrow> fmlookup im (ix_name ix) = Some (M (ix_name ix))"
    using load_loop_ok [of "map ix_name (st_index_catalog s)" D "s\<lparr>st_index_maps := fmempty\<rparr>" M] fl
    by (auto simp: load_all_index_maps_eq same)
  let ?s = "s\<lparr>st_index_maps := im\<rparr>"
  have c: "content_of ?s t = content_of s0 t" for t by (simp add: content_of_def ft)
  have l: "located D ?s t = located D s0 t" for t
    using c by (intro located_cong) (simp_all add: same)
  have "tables_ok D ?s"
    using c by (intro tables_ok_cong [OF storage_invD(2) [OF inv]]) (auto simp: same)
  moreover have "indexes_ok D ?s"
    using storage_invD(3) [OF inv] l im(2) M(1) by (simp add: indexes_ok_def index_ok_def same)
  moreover have "caches_ok D ?s" by (simp add: caches_ok_def unique_cache_of_def same)
  moreover have "metadata_ok D ?s"
    using storage_invD(5) [OF inv] fm
    by (simp add: metadata_ok_def same file_loads_def load_encrypted_json_def)
  moreover have "index_files_ok D ?s"
    using fl im(2) marker by (auto simp: index_files_ok_def same)
  ultimately show ?thesis using im(1) l D by (auto simp: storage_inv_def)
qed

section \<open>Transactions\<close>

text \<open>What a snapshot has to hold for a rollback to return to \<open>s0\<close>.\<close>

definition snapshot_of :: "deps \<Rightarrow> storage \<Rightarrow> (string \<rightharpoonup> string) \<Rightarrow> bool" where
  "snapshot_of D s0 snap \<longleftrightarrow> (\<exists>s1. storage_inv D s1 \<and> st_dirty s1 = {||} \<and> data_frame D s0 s1 \<and>
     st_migrations s1 = st_migrations s0 \<and>
     snap = (\<lambda>f. if is_metadata_name f \<or> is_data_name f then dk_files s1 f else None))"

lemma begin_transaction_busy:
  "st_txn s \<Longrightarrow> begin_transaction D s = (Err (Transaction ''transaction already in progress''), s)"
  by (simp add: begin_transaction_def)

lemma begin_transaction_ok:
  assumes inv: "storage_inv D s" and idle: "\<not> st_txn s"
  obtains s' snap where "begin_transaction D s = (Ok (), s')" "storage_inv D s'" "st_txn s'"
    "dk_snapshot s' = Some snap" "snapshot_of D s snap" "st_key s' = st_key s"
    "st_catalog s' = st_catalog s" "st_index_catalog s' = st_index_catalog s"
    "st_migrations s' = st_migrations s" "\<And>t. located D s' t = located D s t"
proof -
  let ?sa = "s\<lparr>st_table_files := {}\<rparr>"
  have inva: "storage_inv D ?sa" using inv by simp
  obtain f g where fl: "flush_indexes D ?sa = (Ok (), ?sa\<lparr>st_dirty := {||}, dk_files := f, dk_rng := g, st_indexes_clean := True\<rparr>)"
    "storage_inv D (?sa\<lparr>st_dirty := {||}, dk_files := f, dk_rng := g, st_indexes_clean := True\<rparr>)"
    "data_frame D ?sa (?sa\<lparr>st_dirty := {||}, dk_files := f, dk_rng := g, st_indexes_clean := True\<rparr>)"
    by (rule flush_indexes_ok [OF inva]) (rule that)
  define s1 where "s1 = ?sa\<lparr>st_dirty := {||}, dk_files := f, dk_rng := g, st_indexes_clean := True\<rparr>"
  define snap where "snap = (\<lambda>x. if is_metadata_name x \<or> is_data_name x then dk_files s1 x else None)"
  let ?s' = "s1\<lparr>dk_snapshot := Some snap, st_txn := True\<rparr>"
  have df: "data_frame D s s1" using fl(3) by (simp add: data_frame_def s1_def)
  have "begin_transaction D s = (Ok (), ?s')"
    using idle fl(1) by (simp add: begin_transaction_def op_seq_step op_apply s1_def snap_def cong: if_cong)
  moreover have "snapshot_of D s snap"
    unfolding snapshot_of_def using fl(2) df by (intro exI [of _ s1]) (simp add: s1_def snap_def)
  ultimately show ?thesis
    using fl(2) df by (intro that [of ?s' snap]) (simp_all add: s1_def data_frame_def)
qed

lemma commit_transaction_eq:
  "commit_transaction s = (if st_txn s then (Ok (), s\<lparr>st_txn := False, dk_snapshot := None\<rparr>)
     else (Err (Transaction ''no transaction in progress''), s))"
  by (simp add: commit_transaction_def)

lemma rollback_idle:
  "\<not> st_txn s \<Longrightarrow> rollback_transaction D s = (Err (Transaction ''no transaction in progress''), s)"
  by (simp add: rollback_transaction_def)

lemma rollback_transaction_ok:
  assumes inv: "storage_inv D s" and txn: "st_txn s" and snap: "dk_snapshot s = Some snap"
    and sn: "snapshot_of D s0 snap" and key: "st_key s = st_key s0"
  obtains s' where "rollback_transaction D s = (Ok (), s')" "storage_inv D s'" "\<not> st_txn s'"
    "dk_snapshot s' = None" "st_key s' = st_key s0" "st_catalog s' = st_catalog s0"
    "st_index_catalog s' = st_index_catalog s0" "st_migrations s' = st_migrations s0"
    "\<And>t. located D s' t = located D s0 t"
proof -
  obtain s1 where s1: "storage_inv D s1" "st_dirty s1 = {||}" "data_frame D s0 s1"
    "st_migrations s1 = st_migrations s0"
    "snap = (\<lambda>f. if is_metadata_name f \<or> is_data_name f then dk_files s1 f else None)"
    using sn by (auto simp: snapshot_of_def)
  have k1: "st_key s1 = st_key s" using s1(3) key by (simp add: data_frame_def)
  define f where "f = (\<lambda>f. if is_data_name f \<or> is_metadata_name f then None else dk_files s f) ++ snap"
  have f: "f x = dk_files s1 x" if "is_data_name x \<or> is_metadata_name x" for x
    using that by (auto simp: f_def s1(5) map_add_def split: option.splits)
  have nd: "\<not> is_data_name index_marker_path" "\<not> is_metadata_name index_marker_path"
    by (simp_all add: is_data_name_def)
  then have fmk: "f index_marker_path = dk_files s index_marker_path"
    by (simp add: f_def s1(5) map_add_def)
  note meta = storage_invD(5) [OF s1(1), unfolded metadata_ok_def file_loads_def]
  have lc: "load_encrypted_json D (st_key s) f catalog_path (d_catalog_unjson D) fmempty = Ok (st_catalog s1)"
    "load_encrypted_json D (st_key s) f migrations_path (d_migrations_unjson D) [] = Ok (st_migrations s1)"
    "load_encrypted_json D (st_key s) f index_catalog_path (d_indexes_unjson D) [] = Ok (st_index_catalog s1)"
    using meta f by (simp_all add: load_encrypted_json_def k1)
  define s2 where "s2 = s\<lparr>st_txn := False, st_table_files := {}, st_unique_caches := fmempty,
    dk_files := f, dk_snapshot := None, st_catalog := st_catalog s1, st_migrations := st_migrations s1,
    st_index_catalog := st_index_catalog s1, st_dirty := {||}\<rparr>"
  have "dk_files s index_marker_path \<noteq> None \<Longrightarrow> st_indexes_clean s"
    using storage_invD(6) [OF inv] by (simp add: index_files_ok_def)
  then obtain im where im: "load_all_index_maps D s2 = (Ok (), s2\<lparr>st_index_maps := im\<rparr>)"
    "storage_inv D (s2\<lparr>st_index_maps := im\<rparr>)" "\<And>t. located D (s2\<lparr>st_index_maps := im\<rparr>) t = located D s1 t"
    using loaded_state_ok [OF s1(1,2), of s2] f k1 fmk by (auto simp: s2_def)
  let ?s' = "s2\<lparr>st_index_maps := im, st_cursors := fmempty\<rparr>"
  have "rollback_transaction D s = (Ok (), ?s')"
    using txn snap lc im(1)
    by (simp add: rollback_transaction_def Let_def op_seq_step op_bind_step op_apply f_def [symmetric] s2_def
      cong: if_cong)
  then show ?thesis
    using im(2,3) s1(3,4) k1 key
    by (intro that [of ?s']) (simp_all add: s2_def data_frame_def)
qed

section \<open>Opening\<close>

lemma fresh_storage_fields [simp]:
  "dk_files (fresh_storage d k c m i) = dk_files d" "dk_snapshot (fresh_storage d k c m i) = dk_snapshot d"
  "dk_rng (fresh_storage d k c m i) = dk_rng d" "dk_clock (fresh_storage d k c m i) = dk_clock d"
  "st_key (fresh_storage d k c m i) = k" "st_catalog (fresh_storage d k c m i) = c"
  "st_migrations (fresh_storage d k c m i) = m" "st_index_catalog (fresh_storage d k c m i) = i"
  "st_index_maps (fresh_storage d k c m i) = fmempty" "st_cursors (fresh_storage d k c m i) = fmempty"
  "st_table_files (fresh_storage d k c m i) = {}" "st_unique_caches (fresh_storage d k c m i) = fmempty"
  "st_dirty (fresh_storage d k c m i) = {||}" "\<not> st_indexes_clean (fresh_storage d k c m i)"
  "\<not> st_txn (fresh_storage d k c m i)"
  by (simp_all add: fresh_storage_def disk.defs storage.defs)

lemma truncate_fields [simp]: "dk_files (disk.truncate s) = dk_files s"
  by (simp add: disk.defs)

text \<open>What the code sees when the process ended between two operations.\<close>

lemma rebuild_all_ok:
  assumes inv: "storage_inv D s0"
    and same: "st_key s = st_key s0" "st_catalog s = st_catalog s0" "st_migrations s = st_migrations s0"
      "st_index_catalog s = st_index_catalog s0" "st_dirty s = {||}" "st_unique_caches s = fmempty"
      "dk_files s = dk_files s0" "\<not> st_indexes_clean s"
    and marker: "dk_files s index_marker_path = None"
  shows "\<exists>s'. rebuild_all_indexes D s = (Ok (), s') \<and> storage_inv D s' \<and>
    (\<forall>t. located D s' t = located D s0 t) \<and> st_key s' = st_key s \<and> st_catalog s' = st_catalog s \<and>
    st_migrations s' = st_migrations s \<and> st_index_catalog s' = st_index_catalog s \<and>
    st_txn s' = st_txn s \<and> dk_snapshot s' = dk_snapshot s"
proof -
  let ?s = "s\<lparr>st_index_maps := fmempty\<rparr>"
  have c: "content_of ?s t = content_of s0 t" for t by (simp add: content_of_def same)
  have l: "located D ?s t = located D s0 t" for t
    using c by (intro located_cong) (simp_all add: same)
  have t: "tables_ok D ?s"
    using c by (intro tables_ok_cong [OF storage_invD(2) [OF inv]]) (auto simp: same)
  have d: "distinct (map ix_name (st_index_catalog ?s))"
    using storage_invD(3) [OF inv] by (simp add: indexes_ok_def same)
  let ?ps = "map (\<lambda>ix. (ix_name ix, build_index D (ix_column ix) (located D ?s (ix_table ix)))) (st_index_catalog ?s)"
  define s' where "s' = write_maps ?ps ?s"
  have r: "op_each (rebuild_index_unit D) (map ix_name (st_index_catalog ?s)) ?s = (Ok (), s')"
    unfolding s'_def using storage_invD(3) [OF inv] t d
    by (intro rebuild_each_ok) (auto simp: indexes_ok_def same)
  have "fmlookup (st_index_maps s') (ix_name ix) = Some (build_index D (ix_column ix) (located D s0 (ix_table ix)))"
    if "ix \<in> set (st_index_catalog ?s)" for ix
    using map_of_rev_map [OF d, of "\<lambda>ix. build_index D (ix_column ix) (located D ?s (ix_table ix))"]
      find_name_distinct [OF d that] l
    by (simp add: s'_def write_maps_lookup)
  then have "indexes_ok D s'"
    using storage_invD(3) [OF inv] l by (simp add: indexes_ok_def index_ok_def s'_def same)
  moreover have "tables_ok D s'"
    using t by (simp add: s'_def tables_ok_def content_of_def write_maps_files)
  moreover have "caches_ok D s'" by (simp add: caches_ok_def unique_cache_of_def same s'_def)
  moreover have "metadata_ok D s'"
    using storage_invD(5) [OF inv]
    by (simp add: metadata_ok_def same s'_def file_loads_def load_encrypted_json_def write_maps_files)
  moreover have "index_files_ok D s'"
    using marker
    by (auto simp: index_files_ok_def s'_def write_maps_flags write_maps_files fset_of_list.rep_eq comp_def image_iff)
  ultimately have "storage_inv D s'" using storage_invD(1) [OF inv] by (simp add: storage_inv_def)
  moreover have "\<forall>t. located D s' t = located D s0 t" using l by (simp add: s'_def)
  moreover have "rebuild_all_indexes D s = (Ok (), s')"
    using r by (simp add: rebuild_all_indexes_def)
  ultimately show ?thesis by (intro exI [of _ s']) (simp add: s'_def)
qed

lemma storage_open_ok:
  assumes inv: "storage_inv D s"
  obtains s' where "storage_open D (st_key s) (disk.truncate s) = Ok s'" "storage_inv D s'"
    "st_key s' = st_key s" "st_catalog s' = st_catalog s" "st_migrations s' = st_migrations s"
    "st_index_catalog s' = st_index_catalog s" "\<not> st_txn s'" "dk_snapshot s' = None"
    "\<And>t. located D s' t = located D s t"
proof -
  note meta = storage_invD(5) [OF inv, unfolded metadata_ok_def file_loads_def]
  define s1 where "s1 = (fresh_storage (disk.truncate s) (st_key s) (st_catalog s) (st_migrations s)
    (st_index_catalog s))\<lparr>dk_snapshot := None\<rparr>"
  have s1: "st_key s1 = st_key s" "st_catalog s1 = st_catalog s" "st_migrations s1 = st_migrations s"
    "st_index_catalog s1 = st_index_catalog s" "st_dirty s1 = {||}" "st_unique_caches s1 = fmempty"
    "dk_files s1 = dk_files s" "\<not> st_indexes_clean s1" "\<not> st_txn s1" "dk_snapshot s1 = None"
    by (simp_all add: s1_def)
  show ?thesis
  proof (cases "dk_files s index_marker_path = None")
    case True
    with s1 have "dk_files s1 index_marker_path = None" by simp
    from rebuild_all_ok [OF inv s1(1-8) this] obtain s' where s':
      "rebuild_all_indexes D s1 = (Ok (), s')" "storage_inv D s'" "\<forall>t. located D s' t = located D s t"
      "st_key s' = st_key s1" "st_catalog s' = st_catalog s1" "st_migrations s' = st_migrations s1"
      "st_index_catalog s' = st_index_catalog s1" "st_txn s' = st_txn s1" "dk_snapshot s' = dk_snapshot s1"
      by blast
    have "storage_open D (st_key s) (disk.truncate s) = Ok s'"
      using meta True s'(1) s1(7) by (simp add: storage_open_def Let_def s1_def [symmetric])
    with s' s1 show ?thesis by (intro that [of s']) simp_all
  next
    case False
    with storage_invD(6) [OF inv] have clean: "st_dirty s = {||}" by (simp add: index_files_ok_def)
    let ?s2 = "remove_file index_marker_path s1"
    have s2: "st_key ?s2 = st_key s" "st_catalog ?s2 = st_catalog s" "st_migrations ?s2 = st_migrations s"
      "st_index_catalog ?s2 = st_index_catalog s" "st_dirty ?s2 = {||}" "st_unique_caches ?s2 = fmempty"
      "dk_files ?s2 index_marker_path = None" "\<not> st_txn ?s2" "dk_snapshot ?s2 = None"
      by (simp_all add: remove_file_def s1)
    have "dk_files ?s2 x = dk_files s x" if "is_data_name x \<or> is_metadata_name x" for x
      using that by (auto simp: remove_file_def s1 is_data_name_def)
    from loaded_state_ok [OF inv clean s2(1-6) this] s2(7) obtain im where im:
      "load_all_index_maps D ?s2 = (Ok (), ?s2\<lparr>st_index_maps := im\<rparr>)"
      "storage_inv D (?s2\<lparr>st_index_maps := im\<rparr>)" "\<forall>t. located D (?s2\<lparr>st_index_maps := im\<rparr>) t = located D s t"
      by auto
    have "storage_open D (st_key s) (disk.truncate s) = Ok (?s2\<lparr>st_index_maps := im\<rparr>)"
      using meta False im(1) s1(7) by (simp add: storage_open_def Let_def s1_def [symmetric])
    with im(2,3) s2 show ?thesis by (intro that [of "?s2\<lparr>st_index_maps := im\<rparr>"]) simp_all
  qed
qed

text \<open>A new database: an empty directory opens to a storage without tables.\<close>

definition empty_disk :: disk where
  "empty_disk = \<lparr>dk_files = (\<lambda>_. None), dk_snapshot = None, dk_rng = 0, dk_clock = 0\<rparr>"

lemma storage_open_empty:
  assumes "deps_ok D"
  obtains s where "storage_open D key empty_disk = Ok s" "storage_inv D s" "st_catalog s = fmempty"
    "st_index_catalog s = []" "st_migrations s = []" "\<not> st_txn s" "st_key s = key"
proof -
  let ?s = "(fresh_storage empty_disk key fmempty [] [])\<lparr>dk_snapshot := None, st_index_maps := fmempty\<rparr>"
  have "storage_open D key empty_disk = Ok ?s"
    by (simp add: storage_open_def load_encrypted_json_def empty_disk_def Let_def rebuild_all_indexes_def op_apply)
  moreover have "storage_inv D ?s"
    using assms
    by (simp add: storage_inv_def inv_parts file_loads_def load_encrypted_json_def empty_disk_def)
  ultimately show ?thesis by (intro that [of ?s]) simp_all
qed

end
