(* ===== verification/Database.thy ===== *)
theory Database
  imports Storage_Txn Constraints
begin

text \<open>
  The abstract database a storage stands for: a map from table names to columns and rows, with no
  files, encryption, caches, indexes or row ids. The integrity of a database (typed rows, NOT
  NULL, UNIQUE, foreign keys) is stated on it, and each constraint check of \<open>Constraints\<close> is
  given its meaning on it.
\<close>

section \<open>The abstraction\<close>

type_synonym db = "string \<rightharpoonup> column_schema list \<times> row list"

definition db_of :: "deps \<Rightarrow> storage \<Rightarrow> db" where
  "db_of D s t = map_option (\<lambda>sch. (ts_columns sch, rows_of D s t)) (fmlookup (st_catalog s) t)"

text \<open>A step that changes no table, no column, no index definition and no transaction state.\<close>

definition quiet :: "deps \<Rightarrow> storage \<Rightarrow> storage \<Rightarrow> bool" where
  "quiet D s s' \<longleftrightarrow> storage_inv D s' \<and> row_frame s s' \<and> same_rows D {} s s'"

lemma quiet_refl [simp]: "storage_inv D s \<Longrightarrow> quiet D s s"
  by (simp add: quiet_def)

lemma quiet_trans: "quiet D s s' \<Longrightarrow> quiet D s' s'' \<Longrightarrow> quiet D s s''"
  by (meson quiet_def row_frame_trans same_rows_trans)

lemma quietD:
  assumes "quiet D s s'"
  shows "storage_inv D s'" "row_frame s s'" "same_rows D {} s s'"
  using assms by (simp_all add: quiet_def)

lemma db_of_None [simp]: "db_of D s t = None \<longleftrightarrow> fmlookup (st_catalog s) t = None"
  by (simp add: db_of_def)

lemma db_of_Some: "fmlookup (st_catalog s) t = Some sch \<Longrightarrow> db_of D s t = Some (ts_columns sch, rows_of D s t)"
  by (simp add: db_of_def)

lemma db_of_columns: "db_of D s t = map_option (\<lambda>cols. (cols, rows_of D s t)) (columns_of s t)"
  by (simp add: db_of_def columns_of_def option.map_comp comp_def)

lemma db_of_eqI:
  assumes "columns_of s' t = columns_of s t"
    and "fmlookup (st_catalog s) t \<noteq> None \<Longrightarrow> rows_of D s' t = rows_of D s t"
  shows "db_of D s' t = db_of D s t"
  using assms by (cases "fmlookup (st_catalog s) t") (auto simp: db_of_columns columns_of_def)

lemma row_frame_columns: "row_frame s s' \<Longrightarrow> columns_of s' t = columns_of s t"
  by (simp add: row_frame_def)

lemma db_of_frame:
  "row_frame s s' \<Longrightarrow> same_rows D X s s' \<Longrightarrow> t \<notin> X \<Longrightarrow> db_of D s' t = db_of D s t"
  by (intro db_of_eqI) (auto intro: row_frame_columns dest: same_rows_rows)

lemma quiet_db_of [simp]: "quiet D s s' \<Longrightarrow> db_of D s' = db_of D s"
  by (auto simp: quiet_def fun_eq_iff intro: db_of_frame)

text \<open>A step that replaces the rows of one table.\<close>

definition table_change :: "deps \<Rightarrow> string \<Rightarrow> (row list \<Rightarrow> row list) \<Rightarrow> storage \<Rightarrow> storage \<Rightarrow> bool" where
  "table_change D t f s s' \<longleftrightarrow> storage_inv D s' \<and> row_frame s s' \<and> same_rows D {t} s s' \<and>
     rows_of D s' t = f (rows_of D s t)"

lemma table_change_db_of:
  assumes "table_change D t f s s'" "fmlookup (st_catalog s) t = Some sch"
  shows "db_of D s' = (db_of D s)(t \<mapsto> (ts_columns sch, f (rows_of D s t)))"
proof
  fix u
  show "db_of D s' u = ((db_of D s)(t \<mapsto> (ts_columns sch, f (rows_of D s t)))) u"
  proof (cases "u = t")
    case True
    with assms have "columns_of s' t = Some (ts_columns sch)"
      using row_frame_columns [of s s' t] by (simp add: table_change_def columns_of_def [of s])
    with True assms show ?thesis by (simp add: db_of_columns table_change_def)
  next
    case False
    with assms show ?thesis by (auto simp: table_change_def intro: db_of_frame)
  qed
qed

lemma quiet_table_change:
  assumes "quiet D s s1" "table_change D t f s1 s'" "fmlookup (st_catalog s) t \<noteq> None"
  shows "table_change D t f s s'"
proof -
  have "same_rows D {t} s s1" "rows_of D s1 t = rows_of D s t"
    using assms(1,3) by (auto simp: quiet_def same_rows_def rows_of_def)
  with assms show ?thesis
    by (auto simp: table_change_def quiet_def intro: row_frame_trans same_rows_trans)
qed

section \<open>Integrity\<close>

definition row_typed :: "column_schema list \<Rightarrow> row \<Rightarrow> bool" where
  "row_typed cols r \<longleftrightarrow> fmdom' r = cs_name ` set cols \<and>
     (\<forall>col \<in> set cols. has_type (cs_type col) (row_get r (cs_name col)))"

definition needs_value :: "column_schema \<Rightarrow> bool" where
  "needs_value col \<longleftrightarrow> has_constraint col NotNull \<or> has_constraint col PrimaryKey"

definition is_unique :: "column_schema \<Rightarrow> bool" where
  "is_unique col \<longleftrightarrow> has_constraint col Unique \<or> has_constraint col PrimaryKey"

definition row_not_null :: "column_schema list \<Rightarrow> row \<Rightarrow> bool" where
  "row_not_null cols r \<longleftrightarrow> (\<forall>col \<in> set cols. needs_value col \<longrightarrow> row_get r (cs_name col) \<noteq> VNull)"

definition column_unique :: "string \<Rightarrow> row list \<Rightarrow> bool" where
  "column_unique c rows \<longleftrightarrow> distinct (filter (\<lambda>v. v \<noteq> VNull) (map (\<lambda>r. row_get r c) rows))"

definition table_ok :: "column_schema list \<Rightarrow> row list \<Rightarrow> bool" where
  "table_ok cols rows \<longleftrightarrow> (\<forall>r \<in> set rows. row_typed cols r \<and> row_not_null cols r) \<and>
     (\<forall>col \<in> set cols. is_unique col \<longrightarrow> column_unique (cs_name col) rows)"

text \<open>\<open>key_present db pt pc v\<close>: some row of \<open>pt\<close> has the value \<open>v\<close> in column \<open>pc\<close>.\<close>

definition key_present :: "db \<Rightarrow> string \<Rightarrow> string \<Rightarrow> value_t \<Rightarrow> bool" where
  "key_present db pt pc v \<longleftrightarrow>
     (\<exists>cols rows. db pt = Some (cols, rows) \<and> (\<exists>p \<in> set rows. fmlookup p pc = Some v))"

definition references :: "db \<Rightarrow> string \<Rightarrow> string \<Rightarrow> string \<Rightarrow> string \<Rightarrow> bool" where
  "references db t c pt pc \<longleftrightarrow> (\<exists>cols rows col. db t = Some (cols, rows) \<and> col \<in> set cols \<and>
     cs_name col = c \<and> References pt pc \<in> set (cs_constraints col))"

definition keys_ok :: "db \<Rightarrow> bool" where
  "keys_ok db \<longleftrightarrow> (\<forall>t c pt pc cols rows r. references db t c pt pc \<longrightarrow> db t = Some (cols, rows) \<longrightarrow>
     r \<in> set rows \<longrightarrow> row_get r c = VNull \<or> key_present db pt pc (row_get r c))"

definition integrity :: "db \<Rightarrow> bool" where
  "integrity db \<longleftrightarrow> (\<forall>t cols rows. db t = Some (cols, rows) \<longrightarrow> table_ok cols rows) \<and> keys_ok db"

lemma integrityD:
  assumes "integrity db"
  shows "db t = Some (cols, rows) \<Longrightarrow> table_ok cols rows" "keys_ok db"
  using assms by (auto simp: integrity_def)

lemma row_typed_get:
  "row_typed cols r \<Longrightarrow> col \<in> set cols \<Longrightarrow> fmlookup r (cs_name col) = Some (row_get r (cs_name col))"
  by (force simp: row_typed_def row_get_def fmlookup_dom'_iff split: option.splits)

end
