(* ===== verification/Constraints_Correct.thy ===== *)
theory Constraints_Correct
  imports Database
begin

text \<open>
  What the checks of \<open>Constraints\<close> mean on the abstract database: the row an insertion builds,
  when a check succeeds, and that a check that fails leaves the database as it was.
\<close>

section \<open>The row of an insertion\<close>

abbreviation typed_values :: "column_schema list \<Rightarrow> row \<Rightarrow> bool" where
  "typed_values cols r \<equiv> \<forall>col \<in> set cols. has_type (cs_type col) (row_get r (cs_name col))"

lemma distinct_column_eq:
  "distinct (map cs_name cols) \<Longrightarrow> col \<in> set cols \<Longrightarrow> col' \<in> set cols \<Longrightarrow> cs_name col = cs_name col' \<Longrightarrow>
   col = col'"
  by (simp add: distinct_map inj_on_def)

lemma typed_values_upd:
  assumes "distinct (map cs_name cols)" "typed_values cols r" "col \<in> set cols" "has_type (cs_type col) v"
  shows "typed_values cols (fmupd (cs_name col) v r)"
proof
  fix col' assume "col' \<in> set cols"
  with assms distinct_column_eq [OF assms(1,3), of col']
  show "has_type (cs_type col') (row_get (fmupd (cs_name col) v r) (cs_name col'))" by auto
qed

lemma insert_named_ok:
  assumes "insert_named sch ps r = Ok r'" "distinct (map cs_name (ts_columns sch))"
    and "typed_values (ts_columns sch) r"
  shows "typed_values (ts_columns sch) r' \<and> fmdom' r' = fmdom' r \<union> fst ` set ps"
  using assms
proof (induction sch ps r rule: insert_named.induct)
  case (2 sch n v ps r)
  then obtain col w where w: "find_column sch n = Some col" "coerce_value (cs_name col) (cs_type col) v = Ok w"
    "insert_named sch ps (fmupd n w r) = Ok r'"
    by (auto simp: res_simps split: option.splits)
  have c: "col \<in> set (ts_columns sch)" "cs_name col = n" using find_column_SomeD [OF w(1)] by auto
  have "typed_values (ts_columns sch) (fmupd n w r)"
    using typed_values_upd [OF "2.prems"(2,3) c(1) coerce_has_type [OF w(2)]] by (simp add: c(2))
  from "2.IH" [OF w(1,2,3) "2.prems"(2) this] show ?case by auto
qed simp

lemma insert_named_values:
  assumes "insert_named sch ps r = Ok r'" "distinct (map fst ps)"
  shows "(\<forall>(n, v) \<in> set ps. \<exists>col. find_column sch n = Some col \<and>
      coerce_value n (cs_type col) v = Ok (row_get r' n)) \<and>
    (\<forall>n. n \<notin> fst ` set ps \<longrightarrow> fmlookup r' n = fmlookup r n)"
  using assms
proof (induction sch ps r rule: insert_named.induct)
  case (2 sch n v ps r)
  then obtain col w where w: "find_column sch n = Some col" "coerce_value (cs_name col) (cs_type col) v = Ok w"
    "insert_named sch ps (fmupd n w r) = Ok r'"
    by (auto simp: res_simps split: option.splits)
  from 2 w have IH: "\<forall>(n, v) \<in> set ps. \<exists>col. find_column sch n = Some col \<and>
      coerce_value n (cs_type col) v = Ok (row_get r' n)"
    "\<forall>m. m \<notin> fst ` set ps \<longrightarrow> fmlookup r' m = fmlookup (fmupd n w r) m" by auto
  from IH(2) "2.prems"(2) have "row_get r' n = w" by (simp add: row_get_def)
  with IH w find_column_SomeD [OF w(1)] show ?case by auto
qed simp

lemma insert_named_no_panic:
  "(\<And>n v. (n, v) \<in> set ps \<Longrightarrow> has_column sch n) \<Longrightarrow> no_panic (insert_named sch ps r)"
proof (induction sch ps r rule: insert_named.induct)
  case (2 sch n v ps r)
  then obtain col where "find_column sch n = Some col"
    by (meson find_column_None list.set_intros(1) option.exhaust)
  moreover have "no_panic (coerce_value a b v)" for a b
    using coerce_cases [of a b v] by auto
  moreover have "has_column sch m" if "(m, w) \<in> set ps" for m w
    using 2(2) [of m w] that by simp
  ultimately show ?case using 2(1) by (simp add: no_panic_tryq)
qed simp

lemma fill_missing_ok:
  "row_get (fill_missing sch r) c = row_get r c"
  "fmdom' (fill_missing sch r) = fmdom' r \<union> cs_name ` set (ts_columns sch)"
proof -
  have "row_get (fold (\<lambda>col r. if fmlookup r (cs_name col) = None then fmupd (cs_name col) VNull r else r) cols r) c =
      row_get r c \<and> fmdom' (fold (\<lambda>col r. if fmlookup r (cs_name col) = None then fmupd (cs_name col) VNull r else r) cols r) =
      fmdom' r \<union> cs_name ` set cols" for cols
  proof (induction cols arbitrary: r)
    case (Cons col cols)
    have "row_get (if fmlookup r (cs_name col) = None then fmupd (cs_name col) VNull r else r) c = row_get r c"
      by (auto simp: row_get_def)
    moreover have "fmdom' (if fmlookup r (cs_name col) = None then fmupd (cs_name col) VNull r else r) =
        insert (cs_name col) (fmdom' r)" by (auto simp: fmlookup_dom'_iff)
    ultimately show ?case by (simp only: fold_simps Cons.IH list.set image_insert) auto
  qed simp
  from this [of "ts_columns sch"]
  show "row_get (fill_missing sch r) c = row_get r c"
    "fmdom' (fill_missing sch r) = fmdom' r \<union> cs_name ` set (ts_columns sch)"
    unfolding fill_missing_def by blast+
qed

lemma insert_positional_ok:
  assumes "insert_positional ps r = Ok r'" "distinct (map (cs_name \<circ> fst) ps)"
  shows "(\<forall>(col, v) \<in> set ps. coerce_value (cs_name col) (cs_type col) v = Ok (row_get r' (cs_name col))) \<and>
    fmdom' r' = fmdom' r \<union> (cs_name \<circ> fst) ` set ps \<and>
    (\<forall>n. n \<notin> (cs_name \<circ> fst) ` set ps \<longrightarrow> fmlookup r' n = fmlookup r n)"
  using assms
proof (induction ps r rule: insert_positional.induct)
  case (2 col v ps r)
  then obtain w where w: "coerce_value (cs_name col) (cs_type col) v = Ok w"
    "insert_positional ps (fmupd (cs_name col) w r) = Ok r'" by (auto simp: res_simps)
  from 2 w have IH: "\<forall>(col, v) \<in> set ps. coerce_value (cs_name col) (cs_type col) v = Ok (row_get r' (cs_name col))"
    "fmdom' r' = insert (cs_name col) (fmdom' r) \<union> (cs_name \<circ> fst) ` set ps"
    "\<forall>n. n \<notin> (cs_name \<circ> fst) ` set ps \<longrightarrow> fmlookup r' n = fmlookup (fmupd (cs_name col) w r) n" by auto
  from IH(3) "2.prems"(2) have "row_get r' (cs_name col) = w" by (simp add: row_get_def)
  with IH w show ?case by auto
qed simp

lemma insert_positional_no_panic: "no_panic (insert_positional ps r)"
proof (induction ps r rule: insert_positional.induct)
  case (2 col v ps r)
  then show ?case using coerce_cases [of "cs_name col" "cs_type col" v] by auto
qed simp

lemma build_row_typed:
  assumes "build_row sch t columns vals = Ok row" "distinct (map cs_name (ts_columns sch))"
  shows "row_typed (ts_columns sch) row"
proof (cases columns)
  case (Some names)
  with assms(1) obtain r where r: "length vals = length names" "\<forall>n \<in> set names. has_column sch n"
    "insert_named sch (zip names vals) fmempty = Ok r" "row = fill_missing sch r"
    by (auto simp: build_row_def res_simps each_res_Ok_iff split: if_splits)
  from insert_named_ok [OF r(3) assms(2)] r(1)
  have "typed_values (ts_columns sch) r" "fmdom' r = set names"
    by (auto simp: has_type_def fmdom'_empty simp flip: set_map)
  with r(2,4) show ?thesis
    by (auto simp: row_typed_def fill_missing_ok has_column_def)
next
  case None
  with assms(1) have r: "length vals = length (ts_columns sch)"
    "insert_positional (zip (ts_columns sch) vals) fmempty = Ok row"
    by (auto simp: build_row_def split: if_splits)
  let ?ps = "zip (ts_columns sch) vals"
  have d: "map (cs_name \<circ> fst) ?ps = map cs_name (ts_columns sch)"
    using r(1) by (simp flip: map_map)
  have s: "(cs_name \<circ> fst) ` set ?ps = cs_name ` set (ts_columns sch)"
    using arg_cong [OF d, of set] by simp
  from insert_positional_ok [OF r(2)] assms(2) d s
  have p: "\<forall>(col, v) \<in> set ?ps. coerce_value (cs_name col) (cs_type col) v = Ok (row_get row (cs_name col))"
    "fmdom' row = cs_name ` set (ts_columns sch)" by auto
  have "has_type (cs_type col) (row_get row (cs_name col))" if "col \<in> set (ts_columns sch)" for col
  proof -
    from that r(1) obtain v where "(col, v) \<in> set ?ps" by (metis in_set_impl_in_set_zip1)
    with p(1) show ?thesis by (auto dest: coerce_has_type)
  qed
  with p(2) show ?thesis by (simp add: row_typed_def)
qed

lemma build_row_no_panic: "no_panic (build_row sch t columns vals)"
proof -
  have "no_panic (if has_column sch n then Ok () else Err (ColumnNotFound t n))" for n by simp
  moreover have "no_panic (insert_named sch (zip names vals) fmempty)"
    if "each_res (\<lambda>n. if has_column sch n then Ok () else Err (ColumnNotFound t n)) names = Ok u" for names u
    using that by (intro insert_named_no_panic) (auto simp: each_res_Ok_iff dest: set_zip_leftD split: if_splits)
  ultimately show ?thesis
    by (auto simp: build_row_def insert_positional_no_panic intro!: no_panic_tryq no_panic_each_res split: option.splits)
qed

section \<open>NOT NULL and UNIQUE at an insertion\<close>

definition unique_values :: "row \<Rightarrow> column_schema list \<Rightarrow> (string \<times> value_t) list" where
  "unique_values r cols = map (\<lambda>col. (cs_name col, row_get r (cs_name col)))
     (filter (\<lambda>col. is_unique col \<and> row_get r (cs_name col) \<noteq> VNull) cols)"

lemma unique_columns_cases:
  "(row_not_null cols r \<and> unique_columns r cols out = Ok (out @ unique_values r cols)) \<or>
   (\<not> row_not_null cols r \<and> (\<exists>c. unique_columns r cols out = Err (null_violation c)))"
proof (induction r cols out rule: unique_columns.induct)
  case (2 r col cols out)
  then show ?case
    by (auto simp: Let_def row_not_null_def needs_value_def is_unique_def unique_values_def)
qed (simp add: row_not_null_def unique_values_def)

definition is_new :: "row list \<Rightarrow> string \<times> value_t \<Rightarrow> bool" where
  "is_new rows cv \<longleftrightarrow> (\<forall>r \<in> set rows. fmlookup r (fst cv) \<noteq> Some (snd cv))"

lemma unique_checks_ok:
  assumes "storage_inv D s" "fmlookup (st_catalog s) t \<noteq> None"
    and "VNull \<notin> snd ` set cvs"
  shows "\<exists>r s'. op_each (\<lambda>(c, v). op_bind (unique_value_exists D t c v) (\<lambda>found.
      if found then op_err (unique_violation c v) else op_ret ())) cvs s = (r, s') \<and> quiet D s s' \<and>
    (if list_all (is_new (rows_of D s t)) cvs then r = Ok ()
     else \<exists>c v. (c, v) \<in> set cvs \<and> r = Err (unique_violation c v))"
  using assms
proof (induction cvs arbitrary: s)
  case Nil
  then show ?case by (simp add: op_apply)
next
  case (Cons cv cvs)
  obtain c v where cv: "cv = (c, v)" by fastforce
  with Cons.prems(3) have v: "v \<noteq> VNull" by auto
  obtain s1 where s1: "unique_value_exists D t c v s =
      (Ok (v \<noteq> VNull \<and> (\<exists>r \<in> set (rows_of D s t). fmlookup r c = Some v)), s1)"
    "storage_inv D s1" "row_frame s s1" "same_rows D {} s s1"
    by (rule unique_value_exists_ok [OF Cons.prems(1,2)]) (rule that)
  then have q: "quiet D s s1" by (simp add: quiet_def)
  have t1: "fmlookup (st_catalog s1) t \<noteq> None" using row_frame_None [OF s1(3)] Cons.prems(2) by simp
  have rows: "rows_of D s1 t = rows_of D s t" using same_rows_rows [OF s1(4) _ Cons.prems(2)] by simp
  show ?case
  proof (cases "is_new (rows_of D s t) cv")
    case True
    then have "\<not> (\<exists>r \<in> set (rows_of D s t). fmlookup r c = Some v)" by (simp add: is_new_def cv)
    with s1(1) have step: "op_bind (unique_value_exists D t c v) (\<lambda>found.
        if found then op_err (unique_violation c v) else op_ret ()) s = (Ok (), s1)"
      by (simp add: op_bind_def op_apply)
    obtain r s' where IH: "op_each (\<lambda>(c, v). op_bind (unique_value_exists D t c v) (\<lambda>found.
        if found then op_err (unique_violation c v) else op_ret ())) cvs s1 = (r, s')" "quiet D s1 s'"
      "if list_all (is_new (rows_of D s t)) cvs then r = Ok ()
       else \<exists>c v. (c, v) \<in> set cvs \<and> r = Err (unique_violation c v)"
      using Cons.IH [OF s1(2) t1] Cons.prems(3) rows by auto
    from step IH True quiet_trans [OF q IH(2)] show ?thesis
      by (auto simp: cv op_seq_step(1) split: if_splits)
  next
    case False
    then have "\<exists>r \<in> set (rows_of D s t). fmlookup r c = Some v" by (auto simp: is_new_def cv)
    with s1(1) v have step: "op_bind (unique_value_exists D t c v) (\<lambda>found.
        if found then op_err (unique_violation c v) else op_ret ()) s = (Err (unique_violation c v), s1)"
      by (simp add: op_bind_def op_apply)
    with False q show ?thesis by (auto simp: cv op_seq_step(2))
  qed
qed

definition insertable :: "column_schema list \<Rightarrow> row list \<Rightarrow> row \<Rightarrow> bool" where
  "insertable cols rows r \<longleftrightarrow> row_not_null cols r \<and> list_all (is_new rows) (unique_values r cols)"

lemma check_constraints_for_insert_ok:
  assumes "storage_inv D s" "fmlookup (st_catalog s) t \<noteq> None"
  obtains x s' where "check_constraints_for_insert D t sch r s = (x, s')" "quiet D s s'"
    "if insertable (ts_columns sch) (rows_of D s t) r then x = Ok ()
     else \<exists>m. x = Err (ConstraintViolation m)"
proof -
  consider "row_not_null (ts_columns sch) r"
      "unique_columns r (ts_columns sch) [] = Ok (unique_values r (ts_columns sch))"
    | c where "\<not> row_not_null (ts_columns sch) r" "unique_columns r (ts_columns sch) [] = Err (null_violation c)"
    using unique_columns_cases [of "ts_columns sch" r "[]"] by auto
  then show ?thesis
  proof cases
    case 1
    have nn: "VNull \<notin> snd ` set (unique_values r (ts_columns sch))"
      by (auto simp: unique_values_def)
    obtain x s' where "op_each (\<lambda>(c, v). op_bind (unique_value_exists D t c v) (\<lambda>found.
        if found then op_err (unique_violation c v) else op_ret ())) (unique_values r (ts_columns sch)) s = (x, s')"
      "quiet D s s'" "if list_all (is_new (rows_of D s t)) (unique_values r (ts_columns sch)) then x = Ok ()
       else \<exists>c v. (c, v) \<in> set (unique_values r (ts_columns sch)) \<and> x = Err (unique_violation c v)"
      using unique_checks_ok [OF assms nn] by blast
    with 1 show ?thesis
      by (intro that [of x s']) (auto simp: check_constraints_for_insert_def insertable_def
          unique_violation_def split: if_splits)
  next
    case 2
    then show ?thesis
      using assms(1) by (intro that [of "Err (null_violation c)" s])
        (simp_all add: check_constraints_for_insert_def op_bind_prim insertable_def null_violation_def)
  qed
qed

lemma column_unique_append:
  assumes "column_unique c rows" "row_get r c = VNull \<or> (\<forall>x \<in> set rows. row_get x c \<noteq> row_get r c)"
  shows "column_unique c (rows @ [r])"
  using assms by (auto simp: column_unique_def)

lemma insertable_table_ok:
  assumes "table_ok cols rows" "row_typed cols r" "insertable cols rows r"
  shows "table_ok cols (rows @ [r])"
proof -
  have new: "row_get x (cs_name col) \<noteq> row_get r (cs_name col)"
    if "col \<in> set cols" "is_unique col" "x \<in> set rows" "row_get r (cs_name col) \<noteq> VNull" for col x
  proof -
    from that(1,2,4) have "(cs_name col, row_get r (cs_name col)) \<in> set (unique_values r cols)"
      by (auto simp: unique_values_def)
    with assms(3) that(3) have "fmlookup x (cs_name col) \<noteq> Some (row_get r (cs_name col))"
      by (force simp: insertable_def list_all_iff is_new_def)
    moreover have "row_typed cols x" using assms(1) that(3) by (simp add: table_ok_def)
    from row_typed_get [OF this that(1)]
    have "fmlookup x (cs_name col) = Some (row_get x (cs_name col))" .
    ultimately show ?thesis by metis
  qed
  have "column_unique (cs_name col) (rows @ [r])" if "col \<in> set cols" "is_unique col" for col
  proof (rule column_unique_append)
    show "column_unique (cs_name col) rows" using assms(1) that by (simp add: table_ok_def)
    show "row_get r (cs_name col) = VNull \<or> (\<forall>x \<in> set rows. row_get x (cs_name col) \<noteq> row_get r (cs_name col))"
      using new [OF that] by blast
  qed
  moreover have "row_not_null cols r" using assms(3) by (simp add: insertable_def)
  ultimately show ?thesis
    using assms(1,2) by (simp add: table_ok_def ball_Un)
qed

section \<open>UNIQUE at an update\<close>

lemma unique_scan_cases:
  assumes "inj key"
  shows "if distinct (filter (\<lambda>v. v \<noteq> VNull) (List.map_filter val rows)) \<and>
      (\<forall>v \<in> set (List.map_filter val rows). v \<noteq> VNull \<longrightarrow> key v \<notin> seen)
    then unique_scan key c val seen rows = Ok ()
    else \<exists>v. unique_scan key c val seen rows = Err (unique_violation c v)"
proof (induction rows arbitrary: seen)
  case (Cons r rs)
  show ?case
  proof (cases "val r")
    case None
    with Cons show ?thesis by (simp add: List.map_filter_simps)
  next
    case (Some v)
    show ?thesis
    proof (cases "v = VNull \<or> key v \<in> seen")
      case True
      with Cons [of seen] Some show ?thesis by (auto simp: List.map_filter_simps split: if_splits)
    next
      case False
      have "(\<forall>w \<in> set (List.map_filter val rs). w \<noteq> VNull \<longrightarrow> key w \<notin> insert (key v) seen) \<longleftrightarrow>
          v \<notin> set (List.map_filter val rs) \<and> (\<forall>w \<in> set (List.map_filter val rs). w \<noteq> VNull \<longrightarrow> key w \<notin> seen)"
        using False injD [OF assms] by auto
      with Cons [of "insert (key v) seen"] Some False show ?thesis
        by (simp add: List.map_filter_simps)
    qed
  qed
qed simp

section \<open>Foreign keys\<close>

lemma read_rows_cases:
  assumes "storage_inv D s"
  shows "read_rows D s t = (case db_of D s t of None \<Rightarrow> Err (TableNotFound t) | Some (cols, rows) \<Rightarrow> Ok rows)"
proof (cases "fmlookup (st_catalog s) t")
  case None
  then show ?thesis by (simp add: db_of_def read_rows_def read_missing)
next
  case (Some sch)
  with read_rows_ok(2) [OF storage_invD(2) [OF assms], of t] show ?thesis by (simp add: db_of_def)
qed

lemma key_present_read:
  assumes "storage_inv D s"
  shows "key_present (db_of D s) pt pc v \<longleftrightarrow>
    (\<exists>rows. read_rows D s pt = Ok rows \<and> (\<exists>p \<in> set rows. fmlookup p pc = Some v))"
  unfolding key_present_def read_rows_cases [OF assms]
  by (cases "db_of D s pt") (auto simp del: db_of_None)

lemma check_foreign_key_Ok:
  assumes "storage_inv D s"
  shows "check_foreign_key D s t c v con = Ok () \<longleftrightarrow>
    (\<forall>pt pc. con = References pt pc \<longrightarrow> v = VNull \<or> key_present (db_of D s) pt pc v)"
  by (auto simp: check_foreign_key_def key_present_read [OF assms] res_simps split: constraint_t.splits if_splits)

lemma check_foreign_keys_row_Ok:
  assumes "storage_inv D s"
  shows "check_foreign_keys_row D s t sch r = Ok () \<longleftrightarrow>
    (\<forall>col \<in> set (ts_columns sch). \<forall>pt pc. References pt pc \<in> set (cs_constraints col) \<longrightarrow>
       row_get r (cs_name col) = VNull \<or> key_present (db_of D s) pt pc (row_get r (cs_name col)))"
  by (auto simp: check_foreign_keys_row_def each_res_Ok_iff check_foreign_key_Ok [OF assms])

lemma check_assigned_keys_Ok:
  assumes "storage_inv D s"
  shows "check_assigned_keys D s t sch as = Ok () \<longleftrightarrow>
    (\<forall>(c, v) \<in> set as. \<forall>col pt pc. find_column sch c = Some col \<longrightarrow>
       References pt pc \<in> set (cs_constraints col) \<longrightarrow> v = VNull \<or> key_present (db_of D s) pt pc v)"
  by (fastforce simp: check_assigned_keys_def each_res_Ok_iff check_foreign_key_Ok [OF assms]
      split: option.splits if_splits)

lemma set_list_tables: "set (list_tables s) = {t. fmlookup (st_catalog s) t \<noteq> None}"
  by (auto simp: list_tables_def fmlookup_dom_iff)

lemma set_references_to:
  "set (references_to parent t col) = {(t, cs_name col, pc) | pc. References parent pc \<in> set (cs_constraints col)}"
proof -
  have "set (List.map_filter (\<lambda>con. case con of
      References pt pc \<Rightarrow> if pt = parent then Some (t, cs_name col, pc) else None | _ \<Rightarrow> None) xs) =
      {(t, cs_name col, pc) | pc. References parent pc \<in> set xs}" for xs
    by (induction xs) (auto simp: List.map_filter_simps split: constraint_t.splits)
  then show ?thesis by (simp add: references_to_def)
qed

lemma referencing_columns_ok:
  obtains refs where "referencing_columns s parent = Ok refs"
    "\<And>u c pc. (u, c, pc) \<in> set refs \<longleftrightarrow> references (db_of D s) u c parent pc"
proof -
  define g where "g = (\<lambda>t. concat (map (references_to parent t) (ts_columns (the (fmlookup (st_catalog s) t)))))"
  have "map_res (\<lambda>t. tryq (get_schema s t) (\<lambda>sch. Ok (concat (map (references_to parent t) (ts_columns sch)))))
      (list_tables s) = Ok (map g (list_tables s))"
    by (rule map_res_Ok_map) (auto simp: set_list_tables get_schema_def g_def)
  then have 1: "referencing_columns s parent = Ok (concat (map g (list_tables s)))"
    by (simp add: referencing_columns_def)
  have "(u, c, pc) \<in> set (concat (map g (list_tables s))) \<longleftrightarrow> references (db_of D s) u c parent pc" for u c pc
    by (auto simp: set_list_tables g_def set_references_to references_def db_of_def)
  with 1 that show ?thesis by blast
qed

text \<open>A parent table may lose the values \<open>olds\<close> of a referenced column only if no child uses them.\<close>

lemma children_on_update_Ok:
  assumes inv: "storage_inv D s" and t: "db_of D s t = Some (cols, rows)"
    and ok: "check_referencing_children_on_update D s t as f = Ok ()"
    and ref: "references (db_of D s) child cc t pc" "db_of D s child = Some (ccols, crows)"
    and r: "r \<in> set rows" "row_matches_filter r f" "fmlookup r pc = Some old" "old \<noteq> VNull"
      "map_of as pc = Some new" "old \<noteq> new"
  shows "\<forall>cr \<in> set crows. fmlookup cr cc \<noteq> Some old"
proof -
  obtain refs where refs: "referencing_columns s t = Ok refs"
    "\<And>u c pc. (u, c, pc) \<in> set refs \<longleftrightarrow> references (db_of D s) u c t pc"
    by (rule referencing_columns_ok [of s t D]) (rule that)
  from ref(1) refs(2) have m: "(child, cc, pc) \<in> set refs" by simp
  then have "refs \<noteq> []" by auto
  with ok refs(1) m t r(5) ref(2)
  have "each_res (\<lambda>r. case fmlookup r pc of None \<Rightarrow> Ok ()
      | Some old_value \<Rightarrow> if old_value = VNull \<or> old_value = new then Ok ()
          else if \<exists>cr \<in> set crows. fmlookup cr cc = Some old_value
          then Err (parent_violation child t pc old_value) else Ok ())
      (filter (\<lambda>r. row_matches_filter r f) rows) = Ok ()"
    by (auto simp: check_referencing_children_on_update_def read_rows_cases [OF inv] each_res_Ok_iff)
  with r show ?thesis by (fastforce simp: each_res_Ok_iff split: if_splits)
qed

lemma children_on_delete_Ok:
  assumes inv: "storage_inv D s" and t: "db_of D s t = Some (cols, rows)"
    and ok: "check_referencing_children_on_delete D s t f = Ok ()"
    and ref: "references (db_of D s) child cc t pc" "db_of D s child = Some (ccols, crows)"
    and r: "r \<in> set rows" "row_matches_filter r f" "fmlookup r pc = Some v" "v \<noteq> VNull"
    and gone: "\<forall>x \<in> set rows. \<not> row_matches_filter x f \<longrightarrow> fmlookup x pc \<noteq> Some v"
  shows "\<forall>cr \<in> set crows. fmlookup cr cc \<noteq> Some v"
proof -
  obtain refs where refs: "referencing_columns s t = Ok refs"
    "\<And>u c pc. (u, c, pc) \<in> set refs \<longleftrightarrow> references (db_of D s) u c t pc"
    by (rule referencing_columns_ok [of s t D]) (rule that)
  from ref(1) refs(2) have m: "(child, cc, pc) \<in> set refs" by simp
  then have "refs \<noteq> []" by auto
  with ok refs(1) m t ref(2)
  have "each_res (\<lambda>doomed. case fmlookup doomed pc of None \<Rightarrow> Ok ()
      | Some v \<Rightarrow> if v = VNull then Ok ()
          else if \<exists>r \<in> set rows. \<not> row_matches_filter r f \<and> fmlookup r pc = Some v then Ok ()
          else if \<exists>cr \<in> set crows. fmlookup cr cc = Some v
          then Err (parent_violation child t pc v) else Ok ())
      (filter (\<lambda>r. row_matches_filter r f) rows) = Ok ()"
    by (auto simp: check_referencing_children_on_delete_def read_rows_cases [OF inv] each_res_Ok_iff)
  with r gone show ?thesis by (fastforce simp: each_res_Ok_iff split: if_splits)
qed

lemma check_unique_Ok:
  assumes inv: "storage_inv D s" and t: "db_of D s t = Some (cols, rows)"
    and ok: "check_unique_constraints_for_update D s t sch as f = Ok ()"
    and col: "col \<in> set (ts_columns sch)" "is_unique col" "cs_name col \<in> fst ` set as"
  shows "distinct (filter (\<lambda>v. v \<noteq> VNull) (List.map_filter (updated_value as f (cs_name col)) rows))"
proof -
  have j: "inj (d_value_json D)" using storage_invD(1) [OF inv] by simp
  let ?cs = "map cs_name (filter (\<lambda>col. (has_constraint col Unique \<or> has_constraint col PrimaryKey) \<and>
      cs_name col \<in> fst ` set as) (ts_columns sch))"
  from col have m: "cs_name col \<in> set ?cs" by (auto simp: is_unique_def)
  then have ne: "?cs \<noteq> []" by (metis empty_iff list.set(1))
  have rd: "read_rows D s t = Ok rows" using t by (simp add: read_rows_cases [OF inv])
  have "each_res (\<lambda>c. unique_scan (d_value_json D) c (updated_value as f c) {} rows) ?cs = Ok ()"
    using ok ne unfolding check_unique_constraints_for_update_def Let_def rd by simp
  with m have "unique_scan (d_value_json D) (cs_name col) (updated_value as f (cs_name col)) {} rows = Ok ()"
    unfolding each_res_Ok_iff by blast
  with unique_scan_cases [OF j, of "updated_value as f (cs_name col)" rows "{}" "cs_name col"]
  show ?thesis by (auto split: if_splits)
qed

end
