(* ===== verification/Sample_Deps.thy ===== *)
theory Sample_Deps
  imports Crypto
begin

text \<open>
  A concrete choice of the library functions that meets \<open>deps_ok\<close>: a pair of letters per byte
  for base64, a cipher that appends a tag, serialisers by enumeration, and a sort that leaves the
  rows as they are where the standard library makes no promise. It shows that the
  hypotheses on the crates can hold together; no definition of the model depends on it.
\<close>

definition nibble_char :: "nat \<Rightarrow> char" where
  "nibble_char n = char_of (97 + n)"

fun sample_b64 :: "u8 list \<Rightarrow> string" where
  "sample_b64 [] = []"
| "sample_b64 (b # bs) = nibble_char (unat b div 16) # nibble_char (unat b mod 16) # sample_b64 bs"

fun sample_unb64 :: "string \<Rightarrow> u8 list option" where
  "sample_unb64 [] = Some []"
| "sample_unb64 [c] = None"
| "sample_unb64 (c # d # s) =
     map_option (Cons (of_nat (16 * (byte c - 97) + (byte d - 97)))) (sample_unb64 s)"

definition sample_value_json :: "value_t \<Rightarrow> string" where
  "sample_value_json v = (case v of VInt i \<Rightarrow> CHR ''i'' # show_i64 i | VText s \<Rightarrow> CHR ''t'' # s
     | VBool b \<Rightarrow> CHR ''b'' # show_bool b | VNull \<Rightarrow> ''n'')"

definition unary :: "'a::countable \<Rightarrow> u8 list" where
  "unary x = replicate (to_nat x) 0"

definition ununary :: "u8 list \<Rightarrow> 'a::countable option" where
  "ununary bs = Some (from_nat (length bs))"

text \<open>Rows with one fixed content have a short encoding, so that a small file can be exhibited.\<close>

definition sample_data :: row where
  "sample_data = fmupd ''name'' (VText ''ann'') (fmupd ''id'' (VInt 1) fmempty)"

primrec to_bytes :: "nat \<Rightarrow> nat \<Rightarrow> u8 list" where
  "to_bytes 0 n = []"
| "to_bytes (Suc k) n = of_nat (n mod 256) # to_bytes k (n div 256)"

primrec of_bytes :: "u8 list \<Rightarrow> nat" where
  "of_bytes [] = 0"
| "of_bytes (b # bs) = unat b + 256 * of_bytes bs"

definition sample_row_json :: "stored_row \<Rightarrow> u8 list" where
  "sample_row_json r = (if sr_data r = sample_data then 1 # to_bytes 8 (unat (sr_id r)) else 0 # unary r)"

definition sample_row_unjson :: "u8 list \<Rightarrow> stored_row option" where
  "sample_row_unjson bs = (case bs of [] \<Rightarrow> None
     | b # rest \<Rightarrow> if b = 1 then Some \<lparr>sr_id = of_nat (of_bytes rest), sr_data = sample_data\<rparr> else ununary rest)"

definition sample_deps :: deps where
  "sample_deps = \<lparr>
     d_random = (\<lambda>n len. replicate len (of_nat n)),
     d_now = (\<lambda>n. Some n),
     d_b64_encode = sample_b64, d_b64_decode = sample_unb64,
     d_encrypt = (\<lambda>k n p. Some (p @ replicate 16 0)),
     d_decrypt = (\<lambda>k n c. if length c < 16 then None else Some (take (length c - 16) c)),
     d_pbkdf2 = (\<lambda>p salt r len. take len (p @ salt @ replicate len 0)),
     d_value_json = sample_value_json,
     d_row_json = sample_row_json, d_row_unjson = sample_row_unjson,
     d_catalog_json = unary, d_catalog_unjson = ununary,
     d_migrations_json = unary, d_migrations_unjson = ununary,
     d_indexes_json = unary, d_indexes_unjson = ununary,
     d_index_map_json = unary, d_index_map_unjson = ununary,
     d_users_json = unary, d_users_unjson = ununary,
     d_audit_json = (\<lambda>e. ae_username e @ '' '' @ ae_action e),
     d_sort = (\<lambda>cmp rows. Inr rows)\<rparr>"

lemma byte_nibble_char [simp]: "n < 16 \<Longrightarrow> byte (nibble_char n) = 97 + n"
  by (simp add: byte_def nibble_char_def)

lemma sample_unb64_b64: "sample_unb64 (sample_b64 bs) = Some bs"
proof (induction bs)
  case (Cons b bs)
  have "unat b < 256" using unsigned_less [of b] by simp
  then have "unat b div 16 < 16" by simp
  with Cons show ?case
    by (simp add: mult_div_mod_eq [of 16 "unat b"] del: of_nat_add of_nat_mult)
qed simp

lemma b64_char_nibble: "n < 16 \<Longrightarrow> b64_char (nibble_char n)"
  by (simp add: b64_char_def is_ascii_alnum_def)

lemma sample_b64_chars: "list_all b64_char (sample_b64 bs)"
proof (induction bs)
  case (Cons b bs)
  have "unat b < 256" using unsigned_less [of b] by simp
  with Cons show ?case by (simp add: b64_char_nibble)
qed simp

lemma inj_sample_value_json: "inj sample_value_json"
  by (rule injI) (auto simp: sample_value_json_def show_bool_def split: value_splits if_splits)

lemma ununary_unary [simp]: "ununary (unary x) = Some x"
  by (simp add: unary_def ununary_def)

lemma of_bytes_to_bytes: "n < 256 ^ k \<Longrightarrow> of_bytes (to_bytes k n) = n"
proof (induction k arbitrary: n)
  case (Suc k)
  then have "n div 256 < 256 ^ k" by (simp add: less_mult_imp_div_less mult.commute)
  moreover have "unat (of_nat (n mod 256) :: u8) = n mod 256" by (simp add: unat_of_nat)
  ultimately show ?case using Suc.IH by simp
qed simp

lemma length_to_bytes [simp]: "length (to_bytes k n) = k"
  by (induction k arbitrary: n) simp_all

lemma sample_row_roundtrip: "sample_row_unjson (sample_row_json r) = Some r"
proof -
  have "unat (sr_id r) < 256 ^ 8" using unsigned_less [of "sr_id r"] by simp
  then show ?thesis
    by (cases r) (auto simp: sample_row_unjson_def sample_row_json_def of_bytes_to_bytes)
qed

lemma length_sample_b64 [simp]: "length (sample_b64 bs) = 2 * length bs"
  by (induction bs) simp_all

lemma sample_deps_ok: "deps_ok sample_deps"
  unfolding deps_ok_def
proof (intro conjI)
  show "base64_ok sample_deps"
    by (auto simp: base64_ok_def sample_deps_def sample_unb64_b64 sample_b64_chars neq_Nil_conv)
qed (simp_all add: random_ok_def cipher_ok_def json_ok_def sort_ok_def sample_deps_def inj_sample_value_json sample_row_roundtrip)

end
