(* ===== verification/Sample_Storage.thy ===== *)
theory Sample_Storage
  imports Storage_Txn Sample_Deps
begin

text \<open>
  A small storage, obtained by running the operations: one table with a primary key, an index on
  it, and one row. It is the concrete input at which theorems with the storage invariant as a
  hypothesis are applied.
\<close>

definition sample_schema :: table_schema where
  "sample_schema = \<lparr>ts_name = ''users'', ts_columns =
     [\<lparr>cs_name = ''id'', cs_type = TInt, cs_constraints = [PrimaryKey]\<rparr>,
      \<lparr>cs_name = ''name'', cs_type = TText, cs_constraints = []\<rparr>], ts_next_row_id = 0\<rparr>"

lemma content_empty:
  assumes "storage_inv D s" "fmlookup (st_catalog s) t \<noteq> None" "stored_of D s t = []"
  shows "content_of s t = []"
proof -
  obtain ps where ps: "file_holds (decode_row D (st_key s)) (content_of s t) ps" "located D s t = locate 0 ps"
    using tables_ok_holds [OF storage_invD(2) [OF assms(1)] assms(2)] by blast
  with assms(3) have "ps = []" by (cases ps) (auto simp: stored_of_def)
  with ps(1) show ?thesis by (simp add: file_holds_def)
qed

lemma fmdom_notD_iff: "x |\<in>| fmdom m \<longleftrightarrow> \<not> (fmlookup m x = None)"
  by (auto simp: fmlookup_dom_iff)

lemma sample_clock [simp]: "d_now sample_deps n \<noteq> None"
  by (simp add: sample_deps_def)

lemma sample_storage_exists:
  obtains s where "storage_inv sample_deps s" "fmdom (st_catalog s) = {|''users''|}"
    "columns_of s ''users'' = Some (ts_columns sample_schema)"
    "st_index_catalog s = [\<lparr>ix_name = ''by_id'', ix_table = ''users'', ix_column = ''id''\<rparr>]"
    "rows_of sample_deps s ''users'' = [sample_data]" "length (content_of s ''users'') = 99"
    "NL \<notin> set (butlast (content_of s ''users''))" "\<not> st_txn s"
proof -
  let ?D = sample_deps
  obtain s0 where s0: "storage_inv ?D s0" "st_catalog s0 = fmempty" "st_index_catalog s0 = []" "\<not> st_txn s0"
    using storage_open_empty [OF sample_deps_ok] by metis
  have ok: "schema_ok (ts_name sample_schema) sample_schema"
    by (simp add: schema_ok_def sample_schema_def plain_name_def)
  have new: "fmlookup (st_catalog s0) (ts_name sample_schema) = None" by (simp add: s0(2))
  obtain r1 s1 where s1: "storage_inv ?D s1" "st_catalog s1 = fmupd ''users'' sample_schema (st_catalog s0)"
    "stored_of ?D s1 ''users'' = []" "st_index_catalog s1 = st_index_catalog s0" "st_txn s1 = st_txn s0"
    by (rule storage_create_table_ok [OF s0(1) new ok]) (simp add: sample_schema_def that)
  have t1: "fmlookup (st_catalog s1) ''users'' = Some sample_schema" by (simp add: s1(2))
  have hc: "has_column sample_schema ''id''" by (simp add: has_column_def sample_schema_def)
  obtain r2 s2 where s2: "storage_inv ?D s2" "st_catalog s2 = st_catalog s1"
    "\<And>u. stored_of ?D s2 u = stored_of ?D s1 u"
    "st_index_catalog s2 = st_index_catalog s1 @ [\<lparr>ix_name = ''by_id'', ix_table = ''users'', ix_column = ''id''\<rparr>]"
    "st_txn s2 = st_txn s1"
    by (rule storage_create_index_ok [OF s1(1) t1 hc, of "''by_id''"]) (simp add: s1(4) s0(3), rule that)
  have t2: "fmlookup (st_catalog s2) ''users'' \<noteq> None" by (simp add: s2(2) t1)
  have e2: "content_of s2 ''users'' = []"
    using content_empty [OF s2(1) t2] by (simp add: s2(3) s1(3))
  obtain rid s3 n l where s3: "storage_inv ?D s3" "row_frame s2 s3"
    "stored_of ?D s3 ''users'' = stored_of ?D s2 ''users'' @ [\<lparr>sr_id = rid, sr_data = sample_data\<rparr>]"
    "encode_row ?D (st_key s2) \<lparr>sr_id = rid, sr_data = sample_data\<rparr> n = (Ok l, Suc n)"
    "content_of s3 ''users'' = l @ [NL]"
    by (rule append_row_ok [OF s2(1) t2, of sample_data]) (use e2 that in blast)
  have l: "length l = 98" "list_all b64_char l"
    using s3(4)
    by (auto simp: encode_row_def encrypt_to_base64_def sample_deps_def Let_def NONCE_LEN_def
        sample_row_json_def sample_b64_chars)
  have "fmdom (st_catalog s3) = {|''users''|}"
  proof (rule fset_eqI)
    fix u
    have "fmlookup (st_catalog s3) u = None \<longleftrightarrow> fmlookup (st_catalog s2) u = None"
      by (rule row_frame_None [OF s3(2)])
    also have "\<dots> \<longleftrightarrow> u \<noteq> ''users''" by (simp add: s2(2) s1(2) s0(2))
    finally show "u |\<in>| fmdom (st_catalog s3) \<longleftrightarrow> u |\<in>| {|''users''|}"
      unfolding fmdom_notD_iff by simp
  qed
  moreover have "columns_of s3 ''users'' = Some (ts_columns sample_schema)"
    using s3(2) t1 by (simp add: row_frame_def columns_of_def [of s2] s2(2))
  moreover have "rows_of ?D s3 ''users'' = [sample_data]"
    unfolding rows_of_def s3(3) s2(3) s1(3) by simp
  moreover have "st_index_catalog s3 = [\<lparr>ix_name = ''by_id'', ix_table = ''users'', ix_column = ''id''\<rparr>]"
    "\<not> st_txn s3"
    using s3(2) s2(4,5) s1(4,5) s0(3,4) by (simp_all add: row_frame_def)
  moreover have "length (content_of s3 ''users'') = 99" "NL \<notin> set (butlast (content_of s3 ''users''))"
    using l(1) b64_no_newline [OF l(2)] by (simp_all add: s3(5))
  ultimately show ?thesis using s3(1) that by blast
qed

lemma sample_reads:
  obtains s sch where "get_schema s ''users'' = Ok sch" "ts_columns sch = ts_columns sample_schema"
    "read_rows sample_deps s ''users'' = Ok [sample_data]"
proof -
  obtain s where s: "storage_inv sample_deps s" "columns_of s ''users'' = Some (ts_columns sample_schema)"
    "rows_of sample_deps s ''users'' = [sample_data]"
    by (rule sample_storage_exists) (rule that)
  from s(2) obtain sch where "fmlookup (st_catalog s) ''users'' = Some sch"
    "ts_columns sch = ts_columns sample_schema" by (auto simp: columns_of_def)
  with read_rows_ok [OF storage_invD(2) [OF s(1)], of "''users''"] s(3) show ?thesis
    by (intro that [of s sch]) (simp_all add: get_schema_def)
qed

end
