(* ===== verification/Query_Correct.thy ===== *)
theory Query_Correct
  imports Query Sample_Storage "HOL-Library.Multiset"
begin

text \<open>
  Correctness of \<open>SELECT\<close>: an index never changes the answer (through an interface of indexed
  tables that the storage engine provides), a hash join is a nested-loop join, \<open>GROUP BY\<close>
  partitions the rows, and \<open>ORDER BY\<close> sorts stably.
\<close>

section \<open>Indexed tables\<close>

text \<open>
  What a query relies on: a probe finds, if anything, the locators of exactly the rows with the
  value, in the order of a scan, and a fetch without locators is a scan.
\<close>

locale indexed_table =
  fixes scan :: "string \<Rightarrow> row list result"
    and probe :: "string \<Rightarrow> string \<Rightarrow> value_t \<Rightarrow> 'l list option result"
    and fetch :: "string \<Rightarrow> 'l list option \<Rightarrow> row list result"
    and lawful :: "string \<Rightarrow> bool"
  assumes scan_ok: "lawful t \<Longrightarrow> \<exists>rows. scan t = Ok rows"
    and probe_ok: "lawful t \<Longrightarrow> \<exists>found. probe t c v = Ok found"
    and fetch_all: "fetch t None = scan t"
    and fetch_found: "lawful t \<Longrightarrow> probe t c v = Ok (Some ls) \<Longrightarrow> scan t = Ok rows \<Longrightarrow>
      fetch t (Some ls) = Ok (filter (\<lambda>r. row_get r c = v) rows)"
begin

lemma best_candidate_sound:
  assumes "lawful t" "scan t = Ok rows"
    and "\<forall>(c, v) \<in> set cs. \<forall>r. P r \<longrightarrow> row_get r c = v"
    and "\<exists>rs. fetch t best = Ok rs \<and> filter P rs = filter P rows"
  shows "\<exists>best' rs. best_candidate_loop probe t cs best = Ok best' \<and> fetch t best' = Ok rs \<and>
    filter P rs = filter P rows"
  using assms(3,4)
proof (induction cs arbitrary: best)
  case (Cons cv cs)
  obtain c v where cv: "cv = (c, v)" by fastforce
  obtain found where f: "probe t c v = Ok found" using probe_ok [OF assms(1)] by blast
  have P: "filter P (filter (\<lambda>r. row_get r c = v) rows) = filter P rows"
    using Cons.prems(1) by (intro filter_filter_implies) (auto simp: cv)
  have step: "\<exists>best'. best_candidate_loop probe t (cv # cs) best = best_candidate_loop probe t cs best' \<and>
      (best' = best \<or> best' = found \<and> found \<noteq> None)"
    by (cases found; cases best) (auto simp: cv f)
  then obtain best' where b: "best_candidate_loop probe t (cv # cs) best = best_candidate_loop probe t cs best'"
    "best' = best \<or> best' = found \<and> found \<noteq> None" by blast
  then have "\<exists>rs. fetch t best' = Ok rs \<and> filter P rs = filter P rows"
    using Cons.prems(2) fetch_found [OF assms(1) _ assms(2)] P f by (metis option.exhaust)
  with Cons b(1) show ?case by simp
qed simp

lemma candidate_filter:
  assumes "lawful t" "scan t = Ok rows"
  obtains best rs where "find_best_index_candidate probe t f = Ok best" "fetch t best = Ok rs"
    "filter (\<lambda>r. row_matches_filter r f) rs = filter (\<lambda>r. row_matches_filter r f) rows"
proof (cases f)
  case None
  with that assms(2) show ?thesis by (auto simp: find_best_index_candidate_def fetch_all)
next
  case (Some g)
  have "\<forall>(c, v) \<in> set (collect_index_candidates g []). \<forall>r. evaluate_filter r g \<longrightarrow> row_get r c = v"
    by (auto dest: collect_index_candidates_sound)
  from best_candidate_sound [OF assms this, of None] assms(2)
  show ?thesis
    using that by (auto simp: find_best_index_candidate_def Some row_matches_filter_def fetch_all)
qed

end

section \<open>The storage engine provides indexed tables\<close>

text \<open>The limits of the locator fields: a file offset of 64 bits, a line length of 32.\<close>

definition table_fits :: "storage \<Rightarrow> string \<Rightarrow> bool" where
  "table_fits s t \<longleftrightarrow> length (content_of s t) < 2 ^ 64 \<and>
     (\<forall>l \<in> set (split_lines (content_of s t)). length l < 2 ^ 32)"

definition table_lawful :: "deps \<Rightarrow> storage \<Rightarrow> string \<Rightarrow> bool" where
  "table_lawful D s t \<longleftrightarrow> storage_inv D s \<and> fmlookup (st_catalog s) t \<noteq> None \<and> table_fits s t"

lemma table_fits_file:
  assumes "table_fits s t" "file_holds dec (content_of s t) ps"
  shows "file_fits ps"
proof -
  from assms(2) have "content_of s t = file_of ps" by (simp add: file_holds_def)
  with assms show ?thesis
    by (force simp: table_fits_def file_fits_def file_holds_lines)
qed

lemma read_at_located:
  assumes "table_lawful D s t" "set xs \<subseteq> set (located D s t)"
  shows "read_rows_at D s t (map fst xs) = Ok (map (\<lambda>x. sr_data (snd x)) xs)"
proof -
  from assms(1) have t: "tables_ok D s" "fmlookup (st_catalog s) t \<noteq> None" "table_fits s t"
    by (auto simp: table_lawful_def storage_inv_def)
  obtain ps where ps: "file_holds (decode_row D (st_key s)) (content_of s t) ps" "located D s t = locate 0 ps"
    using tables_ok_holds [OF t(1,2)] by blast
  show ?thesis
  proof (cases "dk_files s (table_path t)")
    case None
    with ps have "located D s t = []"
      by (simp add: located_def content_of_def scan_file_def split_lines.simps)
    with assms(2) None t(2) show ?thesis by (simp add: read_rows_at_def)
  next
    case (Some c)
    with read_at_locate [OF ps(1) table_fits_file [OF t(3) ps(1)]] assms(2) ps(2) t(2)
    show ?thesis by (simp add: read_rows_at_def content_of_def)
  qed
qed

lemma find_indexed_locators_ok:
  assumes "storage_inv D s"
  shows "\<exists>found. find_indexed_locators D s t c v = Ok found"
  by (auto simp: find_indexed_locators_def split: option.splits)

lemma find_indexed_locators_found:
  assumes "storage_inv D s" "find_indexed_locators D s t c v = Ok (Some ls)"
  shows "ls = map fst (filter (\<lambda>x. row_get (sr_data (snd x)) c = v) (located D s t))"
proof -
  from assms(2) obtain ix m where ix: "ix \<in> set (st_index_catalog s)" "ix_table ix = t" "ix_column ix = c"
    "fmlookup (st_index_maps s) (ix_name ix) = Some m" "ls = entry_get m (d_value_json D v)"
    by (auto simp: find_indexed_locators_def find_Some_iff split: option.splits) (metis nth_mem)
  from assms(1) ix(1,4) have "m = build_index D (ix_column ix) (located D s (ix_table ix))"
    by (auto simp: storage_inv_def indexes_ok_def index_ok_def)
  with ix assms(1) show ?thesis by (simp add: build_index_get storage_inv_def)
qed

interpretation stored: indexed_table "read_rows D s" "find_indexed_locators D s"
  "read_rows_filtered D s" "table_lawful D s" for D s
proof
  fix t c v ls rows
  assume L: "table_lawful D s t" "find_indexed_locators D s t c v = Ok (Some ls)"
    "read_rows D s t = Ok rows"
  then have i: "storage_inv D s" and e: "fmlookup (st_catalog s) t \<noteq> None"
    by (simp_all add: table_lawful_def)
  from i L(3) e have r: "rows = map (\<lambda>x. sr_data (snd x)) (located D s t)"
    by (auto simp: read_rows_ok storage_inv_def rows_of_def stored_of_def)
  show "read_rows_filtered D s t (Some ls) = Ok (filter (\<lambda>r. row_get r c = v) rows)"
    using read_at_located [OF L(1), of "filter (\<lambda>x. row_get (sr_data (snd x)) c = v) (located D s t)"]
      find_indexed_locators_found [OF i L(2)]
    by (simp add: read_rows_filtered_def r filter_map comp_def)
next
  fix t assume "table_lawful D s t"
  then show "\<exists>rows. read_rows D s t = Ok rows"
    by (auto simp: table_lawful_def read_rows_ok storage_inv_def)
next
  fix t c v assume "table_lawful D s t"
  then show "\<exists>found. find_indexed_locators D s t c v = Ok found"
    by (auto simp: table_lawful_def find_indexed_locators_ok)
qed (simp add: read_rows_filtered_def)

section \<open>Indexes do not change answers\<close>

text \<open>The same storage without its indexes: every query is a scan.\<close>

definition without_indexes :: "storage \<Rightarrow> storage" where
  "without_indexes s = s\<lparr>st_index_catalog := [], st_index_maps := fmempty\<rparr>"

lemma without_indexes_reads [simp]:
  "get_schema (without_indexes s) = get_schema s"
  "read_rows D (without_indexes s) = read_rows D s"
  "find_indexed_locators D (without_indexes s) t c v = Ok None"
  by (simp_all add: fun_eq_iff without_indexes_def get_schema_def read_rows_def read_stored_rows_def
      read_stored_rows_located_def find_indexed_locators_def split: option.splits)

lemma best_candidate_none: 
  "(\<And>c v. probe t c v = Ok None) \<Longrightarrow> best_candidate_loop probe t cs None = Ok None"
  by (induction cs) auto

lemma without_indexes_candidate [simp]:
  "find_best_index_candidate (find_indexed_locators D (without_indexes s)) t f = Ok None"
  by (auto simp: find_best_index_candidate_def best_candidate_none split: option.splits)

lemma join_step_without [simp]: "join_step D (without_indexes s) = join_step D s"
  by (simp add: fun_eq_iff join_step_def)

lemma select_resolved_without:
  assumes "storage_inv D s" "table_fits s t" "get_schema s t = Ok sch"
  shows "select_resolved D (without_indexes s) t sch exprs joins f gb having ob lim off =
    select_resolved D s t sch exprs joins f gb having ob lim off"
proof (cases "joins = []")
  case False
  then show ?thesis by (simp add: select_resolved_def select_source_def)
next
  case True
  have L: "table_lawful D s t"
    using assms by (auto simp: table_lawful_def get_schema_def res_simps)
  obtain rows where rows: "read_rows D s t = Ok rows" using stored.scan_ok [OF L] by blast
  show ?thesis
  proof (cases "prepare_opt sch t f")
    case (Ok g)
    obtain best rs where b: "find_best_index_candidate (find_indexed_locators D s) t g = Ok best"
      "read_rows_filtered D s t best = Ok rs"
      "filter (\<lambda>r. row_matches_filter r g) rs = filter (\<lambda>r. row_matches_filter r g) rows"
      using stored.candidate_filter [OF L rows] by blast
    with rows True Ok show ?thesis
      by (simp add: select_resolved_def select_source_def read_rows_filtered_def [of _ "without_indexes s"])
  qed (simp_all add: select_resolved_def select_source_def True)
qed

lemma resolve_subqueries_without:
  assumes "storage_inv D s" "\<And>t. fmlookup (st_catalog s) t \<noteq> None \<Longrightarrow> table_fits s t"
  shows "resolve_subqueries D (without_indexes s) f = resolve_subqueries D s f"
  using assms
proof (induction D s f rule: resolve_subqueries.induct)
  case (1 D s c t exprs joins f group_by having order_by limit offset negated)
  then have "(case f of None \<Rightarrow> Ok None | Some g \<Rightarrow> tryq (resolve_subqueries D (without_indexes s) g) (\<lambda>g'. Ok (Some g')))
    = (case f of None \<Rightarrow> Ok None | Some g \<Rightarrow> tryq (resolve_subqueries D s g) (\<lambda>g'. Ok (Some g')))"
    if "get_schema s t = Ok sch" for sch
    using that by (auto split: option.splits)
  then show ?case
    using select_resolved_without [OF "1.prems"(1) "1.prems"(2)]
    by (auto intro!: tryq_cong simp: get_schema_def res_simps)
qed (auto intro!: tryq_cong)

section \<open>A hash join is a nested-loop join\<close>

lemma join_buckets_get:
  "entry_get (join_buckets key c rows) k = filter (\<lambda>rr. right_join_key key (fmlookup rr c) = k) rows"
proof -
  have "entry_get (fold (\<lambda>rr m. entry_push (right_join_key key (fmlookup rr c)) rr m) rows m) k =
    entry_get m k @ filter (\<lambda>rr. right_join_key key (fmlookup rr c) = k) rows" for m
    by (induction rows arbitrary: m) auto
  from this [of fmempty] show ?thesis by (simp add: join_buckets_def)
qed

lemma join_rows_entry:
  "join_rows key lookup buckets rn lrs = concat (map (\<lambda>lr. map (\<lambda>rr. merge_row rn rr lr)
     (entry_get buckets (right_join_key key (fmlookup lr lookup)))) lrs)"
  by (induction lrs) (auto simp: entry_get_def split: option.splits)

lemma right_join_key_row_get: "right_join_key key (fmlookup r c) = key (row_get r c)"
  by (simp add: right_join_key_def row_get_def)

lemma join_rows_nested:
  assumes "inj key"
  shows "join_rows key lookup (join_buckets key c rrs) rn lrs =
    [merge_row rn rr lr. lr \<leftarrow> lrs, rr \<leftarrow> rrs, row_get lr lookup = row_get rr c]"
proof -
  have "[merge_row rn rr lr. rr \<leftarrow> rrs, row_get lr lookup = row_get rr c] =
      map (\<lambda>rr. merge_row rn rr lr) (filter (\<lambda>rr. key (row_get rr c) = key (row_get lr lookup)) rrs)" for lr
    by (induction rrs) (auto simp: inj_eq [OF assms])
  then show ?thesis
    by (simp add: join_rows_entry join_buckets_get right_join_key_row_get)
qed

section \<open>Sorting\<close>

lemma total_preorderD:
  assumes "total_preorder A cmp"
  shows "a \<in> A \<Longrightarrow> b \<in> A \<Longrightarrow> cmp b a = ord_reverse (cmp a b)"
    "a \<in> A \<Longrightarrow> b \<in> A \<Longrightarrow> c \<in> A \<Longrightarrow> cmp a b \<noteq> Greater \<Longrightarrow> cmp b c \<noteq> Greater \<Longrightarrow> cmp a c \<noteq> Greater"
  using assms unfolding total_preorder_def by blast+

lemma total_preorder_cong:
  assumes "total_preorder A f" "\<And>a b. a \<in> A \<Longrightarrow> b \<in> A \<Longrightarrow> g a b = f a b"
  shows "total_preorder A g"
  unfolding total_preorder_def
proof (intro conjI ballI impI)
  fix a b c assume abc: "a \<in> A" "b \<in> A" "c \<in> A" and le: "g a b \<noteq> Greater" "g b c \<noteq> Greater"
  from le have "f a b \<noteq> Greater" "f b c \<noteq> Greater" by (simp_all add: assms(2) abc)
  from total_preorderD(2) [OF assms(1) abc this] show "g a c \<noteq> Greater" by (simp add: assms(2) abc)
next
  fix a b assume ab: "a \<in> A" "b \<in> A"
  from total_preorderD(1) [OF assms(1) this] show "g b a = ord_reverse (g a b)" by (simp only: assms(2) ab)
qed

lemma ord_reverse_iff [simp]:
  "ord_reverse x = Equal \<longleftrightarrow> x = Equal" "ord_reverse x = Less \<longleftrightarrow> x = Greater"
  "ord_reverse x = Greater \<longleftrightarrow> x = Less"
  by (cases x; simp)+

lemma ord_not_greater: "x \<noteq> Greater \<longleftrightarrow> x = Less \<or> x = Equal"
  by (cases x) auto

lemma mset_insert_by [simp]: "mset (insert_by cmp x xs) = add_mset x (mset xs)"
  by (induction xs) auto

lemma insertion_sort_simps [simp]:
  "insertion_sort cmp [] = []" "insertion_sort cmp (x # xs) = insert_by cmp x (insertion_sort cmp xs)"
  by (simp_all add: insertion_sort_def)

lemma insert_by_cong: "(\<And>y. y \<in> set ys \<Longrightarrow> cmp x y = cmp' x y) \<Longrightarrow> insert_by cmp x ys = insert_by cmp' x ys"
  by (induction ys) auto

lemma mset_insertion_sort [simp]: "mset (insertion_sort cmp xs) = mset xs"
  by (induction xs) simp_all

lemma set_insertion_sort [simp]: "set (insertion_sort cmp xs) = set xs"
  by (metis mset_insertion_sort mset_eq_setD)

lemma set_insert_by [simp]: "set (insert_by cmp x xs) = insert x (set xs)"
  by (induction xs) auto

lemma insertion_sort_cong:
  "(\<And>a b. a \<in> set xs \<Longrightarrow> b \<in> set xs \<Longrightarrow> cmp a b = cmp' a b) \<Longrightarrow> insertion_sort cmp xs = insertion_sort cmp' xs"
  by (induction xs) (auto intro!: insert_by_cong)

lemma insert_by_sorted:
  assumes "total_preorder A cmp" "insert x (set xs) \<subseteq> A" "sorted_wrt (\<lambda>a b. cmp a b \<noteq> Greater) xs"
  shows "sorted_wrt (\<lambda>a b. cmp a b \<noteq> Greater) (insert_by cmp x xs)"
  using assms(2,3)
proof (induction xs)
  case (Cons y ys)
  note rev = total_preorderD(1) [OF assms(1)] and trans = total_preorderD(2) [OF assms(1)]
  show ?case
  proof (cases "cmp x y = Greater")
    case True
    with Cons rev [of x y] show ?thesis by (auto simp: ord_not_greater)
  next
    case False
    have "cmp x z \<noteq> Greater" if "z \<in> set ys" for z
      using trans [of x y z] False Cons.prems that by auto
    with Cons False show ?thesis by auto
  qed
qed simp

lemma insertion_sort_sorted:
  assumes "total_preorder A cmp" "set xs \<subseteq> A"
  shows "sorted_wrt (\<lambda>a b. cmp a b \<noteq> Greater) (insertion_sort cmp xs)"
  using assms(2)
proof (induction xs)
  case (Cons x xs)
  then show ?case
    using insert_by_sorted [OF assms(1), of x "insertion_sort cmp xs"] by auto
qed simp

lemma insert_by_stable:
  assumes "total_preorder A cmp" "insert x (insert a (set xs)) \<subseteq> A"
  shows "filter (\<lambda>y. cmp y a = Equal) (insert_by cmp x xs) = filter (\<lambda>y. cmp y a = Equal) (x # xs)"
  using assms(2)
proof (induction xs)
  case (Cons y ys)
  note rev = total_preorderD(1) [OF assms(1)] and trans = total_preorderD(2) [OF assms(1)]
  have "\<not> (cmp x y = Greater \<and> cmp x a = Equal \<and> cmp y a = Equal)"
    using trans [of x a y] rev [of y a] Cons.prems by (auto simp: ord_not_greater)
  with Cons show ?case by auto
qed simp

lemma insertion_sort_stable:
  assumes "total_preorder A cmp" "insert a (set xs) \<subseteq> A"
  shows "filter (\<lambda>y. cmp y a = Equal) (insertion_sort cmp xs) = filter (\<lambda>y. cmp y a = Equal) xs"
  using assms(2)
proof (induction xs)
  case (Cons x xs)
  then show ?case
    using insert_by_stable [OF assms(1), of x a "insertion_sort cmp xs"]
    by simp
qed simp

text \<open>Rows whose sort columns hold values of one type each (so no NULL) are totally preordered.\<close>

definition sortable :: "(nat \<times> bool) list \<Rightarrow> value_t list list \<Rightarrow> bool" where
  "sortable idx rows \<longleftrightarrow>
     list_all (\<lambda>(i, asc). \<exists>t. list_all (\<lambda>r. i < length r \<and> value_type (r ! i) = Some t) rows) idx"

text \<open>The comparator on rows that have all the columns.\<close>

fun row_order :: "(nat \<times> bool) list \<Rightarrow> value_t list \<Rightarrow> value_t list \<Rightarrow> ordering" where
  "row_order [] a b = Equal"
| "row_order ((i, asc) # rest) a b =
     (let o1 = (case compare_ordering (a ! i) (b ! i) of None \<Rightarrow> Equal | Some o' \<Rightarrow> o');
          o2 = (if asc then o1 else ord_reverse o1)
      in if o2 \<noteq> Equal then o2 else row_order rest a b)"

lemma order_compare_row_order:
  "list_all (\<lambda>(i, asc). i < length a \<and> i < length b) idx \<Longrightarrow> order_compare idx a b = Ok (row_order idx a b)"
  by (induction idx) (auto simp: value_at_def Let_def)

lemma sortable_bound: "sortable idx rows \<Longrightarrow> (i, asc) \<in> set idx \<Longrightarrow> r \<in> set rows \<Longrightarrow> i < length r"
  by (induction idx) (auto simp: sortable_def list_all_iff)

lemma row_order_preorder:
  "sortable idx rows \<Longrightarrow> total_preorder (set rows) (row_order idx)"
proof (induction idx)
  case Nil
  then show ?case by (simp add: total_preorder_def)
next
  case (Cons x idx)
  obtain i asc where x: "x = (i, asc)" by fastforce
  from Cons.prems obtain t where t: "\<And>r. r \<in> set rows \<Longrightarrow> value_type (r ! i) = Some t"
    by (auto simp: sortable_def x list_all_iff)
  from Cons have IH: "total_preorder (set rows) (row_order idx)" by (simp add: sortable_def)
  define cm where "cm a b = (case compare_ordering (a ! i) (b ! i) of None \<Rightarrow> Equal | Some o' \<Rightarrow> o')"
    for a b :: "value_t list"
  have cm: "compare_ordering (a ! i) (b ! i) = Some (cm a b)" if "a \<in> set rows" "b \<in> set rows" for a b
    using compare_ordering_typed [OF t t, of a b] that by (auto simp: cm_def)
  define cx where "cx a b = (if asc then cm a b else ord_reverse (cm a b))" for a b
  have oc: "row_order (x # idx) a b = (if cx a b \<noteq> Equal then cx a b else row_order idx a b)" for a b
    by (simp add: x cx_def cm_def Let_def)
  have rev: "cx b a = ord_reverse (cx a b)" if "a \<in> set rows" "b \<in> set rows" for a b
    using compare_ordering_reverse [of "b ! i" "a ! i"] cm [of a b] cm [of b a] that
    by (auto simp: cx_def)
  have eq: "a ! i = b ! i" if "a \<in> set rows" "b \<in> set rows" "cx a b = Equal" for a b
    using that cm [of a b] compare_ordering_Equal by (auto simp: cx_def split: if_splits)
  have cong: "cx a c = cx b c" if "a ! i = b ! i" for a b c using that by (simp add: cx_def cm_def)
  have cong': "cx c a = cx c b" if "a ! i = b ! i" for a b c using that by (simp add: cx_def cm_def)
  have tr: "cx a c = Less" if "a \<in> set rows" "b \<in> set rows" "c \<in> set rows" "cx a b = Less" "cx b c = Less"
    for a b c
  proof -
    define better where "better = (if asc then Less else Greater)"
    have "cx u v = Less \<longleftrightarrow> cm u v = better" for u v by (simp add: cx_def better_def)
    with that cm [of a b] cm [of b c] cm [of a c]
      compare_better(2) [of better "a ! i" "b ! i" "c ! i"] show ?thesis
      by (simp add: better_def)
  qed
  show ?case
    unfolding total_preorder_def
  proof (intro conjI ballI impI)
    fix a b assume ab: "a \<in> set rows" "b \<in> set rows"
    show "row_order (x # idx) b a = ord_reverse (row_order (x # idx) a b)"
      using rev [OF ab] total_preorderD(1) [OF IH ab] by (auto simp: oc)
  next
    fix a b c assume abc: "a \<in> set rows" "b \<in> set rows" "c \<in> set rows"
      and le: "row_order (x # idx) a b \<noteq> Greater" "row_order (x # idx) b c \<noteq> Greater"
    from le have c: "cx a b = Less \<or> cx a b = Equal \<and> row_order idx a b \<noteq> Greater"
      "cx b c = Less \<or> cx b c = Equal \<and> row_order idx b c \<noteq> Greater"
      by (auto simp: oc ord_not_greater split: if_splits)
    have "cx a c = Less \<or> cx a c = Equal \<and> row_order idx a c \<noteq> Greater"
    proof (cases "cx a b = Less")
      case True
      with c(2) tr [OF abc] cong' [OF eq [OF abc(2,3)], of a] show ?thesis by auto
    next
      case False
      with c(1) have e: "cx a b = Equal" "row_order idx a b \<noteq> Greater" by auto
      with c(2) cong [OF eq [OF abc(1,2)], of c] total_preorderD(2) [OF IH abc]
      show ?thesis by auto
    qed
    then show "row_order (x # idx) a c \<noteq> Greater" by (auto simp: oc)
  qed
qed

lemma sort_by_sortable:
  assumes "sortable idx rows"
  shows "sort_by D (order_compare idx) rows = Ok (insertion_sort (row_order idx) rows)"
proof -
  have cmp: "order_compare idx a b = Ok (row_order idx a b)" if "a \<in> set rows" "b \<in> set rows" for a b
    by (rule order_compare_row_order) (use sortable_bound [OF assms] that in \<open>auto simp: list_all_iff\<close>)
  have "total_preorder (set rows) (\<lambda>a b. ordering_of (order_compare idx a b))"
    by (rule total_preorder_cong [OF row_order_preorder [OF assms]]) (simp add: cmp ordering_of_def)
  moreover have "insertion_sort (\<lambda>a b. ordering_of (order_compare idx a b)) rows = insertion_sort (row_order idx) rows"
    by (rule insertion_sort_cong) (simp add: cmp ordering_of_def)
  ultimately show ?thesis by (simp add: sort_by_def total_order_def cmp)
qed

lemma sort_by_mset:
  assumes "sort_ok D" "sort_by D cmp rows = Ok out"
  shows "mset out = mset rows"
  using assms by (auto simp: sort_by_def sort_ok_def split: if_splits sum.splits)

text \<open>
  What ORDER BY promises, without positions and comparators: \<open>in_order\<close> says that a row may stand
  before another. The first clause decides, by the values the two rows have in its column, and the
  next clauses break ties; a clause of a column that is not in the answer has no effect.
\<close>

fun value_less :: "value_t \<Rightarrow> value_t \<Rightarrow> bool" where
  "value_less (VInt a) (VInt b) \<longleftrightarrow> sint a < sint b"
| "value_less (VText a) (VText b) \<longleftrightarrow> a < b"
| "value_less (VBool a) (VBool b) \<longleftrightarrow> \<not> a \<and> b"
| "value_less _ _ \<longleftrightarrow> False"

definition cell_of :: "string list \<Rightarrow> value_t list \<Rightarrow> string \<Rightarrow> value_t option" where
  "cell_of cols r c = map_of (zip cols r) c"

fun in_order :: "string list \<Rightarrow> order_by_clause list \<Rightarrow> value_t list \<Rightarrow> value_t list \<Rightarrow> bool" where
  "in_order cols [] a b \<longleftrightarrow> True"
| "in_order cols (ob # obs) a b \<longleftrightarrow>
     (case (cell_of cols a (ob_column ob), cell_of cols b (ob_column ob)) of
        (Some x, Some y) \<Rightarrow>
          (case ob_order ob of Asc \<Rightarrow> value_less x y | Desc \<Rightarrow> value_less y x) \<or> x = y \<and> in_order cols obs a b
      | _ \<Rightarrow> in_order cols obs a b)"

definition same_keys :: "string list \<Rightarrow> order_by_clause list \<Rightarrow> value_t list \<Rightarrow> value_t list \<Rightarrow> bool" where
  "same_keys cols obs a b \<longleftrightarrow> (\<forall>ob \<in> set obs. cell_of cols a (ob_column ob) = cell_of cols b (ob_column ob))"

text \<open>Every column that is sorted by holds values of one type, and no NULL.\<close>

definition one_type_keys :: "string list \<Rightarrow> order_by_clause list \<Rightarrow> value_t list list \<Rightarrow> bool" where
  "one_type_keys cols obs rows \<longleftrightarrow> (\<forall>ob \<in> set obs. ob_column ob \<in> set cols \<longrightarrow>
     (\<exists>t. \<forall>r \<in> set rows. \<exists>v. cell_of cols r (ob_column ob) = Some v \<and> value_type v = Some t))"

lemma cell_of_position:
  "length r = length cols \<Longrightarrow> cell_of cols r c = map_option (\<lambda>i. r ! i) (position c cols)"
proof (induction cols arbitrary: r)
  case (Cons x cols)
  then obtain v r' where r: "r = v # r'" by (cases r) simp_all
  with Cons show ?case by (cases "position c cols") (simp_all add: cell_of_def)
qed (simp add: cell_of_def)

lemma position_None: "position c cols = None \<longleftrightarrow> c \<notin> set cols"
  by (induction cols) auto

lemma position_bound: "position c cols = Some i \<Longrightarrow> i < length cols"
  by (induction cols arbitrary: i) (auto split: if_splits)

lemma order_indices_simps [simp]:
  "order_indices cols [] = []"
  "order_indices cols (ob # obs) = (case position (ob_column ob) cols of None \<Rightarrow> order_indices cols obs
     | Some i \<Rightarrow> (i, ob_order ob = Asc) # order_indices cols obs)"
  by (simp_all add: order_indices_def List.map_filter_simps split: option.splits)

lemma sortable_keys:
  assumes "\<And>r. r \<in> set rows \<Longrightarrow> length r = length cols" "one_type_keys cols obs rows"
  shows "sortable (order_indices cols obs) rows"
  using assms(2)
proof (induction obs)
  case (Cons ob obs)
  then have IH: "sortable (order_indices cols obs) rows" by (simp add: one_type_keys_def)
  show ?case
  proof (cases "position (ob_column ob) cols")
    case (Some i)
    then have "ob_column ob \<in> set cols" using position_None [of "ob_column ob" cols] by auto
    with Cons.prems obtain t where
      "\<forall>r \<in> set rows. \<exists>v. cell_of cols r (ob_column ob) = Some v \<and> value_type v = Some t"
      by (auto simp: one_type_keys_def)
    then have "list_all (\<lambda>r. i < length r \<and> value_type (r ! i) = Some t) rows"
      using assms(1) position_bound [OF Some] by (auto simp: list_all_iff cell_of_position Some)
    with IH Some show ?thesis by (auto simp: sortable_def)
  qed (simp add: IH)
qed (simp add: sortable_def)

lemma value_less_compare:
  assumes "value_type x = Some t" "value_type y = Some t"
  obtains o' where "compare_ordering x y = Some o'" "o' = Less \<longleftrightarrow> value_less x y"
    "o' = Greater \<longleftrightarrow> value_less y x" "o' = Equal \<longleftrightarrow> x = y" "\<not> value_less x x"
proof -
  obtain o' where o': "compare_ordering x y = Some o'" using compare_ordering_typed [OF assms] by blast
  have "(o' = Less \<longleftrightarrow> value_less x y) \<and> (o' = Greater \<longleftrightarrow> value_less y x) \<and> (o' = Equal \<longleftrightarrow> x = y) \<and> \<not> value_less x x"
    using o' by (cases x; cases y) (auto simp: cmp_of_def intro: signed_word_eqI split: if_splits)
  with o' that show ?thesis by blast
qed

lemma row_order_in_order:
  assumes "length a = length cols" "length b = length cols" "one_type_keys cols obs [a, b]"
  shows "(row_order (order_indices cols obs) a b \<noteq> Greater \<longleftrightarrow> in_order cols obs a b) \<and>
    (row_order (order_indices cols obs) a b = Equal \<longleftrightarrow> same_keys cols obs a b)"
  using assms(3)
proof (induction obs)
  case (Cons ob obs)
  from Cons.prems have "one_type_keys cols obs [a, b]" by (simp add: one_type_keys_def)
  note IH = Cons.IH [OF this]
  show ?case
  proof (cases "position (ob_column ob) cols")
    case None
    with IH show ?thesis by (simp add: same_keys_def cell_of_position assms(1,2))
  next
    case (Some i)
    then have "ob_column ob \<in> set cols" using position_None [of "ob_column ob" cols] by auto
    with Cons.prems obtain t where t: "value_type (a ! i) = Some t" "value_type (b ! i) = Some t"
      by (auto simp: one_type_keys_def cell_of_position assms(1,2) Some)
    obtain o' where o': "compare_ordering (a ! i) (b ! i) = Some o'" "o' = Less \<longleftrightarrow> value_less (a ! i) (b ! i)"
      "o' = Greater \<longleftrightarrow> value_less (b ! i) (a ! i)" "o' = Equal \<longleftrightarrow> a ! i = b ! i" "\<not> value_less (a ! i) (a ! i)"
      by (rule value_less_compare [OF t]) (rule that)
    from o' IH show ?thesis
      by (cases o'; cases "ob_order ob")
        (auto simp: Some cell_of_position assms(1,2) same_keys_def Let_def)
  qed
qed (simp add: same_keys_def)

section \<open>The shape of an answer\<close>

lemma execute_aggregate_loop_length:
  "execute_aggregate_loop sch t rows es names vals = Ok (cols, out) \<Longrightarrow>
   length names = length vals \<Longrightarrow> length out = length cols"
  by (induction sch t rows es names vals rule: execute_aggregate_loop.induct)
    (auto simp: res_simps split: if_splits)

lemma map_res_nested_length:
  "map_res (\<lambda>k. map_res (g k) exprs) ks = Ok out \<Longrightarrow> r \<in> set out \<Longrightarrow> length r = length exprs"
  by (induction ks arbitrary: out) (auto simp: res_simps dest: map_res_length)

lemma select_output_length:
  assumes "select_output D t exprs gb having filtered sch = Ok (cols, out)" "r \<in> set out"
  shows "length r = length cols"
proof (cases "gb = []")
  case False
  with assms obtain ks where "map_res group_out_column exprs = Ok cols"
    "map_res (\<lambda>k. map_res (group_out_value (group_rows (d_value_json D) gb filtered k)
       (hd (group_rows (d_value_json D) gb filtered k))) exprs) ks = Ok out"
    by (auto simp: select_output_def dest!: compute_group_by_groups)
  from map_res_nested_length [OF this(2) assms(2)] map_res_length [OF this(1)] show ?thesis by simp
next
  case True
  with assms show ?thesis
    by (auto simp: select_output_def execute_aggregate_def res_simps split: if_splits
        dest!: execute_aggregate_loop_length)
qed

lemma order_indices_less: "(i, asc) \<in> set (order_indices cols ob) \<Longrightarrow> i < length cols"
  by (auto simp: order_indices_def List.map_filter_def position_bound)

lemma select_Ok:
  assumes "select D s t exprs joins f gb having ob lim off = Ok qr"
  obtains cols rows where "select_finish D ob lim off cols rows = Ok qr"
    "\<And>r. r \<in> set rows \<Longrightarrow> length r = length cols"
  using assms by (auto simp: select_def select_resolved_def res_simps dest: select_output_length)

section \<open>Properties\<close>

text \<open>
  C4: Indexes are transparent: on a storage in its invariant whose table files stay within the
  limits of a row locator, a SELECT, with its joins, grouping and subqueries, returns the same
  outcome (rows in the same order, or the same error) as on the storage without any index.
\<close>
theorem select_ignores_indexes:
  assumes "storage_inv D s" and "\<And>t'. fmlookup (st_catalog s) t' \<noteq> None \<Longrightarrow> table_fits s t'"
  shows "select D s t exprs joins f gb having ob lim off =
    select D (s\<lparr>st_index_catalog := [], st_index_maps := fmempty\<rparr>) t exprs joins f gb having ob lim off"
proof -
  have r: "resolve_opt D (without_indexes s) f = resolve_opt D s f"
    using resolve_subqueries_without [OF assms]
    by (auto simp: resolve_opt_def split: option.splits)
  show ?thesis
    unfolding without_indexes_def [symmetric]
    using select_resolved_without [OF assms]
    by (auto simp: select_def r get_schema_def res_simps intro!: tryq_cong)
qed

theorem select_ignores_indexes_witness:
  "\<exists>s. storage_inv sample_deps s \<and> rows_of sample_deps s ''users'' = [sample_data] \<and>
    st_index_catalog s = [\<lparr>ix_name = ''by_id'', ix_table = ''users'', ix_column = ''id''\<rparr>] \<and>
    select sample_deps s ''users'' [AllColumns] [] (Some (Compare ''id'' OpEq (VInt 1))) [] None [] None None =
    select sample_deps (s\<lparr>st_index_catalog := [], st_index_maps := fmempty\<rparr>) ''users'' [AllColumns] []
      (Some (Compare ''id'' OpEq (VInt 1))) [] None [] None None"
proof -
  obtain s where s: "storage_inv sample_deps s" "fmdom (st_catalog s) = {|''users''|}"
    "st_index_catalog s = [\<lparr>ix_name = ''by_id'', ix_table = ''users'', ix_column = ''id''\<rparr>]"
    "rows_of sample_deps s ''users'' = [sample_data]" "length (content_of s ''users'') = 99"
    by (rule sample_storage_exists) (rule that)
  have "table_fits s t" if "fmlookup (st_catalog s) t \<noteq> None" for t
  proof -
    have "t |\<in>| fmdom (st_catalog s)" using that by (simp add: fmdom_notD_iff)
    then have "t = ''users''" by (simp add: s(2))
    moreover have "length l \<le> length c" if "l \<in> set (split_lines c)" for l c
      using split_lines_length [OF that] .
    ultimately show ?thesis using s(5) by (fastforce simp: table_fits_def)
  qed
  from select_ignores_indexes [OF s(1) this] s show ?thesis by blast
qed

text \<open>
  C9: A hash join returns the rows of a nested-loop join in the order of the left rows and, for
  each, of the right rows: every pair with equal values (NULL and missing included) in the join
  columns, merged under the renamed columns.
\<close>
theorem hash_join_is_nested_loop:
  assumes "deps_ok D" "get_schema s (jc_table jc) = Ok sch" "read_rows D s (jc_table jc) = Ok rrs"
    and "merge_right_columns (jc_table jc) (ts_columns sch) (js_columns js) (js_names js) [] =
      (merged, names, rn)"
  shows "join_step D s jc js = Ok (js\<lparr>js_rows :=
      [merge_row rn rr lr. lr \<leftarrow> js_rows js, rr \<leftarrow> rrs,
         row_get lr (left_lookup names jc) = row_get rr (jc_right_column jc)],
    js_columns := merged, js_names := names\<rparr>)"
  using assms by (simp add: join_step_def join_rows_nested)

theorem hash_join_is_nested_loop_witness:
  "\<exists>s. read_rows sample_deps s ''users'' = Ok [sample_data] \<and>
    (\<exists>js. join_step sample_deps s \<lparr>jc_table = ''users'', jc_left_table = None, jc_left_column = ''id'',
          jc_right_column = ''id''\<rparr> (join_start ''users'' sample_schema [sample_data]) = Ok js \<and>
      js_rows js = [fmupd ''users_name'' (VText ''ann'') (fmupd ''users_id'' (VInt 1) sample_data)])"
proof -
  obtain s sch where s: "get_schema s ''users'' = Ok sch" "ts_columns sch = ts_columns sample_schema"
    "read_rows sample_deps s ''users'' = Ok [sample_data]"
    by (rule sample_reads) (rule that)
  obtain merged names rn where m: "merge_right_columns ''users'' (ts_columns sch)
      (js_columns (join_start ''users'' sample_schema [sample_data]))
      (js_names (join_start ''users'' sample_schema [sample_data])) [] = (merged, names, rn)"
    by (metis prod_cases3)
  then have "rn = [(''id'', ''users_id''), (''name'', ''users_name'')]"
    by (simp add: s(2) sample_schema_def join_start_def right_column_name_def Let_def)
  then show ?thesis
    using hash_join_is_nested_loop [of sample_deps s "\<lparr>jc_table = ''users'', jc_left_table = None,
        jc_left_column = ''id'', jc_right_column = ''id''\<rparr>" sch "[sample_data]"
        "join_start ''users'' sample_schema [sample_data]" merged names rn] s m
    by (intro exI [of _ s]) (simp add: sample_deps_ok left_lookup_def merge_row_def join_start_def sample_data_def)
qed

text \<open>The groups under an injective serialisation: rows with equal values in the columns.\<close>

lemma map_res_map: "map_res f (map g xs) = map_res (\<lambda>x. f (g x)) xs"
  by (induction xs) (auto intro!: tryq_cong)

lemma group_rows_values:
  assumes "inj key"
  shows "group_rows key gb rows (map key k) = filter (\<lambda>r. map (row_get r) gb = k) rows"
proof -
  have "group_key key gb r = map key k \<longleftrightarrow> map (row_get r) gb = k" for r
    using inj_map_eq_map [OF assms, of "map (row_get r) gb" k] by (simp add: group_key_def comp_def)
  then show ?thesis by (simp add: group_rows_def)
qed

lemma first_keys_values:
  assumes "inj key"
  shows "first_keys (map (group_key key gb) rows) = map (map key) (first_keys (map (\<lambda>r. map (row_get r) gb) rows))"
proof -
  have "map (group_key key gb) rows = map (map key) (map (\<lambda>r. map (row_get r) gb) rows)"
    by (simp add: group_key_def comp_def)
  then show ?thesis using assms by (simp only: first_keys_inj [OF inj_mapI])
qed

text \<open>
  C11: a successful GROUP BY partitions the rows by their values in its columns: going through the
  distinct combinations of values in the order in which they first appear in the rows, it returns
  one row for each that HAVING keeps, computed from exactly the rows with these values (in their
  order, a plain column from the first of them), under the labels of the selected expressions; and
  HAVING has an answer for every group.
\<close>
theorem group_by_partitions:
  assumes "deps_ok D" and "compute_group_by (d_value_json D) exprs sch t rows gb having = Ok (cols, out)"
  shows "map_res group_out_column exprs = Ok cols \<and>
    (\<forall>k \<in> set (first_keys (map (\<lambda>r. map (row_get r) gb) rows)).
       let g = filter (\<lambda>r. map (row_get r) gb = k) rows in is_ok (group_having g (hd g) having)) \<and>
    map_res (\<lambda>k. let g = filter (\<lambda>r. map (row_get r) gb = k) rows
                 in map_res (group_out_value g (hd g)) exprs)
      (filter (\<lambda>k. let g = filter (\<lambda>r. map (row_get r) gb = k) rows in group_having g (hd g) having = Ok True)
        (first_keys (map (\<lambda>r. map (row_get r) gb) rows))) = Ok out"
proof -
  have inj: "inj (d_value_json D)" using assms(1) by simp
  from compute_group_by_groups [OF assms(2)] show ?thesis
    by (auto simp: first_keys_values [OF inj] group_rows_values [OF inj] map_res_map filter_map comp_def
        Let_def is_ok_iff)
qed

theorem group_by_partitions_witness:
  "\<exists>cols out. compute_group_by (d_value_json sample_deps) [Aggregate Count Star] sample_schema ''users''
      [sample_data, fmempty, sample_data] [''id''] None = Ok (cols, out) \<and> out = [[VInt 2], [VInt 1]]"
proof -
  let ?rows = "[sample_data, fmempty, sample_data]"
  obtain r where r: "compute_group_by (d_value_json sample_deps) [Aggregate Count Star] sample_schema ''users''
      ?rows [''id''] None = r" by blast
  have "is_ok r"
    by (simp add: r [symmetric] compute_group_by_def has_column_def sample_schema_def group_step_def group_key_def
        entry_push_def group_having_def Let_def sample_data_def)
  then obtain cols out where o: "r = Ok (cols, out)" by (auto simp: is_ok_iff)
  from group_by_partitions [OF sample_deps_ok r [unfolded o]]
  have "out = [[VInt 2], [VInt 1]]"
    by (simp add: sample_data_def group_having_def Let_def)
  with r o show ?thesis by blast
qed

text \<open>
  C12: ORDER BY over columns whose values are of one type (no NULL among them) sorts the rows:
  the sorted list holds the same rows, each in front of those that it may stand before (ASC smaller
  values first, DESC greater ones first, column by column), with rows of equal values in their old
  order; LIMIT and OFFSET then cut a window out of it.
\<close>
theorem order_by_sorts:
  assumes "\<And>r. r \<in> set rows \<Longrightarrow> length r = length cols" "one_type_keys cols ob rows"
  shows "\<exists>sorted. select_finish D ob lim off cols rows = Ok (Rows cols
      (take (case lim of None \<Rightarrow> 2 ^ 64 - 1 | Some n \<Rightarrow> n) (drop (case off of None \<Rightarrow> 0 | Some n \<Rightarrow> n) sorted))) \<and>
    mset sorted = mset rows \<and> sorted_wrt (in_order cols ob) sorted \<and>
    (\<forall>a \<in> set rows. filter (same_keys cols ob a) sorted = filter (same_keys cols ob a) rows)"
proof -
  let ?sorted = "insertion_sort (row_order (order_indices cols ob)) rows"
  note sortable = sortable_keys [OF assms]
  note p = row_order_preorder [OF sortable]
  have keys: "one_type_keys cols ob [a, b]" if "a \<in> set rows" "b \<in> set rows" for a b
    using assms(2) that unfolding one_type_keys_def by (metis empty_iff empty_set insert_iff list.simps(15))
  have rows: "(row_order (order_indices cols ob) a b \<noteq> Greater \<longleftrightarrow> in_order cols ob a b) \<and>
      (row_order (order_indices cols ob) a b = Equal \<longleftrightarrow> same_keys cols ob a b)"
    if "a \<in> set rows" "b \<in> set rows" for a b
    using that by (intro row_order_in_order assms(1) keys)
  have sym: "same_keys cols ob a b \<longleftrightarrow> same_keys cols ob b a" for a b by (auto simp: same_keys_def)
  have "sorted_wrt (in_order cols ob) ?sorted"
    using insertion_sort_sorted [OF p order_refl] rows by (auto elim!: sorted_wrt_mono_rel [rotated])
  moreover have "filter (same_keys cols ob a) ?sorted = filter (same_keys cols ob a) rows" if a: "a \<in> set rows" for a
  proof -
    have "filter (same_keys cols ob a) xs = filter (\<lambda>b. row_order (order_indices cols ob) b a = Equal) xs"
      if "set xs = set rows" for xs
      using rows [OF _ a] that by (intro filter_cong refl) (auto simp: sym)
    with insertion_sort_stable [OF p, of a] a show ?thesis by simp
  qed
  moreover have "select_finish D ob lim off cols rows = Ok (Rows cols
      (take (case lim of None \<Rightarrow> USIZE_MAX | Some n \<Rightarrow> n) (drop (case off of None \<Rightarrow> 0 | Some n \<Rightarrow> n) ?sorted)))"
    if "ob \<noteq> []"
    using that sort_by_sortable [OF sortable] by (simp add: select_finish_def)
  moreover have "?sorted = rows" if "ob = []"
  proof -
    have "insert_by (row_order []) x xs = x # xs" for x :: "value_t list" and xs by (cases xs) simp_all
    then have "insertion_sort (row_order []) xs = xs" for xs by (induction xs) simp_all
    with that show ?thesis by simp
  qed
  moreover have "select_finish D [] lim off cols rows = Ok (Rows cols
      (take (case lim of None \<Rightarrow> USIZE_MAX | Some n \<Rightarrow> n) (drop (case off of None \<Rightarrow> 0 | Some n \<Rightarrow> n) rows)))"
    by (simp add: select_finish_def)
  ultimately show ?thesis
    unfolding USIZE_MAX_def [symmetric] by (intro exI [of _ ?sorted] conjI ballI; cases "ob = []"; simp)
qed

theorem order_by_sorts_witness:
  "\<exists>sorted. select_finish sample_deps [\<lparr>ob_column = ''a'', ob_order = Desc\<rparr>] (Some 1) None [''a''] [[VInt 1], [VInt 2]] =
      Ok (Rows [''a''] (take 1 sorted)) \<and> mset sorted = {#[VInt 1], [VInt 2]#} \<and>
    sorted_wrt (in_order [''a''] [\<lparr>ob_column = ''a'', ob_order = Desc\<rparr>]) sorted"
proof -
  have rows: "length r = length [''a'']" if "r \<in> set [[VInt 1], [VInt 2]]" for r using that by auto
  have "one_type_keys [''a''] [\<lparr>ob_column = ''a'', ob_order = Desc\<rparr>] [[VInt 1], [VInt 2]]"
    by (simp add: one_type_keys_def cell_of_def)
  from order_by_sorts [OF rows this, of sample_deps "Some 1" None] show ?thesis by auto
qed

text \<open>
  Every row of an answer has one value per column, and the positions the sort looks at are
  within the row, so indexing a row while sorting cannot panic.
\<close>

lemma select_rows_have_all_columns:
  assumes "sort_ok D" "select D s t exprs joins f gb having ob lim off = Ok (Rows cols rows)"
  shows "list_all (\<lambda>r. length r = length cols) rows \<and>
    list_all (\<lambda>(i, asc). i < length cols) (order_indices cols ob)"
proof -
  obtain cols' rows' where *: "select_finish D ob lim off cols' rows' = Ok (Rows cols rows)"
    "\<And>r. r \<in> set rows' \<Longrightarrow> length r = length cols'" by (rule select_Ok [OF assms(2)]) (rule that)
  then obtain out where out: "cols = cols'" "out = rows' \<or> sort_by D (order_compare (order_indices cols' ob)) rows' = Ok out"
    "rows = take (case lim of None \<Rightarrow> USIZE_MAX | Some n \<Rightarrow> n) (drop (case off of None \<Rightarrow> 0 | Some n \<Rightarrow> n) out)"
    by (auto simp: select_finish_def res_simps split: if_splits)
  then have "mset out = mset rows'" using sort_by_mset [OF assms(1)] by blast
  then have "set out = set rows'" by (rule mset_eq_setD)
  moreover have "set rows \<subseteq> set out" unfolding out(3) by (auto dest!: in_set_takeD in_set_dropD)
  ultimately show ?thesis using *(2) out(1) by (auto simp: list_all_iff dest: order_indices_less)
qed

text \<open>The comparator is not transitive once a NULL is among the values.\<close>

lemma order_compare_null_not_transitive:
  "\<not> total_order (order_compare [(0, True)]) [[VInt 2], [VNull], [VInt 1]]"
  by (simp add: total_order_def total_preorder_def ordering_of_def value_at_def)

end
