(* ===== verification/No_Panic.thy ===== *)
theory No_Panic
  imports Engine Constraints_Correct Query_Correct
begin

text \<open>
  Where the engine can unwind: nowhere but in the sort of an ORDER BY. Every operation of the
  storage and every handler ends with a value or an error value, on any state, well-formed or not;
  a query unwinds only where \<open>sort_by\<close> of the standard library does, on rows that its comparator
  does not order. The rules for sequencing live in \<open>no_panic_intros\<close> and, for a bound on the
  messages of a panic, in \<open>panic_intros\<close>; each operation needs one line.
\<close>

section \<open>Rules\<close>

definition op_no_panic :: "('s, 'e, 'a) op \<Rightarrow> bool" where
  "op_no_panic m \<longleftrightarrow> (\<forall>s. no_panic (fst (m s)))"

lemma op_no_panicI: "(\<And>s. no_panic (fst (m s))) \<Longrightarrow> op_no_panic m"
  by (simp add: op_no_panic_def)

lemma op_no_panicD: "op_no_panic m \<Longrightarrow> no_panic (fst (m s))"
  by (simp add: op_no_panic_def)

lemma op_no_panic_prim [simp]:
  "op_no_panic (op_ret x)" "op_no_panic (op_err e)" "op_no_panic (op_mod g)"
  "op_no_panic (op_lift r) = no_panic r" "op_no_panic (op_read f) = (\<forall>s. no_panic (f s))"
  by (simp_all add: op_no_panic_def op_defs)

lemma op_no_panic_bind [no_panic_intros]:
  assumes "op_no_panic m" "\<And>x. op_no_panic (f x)"
  shows "op_no_panic (op_bind m f)"
proof (rule op_no_panicI)
  fix s
  obtain r s' where r: "m s = (r, s')" by fastforce
  with op_no_panicD [OF assms(1), of s] op_no_panicD [OF assms(2), of _ s']
  show "no_panic (fst (op_bind m f s))" by (cases r) (simp_all add: op_bind_def)
qed

lemma op_no_panic_seq [no_panic_intros]:
  "op_no_panic m \<Longrightarrow> op_no_panic n \<Longrightarrow> op_no_panic (op_seq m n)"
  by (simp add: op_seq_def op_no_panic_bind)

lemma op_no_panic_each [no_panic_intros]:
  "(\<And>x. x \<in> set xs \<Longrightarrow> op_no_panic (f x)) \<Longrightarrow> op_no_panic (op_each f xs)"
  by (induction xs) (auto intro: no_panic_intros)

lemma op_no_panic_state: "(\<And>s. op_no_panic (m s)) \<Longrightarrow> op_no_panic (\<lambda>s. m s s)"
  by (simp add: op_no_panic_def)

lemma op_no_panic_each_state [no_panic_intros]:
  "(\<And>x. op_no_panic (f x)) \<Longrightarrow> op_no_panic (\<lambda>s. op_each f (xs s) s)"
  by (rule op_no_panic_state) (rule op_no_panic_each)

lemma op_no_panic_if [no_panic_intros]:
  "(b \<Longrightarrow> op_no_panic m) \<Longrightarrow> (\<not> b \<Longrightarrow> op_no_panic n) \<Longrightarrow> op_no_panic (if b then m else n)"
  by simp

lemma op_no_panic_option [no_panic_intros]:
  "op_no_panic m \<Longrightarrow> (\<And>x. op_no_panic (f x)) \<Longrightarrow> op_no_panic (case z of None \<Rightarrow> m | Some x \<Rightarrow> f x)"
  by (simp split: option.splits)

lemma no_panic_if [no_panic_intros]:
  "(b \<Longrightarrow> no_panic r) \<Longrightarrow> (\<not> b \<Longrightarrow> no_panic q) \<Longrightarrow> no_panic (if b then r else q)"
  by simp

text \<open>A run that unwinds with a message of \<open>P\<close> at most.\<close>

definition panics_within :: "(string \<Rightarrow> bool) \<Rightarrow> ('e, 'a) res \<Rightarrow> bool" where
  "panics_within P r \<longleftrightarrow> (\<forall>p. r = Panic p \<longrightarrow> P p)"

definition op_panics_within :: "(string \<Rightarrow> bool) \<Rightarrow> ('s, 'e, 'a) op \<Rightarrow> bool" where
  "op_panics_within P m \<longleftrightarrow> (\<forall>s. panics_within P (fst (m s)))"

named_theorems panic_intros \<open>introduction rules for runs whose panics are bounded\<close>

lemma panics_within_simps [simp]:
  "panics_within P (Ok x)" "panics_within P (Err e)" "panics_within P (Panic p) = P p"
  by (simp_all add: panics_within_def)

lemma no_panic_within [simp]: "no_panic r \<Longrightarrow> panics_within P r"
  by (simp add: panics_within_def no_panic_def)

lemma op_no_panic_within [simp]: "op_no_panic m \<Longrightarrow> op_panics_within P m"
  by (simp add: op_panics_within_def op_no_panic_def)

lemma panics_within_mono: "panics_within P r \<Longrightarrow> (\<And>p. P p \<Longrightarrow> Q p) \<Longrightarrow> panics_within Q r"
  by (simp add: panics_within_def)

lemma panics_within_tryq [panic_intros]:
  "panics_within P r \<Longrightarrow> (\<And>x. r = Ok x \<Longrightarrow> panics_within P (f x)) \<Longrightarrow> panics_within P (tryq r f)"
  by (cases r) simp_all

lemma op_panics_withinD: "op_panics_within P m \<Longrightarrow> panics_within P (fst (m s))"
  by (simp add: op_panics_within_def)

lemma op_panics_within_read [simp]: "op_panics_within P (op_read f) \<longleftrightarrow> (\<forall>s. panics_within P (f s))"
  by (simp add: op_panics_within_def op_defs)

lemma op_panics_within_bind [panic_intros]:
  assumes "op_panics_within P m" "\<And>x. op_panics_within P (f x)"
  shows "op_panics_within P (op_bind m f)"
  unfolding op_panics_within_def
proof
  fix s
  obtain r s' where r: "m s = (r, s')" by fastforce
  with op_panics_withinD [OF assms(1), of s] op_panics_withinD [OF assms(2), of _ s']
  show "panics_within P (fst (op_bind m f s))" by (cases r) (simp_all add: op_bind_def)
qed

section \<open>Encryption and files\<close>

lemma encrypt_no_panic [simp]: "op_no_panic (encrypt_to_base64 D key p)"
  by (auto simp: op_no_panic_def encrypt_to_base64_def Let_def split: option.splits)

lemma decrypt_no_panic [simp]: "no_panic (decrypt_from_base64 D key p)"
  by (auto simp: decrypt_from_base64_def split: option.splits)

lemma row_codec_no_panic [simp]: "op_no_panic (encode_row D key r)" "no_panic (decode_row D key l)"
  by (auto simp: encode_row_def decode_row_def intro!: no_panic_intros)

lemma with_rng_no_panic [no_panic_intros]: "op_no_panic m \<Longrightarrow> op_no_panic (with_rng m)"
  by (auto simp: op_no_panic_def with_rng_def split: prod.splits) (metis fst_conv)

lemma with_rng_state_no_panic [no_panic_intros]:
  "(\<And>s. op_no_panic (m s)) \<Longrightarrow> op_no_panic (\<lambda>s. with_rng (m s) s)"
  by (rule op_no_panic_state) (rule with_rng_no_panic)

lemma load_no_panic [simp]: "no_panic (load_encrypted_json D key files path u d)"
  by (auto simp: load_encrypted_json_def intro!: no_panic_intros split: option.splits)

lemma save_no_panic [simp]: "op_no_panic (save_encrypted_json D path p)"
  unfolding save_encrypted_json_def by (intro no_panic_intros) simp_all

lemma saves_no_panic [simp]:
  "op_no_panic (save_catalog D)" "op_no_panic (save_migrations D)" "op_no_panic (save_index_catalog D)"
  unfolding save_catalog_def save_migrations_def save_index_catalog_def
  by (rule op_no_panic_state, rule save_no_panic)+

lemma scan_lines_no_panic: "(\<And>l. no_panic (decode l)) \<Longrightarrow> no_panic (scan_lines decode off ls)"
  by (induction decode off ls rule: scan_lines.induct) (auto simp: Let_def intro!: no_panic_intros)

lemma read_at_no_panic: "(\<And>l. no_panic (decode l)) \<Longrightarrow> no_panic (read_at decode content ls)"
  by (induction decode content ls rule: read_at.induct) (auto simp: Let_def intro!: no_panic_intros)

lemma reads_no_panic [simp]:
  "no_panic (get_schema s t)" "no_panic (read_stored_rows_located D s t)" "no_panic (read_stored_rows D s t)"
  "no_panic (read_rows D s t)" "no_panic (read_rows_at D s t ls)"
proof -
  show l: "no_panic (read_stored_rows_located D s t)"
    by (auto simp: read_stored_rows_located_def scan_file_def intro!: scan_lines_no_panic split: option.splits)
  show r: "no_panic (read_stored_rows D s t)"
    using l by (auto simp: read_stored_rows_def intro!: no_panic_intros)
  show "no_panic (read_rows D s t)" using r by (auto simp: read_rows_def intro!: no_panic_intros)
  show "no_panic (read_rows_at D s t ls)"
    by (auto simp: read_rows_at_def intro!: read_at_no_panic split: option.splits)
  show "no_panic (get_schema s t)" by (simp add: get_schema_def)
qed

lemma read_rows_filtered_no_panic [simp]: "no_panic (read_rows_filtered D s t ls)"
proof (cases ls)
  case (Some wanted)
  have "no_panic (read_rows_at D s t wanted)" by simp
  then show ?thesis
    by (cases "read_rows_at D s t wanted")
      (auto simp: read_rows_filtered_def Some Let_def intro!: no_panic_intros)
qed (simp add: read_rows_filtered_def)

section \<open>Storage\<close>

lemma rebuild_no_panic [simp]:
  "op_no_panic (rebuild_index D n)" "op_no_panic (rebuild_index_unit D n)"
  "op_no_panic (rebuild_indexes_for_table D t)" "op_no_panic (rebuild_all_indexes D)"
proof -
  show r: "op_no_panic (rebuild_index D n)" for n
    unfolding rebuild_index_def Let_def by (intro no_panic_intros) simp_all
  show u: "op_no_panic (rebuild_index_unit D n)" for n
    unfolding rebuild_index_unit_def by (intro no_panic_intros r) simp
  show "op_no_panic (rebuild_indexes_for_table D t)"
    unfolding rebuild_indexes_for_table_def by (intro no_panic_intros u)
  show "op_no_panic (rebuild_all_indexes D)"
    unfolding rebuild_all_indexes_def by (intro no_panic_intros u) simp
qed

lemma load_index_no_panic [simp]: "no_panic (load_index_map_from_disk D s n)"
proof -
  obtain r where r: "load_encrypted_json D (st_key s) (dk_files s) (index_path n) (d_index_map_unjson D) fmempty = r"
    by blast
  then have "no_panic r" using load_no_panic [of D "st_key s" "dk_files s" "index_path n" "d_index_map_unjson D" fmempty]
    by simp
  then show ?thesis
    unfolding load_index_map_from_disk_def r by (cases r) (auto split: flux_error.splits)
qed

lemma index_files_no_panic [simp]: "op_no_panic (load_all_index_maps D)" "op_no_panic (flush_indexes D)"
proof -
  show "op_no_panic (load_all_index_maps D)"
    unfolding load_all_index_maps_def by (intro no_panic_intros) simp_all
  have step: "op_no_panic (\<lambda>s. case fmlookup (st_index_maps s) name of
      Some m \<Rightarrow> save_encrypted_json D (index_path name) (d_index_map_json D m) s | None \<Rightarrow> (Ok (), s))" for name
    by (rule op_no_panicI) (auto split: option.splits intro: op_no_panicD [OF save_no_panic])
  show "op_no_panic (flush_indexes D)"
    unfolding flush_indexes_def by (rule op_no_panic_state) (intro no_panic_intros step, simp_all)
qed

lemma record_migration_no_panic [simp]: "op_no_panic (record_migration D t o' d)"
  by (rule op_no_panicI)
    (auto simp: record_migration_def Let_def split: option.splits intro: op_no_panicD [OF saves_no_panic(2)])

lemma allocate_no_panic [simp]: "op_no_panic (allocate_row_id D t)"
proof (rule op_no_panicI)
  fix s
  have f: "op_no_panic (op_bind (op_read (\<lambda>s. get_schema s t)) (\<lambda>schema.
       let start = ts_next_row_id schema in
       op_seq (op_mod (\<lambda>s. s\<lparr>st_catalog :=
           fmupd t (schema\<lparr>ts_next_row_id := start + ROW_ID_BATCH\<rparr>) (st_catalog s)\<rparr>))
      (op_seq (save_catalog D)
      (op_seq (op_mod (\<lambda>s. s\<lparr>st_cursors :=
           fmupd t (start + 1, start + ROW_ID_BATCH) (st_cursors s)\<rparr>))
      (op_ret start)))))"
    unfolding Let_def by (intro no_panic_intros) simp_all
  show "no_panic (fst (allocate_row_id D t s))"
    using op_no_panicD [OF f, of s]
    by (auto simp: allocate_row_id_def Let_def split: option.splits prod.splits)
qed

lemma append_row_no_panic [simp]: "op_no_panic (append_row D t r)"
  unfolding append_row_def Let_def by (intro no_panic_intros) simp_all

lemma unique_value_exists_no_panic [simp]: "op_no_panic (unique_value_exists D t c v)"
  by (rule op_no_panicI)
    (auto simp: unique_value_exists_def Let_def op_bind_prim op_apply split: option.splits res.splits
      dest: arg_cong [of _ _ no_panic])

lemma rewrite_lines_no_panic:
  assumes e: "\<And>r. op_no_panic (encode r)" and d: "\<And>l. no_panic (decode l)" and m: "\<And>d. op_no_panic (mapper d)"
  shows "op_no_panic (rewrite_lines encode decode mapper ls)"
proof (induction ls)
  case (Cons l ls)
  have "op_no_panic (\<lambda>w.
        (if \<not> utf8_valid l then (Err Io, w)
         else if trim (chomp l) = [] then (Ok (), w)
         else (case decode (chomp l) of
             Err e \<Rightarrow> (Err e, w) | Panic p \<Rightarrow> (Panic p, w)
           | Ok stored \<Rightarrow>
              (case mapper (sr_data stored) (rw_counter w) of
                 (Err e, c) \<Rightarrow> (Err e, w\<lparr>rw_counter := c\<rparr>)
               | (Panic p, c) \<Rightarrow> (Panic p, w\<lparr>rw_counter := c\<rparr>)
               | (Ok None, c) \<Rightarrow> (Ok (), w\<lparr>rw_counter := c, rw_affected := rw_affected w + 1\<rparr>)
               | (Ok (Some data), c) \<Rightarrow>
                   (case encode \<lparr>sr_id = sr_id stored, sr_data = data\<rparr> (rw_rng w) of
                      (Ok l, g) \<Rightarrow> (Ok (), w\<lparr>rw_counter := c, rw_rng := g,
                                              rw_output := rw_output w @ l @ [NL]\<rparr>)
                    | (Err e, g) \<Rightarrow> (Err e, w\<lparr>rw_counter := c, rw_rng := g\<rparr>)
                    | (Panic p, g) \<Rightarrow> (Panic p, w\<lparr>rw_counter := c, rw_rng := g\<rparr>))))))" (is "op_no_panic ?step")
  proof (rule op_no_panicI)
    fix w
    have "decode (chomp l) \<noteq> Panic p" for p using d [of "chomp l"] by auto
    moreover have "mapper x c \<noteq> (Panic p, c')" for x c p c'
      using op_no_panicD [OF m, of x c] by auto
    moreover have "encode x g \<noteq> (Panic p, g')" for x g p g'
      using op_no_panicD [OF e, of x g] by auto
    ultimately show "no_panic (fst (?step w))"
      by (simp split: res.splits prod.splits option.splits)
  qed
  from op_no_panic_seq [OF this Cons] show ?case by (simp only: rewrite_lines.simps)
qed simp

lemma rewrite_rows_no_panic [no_panic_intros]:
  assumes "\<And>d. op_no_panic (mapper d)"
  shows "op_no_panic (rewrite_rows D t mapper)"
proof -
  have "op_no_panic (rewrite_copy D t mapper input)" for input
  proof (rule op_no_panicI)
    fix s :: storage
    have l: "op_no_panic (rewrite_lines (encode_row D (st_key s)) (decode_row D (st_key s)) mapper ls)" for ls
      by (intro rewrite_lines_no_panic assms) simp_all
    show "no_panic (fst (rewrite_copy D t mapper input s))"
    proof -
      obtain r w where r: "rewrite_lines (encode_row D (st_key s)) (decode_row D (st_key s)) mapper
          (case input of None \<Rightarrow> [] | Some content \<Rightarrow> split_lines content)
          \<lparr>rw_output = [], rw_affected = 0, rw_counter = 0, rw_rng = dk_rng s\<rparr> = (r, w)" by fastforce
      then have "no_panic r" using op_no_panicD [OF l] by (metis fst_conv)
      then show ?thesis
        unfolding rewrite_copy_def r by (auto intro!: no_panic_intros)
    qed
  qed
  then show ?thesis unfolding rewrite_rows_def by (intro no_panic_intros) simp_all
qed

lemma encode_rows_no_panic: "(\<And>r. op_no_panic (encode r)) \<Longrightarrow> op_no_panic (encode_rows encode rs)"
  by (induction rs) (auto intro!: no_panic_intros)

lemma write_stored_rows_no_panic [simp]: "op_no_panic (write_stored_rows D t rs)"
  unfolding write_stored_rows_def
  by (intro no_panic_intros encode_rows_no_panic) simp_all

lemma forget_no_panic [simp]: "op_no_panic (op_each (\<lambda>n. op_mod (forget_index n)) ns)"
  by (intro no_panic_intros) simp

lemma schema_changes_no_panic [simp]:
  "op_no_panic (storage_create_table D sch)" "op_no_panic (storage_drop_table D t)"
  "op_no_panic (storage_create_index D n t c)" "op_no_panic (storage_drop_index D n)"
  "op_no_panic (add_column D t col v)" "op_no_panic (drop_column D t c)" "op_no_panic (rename_column D t a b)"
proof -
  show "op_no_panic (storage_create_table D sch)"
    unfolding storage_create_table_def
    by (rule op_no_panicI, simp, intro impI op_no_panicD no_panic_intros) simp_all
  show "op_no_panic (storage_drop_table D t)"
    unfolding storage_drop_table_def
    by (rule op_no_panicI, simp, intro impI op_no_panicD no_panic_intros) simp_all
  show "op_no_panic (storage_create_index D n t c)"
  proof -
    have "op_no_panic (op_seq (save_index_catalog D)
       (op_bind (rebuild_index D n) (\<lambda>keys. op_seq (record_migration D t x y) (op_ret keys))))" for x y
      by (intro no_panic_intros) simp_all
    then show ?thesis
      unfolding storage_create_index_def
      by (intro no_panic_intros op_no_panicI) (auto intro: op_no_panicD)
  qed
  show "op_no_panic (storage_drop_index D n)"
    unfolding storage_drop_index_def by (intro no_panic_intros) simp_all
  show "op_no_panic (add_column D t col v)"
    unfolding add_column_def by (intro no_panic_intros) simp_all
  show "op_no_panic (drop_column D t c)"
    unfolding drop_column_def by (intro no_panic_intros) simp_all
  show "op_no_panic (rename_column D t a b)"
    unfolding rename_column_def by (intro no_panic_intros) simp_all
qed

lemma transactions_no_panic [simp]:
  "op_no_panic (begin_transaction D)" "op_no_panic commit_transaction" "op_no_panic (rollback_transaction D)"
proof -
  show "op_no_panic (begin_transaction D)"
    unfolding begin_transaction_def
    by (rule op_no_panicI, simp, intro impI op_no_panicD no_panic_intros) simp_all
  show "op_no_panic commit_transaction"
    unfolding commit_transaction_def by (rule op_no_panicI) simp
  show "op_no_panic (rollback_transaction D)"
  proof (rule op_no_panicI)
    fix s :: storage
    show "no_panic (fst (rollback_transaction D s))"
      unfolding rollback_transaction_def Let_def
      by (cases "st_txn s"; cases "dk_snapshot s"; simp only: if_True if_False not_True_eq_False
          not_False_eq_True option.case fst_conv no_panic_simps)
        (intro op_no_panicD no_panic_intros; simp)
  qed
qed

section \<open>Queries\<close>

lemma coerce_no_panic [simp]: "no_panic (coerce_value c t v)"
  using coerce_cases [of c t v] by auto

lemma prepare_filter_no_panic [simp]: "no_panic (prepare_filter sch t f)"
  by (induction f rule: filter_induct)
    (auto intro!: no_panic_intros split: option.splits value_splits)

lemma prepare_opt_no_panic [simp]: "no_panic (prepare_opt sch t f)"
  by (auto simp: prepare_opt_def intro!: no_panic_intros split: option.splits)

lemma candidate_no_panic [simp]: "no_panic (find_best_index_candidate (find_indexed_locators D s) t f)"
proof -
  have "no_panic (find_indexed_locators D s t c v)" for c v
    by (auto simp: find_indexed_locators_def split: option.splits)
  then have "no_panic (best_candidate_loop (find_indexed_locators D s) t cs best)" for cs best
    by (induction "find_indexed_locators D s" t cs best rule: best_candidate_loop.induct)
      (auto intro!: no_panic_intros split: option.splits)
  then show ?thesis by (auto simp: find_best_index_candidate_def split: option.splits)
qed

lemma select_source_no_panic [simp]: "no_panic (select_source D s t sch joins f)"
  by (auto simp: select_source_def join_step_def Let_def intro!: no_panic_intros split: prod.splits)

lemma aggregate_loop_no_panic: "no_panic (execute_aggregate_loop sch t rows exprs names vals)"
  by (induction sch t rows exprs names vals rule: execute_aggregate_loop.induct)
    (auto intro!: no_panic_intros split: aggregate_target.splits)

lemma select_output_no_panic [simp]: "no_panic (select_output D t exprs gb having rows sch)"
proof -
  have "no_panic (resolve_select_columns sch t exprs acc)" for acc
    by (induction sch t exprs acc rule: resolve_select_columns.induct) (auto intro!: no_panic_intros)
  then show ?thesis
    by (auto simp: select_output_def execute_aggregate_def compute_group_by_no_panic
        aggregate_loop_no_panic intro!: no_panic_intros)
qed

lemma subquery_list_no_panic [simp]: "no_panic (subquery_list c n qr)"
  by (auto simp: subquery_list_def split: query_result.splits)

text \<open>
  The one way to unwind: an ORDER BY over full rows, of which some sort column holds a NULL or
  values of several types, on which the sort of the library unwinds.
\<close>

definition sort_panic :: "deps \<Rightarrow> string \<Rightarrow> bool" where
  "sort_panic D p \<longleftrightarrow> (\<exists>cols ob rows. (\<forall>r \<in> set rows. length r = length cols) \<and> \<not> one_type_keys cols ob rows \<and>
     d_sort D (order_compare (order_indices cols ob)) rows = Inl p)"

text \<open>The statements with an ORDER BY, in themselves or in a subquery.\<close>

fun filter_sorts :: "filter_expr \<Rightarrow> bool" and sorts :: "statement \<Rightarrow> bool" where
  "filter_sorts (InSubquery c q negated) \<longleftrightarrow> sorts q"
| "filter_sorts (FAnd l r) \<longleftrightarrow> filter_sorts l \<or> filter_sorts r"
| "filter_sorts (FOr l r) \<longleftrightarrow> filter_sorts l \<or> filter_sorts r"
| "filter_sorts f \<longleftrightarrow> False"
| "sorts (Select t exprs joins f group_by having order_by limit offset) \<longleftrightarrow>
     order_by \<noteq> [] \<or> (case f of None \<Rightarrow> False | Some g \<Rightarrow> filter_sorts g)"
| "sorts (Update t assignments f) \<longleftrightarrow> (case f of None \<Rightarrow> False | Some g \<Rightarrow> filter_sorts g)"
| "sorts (Delete t f) \<longleftrightarrow> (case f of None \<Rightarrow> False | Some g \<Rightarrow> filter_sorts g)"
| "sorts st \<longleftrightarrow> False"

lemma select_finish_panics:
  assumes "\<And>r. r \<in> set rows \<Longrightarrow> length r = length cols"
  shows "panics_within (\<lambda>p. ob \<noteq> [] \<and> sort_panic D p) (select_finish D ob lim off cols rows)"
  unfolding panics_within_def
proof (intro allI impI)
  fix p assume run: "select_finish D ob lim off cols rows = Panic p"
  then have ob: "ob \<noteq> []" and sort: "sort_by D (order_compare (order_indices cols ob)) rows = Panic p"
    by (cases "ob = []"; cases "sort_by D (order_compare (order_indices cols ob)) rows"; simp add: select_finish_def)+
  then have "\<not> sortable (order_indices cols ob) rows" using sort_by_sortable by force
  with sortable_keys [OF assms] have "\<not> one_type_keys cols ob rows" by blast
  moreover have "d_sort D (order_compare (order_indices cols ob)) rows = Inl p"
    using sort by (simp add: sort_by_def split: if_splits sum.splits)
  ultimately show "ob \<noteq> [] \<and> sort_panic D p" unfolding sort_panic_def using ob assms by blast
qed

lemma select_resolved_panics:
  "panics_within (\<lambda>p. ob \<noteq> [] \<and> sort_panic D p) (select_resolved D s t sch exprs joins f gb having ob lim off)"
  unfolding select_resolved_def
  by (intro panic_intros; simp split: prod.splits; intro allI impI panic_intros; simp split: prod.splits;
      intro allI impI select_finish_panics; rule select_output_length; simp)

lemma resolve_subqueries_panics: "panics_within (\<lambda>p. filter_sorts f \<and> sort_panic D p) (resolve_subqueries D s f)"
proof (induction D s f rule: resolve_subqueries.induct)
  case (1 D s c t exprs joins f group_by having order_by limit offset negated)
  show ?case
    by (auto intro!: panic_intros intro: panics_within_mono [OF select_resolved_panics] panics_within_mono [OF 1]
        split: option.splits)
qed (auto intro!: panic_intros intro: panics_within_mono)

lemma resolve_opt_panics:
  "panics_within (\<lambda>p. (case f of None \<Rightarrow> False | Some g \<Rightarrow> filter_sorts g) \<and> sort_panic D p) (resolve_opt D s f)"
  by (auto simp: resolve_opt_def intro!: panic_intros resolve_subqueries_panics split: option.splits)

lemma select_panics:
  "panics_within (\<lambda>p. sorts (Select t exprs joins f gb having ob lim off) \<and> sort_panic D p)
     (select D s t exprs joins f gb having ob lim off)"
  unfolding select_def
  by (intro panic_intros panics_within_mono [OF resolve_opt_panics] panics_within_mono [OF select_resolved_panics])
    auto

section \<open>Handlers\<close>

lemma create_columns_no_panic [simp]: "no_panic (create_columns seen n out cols)"
  by (induction seen n out cols rule: create_columns.induct) (auto simp: Let_def)

lemma check_references_no_panic [simp]: "no_panic (check_references s t cols)"
  by (auto simp: check_references_def check_reference_def intro!: no_panic_intros
      split: constraint_t.splits option.splits)

lemma unique_columns_no_panic [simp]: "no_panic (unique_columns r cols out)"
  using unique_columns_cases [of cols r out] by auto

lemma unique_scan_no_panic [simp]: "no_panic (unique_scan key c val seen rows)"
  by (induction key c val seen rows rule: unique_scan.induct) (auto split: option.splits)

lemma checks_no_panic [simp]:
  "op_no_panic (check_constraints_for_insert D t sch r)" "no_panic (check_foreign_keys_row D s t sch r)"
  "no_panic (check_assigned_keys D s t sch as)" "no_panic (check_unique_constraints_for_update D s t sch as f)"
  "no_panic (referencing_columns s t)" "no_panic (check_referencing_children_on_update D s t as f)"
  "no_panic (check_referencing_children_on_delete D s t f)" "no_panic (prepare_assignments sch t as)"
proof -
  show "op_no_panic (check_constraints_for_insert D t sch r)"
    unfolding check_constraints_for_insert_def
    by (intro no_panic_intros) (auto split: prod.splits intro!: no_panic_intros)
  have fk: "no_panic (check_foreign_key D s t c v con)" for c v con
    by (auto simp: check_foreign_key_def intro!: no_panic_intros split: constraint_t.splits)
  show "no_panic (check_foreign_keys_row D s t sch r)" "no_panic (check_assigned_keys D s t sch as)"
    unfolding check_foreign_keys_row_def check_assigned_keys_def
    by (auto intro!: no_panic_intros fk split: option.splits)
  show "no_panic (check_unique_constraints_for_update D s t sch as f)"
    by (auto simp: check_unique_constraints_for_update_def Let_def intro!: no_panic_intros)
  show r: "no_panic (referencing_columns s t)"
    unfolding referencing_columns_def by (auto intro!: no_panic_intros)
  show "no_panic (check_referencing_children_on_update D s t as f)"
    "no_panic (check_referencing_children_on_delete D s t f)"
    unfolding check_referencing_children_on_update_def check_referencing_children_on_delete_def
    using r by (auto intro!: no_panic_intros split: option.splits)
  have "no_panic (prepare_assignments_loop sch t seen out as)" for seen out
    by (induction as arbitrary: seen out) (auto intro!: no_panic_intros)
  then show "no_panic (prepare_assignments sch t as)" by (simp add: prepare_assignments_def)
qed

lemma check_assigned_nulls_no_panic [simp]: "no_panic (check_assigned_nulls sch as)"
  by (auto simp: check_assigned_nulls_def intro!: no_panic_intros split: option.splits)

lemma mappers_no_panic [simp]: "op_no_panic (update_mapper sch as f r)" "op_no_panic (delete_mapper f r)"
proof -
  have "check_assigned_nulls sch as \<noteq> Panic p" for p
    by (metis check_assigned_nulls_no_panic no_panic_simps(3))
  then show "op_no_panic (update_mapper sch as f r)"
    by (auto simp: op_no_panic_def update_mapper_def split: res.splits)
  show "op_no_panic (delete_mapper f r)" by (auto simp: op_no_panic_def delete_mapper_def)
qed

lemma handlers_no_panic [simp]:
  "op_no_panic (create_table D t cols)" "op_no_panic (drop_table D t)" "op_no_panic (create_index D n t c)"
  "op_no_panic (drop_index D n)" "op_no_panic (alter_table_add_column D t cd dv)"
  "op_no_panic (alter_table_drop_column D t c)" "op_no_panic (alter_table_rename_column D t a b)"
  "op_no_panic (insert_row D t ns vs)" "no_panic (describe s t)"
proof -
  show "op_no_panic (create_table D t cols)" "op_no_panic (create_index D n t c)" "op_no_panic (drop_index D n)"
    "op_no_panic (alter_table_add_column D t cd dv)" "op_no_panic (alter_table_drop_column D t c)"
    "op_no_panic (alter_table_rename_column D t a b)"
    unfolding create_table_def create_index_def drop_index_def alter_table_add_column_def
      alter_table_drop_column_def alter_table_rename_column_def
    by (intro no_panic_intros; simp)+
  show "op_no_panic (drop_table D t)"
    unfolding drop_table_def
    by (intro no_panic_intros) (auto split: option.splits prod.splits intro!: no_panic_intros)
  show "op_no_panic (insert_row D t ns vs)"
    unfolding insert_row_def by (intro no_panic_intros; simp add: build_row_no_panic)
  show "no_panic (describe s t)" by (auto simp: describe_def intro!: no_panic_intros)
qed

lemma update_panics: "op_panics_within (\<lambda>p. sorts (Update t as f) \<and> sort_panic D p) (update_rows D t as f)"
  unfolding update_rows_def using resolve_opt_panics [of f D]
  by (intro panic_intros; simp add: rewrite_rows_no_panic split: prod.splits)

lemma delete_panics: "op_panics_within (\<lambda>p. sorts (Delete t f) \<and> sort_panic D p) (delete_rows D t f)"
  unfolding delete_rows_def using resolve_opt_panics [of f D]
  by (intro panic_intros; simp add: rewrite_rows_no_panic split: prod.splits)

lemma unchecked_panics: "op_panics_within (\<lambda>p. sorts st \<and> sort_panic D p) (execute_statement_unchecked D st)"
proof -
  have tx: "op_no_panic (execute_statement_unchecked D st)" if "st \<in> {Begin, Commit, Rollback}"
    using that by (auto intro!: no_panic_intros)
  show ?thesis
    using update_panics delete_panics select_panics tx by (cases st) simp_all
qed

lemma audit_no_panic [simp]: "op_no_panic (audit_log D a ok m)"
  by (auto simp: op_no_panic_def audit_log_def Let_def split: option.splits)

lemma execute_panics: "op_panics_within (\<lambda>p. sorts st \<and> sort_panic D p) (execute_statement D st)"
  unfolding op_panics_within_def
proof
  fix e
  obtain r e1 where r: "on_storage (execute_statement_unchecked D st) e = (r, e1)" by fastforce
  then have "panics_within (\<lambda>p. sorts st \<and> sort_panic D p) r"
    using op_panics_withinD [OF unchecked_panics, of st D "en_storage e"]
    by (auto simp: on_storage_def split: prod.splits)
  moreover have a: "no_panic (fst (op_seq (audit_log D a ok m) (op_ret x) e'))"
    "no_panic (fst (op_seq (audit_log D a ok m) (op_err err :: query_result engine_op) e'))" for a ok m err e' and x :: query_result
    by (rule op_no_panicD, intro no_panic_intros; simp)+
  ultimately show "panics_within (\<lambda>p. sorts st \<and> sort_panic D p) (fst (execute_statement D st e))"
    by (cases r) (simp_all add: execute_statement_def r Let_def del: show_error.simps)
qed

end
