(* ===== verification/Engine_Data.thy ===== *)
theory Engine_Data
  imports No_Panic
begin

text \<open>
  What INSERT, UPDATE and DELETE do to the abstract database: either the statement succeeds and
  exactly the rows it names are added, replaced or removed, or it fails and every table is as it
  was. On success the integrity of the database is kept.
\<close>

section \<open>Quiet steps and reads\<close>

lemma quiet_read_rows:
  assumes "storage_inv D s" "quiet D s s'"
  shows "read_rows D s' t = read_rows D s t"
  using quiet_db_of [OF assms(2)] assms(1) quietD(1) [OF assms(2)]
  by (simp add: read_rows_cases)

lemma check_foreign_keys_row_quiet:
  assumes "storage_inv D s" "quiet D s s'"
  shows "check_foreign_keys_row D s' t sch r = check_foreign_keys_row D s t sch r"
proof -
  have "check_foreign_key D s' = check_foreign_key D s"
    unfolding fun_eq_iff check_foreign_key_def quiet_read_rows [OF assms] by simp
  then show ?thesis by (simp add: check_foreign_keys_row_def)
qed

lemma storage_inv_distinct:
  "storage_inv D s \<Longrightarrow> fmlookup (st_catalog s) t = Some sch \<Longrightarrow> distinct (map cs_name (ts_columns sch))"
  by (auto simp: schema_ok_def dest: storage_inv_schema)

section \<open>INSERT\<close>

definition insert_allowed :: "deps \<Rightarrow> storage \<Rightarrow> string \<Rightarrow> table_schema \<Rightarrow> row \<Rightarrow> bool" where
  "insert_allowed D s t sch row \<longleftrightarrow> insertable (ts_columns sch) (rows_of D s t) row \<and>
     check_foreign_keys_row D s t sch row = Ok ()"

lemma insert_row_cases:
  assumes inv: "storage_inv D s"
  obtains
    (inserted) sch row s' where "fmlookup (st_catalog s) t = Some sch" "build_row sch t columns vals = Ok row"
      "insert_allowed D s t sch row" "insert_row D t columns vals s = (Ok (Message ''1 row inserted''), s')"
      "table_change D t (\<lambda>rows. rows @ [row]) s s'"
  | (rejected) e s' where "insert_row D t columns vals s = (Err e, s')" "quiet D s s'"
      "\<And>sch row. fmlookup (st_catalog s) t = Some sch \<Longrightarrow> build_row sch t columns vals = Ok row \<Longrightarrow>
        \<not> insert_allowed D s t sch row"
proof (cases "fmlookup (st_catalog s) t")
  case None
  then show ?thesis
    using inv by (intro rejected [of "TableNotFound t" s])
      (simp_all add: insert_row_def get_schema_def)
next
  case (Some sch)
  then have gs: "get_schema s t = Ok sch" and t: "fmlookup (st_catalog s) t \<noteq> None"
    by (simp_all add: get_schema_def)
  show ?thesis
  proof (cases "build_row sch t columns vals")
    case (Err e)
    with Some show ?thesis
      using inv by (intro rejected [of e s]) (simp_all add: insert_row_def gs)
  next
    case (Panic p)
    with build_row_no_panic [of sch t columns vals] show ?thesis by simp
  next
    case (Ok row)
    obtain x s1 where s1: "check_constraints_for_insert D t sch row s = (x, s1)" "quiet D s s1"
      "if insertable (ts_columns sch) (rows_of D s t) row then x = Ok ()
       else \<exists>m. x = Err (ConstraintViolation m)"
      by (rule check_constraints_for_insert_ok [OF inv t]) (rule that)
    show ?thesis
    proof (cases "insertable (ts_columns sch) (rows_of D s t) row")
      case False
      with s1(3) obtain m where "x = Err (ConstraintViolation m)" by auto
      with False Some Ok s1 show ?thesis
        by (intro rejected [of "ConstraintViolation m" s1])
          (simp_all add: insert_row_def gs op_seq_step insert_allowed_def)
    next
      case True
      with s1 have x: "check_constraints_for_insert D t sch row s = (Ok (), s1)" by simp
      have fk: "check_foreign_keys_row D s1 t sch row = check_foreign_keys_row D s t sch row"
        by (rule check_foreign_keys_row_quiet [OF inv s1(2)])
      show ?thesis
      proof (cases "check_foreign_keys_row D s t sch row")
        case (Err e)
        with Some Ok s1(2) fk show ?thesis
          by (intro rejected [of e s1])
            (simp_all add: insert_row_def gs op_seq_step x insert_allowed_def)
      next
        case (Panic p)
        have "no_panic (check_foreign_keys_row D s t sch row)" by simp
        with Panic show ?thesis by (simp del: checks_no_panic)
      next
        case fkOk: (Ok u)
        have t1: "fmlookup (st_catalog s1) t \<noteq> None"
          using row_frame_None [OF quietD(2) [OF s1(2)]] t by simp
        obtain rid s' where s': "append_row D t row s1 = (Ok (), s')" "storage_inv D s'" "row_frame s1 s'"
          "stored_of D s' t = stored_of D s1 t @ [\<lparr>sr_id = rid, sr_data = row\<rparr>]" "same_rows D {t} s1 s'"
          by (rule append_row_ok [OF quietD(1) [OF s1(2)] t1, of row]) (rule that)
        have "table_change D t (\<lambda>rows. rows @ [row]) s1 s'"
          using s' by (simp add: table_change_def rows_of_def)
        then have "table_change D t (\<lambda>rows. rows @ [row]) s s'"
          by (rule quiet_table_change [OF s1(2) _ t])
        moreover have "insert_row D t columns vals s = (Ok (Message ''1 row inserted''), s')"
          using Ok fk fkOk by (simp add: insert_row_def gs op_seq_step x s'(1) op_apply)
        ultimately show ?thesis
          using True fkOk by (intro inserted [OF Some Ok]) (simp_all add: insert_allowed_def)
      qed
    qed
  qed
qed

section \<open>UPDATE and DELETE\<close>

definition matches :: "filter_expr option \<Rightarrow> row \<Rightarrow> bool" where
  "matches f r \<longleftrightarrow> row_matches_filter r f"

definition update_one :: "(string \<times> value_t) list \<Rightarrow> filter_expr option \<Rightarrow> row \<Rightarrow> row" where
  "update_one as f r = (if matches f r then assign_row as r else r)"

lemma assign_row_lookup:
  assumes "distinct (map fst as)"
  shows "fmlookup (assign_row as r) c = (case map_of as c of Some v \<Rightarrow> Some v | None \<Rightarrow> fmlookup r c)"
  using assms
proof (induction as arbitrary: r)
  case (Cons cv as)
  obtain c' v where cv: "cv = (c', v)" by fastforce
  from Cons.prems have "map_of as c' = None" by (simp add: cv map_of_eq_None_iff)
  with Cons show ?case by (auto simp: assign_row_def cv split: option.splits)
qed (simp add: assign_row_def)

lemma rows_mapped: "map sr_data (mapped_rows g rs) = List.map_filter g (map sr_data rs)"
  by (induction rs) (auto simp: List.map_filter_simps split: option.splits)

lemma map_filter_all_Some: "(\<And>x. x \<in> set xs \<Longrightarrow> g x = Some (h x)) \<Longrightarrow> List.map_filter g xs = map h xs"
  by (induction xs) (simp_all add: List.map_filter_simps)

lemma map_filter_filter: "List.map_filter (\<lambda>x. if P x then None else Some x) xs = filter (\<lambda>x. \<not> P x) xs"
  by (induction xs) (simp_all add: List.map_filter_simps)

lemma fold_count: "fold (\<lambda>r c. if P r then c + 1 else c) xs (n::nat) = n + length (filter P xs)"
  by (induction xs arbitrary: n) auto

text \<open>Everything an UPDATE checks before it rewrites, and the check inside the rewrite.\<close>

definition update_allowed :: "deps \<Rightarrow> storage \<Rightarrow> string \<Rightarrow> table_schema \<Rightarrow> (string \<times> value_t) list \<Rightarrow>
    filter_expr option \<Rightarrow> bool" where
  "update_allowed D s t sch as f \<longleftrightarrow> check_assigned_keys D s t sch as = Ok () \<and>
     check_referencing_children_on_update D s t as f = Ok () \<and>
     check_unique_constraints_for_update D s t sch as f = Ok () \<and>
     (check_assigned_nulls sch as = Ok () \<or> (\<forall>r \<in> set (rows_of D s t). \<not> matches f r))"

definition rows_updated :: "nat \<Rightarrow> query_result" where
  "rows_updated n = Message (show_nat n @ '' rows updated'')"

definition rows_deleted :: "nat \<Rightarrow> query_result" where
  "rows_deleted n = Message (show_nat n @ '' rows deleted'')"

lemma no_panic_not_Ok: "no_panic r \<Longrightarrow> \<not> is_ok r \<Longrightarrow> \<exists>e. r = Err e"
  by (cases r) auto

lemma unit_res_cases: "no_panic r \<Longrightarrow> r = Ok () \<or> (\<exists>e. r = Err e)"
  by (cases r) auto

lemma update_rewrite_cases:
  assumes inv: "storage_inv D s" and t: "fmlookup (st_catalog s) t \<noteq> None"
  obtains (finished) n s' where "rewrite_rows D t (update_mapper sch as f) s = (Ok (n, length (filter (matches f) (rows_of D s t))), s')"
      "check_assigned_nulls sch as = Ok () \<or> (\<forall>r \<in> set (rows_of D s t). \<not> matches f r)"
      "table_change D t (map (update_one as f)) s s'"
  | (failed) e s' where "rewrite_rows D t (update_mapper sch as f) s = (Err e, s')" "quiet D s s'"
      "\<not> (check_assigned_nulls sch as = Ok () \<or> (\<forall>r \<in> set (rows_of D s t). \<not> matches f r))"
proof -
  define m where "m = (\<lambda>r. if \<not> matches f r then Ok (Some r) else
    tryq (check_assigned_nulls sch as) (\<lambda>_. Ok (Some (assign_row as r))))"
  have m: "fst (update_mapper sch as f d c) = m d" for d c
    by (auto simp: update_mapper_def m_def matches_def split: res.splits)
  have okm: "is_ok (m d) \<longleftrightarrow> check_assigned_nulls sch as = Ok () \<or> \<not> matches f d" for d
    by (cases "check_assigned_nulls sch as") (auto simp: m_def)
  have mok: "m d = Ok (Some (update_one as f d))" if "is_ok (m d)" for d
    using that by (cases "check_assigned_nulls sch as") (auto simp: m_def update_one_def split: if_splits)
  have rows: "set (rows_of D s t) = sr_data ` set (stored_of D s t)" by (simp add: rows_of_def)
  show ?thesis
  proof (rule rewrite_rows_cases [OF inv t m])
    fix s' assume *: "rewrite_rows D t (update_mapper sch as f) s =
        (Ok (length (filter (\<lambda>r. m (sr_data r) = Ok None) (stored_of D s t)),
             fold (\<lambda>r c. snd (update_mapper sch as f (sr_data r) c)) (stored_of D s t) 0), s')"
      "\<forall>r \<in> set (stored_of D s t). is_ok (m (sr_data r))" "storage_inv D s'" "row_frame s s'"
      "stored_of D s' t = mapped_rows (\<lambda>d. case m d of Ok y \<Rightarrow> y | _ \<Rightarrow> None) (stored_of D s t)"
      "same_rows D {t} s s'"
    have "rows_of D s' t = map (update_one as f) (rows_of D s t)"
      using *(2) unfolding rows_of_def *(5) rows_mapped
      by (intro map_filter_all_Some) (auto simp: mok)
    with * have tc: "table_change D t (map (update_one as f)) s s'" by (simp add: table_change_def)
    have "snd (update_mapper sch as f d c) = (if matches f d then c + 1 else c)"
      if "d \<in> set (rows_of D s t)" for d c
      using *(2) that okm [of d] unfolding rows by (auto simp: update_mapper_def matches_def)
    then have "fold (\<lambda>r c. snd (update_mapper sch as f (sr_data r) c)) (stored_of D s t) 0 =
        fold (\<lambda>r c. if matches f (sr_data r) then c + 1 else c) (stored_of D s t) 0"
      unfolding rows by (intro fold_cong) auto
    also have "\<dots> = length (filter (matches f) (rows_of D s t))"
      by (simp add: fold_count rows_of_def filter_map comp_def)
    finally have count: "fold (\<lambda>r c. snd (update_mapper sch as f (sr_data r) c)) (stored_of D s t) 0 =
        length (filter (matches f) (rows_of D s t))" .
    have "check_assigned_nulls sch as = Ok () \<or> (\<forall>r \<in> set (rows_of D s t). \<not> matches f r)"
      using *(2) okm unfolding rows by auto
    with * tc count show thesis by (intro finished) auto
  next
    fix x s' assume *: "rewrite_rows D t (update_mapper sch as f) s = (x, s')" "\<not> is_ok x"
      "\<exists>r \<in> set (stored_of D s t). \<not> is_ok (m (sr_data r))" "storage_inv D s'" "row_frame s s'"
      "same_rows D {} s s'"
    have "no_panic x"
      using op_no_panicD [OF rewrite_rows_no_panic, of "update_mapper sch as f" D t s] *(1) by simp
    with *(2) obtain e where "x = Err e" using no_panic_not_Ok by blast
    moreover have "\<not> (check_assigned_nulls sch as = Ok () \<or> (\<forall>r \<in> set (rows_of D s t). \<not> matches f r))"
      using *(3) okm unfolding rows by auto
    ultimately show thesis using * by (intro failed [of e s']) (auto simp: quiet_def)
  qed
qed

lemma delete_rewrite_ok:
  assumes inv: "storage_inv D s" and t: "fmlookup (st_catalog s) t \<noteq> None"
  obtains n s' where "rewrite_rows D t (delete_mapper f) s = (Ok (n, length (filter (matches f) (rows_of D s t))), s')"
      "table_change D t (filter (\<lambda>r. \<not> matches f r)) s s'"
proof -
  define m where "m = (\<lambda>r. (Ok (if matches f r then None else Some r) :: row option result))"
  have m: "fst (delete_mapper f d c) = m d" for d c
    by (auto simp: delete_mapper_def m_def matches_def)
  have c: "snd (delete_mapper f d c) = (if matches f d then c + 1 else c)" for d c
    by (simp add: delete_mapper_def matches_def)
  show ?thesis
  proof (rule rewrite_rows_cases [OF inv t m])
    fix s' assume *: "rewrite_rows D t (delete_mapper f) s =
        (Ok (length (filter (\<lambda>r. m (sr_data r) = Ok None) (stored_of D s t)),
             fold (\<lambda>r c. snd (delete_mapper f (sr_data r) c)) (stored_of D s t) 0), s')"
      "storage_inv D s'" "row_frame s s'"
      "stored_of D s' t = mapped_rows (\<lambda>d. case m d of Ok y \<Rightarrow> y | _ \<Rightarrow> None) (stored_of D s t)"
      "same_rows D {t} s s'"
    have "rows_of D s' t = filter (\<lambda>r. \<not> matches f r) (rows_of D s t)"
      unfolding rows_of_def *(4) rows_mapped by (simp add: m_def map_filter_filter)
    moreover have "fold (\<lambda>r c. snd (delete_mapper f (sr_data r) c)) (stored_of D s t) 0 =
        length (filter (matches f) (rows_of D s t))"
      by (simp add: c fold_count rows_of_def filter_map comp_def)
    ultimately show thesis using * by (intro that) (auto simp: table_change_def)
  next
    fix x s' assume "\<exists>r \<in> set (stored_of D s t). \<not> is_ok (m (sr_data r))"
    then show thesis by (auto simp: m_def)
  qed
qed

definition where_filter :: "deps \<Rightarrow> storage \<Rightarrow> string \<Rightarrow> table_schema \<Rightarrow> filter_expr option \<Rightarrow>
    filter_expr option result" where
  "where_filter D s t sch f = tryq (resolve_opt D s f) (prepare_opt sch t)"

lemma update_rows_eq:
  assumes "fmlookup (st_catalog s) t = Some sch"
  shows "update_rows D t as f s =
    (case where_filter D s t sch f of Err e \<Rightarrow> (Err e, s) | Panic p \<Rightarrow> (Panic p, s)
     | Ok g \<Rightarrow> (case prepare_assignments sch t as of Err e \<Rightarrow> (Err e, s) | Panic p \<Rightarrow> (Panic p, s)
     | Ok bs \<Rightarrow> (case tryq (check_assigned_keys D s t sch bs) (\<lambda>_.
           tryq (check_referencing_children_on_update D s t bs g) (\<lambda>_.
           check_unique_constraints_for_update D s t sch bs g)) of Err e \<Rightarrow> (Err e, s) | Panic p \<Rightarrow> (Panic p, s)
     | Ok _ \<Rightarrow> op_bind (rewrite_rows D t (update_mapper sch bs g))
         (\<lambda>(_, updated). op_ret (rows_updated updated)) s)))"
  unfolding update_rows_def where_filter_def rows_updated_def using assms
  by (cases "resolve_opt D s f") (auto simp: get_schema_def split: res.splits)

lemma update_rows_cases:
  assumes inv: "storage_inv D s"
  obtains
    (updated) sch g bs s' where "fmlookup (st_catalog s) t = Some sch" "where_filter D s t sch f = Ok g"
      "prepare_assignments sch t as = Ok bs" "update_allowed D s t sch bs g"
      "update_rows D t as f s = (Ok (rows_updated (length (filter (matches g) (rows_of D s t)))), s')"
      "table_change D t (map (update_one bs g)) s s'"
  | (rejected) e s' where "update_rows D t as f s = (Err e, s')" "quiet D s s'"
      "\<And>sch g bs. fmlookup (st_catalog s) t = Some sch \<Longrightarrow> where_filter D s t sch f = Ok g \<Longrightarrow>
        prepare_assignments sch t as = Ok bs \<Longrightarrow> \<not> update_allowed D s t sch bs g"
  | (unwound) p where "update_rows D t as f s = (Panic p, s)"
      "\<And>sch. fmlookup (st_catalog s) t = Some sch \<Longrightarrow> where_filter D s t sch f = Panic p"
proof (cases "fmlookup (st_catalog s) t")
  case None
  then show ?thesis
    using inv by (intro rejected [of "TableNotFound t" s]) (simp_all add: update_rows_def get_schema_def)
next
  case (Some sch)
  note eq = update_rows_eq [OF Some, of D as f]
  have t: "fmlookup (st_catalog s) t \<noteq> None" by (simp add: Some)
  show ?thesis
  proof (cases "\<exists>g bs. where_filter D s t sch f = Ok g \<and> prepare_assignments sch t as = Ok bs")
    case False
    show ?thesis
    proof (cases "where_filter D s t sch f")
      case (Ok g)
      with False have "\<not> is_ok (prepare_assignments sch t as)" by (auto simp: is_ok_iff)
      then obtain e where "prepare_assignments sch t as = Err e"
        using no_panic_not_Ok [OF checks_no_panic(8)] by blast
      with Ok have "update_rows D t as f s = (Err e, s)" by (simp add: eq)
      with False Some inv show ?thesis by (intro rejected [of e s]) auto
    next
      case (Err e)
      then have "update_rows D t as f s = (Err e, s)" by (simp add: eq)
      with False Some inv show ?thesis by (intro rejected [of e s]) auto
    next
      case (Panic p)
      with Some show ?thesis by (intro unwound [of p]) (simp_all add: eq)
    qed
  next
    case True
    then obtain g bs where g: "where_filter D s t sch f = Ok g" "prepare_assignments sch t as = Ok bs" by blast
    let ?checks = "tryq (check_assigned_keys D s t sch bs) (\<lambda>_.
           tryq (check_referencing_children_on_update D s t bs g) (\<lambda>_.
           check_unique_constraints_for_update D s t sch bs g))"
    have "no_panic ?checks" by (intro no_panic_intros) simp_all
    then consider e where "?checks = Err e" | "?checks = Ok ()" using unit_res_cases by blast
    then show ?thesis
    proof cases
      case (1 e)
      then have "\<not> update_allowed D s t sch bs g" by (auto simp: update_allowed_def)
      with 1 g Some inv show ?thesis by (intro rejected [of e s]) (auto simp: eq)
    next
      case 2
      show ?thesis
      proof (rule update_rewrite_cases [OF inv t, of sch bs g])
        fix n s' assume *: "rewrite_rows D t (update_mapper sch bs g) s =
            (Ok (n, length (filter (matches g) (rows_of D s t))), s')"
          "check_assigned_nulls sch bs = Ok () \<or> (\<forall>r \<in> set (rows_of D s t). \<not> matches g r)"
          "table_change D t (map (update_one bs g)) s s'"
        have "update_allowed D s t sch bs g" using 2 *(2) by (simp add: update_allowed_def res_simps)
        with * g Some 2 show thesis
          by (intro updated [of sch g bs s']) (simp_all add: eq op_bind_def op_apply)
      next
        fix e s' assume *: "rewrite_rows D t (update_mapper sch bs g) s = (Err e, s')" "quiet D s s'"
          "\<not> (check_assigned_nulls sch bs = Ok () \<or> (\<forall>r \<in> set (rows_of D s t). \<not> matches g r))"
        with g Some 2 show thesis
          by (intro rejected [of e s']) (auto simp: eq op_bind_def update_allowed_def)
      qed
    qed
  qed
qed

lemma delete_rows_cases:
  assumes inv: "storage_inv D s"
  obtains
    (deleted) sch g s' where "fmlookup (st_catalog s) t = Some sch" "where_filter D s t sch f = Ok g"
      "check_referencing_children_on_delete D s t g = Ok ()"
      "delete_rows D t f s = (Ok (rows_deleted (length (filter (matches g) (rows_of D s t)))), s')"
      "table_change D t (filter (\<lambda>r. \<not> matches g r)) s s'"
  | (rejected) e where "delete_rows D t f s = (Err e, s)"
      "\<And>sch g. fmlookup (st_catalog s) t = Some sch \<Longrightarrow> where_filter D s t sch f = Ok g \<Longrightarrow>
        check_referencing_children_on_delete D s t g \<noteq> Ok ()"
  | (unwound) p where "delete_rows D t f s = (Panic p, s)"
      "\<And>sch. fmlookup (st_catalog s) t = Some sch \<Longrightarrow> where_filter D s t sch f = Panic p"
proof (cases "fmlookup (st_catalog s) t")
  case None
  then show ?thesis
    by (intro rejected [of "TableNotFound t"]) (simp_all add: delete_rows_def get_schema_def)
next
  case (Some sch)
  have t: "fmlookup (st_catalog s) t \<noteq> None" by (simp add: Some)
  have eq: "delete_rows D t f s =
    (case where_filter D s t sch f of Err e \<Rightarrow> (Err e, s) | Panic p \<Rightarrow> (Panic p, s)
     | Ok g \<Rightarrow> (case check_referencing_children_on_delete D s t g of Err e \<Rightarrow> (Err e, s) | Panic p \<Rightarrow> (Panic p, s)
     | Ok _ \<Rightarrow> op_bind (rewrite_rows D t (delete_mapper g)) (\<lambda>(_, deleted). op_ret (rows_deleted deleted)) s))"
    unfolding delete_rows_def where_filter_def rows_deleted_def using Some
    by (cases "resolve_opt D s f") (auto simp: get_schema_def split: res.splits)
  show ?thesis
  proof (cases "where_filter D s t sch f")
    case (Err e)
    with Some show ?thesis by (intro rejected [of e]) (auto simp: eq)
  next
    case (Panic p)
    with Some show ?thesis by (intro unwound [of p]) (simp_all add: eq)
  next
    case 2: (Ok g)
    consider e where "check_referencing_children_on_delete D s t g = Err e"
      | "check_referencing_children_on_delete D s t g = Ok ()"
      using unit_res_cases [OF checks_no_panic(7)] by blast
    then show ?thesis
    proof cases
      case (1 e)
      with 2 Some show ?thesis by (intro rejected [of e]) (auto simp: eq)
    next
      case ok: 2
      obtain n s' where "rewrite_rows D t (delete_mapper g) s = (Ok (n, length (filter (matches g) (rows_of D s t))), s')"
        "table_change D t (filter (\<lambda>r. \<not> matches g r)) s s'"
        by (rule delete_rewrite_ok [OF inv t]) (rule that)
      with 2 ok Some show ?thesis by (intro deleted [of sch g s']) (simp_all add: eq op_bind_def op_apply)
    qed
  qed
qed

section \<open>Integrity is kept\<close>

lemma references_upd [simp]:
  assumes "db t = Some (cols, rows)"
  shows "references (db(t \<mapsto> (cols, rows'))) u c pt pc \<longleftrightarrow> references db u c pt pc"
  using assms by (auto simp: references_def)

lemma key_present_upd:
  "key_present (db(t \<mapsto> (cols, rows'))) pt pc v \<longleftrightarrow>
   (if pt = t then \<exists>p \<in> set rows'. fmlookup p pc = Some v else key_present db pt pc v)"
  by (auto simp: key_present_def)

lemma row_get_value: "row_get r c = v \<Longrightarrow> v \<noteq> VNull \<Longrightarrow> fmlookup r c = Some v"
  by (auto simp: row_get_def split: option.splits)

lemma keys_okD:
  "keys_ok db \<Longrightarrow> references db t c pt pc \<Longrightarrow> db t = Some (cols, rows) \<Longrightarrow> r \<in> set rows \<Longrightarrow>
   row_get r c \<noteq> VNull \<Longrightarrow> key_present db pt pc (row_get r c)"
  unfolding keys_ok_def by blast

text \<open>The two sides of a foreign key after the rows of one table are replaced.\<close>

lemma keys_ok_change:
  assumes ok: "keys_ok db" and t: "db t = Some (cols, rows)"
    and child: "\<And>r c pt pc. r \<in> set rows' \<Longrightarrow> references db t c pt pc \<Longrightarrow> row_get r c \<noteq> VNull \<Longrightarrow>
      key_present (db(t \<mapsto> (cols, rows'))) pt pc (row_get r c)"
    and parent: "\<And>u c pc ucols urows r. u \<noteq> t \<Longrightarrow> references db u c t pc \<Longrightarrow> db u = Some (ucols, urows) \<Longrightarrow>
      r \<in> set urows \<Longrightarrow> row_get r c \<noteq> VNull \<Longrightarrow> key_present db t pc (row_get r c) \<Longrightarrow>
      \<exists>p \<in> set rows'. fmlookup p pc = Some (row_get r c)"
  shows "keys_ok (db(t \<mapsto> (cols, rows')))"
  unfolding keys_ok_def references_upd [where db = db, OF t]
proof (intro allI impI)
  fix u c pt pc ucols urows r
  assume *: "references db u c pt pc" "(db(t \<mapsto> (cols, rows'))) u = Some (ucols, urows)" "r \<in> set urows"
  show "row_get r c = VNull \<or> key_present (db(t \<mapsto> (cols, rows'))) pt pc (row_get r c)"
  proof (cases "row_get r c = VNull")
    case nn: False
    show ?thesis
    proof (cases "u = t")
      case True
      with * child nn show ?thesis by simp
    next
      case False
      with * have u: "db u = Some (ucols, urows)" by simp
      from keys_okD [OF ok *(1) u *(3) nn] have p: "key_present db pt pc (row_get r c)" .
      show ?thesis
      proof (cases "pt = t")
        case True
        from parent [OF False _ u *(3) nn] p *(1) True show ?thesis by (simp add: key_present_upd)
      qed (use p in \<open>simp add: key_present_upd\<close>)
    qed
  qed simp
qed

lemma integrity_change:
  assumes "integrity db" "db t = Some (cols, rows)" "table_ok cols rows'" "keys_ok (db(t \<mapsto> (cols, rows')))"
  shows "integrity (db(t \<mapsto> (cols, rows')))"
  using assms by (auto simp: integrity_def)

lemma insert_keeps_integrity:
  assumes inv: "storage_inv D s" and i: "integrity (db_of D s)"
    and t: "fmlookup (st_catalog s) t = Some sch" and row: "build_row sch t columns vals = Ok row"
    and ok: "insert_allowed D s t sch row" and tc: "table_change D t (\<lambda>rows. rows @ [row]) s s'"
  shows "integrity (db_of D s')"
proof -
  let ?rows = "rows_of D s t"
  note db = db_of_Some [OF t, of D]
  note fk = ok [unfolded insert_allowed_def check_foreign_keys_row_Ok [OF inv]]
  have "table_ok (ts_columns sch) (?rows @ [row])"
    using insertable_table_ok [OF integrityD(1) [OF i db] build_row_typed [OF row storage_inv_distinct [OF inv t]]] fk
    by simp
  moreover have "keys_ok ((db_of D s)(t \<mapsto> (ts_columns sch, ?rows @ [row])))"
  proof (rule keys_ok_change [OF integrityD(2) [OF i] db])
    fix r c pt pc
    assume r: "r \<in> set (?rows @ [row])" and ref: "references (db_of D s) t c pt pc" and nn: "row_get r c \<noteq> VNull"
    have "key_present (db_of D s) pt pc (row_get r c)"
    proof (cases "r \<in> set ?rows")
      case True
      from keys_okD [OF integrityD(2) [OF i] ref db True nn] show ?thesis .
    next
      case False
      with r have "r = row" by simp
      with ref db fk nn show ?thesis by (fastforce simp: references_def)
    qed
    then show "key_present ((db_of D s)(t \<mapsto> (ts_columns sch, ?rows @ [row]))) pt pc (row_get r c)"
      using db by (auto simp: key_present_upd key_present_def)
  qed (use db in \<open>auto simp: key_present_def\<close>)
  ultimately show ?thesis
    unfolding table_change_db_of [OF tc t] by (rule integrity_change [OF i db])
qed

lemma column_unique_map:
  "column_unique c rows \<longleftrightarrow> distinct (map (\<lambda>r. row_get r c) (filter (\<lambda>r. row_get r c \<noteq> VNull) rows))"
  by (simp add: column_unique_def filter_map comp_def)

lemma column_unique_filter:
  assumes "column_unique c rows"
  shows "column_unique c (filter P rows)"
proof -
  have "filter (\<lambda>r. row_get r c \<noteq> VNull) (filter P rows) = filter P (filter (\<lambda>r. row_get r c \<noteq> VNull) rows)"
    by (simp only: filter_filter conj_commute)
  with assms show ?thesis
    unfolding column_unique_map by (metis distinct_map_filter)
qed

lemma delete_keeps_integrity:
  assumes inv: "storage_inv D s" and i: "integrity (db_of D s)"
    and t: "fmlookup (st_catalog s) t = Some sch" and ok: "check_referencing_children_on_delete D s t g = Ok ()"
    and tc: "table_change D t (filter (\<lambda>r. \<not> matches g r)) s s'"
  shows "integrity (db_of D s')"
proof -
  let ?rows = "rows_of D s t" and ?rows' = "filter (\<lambda>r. \<not> matches g r) (rows_of D s t)"
  note db = db_of_Some [OF t, of D]
  have tab: "table_ok (ts_columns sch) ?rows" by (rule integrityD(1) [OF i db])
  then have "table_ok (ts_columns sch) ?rows'"
    by (auto simp: table_ok_def intro: column_unique_filter)
  moreover have keep: "\<exists>p \<in> set ?rows'. fmlookup p pc = Some v"
    if u: "references (db_of D s) u c t pc" "db_of D s u = Some (ucols, urows)" "r \<in> set urows"
      "row_get r c = v" "v \<noteq> VNull" and p: "key_present (db_of D s) t pc v" for u c pc ucols urows r v
  proof (rule ccontr)
    assume gone: "\<not> (\<exists>p \<in> set ?rows'. fmlookup p pc = Some v)"
    from p db obtain q where q: "q \<in> set ?rows" "fmlookup q pc = Some v" by (auto simp: key_present_def)
    with gone have "matches g q" by auto
    with q gone u(5) have "\<forall>cr \<in> set urows. fmlookup cr c \<noteq> Some v"
      by (intro children_on_delete_Ok [OF inv db ok u(1,2), of q]) (auto simp: matches_def)
    with u(3-5) row_get_value show False by blast
  qed
  moreover have "keys_ok ((db_of D s)(t \<mapsto> (ts_columns sch, ?rows')))"
  proof (rule keys_ok_change [OF integrityD(2) [OF i] db])
    fix r c pt pc
    assume r: "r \<in> set ?rows'" and ref: "references (db_of D s) t c pt pc" and nn: "row_get r c \<noteq> VNull"
    then have r': "r \<in> set ?rows" by simp
    have p: "key_present (db_of D s) pt pc (row_get r c)"
      by (rule keys_okD [OF integrityD(2) [OF i] ref db r' nn])
    show "key_present ((db_of D s)(t \<mapsto> (ts_columns sch, ?rows'))) pt pc (row_get r c)"
      using keep [OF _ db r' refl nn] ref p by (auto simp: key_present_upd)
  qed (use keep in blast)
  ultimately show ?thesis
    unfolding table_change_db_of [OF tc t] by (intro integrity_change [OF i db])
qed

text \<open>
  An UPDATE of a self-referencing table that assigns the referencing and the referenced column
  at once is checked against the old rows only; every other UPDATE keeps the integrity.
\<close>

definition crossed_update :: "db \<Rightarrow> string \<Rightarrow> (string \<times> value_t) list \<Rightarrow> bool" where
  "crossed_update db t as \<longleftrightarrow> (\<exists>c pc. references db t c t pc \<and> c \<in> fst ` set as \<and> pc \<in> fst ` set as)"

lemma updated_value_eq:
  "distinct (map fst as) \<Longrightarrow> updated_value as f c r = fmlookup (update_one as f r) c"
  by (simp add: updated_value_def update_one_def matches_def assign_row_lookup)

lemma filter_row_get:
  "filter (\<lambda>v. v \<noteq> VNull) (map (\<lambda>r. row_get r c) rows) =
   filter (\<lambda>v. v \<noteq> VNull) (List.map_filter (\<lambda>r. fmlookup r c) rows)"
  by (induction rows) (auto simp: List.map_filter_simps row_get_def split: option.splits)

lemma map_filter_comp: "List.map_filter g (map h xs) = List.map_filter (\<lambda>x. g (h x)) xs"
  by (induction xs) (simp_all add: List.map_filter_simps split: option.splits)

lemma update_one_get:
  assumes "distinct (map fst as)"
  shows "row_get (update_one as f r) c =
    (if matches f r then (case map_of as c of Some v \<Rightarrow> v | None \<Rightarrow> row_get r c) else row_get r c)"
  by (auto simp: update_one_def row_get_def assign_row_lookup [OF assms] split: option.splits)

lemma update_table_ok:
  assumes inv: "storage_inv D s" and t: "fmlookup (st_catalog s) t = Some sch"
    and tab: "table_ok (ts_columns sch) (rows_of D s t)"
    and bs: "prepare_assignments sch t as = Ok bs" and ok: "update_allowed D s t sch bs g"
  shows "table_ok (ts_columns sch) (map (update_one bs g) (rows_of D s t))"
proof -
  let ?cols = "ts_columns sch"
  have dist: "distinct (map cs_name ?cols)" by (rule storage_inv_distinct [OF inv t])
  note pa = prepare_assignments_ok [OF bs dist]
  have typed: "row_typed ?cols (update_one bs g r)" if "r \<in> set (rows_of D s t)" for r
  proof -
    from tab that have r: "row_typed ?cols r" by (simp add: table_ok_def)
    have "c \<in> cs_name ` set ?cols" if "map_of bs c = Some v" for c v
      using pa(4) [OF map_of_SomeD [OF that]] by (auto dest: find_column_SomeD)
    then have dom: "fmdom' (update_one bs g r) = fmdom' r"
      using r by (auto simp: fmlookup_dom'_iff update_one_def assign_row_lookup [OF pa(2)] row_typed_def
          set_eq_iff split: option.splits)
    have "has_type (cs_type col) (row_get (update_one bs g r) (cs_name col))" if c: "col \<in> set ?cols" for col
    proof -
      have "has_type (cs_type col) v" if "map_of bs (cs_name col) = Some v" for v
        using pa(4) [OF map_of_SomeD [OF that]] find_column_distinct [OF dist c] by auto
      with r c show ?thesis
        by (auto simp: update_one_get [OF pa(2)] row_typed_def split: option.splits)
    qed
    with dom r show ?thesis by (simp add: row_typed_def)
  qed
  have notnull: "row_not_null ?cols (update_one bs g r)" if r: "r \<in> set (rows_of D s t)" for r
    unfolding row_not_null_def
  proof (intro ballI impI)
    fix col assume col: "col \<in> set ?cols" "needs_value col"
    have old: "row_get r (cs_name col) \<noteq> VNull"
      using tab r col by (simp add: table_ok_def row_not_null_def)
    have "v \<noteq> VNull" if "matches g r" "map_of bs (cs_name col) = Some v" for v
    proof
      assume "v = VNull"
      from ok r that(1) have "check_assigned_nulls sch bs = Ok ()" by (auto simp: update_allowed_def)
      with map_of_SomeD [OF that(2)] \<open>v = VNull\<close> col find_column_distinct [OF dist col(1)] show False
        by (fastforce simp: check_assigned_nulls_def each_res_Ok_iff needs_value_def split: if_splits)
    qed
    with old show "row_get (update_one bs g r) (cs_name col) \<noteq> VNull"
      by (auto simp: update_one_get [OF pa(2)] split: option.splits)
  qed
  have "column_unique (cs_name col) (map (update_one bs g) (rows_of D s t))"
    if col: "col \<in> set ?cols" "is_unique col" for col
  proof (cases "cs_name col \<in> fst ` set bs")
    case True
    have "check_unique_constraints_for_update D s t sch bs g = Ok ()"
      using ok by (simp add: update_allowed_def)
    note u = check_unique_Ok [OF inv db_of_Some [OF t] this col True]
    have eq: "updated_value bs g (cs_name col) = (\<lambda>r. fmlookup (update_one bs g r) (cs_name col))"
      by (rule ext) (rule updated_value_eq [OF pa(2)])
    show ?thesis
      unfolding column_unique_def filter_row_get map_filter_comp using u unfolding eq .
  next
    case False
    then have "map_of bs (cs_name col) = None" by (simp add: map_of_eq_None_iff)
    then have "row_get (update_one bs g r) (cs_name col) = row_get r (cs_name col)" for r
      by (simp add: update_one_get [OF pa(2)])
    with tab col show ?thesis by (simp add: table_ok_def column_unique_def comp_def)
  qed
  with typed notnull show ?thesis by (auto simp: table_ok_def)
qed

lemma update_keeps_integrity:
  assumes inv: "storage_inv D s" and i: "integrity (db_of D s)"
    and t: "fmlookup (st_catalog s) t = Some sch" and bs: "prepare_assignments sch t as = Ok bs"
    and ok: "update_allowed D s t sch bs g" and nc: "\<not> crossed_update (db_of D s) t bs"
    and tc: "table_change D t (map (update_one bs g)) s s'"
  shows "integrity (db_of D s')"
proof -
  let ?rows = "rows_of D s t" and ?rows' = "map (update_one bs g) (rows_of D s t)"
  note db = db_of_Some [OF t, of D]
  note pa = prepare_assignments_ok [OF bs storage_inv_distinct [OF inv t]]
  have tab: "table_ok (ts_columns sch) ?rows" by (rule integrityD(1) [OF i db])
  have "table_ok (ts_columns sch) ?rows'" by (rule update_table_ok [OF inv t tab bs ok])
  moreover have keep: "\<exists>p \<in> set ?rows'. fmlookup p pc = Some v"
    if u: "references (db_of D s) u c t pc" "db_of D s u = Some (ucols, urows)" "r \<in> set urows"
      "row_get r c = v" "v \<noteq> VNull" and p: "key_present (db_of D s) t pc v" for u c pc ucols urows r v
  proof (rule ccontr)
    assume gone: "\<not> (\<exists>p \<in> set ?rows'. fmlookup p pc = Some v)"
    from p db obtain q where q: "q \<in> set ?rows" "fmlookup q pc = Some v" by (auto simp: key_present_def)
    with gone have c: "fmlookup (update_one bs g q) pc \<noteq> Some v" by auto
    then obtain w where w: "matches g q" "map_of bs pc = Some w" "v \<noteq> w"
      using q(2) by (auto simp: update_one_def assign_row_lookup [OF pa(2)] split: if_splits option.splits)
    have "check_referencing_children_on_update D s t bs g = Ok ()" using ok by (simp add: update_allowed_def)
    then have "\<forall>cr \<in> set urows. fmlookup cr c \<noteq> Some v"
      using children_on_update_Ok [OF inv db _ u(1,2) q(1) _ q(2) u(5) w(2,3)] w(1) by (simp add: matches_def)
    with u(3-5) row_get_value show False by blast
  qed
  moreover have "keys_ok ((db_of D s)(t \<mapsto> (ts_columns sch, ?rows')))"
  proof (rule keys_ok_change [OF integrityD(2) [OF i] db])
    fix r' c pt pc
    assume r': "r' \<in> set ?rows'" and ref: "references (db_of D s) t c pt pc" and nn: "row_get r' c \<noteq> VNull"
    then obtain r where r: "r \<in> set ?rows" "r' = update_one bs g r" by auto
    show "key_present ((db_of D s)(t \<mapsto> (ts_columns sch, ?rows'))) pt pc (row_get r' c)"
    proof (cases "row_get r' c = row_get r c")
      case True
      with nn have nn': "row_get r c \<noteq> VNull" by simp
      have "key_present (db_of D s) pt pc (row_get r c)"
        by (rule keys_okD [OF integrityD(2) [OF i] ref db r(1) nn'])
      with keep [OF _ db r(1) refl nn'] ref True show ?thesis by (auto simp: key_present_upd)
    next
      case False
      then obtain v where v: "map_of bs c = Some v" "row_get r' c = v"
        by (auto simp: r(2) update_one_get [OF pa(2)] split: if_splits option.splits)
      from ref db obtain col where col: "col \<in> set (ts_columns sch)" "cs_name col = c"
        "References pt pc \<in> set (cs_constraints col)" by (auto simp: references_def)
      have "check_assigned_keys D s t sch bs = Ok ()" using ok by (simp add: update_allowed_def)
      with map_of_SomeD [OF v(1)] find_column_distinct [OF storage_inv_distinct [OF inv t] col(1)] col nn v(2)
      have p: "key_present (db_of D s) pt pc v"
        unfolding check_assigned_keys_Ok [OF inv] by fastforce
      show ?thesis
      proof (cases "pt = t")
        case True
        from p True db obtain q where q: "q \<in> set ?rows" "fmlookup q pc = Some v" by (auto simp: key_present_def)
        have "c \<in> fst ` set bs" using map_of_SomeD [OF v(1)] by force
        with nc ref True have "pc \<notin> fst ` set bs" by (auto simp: crossed_update_def)
        then have "map_of bs pc = None" by (simp add: map_of_eq_None_iff)
        with q have "fmlookup (update_one bs g q) pc = Some v"
          by (simp add: update_one_def assign_row_lookup [OF pa(2)])
        with q(1) True v(2) show ?thesis by (auto simp: key_present_upd)
      qed (use p v in \<open>simp add: key_present_upd\<close>)
    qed
  qed (use keep in blast)
  ultimately show ?thesis
    unfolding table_change_db_of [OF tc t] by (intro integrity_change [OF i db])
qed

end
