(* ===== verification/Engine_Correct.thy ===== *)
theory Engine_Correct
  imports Engine_Data
begin

text \<open>
  Every statement against the abstract database: a statement that succeeds changes the database
  exactly as \<open>statement_db\<close> says, and one that fails, or unwinds in a sort, leaves it as it was. The
  only exception is a schema change whose migration record cannot be written because the clock
  cannot be read: the change has then been made although the statement reports an error.
\<close>

section \<open>The abstract effect of a statement\<close>

definition change_table :: "string \<Rightarrow> (column_schema list \<Rightarrow> column_schema list) \<Rightarrow>
    (row list \<Rightarrow> row list) \<Rightarrow> db \<Rightarrow> db" where
  "change_table t fc fr db =
     (case db t of None \<Rightarrow> db | Some (cols, rows) \<Rightarrow> db(t \<mapsto> (fc cols, fr rows)))"

definition added_value :: "column_def \<Rightarrow> value_t option \<Rightarrow> value_t" where
  "added_value col dflt = (case coerce_value (cd_name col) (cd_type col)
     (case dflt of None \<Rightarrow> VNull | Some v \<Rightarrow> v) of Ok v \<Rightarrow> v | _ \<Rightarrow> VNull)"

fun statement_db :: "deps \<Rightarrow> storage \<Rightarrow> statement \<Rightarrow> db" where
  "statement_db D s (CreateTable t columns) = (case create_columns {} 0 [] columns of
     Ok cols \<Rightarrow> (db_of D s)(t \<mapsto> (cols, [])) | _ \<Rightarrow> db_of D s)"
| "statement_db D s (DropTable t) = (db_of D s)(t := None)"
| "statement_db D s (AlterTableAddColumn t col dflt) = change_table t (\<lambda>cols. cols @ [lower_column col])
     (map (fmupd (cd_name col) (added_value col dflt))) (db_of D s)"
| "statement_db D s (AlterTableDropColumn t c) = change_table t
     (filter (\<lambda>col. cs_name col \<noteq> c)) (map (fmdrop c)) (db_of D s)"
| "statement_db D s (AlterTableRenameColumn t old new) = change_table t
     (rename_columns old new) (map (rename_key old new)) (db_of D s)"
| "statement_db D s (Insert t columns vals) = (case fmlookup (st_catalog s) t of None \<Rightarrow> db_of D s | Some sch \<Rightarrow>
     (case build_row sch t columns vals of
        Ok row \<Rightarrow> change_table t id (\<lambda>rows. rows @ [row]) (db_of D s) | _ \<Rightarrow> db_of D s))"
| "statement_db D s (Update t as f) = (case fmlookup (st_catalog s) t of None \<Rightarrow> db_of D s | Some sch \<Rightarrow>
     (case where_filter D s t sch f of Ok g \<Rightarrow> (case prepare_assignments sch t as of
        Ok bs \<Rightarrow> change_table t id (map (update_one bs g)) (db_of D s) | _ \<Rightarrow> db_of D s) | _ \<Rightarrow> db_of D s))"
| "statement_db D s (Delete t f) = (case fmlookup (st_catalog s) t of None \<Rightarrow> db_of D s | Some sch \<Rightarrow>
     (case where_filter D s t sch f of
        Ok g \<Rightarrow> change_table t id (filter (\<lambda>r. \<not> matches g r)) (db_of D s) | _ \<Rightarrow> db_of D s))"
| "statement_db D s st = db_of D s"

abbreviation clock_error :: flux_error where
  "clock_error \<equiv> Configuration ''system clock error''"

text \<open>What no statement but BEGIN, COMMIT and ROLLBACK changes.\<close>

definition stmt_frame :: "deps \<Rightarrow> storage \<Rightarrow> storage \<Rightarrow> bool" where
  "stmt_frame D s s' \<longleftrightarrow> storage_inv D s' \<and> st_key s' = st_key s \<and> st_txn s' = st_txn s \<and>
     dk_snapshot s' = dk_snapshot s"

lemma stmt_frame_refl [simp]: "stmt_frame D s s \<longleftrightarrow> storage_inv D s"
  by (simp add: stmt_frame_def)

lemma stmt_frame_trans: "stmt_frame D s s' \<Longrightarrow> stmt_frame D s' s'' \<Longrightarrow> stmt_frame D s s''"
  by (simp add: stmt_frame_def)

lemma quiet_stmt_frame: "quiet D s s' \<Longrightarrow> stmt_frame D s s'"
  by (simp add: quiet_def stmt_frame_def row_frame_def)

lemma table_change_stmt_frame: "table_change D t f s s' \<Longrightarrow> stmt_frame D s s'"
  by (simp add: table_change_def stmt_frame_def row_frame_def)

lemma data_frame_stmt_frame: "data_frame D s s' \<Longrightarrow> storage_inv D s' \<Longrightarrow> stmt_frame D s s'"
  by (simp add: data_frame_def stmt_frame_def)

definition achieves :: "deps \<Rightarrow> storage \<Rightarrow> db \<Rightarrow> 'a result \<times> storage \<Rightarrow> bool" where
  "achieves D s db' rs \<longleftrightarrow> stmt_frame D s (snd rs) \<and>
     (case fst rs of
        Ok _ \<Rightarrow> db_of D (snd rs) = db'
      | Err e \<Rightarrow> db_of D (snd rs) = db_of D s \<or> e = clock_error \<and> db_of D (snd rs) = db'
      | Panic _ \<Rightarrow> db_of D (snd rs) = db_of D s)"

lemma achieves_simps [simp]:
  "achieves D s db' (Ok x, s') \<longleftrightarrow> stmt_frame D s s' \<and> db_of D s' = db'"
  "achieves D s db' (Err e, s') \<longleftrightarrow> stmt_frame D s s' \<and>
     (db_of D s' = db_of D s \<or> e = clock_error \<and> db_of D s' = db')"
  "achieves D s db' (Panic p, s') \<longleftrightarrow> stmt_frame D s s' \<and> db_of D s' = db_of D s"
  by (simp_all add: achieves_def)

lemma change_table_rows:
  assumes "table_change D t f s s'" "fmlookup (st_catalog s) t = Some sch"
  shows "db_of D s' = change_table t id f (db_of D s)"
  using table_change_db_of [OF assms] db_of_Some [OF assms(2)] by (simp add: change_table_def)

lemma column_change_db_of:
  assumes "column_change D t cols f s s'" "fmlookup (st_catalog s) t = Some sch" "cols = fc (ts_columns sch)"
  shows "db_of D s' = change_table t fc (map f) (db_of D s)"
proof
  fix u
  from assms have c: "columns_of s' u = ((columns_of s)(t \<mapsto> fc (ts_columns sch))) u"
    "rows_of D s' t = map f (rows_of D s t)"
    "u \<noteq> t \<Longrightarrow> fmlookup (st_catalog s) u \<noteq> None \<Longrightarrow> rows_of D s' u = rows_of D s u"
    by (simp_all add: column_change_def)
  have t: "db_of D s t = Some (ts_columns sch, rows_of D s t)" by (rule db_of_Some [OF assms(2)])
  show "db_of D s' u = change_table t fc (map f) (db_of D s) u"
  proof (cases "u = t")
    case True
    with c t show ?thesis by (simp add: change_table_def db_of_columns [of D s'])
  next
    case False
    with c(1,3) have "db_of D s' u = db_of D s u" by (intro db_of_eqI) simp_all
    with False t show ?thesis by (simp add: change_table_def)
  qed
qed

lemma column_change_stmt_frame: "column_change D t cols f s s' \<Longrightarrow> stmt_frame D s s'"
  by (simp add: column_change_def stmt_frame_def)

section \<open>Schema statements\<close>

lemma create_columns_ok:
  assumes "create_columns seen n out cols = Ok scs"
  shows "scs = out @ map lower_column cols" "distinct (map cd_name cols)" "set (map cd_name cols) \<inter> seen = {}"
  using assms
  by (induction seen n out cols rule: create_columns.induct) (auto simp: Let_def split: if_splits)

lemma lower_column_name [simp]: "cs_name (lower_column col) = cd_name col"
  by (simp add: lower_column_def)

lemma lower_column_names: "map cs_name (map lower_column cols) = map cd_name cols"
  by simp

lemma create_table_cases:
  assumes inv: "storage_inv D s" and name: "plain_name t"
  obtains (created) scs r s' where "create_columns {} 0 [] columns = Ok scs" "scs = map lower_column columns"
      "distinct (map cs_name scs)" "check_references s t scs = Ok ()" "fmlookup (st_catalog s) t = None"
      "create_table D t columns s = (r, s')" "stmt_frame D s s'" "db_of D s' = (db_of D s)(t \<mapsto> (scs, []))"
      "r = Ok (Message (''table '' @ quoted t @ '' created'')) \<or> r = Err clock_error"
  | (refused) e where "create_table D t columns s = (Err e, s)"
proof (cases "columns = []")
  case True
  then show ?thesis by (intro refused) (simp add: create_table_def op_apply)
next
  case ne: False
  show ?thesis
  proof (cases "create_columns {} 0 [] columns")
    case (Err e)
    with ne show ?thesis by (intro refused [of e]) (simp add: create_table_def)
  next
    case (Panic p)
    with create_columns_no_panic [of "{}" 0 "[]" columns] show ?thesis by simp
  next
    case (Ok scs)
    from create_columns_ok [OF Ok] have scs: "scs = map lower_column columns" "distinct (map cs_name scs)"
      by (simp_all add: comp_def)
    consider e where "check_references s t scs = Err e" | "check_references s t scs = Ok ()"
      using unit_res_cases [OF check_references_no_panic] by blast
    then show ?thesis
    proof cases
      case (1 e)
      with ne Ok show ?thesis by (intro refused [of e]) (simp add: create_table_def)
    next
      case refs: 2
      define sch where "sch = \<lparr>ts_name = t, ts_columns = scs, ts_next_row_id = 0\<rparr>"
      have run: "create_table D t columns s = op_seq (storage_create_table D sch)
          (op_ret (Message (''table '' @ quoted t @ '' created''))) s"
        using ne Ok refs by (simp add: create_table_def sch_def)
      show ?thesis
      proof (cases "fmlookup (st_catalog s) t")
        case (Some sch')
        then have "storage_create_table D sch s = (Err (TableExists t), s)"
          using storage_create_table_exists [of s sch] by (simp add: sch_def)
        then show ?thesis by (intro refused [of "TableExists t"]) (simp add: run op_seq_step)
      next
        case None
        have new: "fmlookup (st_catalog s) (ts_name sch) = None" by (simp add: sch_def None)
        have ok: "schema_ok (ts_name sch) sch"
          using ne scs name by (simp add: schema_ok_def sch_def)
        show ?thesis
        proof (rule storage_create_table_ok [OF inv new ok])
          fix r s'
          assume r: "storage_create_table D sch s = (r, s')" "storage_inv D s'"
            "st_catalog s' = fmupd (ts_name sch) sch (st_catalog s)" "stored_of D s' (ts_name sch) = []"
            "\<And>u. u \<noteq> ts_name sch \<Longrightarrow> stored_of D s' u = stored_of D s u"
            "st_key s' = st_key s" "st_index_catalog s' = st_index_catalog s" "st_txn s' = st_txn s"
            "dk_snapshot s' = dk_snapshot s" "r = Ok () \<or> r = Err clock_error"
          have db: "db_of D s' = (db_of D s)(t \<mapsto> (scs, []))"
            using r(3-5) by (auto simp: fun_eq_iff db_of_def rows_of_def sch_def)
          from r have fr: "stmt_frame D s s'" by (simp add: stmt_frame_def)
          from r(10) show thesis
          proof
            assume "r = Ok ()"
            with r(1) have "create_table D t columns s = (Ok (Message (''table '' @ quoted t @ '' created'')), s')"
              by (simp add: run op_seq_step op_apply)
            then show thesis using created [OF Ok scs refs None _ fr db] by blast
          next
            assume "r = Err clock_error"
            with r(1) have "create_table D t columns s = (Err clock_error, s')"
              by (simp add: run op_seq_step)
            then show thesis using created [OF Ok scs refs None _ fr db] by blast
          qed
        qed
      qed
    qed
  qed
qed

lemma drop_table_cases:
  assumes inv: "storage_inv D s"
  obtains (dropped) r s' where "fmlookup (st_catalog s) t \<noteq> None"
      "\<And>u c pc. references (db_of D s) u c t pc \<Longrightarrow> u = t"
      "drop_table D t s = (r, s')" "stmt_frame D s s'" "db_of D s' = (db_of D s)(t := None)"
      "r = Ok (Message (''table '' @ quoted t @ '' dropped'')) \<or> r = Err clock_error"
  | (referenced) u c pc m where "references (db_of D s) u c t pc" "u \<noteq> t"
      "drop_table D t s = (Err (ConstraintViolation m), s)"
  | (unknown) "fmlookup (st_catalog s) t = None" "drop_table D t s = (Err (TableNotFound t), s)"
proof -
  obtain refs where refs: "referencing_columns s t = Ok refs"
    "\<And>u c pc. (u, c, pc) \<in> set refs \<longleftrightarrow> references (db_of D s) u c t pc"
    by (rule referencing_columns_ok) (rule that)
  show ?thesis
  proof (cases "find (\<lambda>(child, _, _). child \<noteq> t) refs")
    case (Some x)
    obtain u c pc where x: "x = (u, c, pc)" by (cases x) auto
    with Some have "(u, c, pc) \<in> set refs" "u \<noteq> t" by (auto simp: find_Some_iff in_set_conv_nth)
    with Some x refs show ?thesis by (intro referenced) (auto simp: drop_table_def op_apply)
  next
    case None
    then have self: "u = t" if "references (db_of D s) u c t pc" for u c pc
      using that refs(2) by (fastforce simp: find_None_iff)
    have run: "drop_table D t s = op_seq (storage_drop_table D t)
        (op_ret (Message (''table '' @ quoted t @ '' dropped''))) s"
      using None refs by (simp add: drop_table_def)
    show ?thesis
    proof (cases "fmlookup (st_catalog s) t = None")
      case True
      with storage_drop_table_missing [OF True, of D] show ?thesis
        by (intro unknown) (simp_all add: run op_seq_step)
    next
      case t: False
      show ?thesis
      proof (rule storage_drop_table_ok [OF inv t])
        fix r s'
        assume r: "storage_drop_table D t s = (r, s')" "storage_inv D s'"
          "st_catalog s' = fmdrop t (st_catalog s)" "\<And>u. u \<noteq> t \<Longrightarrow> stored_of D s' u = stored_of D s u"
          "st_key s' = st_key s" "st_txn s' = st_txn s" "dk_snapshot s' = dk_snapshot s"
          "r = Ok () \<or> r = Err clock_error"
        have db: "db_of D s' = (db_of D s)(t := None)"
          using r(3,4) by (auto simp: fun_eq_iff db_of_def rows_of_def)
        from r have fr: "stmt_frame D s s'" by (simp add: stmt_frame_def)
        from r(8) show thesis
        proof
          assume "r = Ok ()"
          with r(1) have "drop_table D t s = (Ok (Message (''table '' @ quoted t @ '' dropped'')), s')"
            by (simp add: run op_seq_step op_apply)
          then show thesis by (intro dropped [OF t _ _ fr db]) (auto dest: self)
        next
          assume "r = Err clock_error"
          with r(1) have "drop_table D t s = (Err clock_error, s')" by (simp add: run op_seq_step)
          then show thesis by (intro dropped [OF t _ _ fr db]) (auto dest: self)
        qed
      qed
    qed
  qed
qed

lemma create_table_achieves:
  assumes "storage_inv D s" "plain_name t"
  shows "achieves D s (statement_db D s (CreateTable t columns)) (create_table D t columns s)"
  by (rule create_table_cases [OF assms, of columns]) (auto simp: assms(1))

lemma drop_table_achieves:
  assumes "storage_inv D s"
  shows "achieves D s (statement_db D s (DropTable t)) (drop_table D t s)"
  by (rule drop_table_cases [OF assms, of t]) (auto simp: assms)

lemma same_tables_db_of:
  "st_catalog s' = st_catalog s \<Longrightarrow> (\<And>u. stored_of D s' u = stored_of D s u) \<Longrightarrow> db_of D s' = db_of D s"
  by (simp add: fun_eq_iff db_of_def rows_of_def)

lemma create_index_achieves:
  assumes inv: "storage_inv D s"
  shows "achieves D s (db_of D s) (create_index D n t c s)"
proof (cases "\<exists>sch. fmlookup (st_catalog s) t = Some sch \<and> has_column sch c \<and>
    (\<forall>ix \<in> set (st_index_catalog s). ix_name ix \<noteq> n \<and> \<not> (ix_table ix = t \<and> ix_column ix = c))")
  case False
  then have "\<exists>e. storage_create_index D n t c s = (Err e, s)"
    using storage_create_index_errors [where s = s and t = t and D = D and n = n and c = c] by (cases "fmlookup (st_catalog s) t") blast+
  with inv show ?thesis by (auto simp: create_index_def op_bind_def)
next
  case True
  then obtain sch where t: "fmlookup (st_catalog s) t = Some sch" "has_column sch c"
    "\<forall>ix \<in> set (st_index_catalog s). ix_name ix \<noteq> n \<and> \<not> (ix_table ix = t \<and> ix_column ix = c)" by blast
  show ?thesis
  proof (rule storage_create_index_ok [OF inv t])
    fix r s'
    assume r: "storage_create_index D n t c s = (r, s')" "storage_inv D s'" "st_catalog s' = st_catalog s"
      "\<And>u. stored_of D s' u = stored_of D s u" "st_key s' = st_key s" "st_txn s' = st_txn s"
      "dk_snapshot s' = dk_snapshot s" "is_ok r \<or> r = Err clock_error"
    then have "stmt_frame D s s'" "db_of D s' = db_of D s"
      by (auto simp: stmt_frame_def intro: same_tables_db_of)
    with r(1,8) show ?thesis by (auto simp: create_index_def op_bind_def op_apply is_ok_iff)
  qed
qed

lemma drop_index_achieves:
  assumes inv: "storage_inv D s"
  shows "achieves D s (db_of D s) (drop_index D n s)"
proof (cases "\<exists>ix \<in> set (st_index_catalog s). ix_name ix = n")
  case False
  then have "\<exists>e. storage_drop_index D n s = (Err e, s)"
    using storage_drop_index_missing [of s n D] by blast
  with inv show ?thesis by (auto simp: drop_index_def op_bind_def)
next
  case True
  then obtain ix where ix: "ix \<in> set (st_index_catalog s)" "ix_name ix = n" by blast
  show ?thesis
  proof (rule storage_drop_index_ok [OF inv ix])
    fix r s'
    assume r: "storage_drop_index D n s = (r, s')" "storage_inv D s'" "st_catalog s' = st_catalog s"
      "\<And>u. stored_of D s' u = stored_of D s u" "st_key s' = st_key s" "st_txn s' = st_txn s"
      "dk_snapshot s' = dk_snapshot s" "r = Ok (ix_table ix) \<or> r = Err clock_error"
    then have "stmt_frame D s s'" "db_of D s' = db_of D s"
      by (auto simp: stmt_frame_def intro: same_tables_db_of)
    with r(1,8) show ?thesis by (auto simp: drop_index_def op_bind_def op_apply)
  qed
qed

section \<open>Column changes\<close>

lemma add_column_achieves:
  assumes inv: "storage_inv D s"
  shows "achieves D s (statement_db D s (AlterTableAddColumn t col dflt)) (alter_table_add_column D t col dflt s)"
proof (cases "coerce_value (cd_name col) (cd_type col) (case dflt of None \<Rightarrow> VNull | Some v \<Rightarrow> v)")
  case (Err e)
  with inv show ?thesis by (simp add: alter_table_add_column_def)
next
  case (Panic p)
  then show ?thesis by (metis coerce_no_panic no_panic_simps(3))
next
  case (Ok v)
  then have v: "added_value col dflt = v" by (simp add: added_value_def)
  show ?thesis
  proof (cases "\<exists>sch. fmlookup (st_catalog s) t = Some sch \<and> \<not> has_column sch (cs_name (lower_column col))")
    case False
    then have "\<exists>e. add_column D t (lower_column col) v s = (Err e, s)"
      using add_column_errors [of s t] by (cases "fmlookup (st_catalog s) t") blast+
    with inv Ok show ?thesis by (auto simp: alter_table_add_column_def op_bind_def op_apply)
  next
    case True
    then obtain sch where t: "fmlookup (st_catalog s) t = Some sch" "\<not> has_column sch (cs_name (lower_column col))"
      by blast
    show ?thesis
    proof (rule add_column_ok [OF inv t, of v])
      fix r s'
      assume r: "add_column D t (lower_column col) v s = (r, s')"
        "column_change D t (ts_columns sch @ [lower_column col]) (fmupd (cs_name (lower_column col)) v) s s'"
        "r = Ok (length (stored_of D s t)) \<or> r = Err clock_error"
      have "db_of D s' = change_table t (\<lambda>cols. cols @ [lower_column col]) (map (fmupd (cd_name col) v)) (db_of D s)"
        by (simp add: column_change_db_of [OF r(2) t(1)])
      with r(1,3) column_change_stmt_frame [OF r(2)] Ok v show ?thesis
        by (auto simp: alter_table_add_column_def op_bind_def op_apply)
    qed
  qed
qed

lemma drop_column_achieves:
  assumes inv: "storage_inv D s"
  shows "achieves D s (statement_db D s (AlterTableDropColumn t c)) (alter_table_drop_column D t c s)"
proof (cases "\<exists>sch. fmlookup (st_catalog s) t = Some sch \<and> \<not> length (ts_columns sch) \<le> 1 \<and> has_column sch c")
  case False
  then have "\<exists>e. drop_column D t c s = (Err e, s)"
    using drop_column_errors [of s t] by (cases "fmlookup (st_catalog s) t") blast+
  with inv show ?thesis by (auto simp: alter_table_drop_column_def op_bind_def)
next
  case True
  then obtain sch where t: "fmlookup (st_catalog s) t = Some sch" "\<not> length (ts_columns sch) \<le> 1" "has_column sch c"
    by blast
  show ?thesis
  proof (rule drop_column_ok [OF inv t])
    fix r s'
    assume r: "drop_column D t c s = (r, s')"
      "column_change D t (filter (\<lambda>col. cs_name col \<noteq> c) (ts_columns sch)) (fmdrop c) s s'"
      "r = Ok (length (stored_of D s t)) \<or> r = Err clock_error"
    have "db_of D s' = change_table t (filter (\<lambda>col. cs_name col \<noteq> c)) (map (fmdrop c)) (db_of D s)"
      by (rule column_change_db_of [OF r(2) t(1)]) (rule refl)
    with r(1,3) column_change_stmt_frame [OF r(2)] show ?thesis
      by (auto simp: alter_table_drop_column_def op_bind_def op_apply)
  qed
qed

lemma rename_column_achieves:
  assumes inv: "storage_inv D s"
  shows "achieves D s (statement_db D s (AlterTableRenameColumn t old new)) (alter_table_rename_column D t old new s)"
proof (cases "\<exists>sch. fmlookup (st_catalog s) t = Some sch \<and> has_column sch old \<and> \<not> has_column sch new")
  case False
  then have "\<exists>e. rename_column D t old new s = (Err e, s)"
    using rename_column_errors [of s t] by (cases "fmlookup (st_catalog s) t") blast+
  with inv show ?thesis by (auto simp: alter_table_rename_column_def op_bind_def)
next
  case True
  then obtain sch where t: "fmlookup (st_catalog s) t = Some sch" "has_column sch old" "\<not> has_column sch new"
    by blast
  show ?thesis
  proof (rule rename_column_ok [OF inv t])
    fix r s'
    assume r: "rename_column D t old new s = (r, s')"
      "column_change D t (rename_columns old new (ts_columns sch)) (rename_key old new) s s'"
      "r = Ok (length (stored_of D s t)) \<or> r = Err clock_error"
    have "db_of D s' = change_table t (rename_columns old new) (map (rename_key old new)) (db_of D s)"
      by (rule column_change_db_of [OF r(2) t(1)]) (rule refl)
    with r(1,3) column_change_stmt_frame [OF r(2)] show ?thesis
      by (auto simp: alter_table_rename_column_def op_bind_def op_apply)
  qed
qed

section \<open>Every statement\<close>

lemma insert_achieves:
  assumes "storage_inv D s"
  shows "achieves D s (statement_db D s (Insert t columns vals)) (insert_row D t columns vals s)"
  by (rule insert_row_cases [OF assms, of t columns vals])
    (auto simp: change_table_rows intro: quiet_stmt_frame table_change_stmt_frame)

lemma update_achieves:
  assumes "storage_inv D s"
  shows "achieves D s (statement_db D s (Update t as f)) (update_rows D t as f s)"
  by (rule update_rows_cases [OF assms, of t f as])
    (auto simp: change_table_rows assms intro: quiet_stmt_frame table_change_stmt_frame)

lemma delete_achieves:
  assumes "storage_inv D s"
  shows "achieves D s (statement_db D s (Delete t f)) (delete_rows D t f s)"
  by (rule delete_rows_cases [OF assms, of t f])
    (auto simp: change_table_rows assms intro: table_change_stmt_frame)

fun is_transaction :: "statement \<Rightarrow> bool" where
  "is_transaction Begin = True"
| "is_transaction Commit = True"
| "is_transaction Rollback = True"
| "is_transaction _ = False"

fun plain_statement :: "statement \<Rightarrow> bool" where
  "plain_statement (CreateTable t _) = plain_name t"
| "plain_statement _ = True"

lemma query_unchecked:
  assumes "is_query st"
  shows "snd (execute_statement_unchecked D st s) = s"
  using assms by (cases st) (simp_all add: op_apply)

lemma query_achieves:
  assumes "storage_inv D s" "is_query st"
  shows "achieves D s (statement_db D s st) (execute_statement_unchecked D st s)"
proof -
  obtain r s' where run: "execute_statement_unchecked D st s = (r, s')" by fastforce
  have "s' = s" using query_unchecked [OF assms(2), of D s] run by simp
  moreover have "statement_db D s st = db_of D s" using assms(2) by (cases st) simp_all
  ultimately show ?thesis using assms(1) run by (cases r) simp_all
qed

lemma unchecked_achieves:
  assumes inv: "storage_inv D s" and "plain_statement st" "\<not> is_transaction st"
  shows "achieves D s (statement_db D s st) (execute_statement_unchecked D st s)"
proof (cases "is_query st")
  case True
  with inv show ?thesis by (rule query_achieves)
next
  case False
  with assms show ?thesis
    using create_index_achieves [OF inv] drop_index_achieves [OF inv] insert_achieves [OF inv]
      update_achieves [OF inv] delete_achieves [OF inv] create_table_achieves [OF inv]
      drop_table_achieves [OF inv] add_column_achieves [OF inv] drop_column_achieves [OF inv]
      rename_column_achieves [OF inv]
    by (cases st) (simp_all del: statement_db.simps(1,2,3,4,5,6,7,8))
qed

text \<open>Statements that are no schema change leave the columns, the indexes and the migrations alone.\<close>

lemma data_statement_frame:
  assumes inv: "storage_inv D s" and "\<not> is_schema_change st" "\<not> is_transaction st"
  shows "row_frame s (snd (execute_statement_unchecked D st s))"
proof (cases "is_query st")
  case True
  from query_unchecked [OF this, of D s] show ?thesis by simp
next
  case False
  with assms(2,3) consider t cs vs where "st = Insert t cs vs" | t as f where "st = Update t as f"
    | t f where "st = Delete t f" by (cases st) simp_all
  then show ?thesis
  proof cases
    case (1 t cs vs)
    show ?thesis
      by (rule insert_row_cases [OF inv, of t cs vs]) (simp_all add: 1 quiet_def table_change_def)
  next
    case (2 t as f)
    show ?thesis
      by (rule update_rows_cases [OF inv, of t f as]) (simp_all add: 2 quiet_def table_change_def)
  next
    case (3 t f)
    show ?thesis
      by (rule delete_rows_cases [OF inv, of t f]) (simp_all add: 3 quiet_def table_change_def)
  qed
qed

end
