(* ===== verification/Integrity.thy ===== *)
theory Integrity
  imports Engine_Correct
begin

text \<open>
  Which statements keep the integrity of the database. INSERT, DELETE, CREATE TABLE, DROP TABLE and
  the index statements always do, because of the checks they make. UPDATE and ALTER TABLE make
  weaker checks than would be needed: \<open>safe_in\<close> names the missing conditions.
\<close>

section \<open>The conditions\<close>

fun safe_in :: "db \<Rightarrow> statement \<Rightarrow> bool" where
  "safe_in db (Update t as f) \<longleftrightarrow> \<not> crossed_update db t as"
| "safe_in db (AlterTableAddColumn t col dflt) \<longleftrightarrow> set (cd_constraints col) \<subseteq> {CNotNull} \<and>
     (CNotNull \<in> set (cd_constraints col) \<longrightarrow> added_value col dflt \<noteq> VNull)"
| "safe_in db (AlterTableDropColumn t c) \<longleftrightarrow> (\<forall>u c'. \<not> references db u c' t c)"
| "safe_in db (AlterTableRenameColumn t old new) \<longleftrightarrow> (\<forall>u c'. \<not> references db u c' t old)"
| "safe_in db st \<longleftrightarrow> True"

section \<open>Tables that come and go\<close>

lemma references_new:
  assumes "db t = None"
  shows "references (db(t \<mapsto> (cols, rows))) u c pt pc \<longleftrightarrow>
    (if u = t then \<exists>col \<in> set cols. cs_name col = c \<and> References pt pc \<in> set (cs_constraints col)
     else references db u c pt pc)"
  by (auto simp: references_def)

lemma integrity_create:
  assumes i: "integrity db" and new: "db t = None"
  shows "integrity (db(t \<mapsto> (cols, [])))"
  unfolding integrity_def keys_ok_def
proof (intro conjI allI impI)
  fix u ucols urows assume "(db(t \<mapsto> (cols, []))) u = Some (ucols, urows)"
  with integrityD(1) [OF i, of u ucols urows] show "table_ok ucols urows"
    by (auto simp: table_ok_def column_unique_def split: if_splits)
next
  fix u c pt pc ucols urows r
  assume *: "references (db(t \<mapsto> (cols, []))) u c pt pc" "(db(t \<mapsto> (cols, []))) u = Some (ucols, urows)"
    "r \<in> set urows"
  then have u: "u \<noteq> t" by auto
  with * new have "references db u c pt pc" "db u = Some (ucols, urows)" by (simp_all add: references_new)
  with keys_okD [OF integrityD(2) [OF i] _ _ *(3)]
  have "row_get r c = VNull \<or> key_present db pt pc (row_get r c)" by blast
  with new show "row_get r c = VNull \<or> key_present (db(t \<mapsto> (cols, []))) pt pc (row_get r c)"
    by (auto simp: key_present_def)
qed

lemma integrity_drop:
  assumes i: "integrity db" and free: "\<And>u c pc. references db u c t pc \<Longrightarrow> u = t"
  shows "integrity (db(t := None))"
  unfolding integrity_def keys_ok_def
proof (intro conjI allI impI)
  fix u ucols urows assume "(db(t := None)) u = Some (ucols, urows)"
  with integrityD(1) [OF i, of u ucols urows] show "table_ok ucols urows" by (auto split: if_splits)
next
  fix u c pt pc ucols urows r
  assume *: "references (db(t := None)) u c pt pc" "(db(t := None)) u = Some (ucols, urows)" "r \<in> set urows"
  then have u: "u \<noteq> t" by auto
  with * have ref: "references db u c pt pc" "db u = Some (ucols, urows)" by (auto simp: references_def)
  with u free have "pt \<noteq> t" by blast
  with keys_okD [OF integrityD(2) [OF i] ref *(3)]
  show "row_get r c = VNull \<or> key_present (db(t := None)) pt pc (row_get r c)"
    by (auto simp: key_present_def)
qed

section \<open>Column changes\<close>

text \<open>
  Rows are mapped by \<open>f\<close>; \<open>src c\<close> is the old column the values of the new column \<open>c\<close> come from.
\<close>

lemma keys_ok_alter:
  assumes ok: "keys_ok db" and t: "db t = Some (cols, rows)"
    and src: "\<And>c pt pc. references (db(t \<mapsto> (cols', map f rows))) t c pt pc \<Longrightarrow>
      references db t (src c) pt pc \<and> (\<forall>r \<in> set rows. row_get (f r) c = row_get r (src c))"
    and parent: "\<And>u c pc r w. references db u c t pc \<Longrightarrow> r \<in> set rows \<Longrightarrow> fmlookup r pc = Some w \<Longrightarrow>
      fmlookup (f r) pc = Some w"
  shows "keys_ok (db(t \<mapsto> (cols', map f rows)))"
  unfolding keys_ok_def
proof (intro allI impI)
  let ?db = "db(t \<mapsto> (cols', map f rows))"
  fix u c pt pc ucols urows r
  assume ref: "references ?db u c pt pc" and u: "?db u = Some (ucols, urows)" and r: "r \<in> set urows"
  have keep: "key_present db pt pc v \<Longrightarrow> references db w d pt pc \<Longrightarrow> key_present ?db pt pc v" for w d v
    using t parent [of w d pc] by (auto simp: key_present_upd) (auto simp: key_present_def)
  show "row_get r c = VNull \<or> key_present ?db pt pc (row_get r c)"
  proof (cases "u = t")
    case True
    with u r obtain r0 where r0: "r0 \<in> set rows" "r = f r0" by auto
    from src [of c pt pc] ref True r0
    have s: "references db t (src c) pt pc" "row_get r c = row_get r0 (src c)" by auto
    from keys_okD [OF ok s(1) t r0(1)] keep [OF _ s(1)] s(2) show ?thesis by auto
  next
    case False
    with ref u have s: "references db u c pt pc" "db u = Some (ucols, urows)" by (auto simp: references_def)
    from keys_okD [OF ok s r] keep [OF _ s(1)] show ?thesis by auto
  qed
qed

lemma integrity_alter:
  assumes "integrity db" "db t = Some (cols, rows)" "table_ok cols' (map f rows)"
    and "keys_ok (db(t \<mapsto> (cols', map f rows)))"
  shows "integrity (db(t \<mapsto> (cols', map f rows)))"
  using assms by (auto simp: integrity_def)

lemma references_upd_self:
  "references (db(t \<mapsto> (cols, rows))) t c pt pc \<longleftrightarrow>
   (\<exists>col \<in> set cols. cs_name col = c \<and> References pt pc \<in> set (cs_constraints col))"
  by (auto simp: references_def)

lemma references_self:
  "db t = Some (cols, rows) \<Longrightarrow> references db t c pt pc \<longleftrightarrow>
   (\<exists>col \<in> set cols. cs_name col = c \<and> References pt pc \<in> set (cs_constraints col))"
  by (auto simp: references_def)

lemma row_get_upd_other: "c \<noteq> d \<Longrightarrow> row_get (fmupd d v r) c = row_get r c"
  by (simp add: row_get_def)

lemma row_get_drop_other: "c \<noteq> d \<Longrightarrow> row_get (fmdrop d r) c = row_get r c"
  by (simp add: row_get_def)

lemma column_unique_map_same:
  "(\<And>r. r \<in> set rows \<Longrightarrow> row_get (f r) c = row_get r d) \<Longrightarrow>
   column_unique c (map f rows) \<longleftrightarrow> column_unique d rows"
  by (simp add: column_unique_def comp_def cong: map_cong)

lemma integrity_add_column:
  assumes i: "integrity db" and t: "db t = Some (cols, rows)" and new: "cs_name col \<notin> cs_name ` set cols"
    and con: "set (cs_constraints col) \<subseteq> {NotNull}" and ty: "has_type (cs_type col) v"
    and nn: "NotNull \<in> set (cs_constraints col) \<Longrightarrow> v \<noteq> VNull"
  shows "integrity (db(t \<mapsto> (cols @ [col], map (fmupd (cs_name col) v) rows)))"
proof (rule integrity_alter [OF i t])
  let ?f = "fmupd (cs_name col) v"
  have tab: "table_ok cols rows" by (rule integrityD(1) [OF i t])
  have old: "row_get (?f r) (cs_name c) = row_get r (cs_name c)" if "c \<in> set cols" for c r
    using that new by (intro row_get_upd_other) (metis imageI)
  have plain: "\<not> is_unique col" using con by (auto simp: is_unique_def has_constraint_def)
  have need: "needs_value col \<Longrightarrow> v \<noteq> VNull" using con nn by (auto simp: needs_value_def has_constraint_def)
  have "row_typed (cols @ [col]) (?f r) \<and> row_not_null (cols @ [col]) (?f r)" if "r \<in> set rows" for r
    using tab that old ty need by (simp add: table_ok_def row_typed_def row_not_null_def fmdom'_fmupd)
  moreover have "column_unique (cs_name c) (map ?f rows)" if "c \<in> set (cols @ [col])" "is_unique c" for c
    using that plain tab old by (auto simp: table_ok_def column_unique_map_same)
  ultimately show "table_ok (cols @ [col]) (map ?f rows)" by (auto simp: table_ok_def)
  show "keys_ok (db(t \<mapsto> (cols @ [col], map ?f rows)))"
  proof (rule keys_ok_alter [OF integrityD(2) [OF i] t, where src = "\<lambda>c. c"])
    fix c pt pc assume "references (db(t \<mapsto> (cols @ [col], map ?f rows))) t c pt pc"
    with con obtain c0 where c0: "c0 \<in> set cols" "c = cs_name c0" "References pt pc \<in> set (cs_constraints c0)"
      by (auto simp: references_upd_self)
    from c0(1,3) have "references db t (cs_name c0) pt pc" by (auto simp: references_self [where db = db, OF t])
    with old [OF c0(1)] c0(2) show "references db t c pt pc \<and> (\<forall>r \<in> set rows. row_get (?f r) c = row_get r c)"
      by metis
  next
    fix pc r w assume r: "r \<in> set rows" "fmlookup r pc = Some w"
    with tab have "pc \<in> cs_name ` set cols"
      unfolding table_ok_def row_typed_def by (metis fmdom'I)
    with new have "pc \<noteq> cs_name col" by metis
    with r(2) show "fmlookup (?f r) pc = Some w" by simp
  qed
qed

lemma integrity_drop_column:
  assumes i: "integrity db" and t: "db t = Some (cols, rows)" and free: "\<And>u d. \<not> references db u d t c"
  shows "integrity (db(t \<mapsto> (filter (\<lambda>col. cs_name col \<noteq> c) cols, map (fmdrop c) rows)))"
proof (rule integrity_alter [OF i t])
  let ?cols = "filter (\<lambda>col. cs_name col \<noteq> c) cols"
  have tab: "table_ok cols rows" by (rule integrityD(1) [OF i t])
  have old: "row_get (fmdrop c r) (cs_name col) = row_get r (cs_name col)" if "col \<in> set ?cols" for col r
    using that by (intro row_get_drop_other) simp
  have "row_typed ?cols (fmdrop c r) \<and> row_not_null ?cols (fmdrop c r)" if "r \<in> set rows" for r
    using tab that old by (auto simp: table_ok_def row_typed_def row_not_null_def fmdom'_drop)
  moreover have "column_unique (cs_name col) (map (fmdrop c) rows)" if "col \<in> set ?cols" "is_unique col" for col
    using that tab old by (auto simp: table_ok_def column_unique_map_same)
  ultimately show "table_ok ?cols (map (fmdrop c) rows)" unfolding table_ok_def by auto
  show "keys_ok (db(t \<mapsto> (?cols, map (fmdrop c) rows)))"
  proof (rule keys_ok_alter [OF integrityD(2) [OF i] t, where src = "\<lambda>c. c"])
    fix d pt pc assume "references (db(t \<mapsto> (?cols, map (fmdrop c) rows))) t d pt pc"
    with old show "references db t d pt pc \<and> (\<forall>r \<in> set rows. row_get (fmdrop c r) d = row_get r d)"
      by (auto simp: references_upd_self references_self [where db = db, OF t])
  next
    fix u d pc r w assume "references db u d t pc" "fmlookup r pc = Some w"
    with free have "pc \<noteq> c" by blast
    then show "fmlookup (fmdrop c r) pc = Some w" using \<open>fmlookup r pc = Some w\<close> by simp
  qed
qed

lemma rename_key_get:
  assumes "row_typed cols r" "old \<in> cs_name ` set cols" "new \<notin> cs_name ` set cols"
  shows "row_get (rename_key old new r) new = row_get r old"
    and "c \<noteq> old \<Longrightarrow> c \<noteq> new \<Longrightarrow> fmlookup (rename_key old new r) c = fmlookup r c"
    and "fmdom' (rename_key old new r) = insert new (fmdom' r - {old})"
proof -
  from assms obtain col where "col \<in> set cols" "old = cs_name col" by blast
  with row_typed_get [OF assms(1)] obtain v where "fmlookup r old = Some v" by blast
  then show "row_get (rename_key old new r) new = row_get r old"
    "c \<noteq> old \<Longrightarrow> c \<noteq> new \<Longrightarrow> fmlookup (rename_key old new r) c = fmlookup r c"
    "fmdom' (rename_key old new r) = insert new (fmdom' r - {old})"
    by (auto simp: rename_key_def row_get_def fmdom'_drop fmdom'_fmupd)
qed

lemma integrity_rename_column:
  assumes i: "integrity db" and t: "db t = Some (cols, rows)" and free: "\<And>u d. \<not> references db u d t old"
    and names: "old \<in> cs_name ` set cols" "new \<notin> cs_name ` set cols"
  shows "integrity (db(t \<mapsto> (rename_columns old new cols, map (rename_key old new) rows)))"
proof (rule integrity_alter [OF i t])
  define nm :: "column_schema \<Rightarrow> column_schema" where "nm = (\<lambda>col. if cs_name col = old then col\<lparr>cs_name := new\<rparr> else col)"
  have cols: "rename_columns old new cols = map nm cols" by (simp add: rename_columns_def nm_def)
  have tab: "table_ok cols rows" by (rule integrityD(1) [OF i t])
  then have typed: "row_typed cols r" if "r \<in> set rows" for r using that by (simp add: table_ok_def)
  have get: "row_get (rename_key old new r) (cs_name (nm col)) = row_get r (cs_name col)"
    if "col \<in> set cols" "r \<in> set rows" for col r
  proof (cases "cs_name col = old")
    case True
    with rename_key_get(1) [OF typed [OF that(2)] names] show ?thesis by (simp add: nm_def)
  next
    case False
    from that(1) names(2) have "cs_name col \<noteq> new" by (metis imageI)
    with False rename_key_get(2) [OF typed [OF that(2)] names] show ?thesis by (simp add: nm_def row_get_def)
  qed
  have fields: "cs_type (nm col) = cs_type col" "cs_constraints (nm col) = cs_constraints col" for col
    by (simp_all add: nm_def)
  then have con: "needs_value (nm col) = needs_value col" "is_unique (nm col) = is_unique col" for col
    by (simp_all add: needs_value_def is_unique_def has_constraint_def)
  have dom: "cs_name ` nm ` set cols = insert new (cs_name ` set cols - {old})"
  proof -
    have "cs_name (nm col) = (if cs_name col = old then new else cs_name col)" for col by (simp add: nm_def)
    then have "cs_name ` nm ` set cols = (\<lambda>n. if n = old then new else n) ` cs_name ` set cols"
      by (auto simp: image_image)
    with names(1) show ?thesis by auto
  qed
  have "row_typed (map nm cols) (rename_key old new r) \<and> row_not_null (map nm cols) (rename_key old new r)"
    if r: "r \<in> set rows" for r
  proof -
    have "fmdom' (rename_key old new r) = cs_name ` nm ` set cols"
      using rename_key_get(3) [OF typed [OF r] names] typed [OF r] by (simp add: dom row_typed_def)
    with tab r get con fields show ?thesis
      by (auto simp: table_ok_def row_typed_def row_not_null_def)
  qed
  moreover have "column_unique (cs_name (nm col)) (map (rename_key old new) rows)"
    if "col \<in> set cols" "is_unique (nm col)" for col
    using that tab get con by (subst column_unique_map_same) (auto simp: table_ok_def)
  ultimately show "table_ok (rename_columns old new cols) (map (rename_key old new) rows)"
    by (auto simp: table_ok_def cols)
  show "keys_ok (db(t \<mapsto> (rename_columns old new cols, map (rename_key old new) rows)))"
  proof (rule keys_ok_alter [OF integrityD(2) [OF i] t, where src = "\<lambda>c. if c = new then old else c"])
    fix d pt pc assume "references (db(t \<mapsto> (rename_columns old new cols, map (rename_key old new) rows))) t d pt pc"
    then obtain col where col: "col \<in> set cols" "d = cs_name (nm col)" "References pt pc \<in> set (cs_constraints col)"
      by (auto simp: references_upd_self cols fields)
    have "(if d = new then old else d) = cs_name col"
      using col(1,2) names(2) by (auto simp: nm_def)
    with col get show "references db t (if d = new then old else d) pt pc \<and>
        (\<forall>r \<in> set rows. row_get (rename_key old new r) d = row_get r (if d = new then old else d))"
      by (auto simp: references_self [where db = db, OF t])
  next
    fix u d pc r w assume *: "references db u d t pc" "r \<in> set rows" "fmlookup r pc = Some w"
    with free have "pc \<noteq> old" by blast
    moreover have "pc \<in> cs_name ` set cols"
      using typed [OF *(2)] *(3) unfolding row_typed_def by (metis fmdom'I)
    then have "pc \<noteq> new" using names(2) by metis
    ultimately show "fmlookup (rename_key old new r) pc = Some w"
      using rename_key_get(2) [OF typed [OF *(2)] names] *(3) by simp
  qed
qed

section \<open>Every safe statement\<close>

lemma added_value_typed: "has_type (cd_type col) (added_value col dflt)"
  by (auto simp: added_value_def has_type_def [of _ VNull] split: res.splits dest: coerce_has_type)

lemma lower_plain:
  "set (cd_constraints col) \<subseteq> {CNotNull} \<Longrightarrow> set (cs_constraints (lower_column col)) \<subseteq> {NotNull}"
  "NotNull \<in> set (cs_constraints (lower_column col)) \<longleftrightarrow> CNotNull \<in> set (cd_constraints col)"
  by (auto simp: lower_column_def image_iff) (metis lower_constraint.simps column_constraint.exhaust constraint_t.distinct)+

lemma added_column_is_new:
  assumes "storage_inv D s" "alter_table_add_column D t col dflt s = (r, s')" "db_of D s' \<noteq> db_of D s"
    and "db_of D s t = Some (cols, rows)"
  shows "cd_name col \<notin> cs_name ` set cols"
proof
  assume in_cols: "cd_name col \<in> cs_name ` set cols"
  from assms(4) obtain sch where sch: "fmlookup (st_catalog s) t = Some sch" "ts_columns sch = cols"
    by (auto simp: db_of_def)
  with in_cols have "has_column sch (cs_name (lower_column col))" by (auto simp: has_column_def)
  then have err: "\<exists>e. add_column D t (lower_column col) v s = (Err e, s)" for v
    using add_column_errors(2) [OF sch(1)] by blast
  have "s' = s"
  proof (cases "coerce_value (cd_name col) (cd_type col) (case dflt of None \<Rightarrow> VNull | Some v \<Rightarrow> v)")
    case (Ok v)
    from err [of v] obtain e where "add_column D t (lower_column col) v s = (Err e, s)" by blast
    with Ok assms(2) show ?thesis by (simp add: alter_table_add_column_def op_bind_def op_apply)
  qed (use assms(2) in \<open>simp_all add: alter_table_add_column_def\<close>)
  with assms(3) show False by simp
qed

lemma renamed_columns:
  assumes "storage_inv D s" "alter_table_rename_column D t old new s = (r, s')" "db_of D s' \<noteq> db_of D s"
    and "db_of D s t = Some (cols, rows)"
  shows "old \<in> cs_name ` set cols \<and> new \<notin> cs_name ` set cols"
proof (rule ccontr)
  assume bad: "\<not> (old \<in> cs_name ` set cols \<and> new \<notin> cs_name ` set cols)"
  from assms(4) obtain sch where sch: "fmlookup (st_catalog s) t = Some sch" "ts_columns sch = cols"
    by (auto simp: db_of_def)
  with bad have "\<not> has_column sch old \<or> has_column sch old \<and> has_column sch new" by (auto simp: has_column_def)
  then have "\<exists>e. rename_column D t old new s = (Err e, s)"
    using rename_column_errors(2,3) [OF sch(1)] by blast
  with assms(2,3) show False by (auto simp: alter_table_rename_column_def op_bind_def)
qed

lemma crossed_names: "map fst bs = map fst as \<Longrightarrow> crossed_update db t bs = crossed_update db t as"
  unfolding crossed_update_def by (metis list.set_map)

lemma change_table_None [simp]: "db t = None \<Longrightarrow> change_table t fc fr db = db"
  by (simp add: change_table_def)

lemma change_table_Some [simp]: "db t = Some (cols, rows) \<Longrightarrow> change_table t fc fr db = db(t \<mapsto> (fc cols, fr rows))"
  by (simp add: change_table_def)

text \<open>The database a statement is allowed to reach: what it would make of it if it succeeds.\<close>

lemma safe_statement_integrity:
  assumes inv: "storage_inv D s" and i: "integrity (db_of D s)" and safe: "safe_in (db_of D s) st"
    and run: "execute_statement_unchecked D st s = (r, s')" and plain: "plain_statement st"
    and "\<not> is_transaction st"
  shows "integrity (db_of D s')"
proof -
  have keep: "integrity (db_of D s')" if "db_of D s' = db_of D s" using that i by simp
  have ach: "achieves D s (statement_db D s st) (r, s')"
    using unchecked_achieves [OF inv plain] assms(6) run by metis
  have neutral: "integrity (db_of D s')" if "statement_db D s st = db_of D s"
    using ach that by (intro keep) (cases r; auto)
  have column: "integrity (db_of D s')"
    if "\<And>cols rows. db_of D s t = Some (cols, rows) \<Longrightarrow> db_of D s' \<noteq> db_of D s \<Longrightarrow> integrity ((db_of D s)(t \<mapsto> (fc cols, fr rows)))"
      and "statement_db D s st = change_table t fc fr (db_of D s)" for t fc fr
  proof (cases "db_of D s' = db_of D s")
    case False
    with ach have "db_of D s' = change_table t fc fr (db_of D s)" using that(2) by (cases r) auto
    with False that(1) show ?thesis by (cases "db_of D s t") (auto simp del: db_of_None)
  qed (rule keep)
  show ?thesis
  proof (cases st)
    case (CreateTable t columns)
    with plain have name: "plain_name t" by simp
    from inv name show ?thesis
    proof (cases rule: create_table_cases [where columns = columns])
      case (created scs r1 s1)
      with run CreateTable integrity_create [OF i, of t scs] show ?thesis by simp
    qed (use run CreateTable i in simp)
  next
    case (DropTable t)
    from inv show ?thesis
    proof (cases rule: drop_table_cases [where t = t])
      case (dropped r1 s1)
      with run DropTable integrity_drop [OF i, of t] show ?thesis by auto
    qed (use run DropTable i in simp_all)
  next
    case (Insert t columns vals)
    from inv show ?thesis
    proof (cases rule: insert_row_cases [where t = t and columns = columns and vals = vals])
      case (inserted sch row s1)
      with run Insert insert_keeps_integrity [OF inv i inserted(1-3,5)] show ?thesis by simp
    next
      case (rejected e s1)
      with run Insert i show ?thesis by simp
    qed
  next
    case (Update t as f)
    from inv show ?thesis
    proof (cases rule: update_rows_cases [where t = t and f = f and as = as])
      case (updated sch g bs s1)
      have names: "map fst bs = map fst as"
        by (rule prepare_assignments_ok(1) [OF updated(3) storage_inv_distinct [OF inv updated(1)]])
      have "\<not> crossed_update (db_of D s) t bs"
        unfolding crossed_names [OF names] using safe Update by simp
      from run Update updated(5) update_keeps_integrity [OF inv i updated(1,3,4) this updated(6)] show ?thesis by simp
    next
      case (rejected e s1)
      with run Update i show ?thesis by simp
    next
      case (unwound p)
      with run Update i show ?thesis by simp
    qed
  next
    case (Delete t f)
    from inv show ?thesis
    proof (cases rule: delete_rows_cases [where t = t and f = f])
      case (deleted sch g s1)
      with run Delete delete_keeps_integrity [OF inv i deleted(1,3,5)] show ?thesis by simp
    next
      case (rejected e)
      with run Delete i show ?thesis by simp
    next
      case (unwound p)
      with run Delete i show ?thesis by simp
    qed
  next
    case (AlterTableAddColumn t col dflt)
    show ?thesis
    proof (rule column [of t "\<lambda>cols. cols @ [lower_column col]" "map (fmupd (cd_name col) (added_value col dflt))"])
      fix cols rows
      assume t: "db_of D s t = Some (cols, rows)" and "db_of D s' \<noteq> db_of D s"
      with run AlterTableAddColumn added_column_is_new [OF inv] have "cd_name col \<notin> cs_name ` set cols"
        by (metis execute_statement_unchecked.simps(5))
      with safe AlterTableAddColumn added_value_typed [of col dflt]
      show "integrity ((db_of D s)(t \<mapsto> (cols @ [lower_column col], map (fmupd (cd_name col) (added_value col dflt)) rows)))"
        using integrity_add_column [OF i t, of "lower_column col" "added_value col dflt"] lower_plain [of col]
        by (auto simp: lower_column_def)
    qed (simp add: AlterTableAddColumn)
  next
    case (AlterTableDropColumn t c)
    show ?thesis
    proof (rule column [of t "filter (\<lambda>col. cs_name col \<noteq> c)" "map (fmdrop c)"])
      fix cols rows
      assume t: "db_of D s t = Some (cols, rows)"
      with safe AlterTableDropColumn
      show "integrity ((db_of D s)(t \<mapsto> (filter (\<lambda>col. cs_name col \<noteq> c) cols, map (fmdrop c) rows)))"
        by (intro integrity_drop_column [OF i t]) simp
    qed (simp add: AlterTableDropColumn)
  next
    case (AlterTableRenameColumn t old new)
    show ?thesis
    proof (rule column [of t "rename_columns old new" "map (rename_key old new)"])
      fix cols rows
      assume t: "db_of D s t = Some (cols, rows)" and "db_of D s' \<noteq> db_of D s"
      with run AlterTableRenameColumn renamed_columns [OF inv]
      have "old \<in> cs_name ` set cols" "new \<notin> cs_name ` set cols"
        by (metis execute_statement_unchecked.simps(7))+
      with safe AlterTableRenameColumn
      show "integrity ((db_of D s)(t \<mapsto> (rename_columns old new cols, map (rename_key old new) rows)))"
        by (intro integrity_rename_column [OF i t]) simp_all
    qed (simp add: AlterTableRenameColumn)
  qed (use assms(6) neutral in simp_all)
qed

end
