(* ===== verification/Session.thy ===== *)
theory Session
  imports Integrity
begin

text \<open>
  The engine around the handlers: authorization, the audit log, transactions, restarts and the
  states an engine can reach.
\<close>

section \<open>The clock\<close>

lemma located_clock [simp]: "located D (s\<lparr>dk_clock := c\<rparr>) t = located D s t"
  by (simp add: located_def content_of_def)

lemma db_of_clock [simp]: "db_of D (s\<lparr>dk_clock := c\<rparr>) = db_of D s"
  by (simp add: fun_eq_iff db_of_def rows_of_def stored_of_def)

lemma column_keys_clock [simp]: "rows_of D (s\<lparr>dk_clock := c\<rparr>) t = rows_of D s t"
  by (simp add: rows_of_def stored_of_def)

lemma unique_cache_clock [simp]: "unique_cache_of (s\<lparr>dk_clock := c\<rparr>) t col = unique_cache_of s t col"
  by (simp add: unique_cache_of_def)

lemma storage_inv_clock [simp]: "storage_inv D (s\<lparr>dk_clock := c\<rparr>) \<longleftrightarrow> storage_inv D s"
  by (simp add: storage_inv_def tables_ok_def indexes_ok_def caches_ok_def metadata_ok_def index_files_ok_def
      index_ok_def content_of_def)

lemma stmt_frame_clock [simp]: "stmt_frame D s (s'\<lparr>dk_clock := c\<rparr>) \<longleftrightarrow> stmt_frame D s s'"
  by (simp add: stmt_frame_def)

lemma storage_inv_commit: "storage_inv D (s\<lparr>st_txn := b, dk_snapshot := snap\<rparr>) \<longleftrightarrow> storage_inv D s"
  by (simp add: storage_inv_def tables_ok_def indexes_ok_def caches_ok_def metadata_ok_def index_files_ok_def
      index_ok_def content_of_def located_def rows_of_def stored_of_def unique_cache_of_def)

lemma db_of_commit: "db_of D (s\<lparr>st_txn := b, dk_snapshot := snap\<rparr>) = db_of D s"
  by (simp add: fun_eq_iff db_of_def rows_of_def stored_of_def located_def content_of_def)

section \<open>One statement under a role\<close>

definition answer :: "deps \<Rightarrow> statement \<Rightarrow> engine \<Rightarrow> query_result result" where
  "answer D st e = (if role_allows (id_role (en_identity e)) st
     then fst (execute_statement_unchecked D st (en_storage e))
     else Err (AuthorizationDenied (id_username (en_identity e)) (statement_action st)))"

definition after :: "deps \<Rightarrow> statement \<Rightarrow> engine \<Rightarrow> storage" where
  "after D st e = (if role_allows (id_role (en_identity e)) st
     then snd (execute_statement_unchecked D st (en_storage e)) else en_storage e)"

definition audit_line :: "deps \<Rightarrow> statement \<Rightarrow> engine \<Rightarrow> nat \<Rightarrow> string" where
  "audit_line D st e now = d_audit_json D
     \<lparr>ae_timestamp = now, ae_username = id_username (en_identity e), ae_role = id_role (en_identity e),
      ae_action = statement_action st, ae_success = is_ok (answer D st e),
      ae_message = (case answer D st e of Err err \<Rightarrow> Some (show_error err) | _ \<Rightarrow> None)\<rparr> @ [NL]"

lemma answer_panics: "panics_within (\<lambda>p. sorts st \<and> sort_panic D p) (answer D st e)"
  using op_panics_withinD [OF unchecked_panics] by (simp add: answer_def)

text \<open>A statement that unwinds reads no clock and leaves no audit entry.\<close>

lemma execute_statement_eq:
  "execute_statement D st e =
     (let s = after D st e; e1 = e\<lparr>en_storage := s\<lparr>dk_clock := Suc (dk_clock s)\<rparr>\<rparr> in
      if \<not> no_panic (answer D st e) then (answer D st e, e\<lparr>en_storage := s\<rparr>) else
      case d_now D (dk_clock s) of
        None \<Rightarrow> (Err clock_error, e1)
      | Some now \<Rightarrow> (answer D st e, e1\<lparr>en_audit := en_audit e @ audit_line D st e now\<rparr>))"
proof (cases "role_allows (id_role (en_identity e)) st")
  case False
  then show ?thesis
    by (simp add: execute_statement_def audit_log_def answer_def after_def audit_line_def op_seq_def op_bind_def
        op_apply Let_def split: option.splits)
next
  case True
  obtain r s where run: "execute_statement_unchecked D st (en_storage e) = (r, s)" by fastforce
  with True show ?thesis
    by (cases r) (simp_all add: execute_statement_def on_storage_def audit_log_def answer_def after_def
        audit_line_def op_seq_def op_bind_def op_apply Let_def split: option.splits)
qed

lemma execute_storage:
  obtains c where "en_storage (snd (execute_statement D st e)) = (after D st e)\<lparr>dk_clock := c\<rparr>"
    "en_identity (snd (execute_statement D st e)) = en_identity e"
  by (rule that [of "if no_panic (answer D st e) then Suc (dk_clock (after D st e)) else dk_clock (after D st e)"])
    (simp_all add: execute_statement_eq Let_def split: option.splits)

lemma execute_result:
  "fst (execute_statement D st e) = answer D st e \<or>
   fst (execute_statement D st e) = Err clock_error \<and> no_panic (answer D st e)"
  by (simp add: execute_statement_eq Let_def split: option.splits)

lemma after_achieves:
  assumes inv: "storage_inv D (en_storage e)" and "plain_statement st" "\<not> is_transaction st"
  shows "achieves D (en_storage e) (statement_db D (en_storage e) st) (answer D st e, after D st e)"
  using unchecked_achieves [OF assms] inv by (simp add: answer_def after_def)

section \<open>Transactions\<close>

text \<open>The rest of a session, whatever the outcome of each statement.\<close>

definition run_all :: "deps \<Rightarrow> statement list \<Rightarrow> engine \<Rightarrow> engine" where
  "run_all D sts e = fold (\<lambda>st e. snd (execute_statement D st e)) sts e"

lemma run_all_simps [simp]:
  "run_all D [] e = e" "run_all D (st # sts) e = run_all D sts (snd (execute_statement D st e))"
  by (simp_all add: run_all_def)

definition in_transaction :: "deps \<Rightarrow> storage \<Rightarrow> storage \<Rightarrow> bool" where
  "in_transaction D s0 s \<longleftrightarrow> storage_inv D s \<and> st_txn s \<and> st_key s = st_key s0 \<and>
     (\<exists>snap. dk_snapshot s = Some snap \<and> snapshot_of D s0 snap)"

lemma in_transaction_frame:
  "in_transaction D s0 s \<Longrightarrow> stmt_frame D s s' \<Longrightarrow> in_transaction D s0 s'"
  by (simp add: in_transaction_def stmt_frame_def)

lemma in_transaction_clock [simp]: "in_transaction D s0 (s\<lparr>dk_clock := c\<rparr>) \<longleftrightarrow> in_transaction D s0 s"
  by (simp add: in_transaction_def)

fun ends_transaction :: "statement \<Rightarrow> bool" where
  "ends_transaction Commit = True"
| "ends_transaction Rollback = True"
| "ends_transaction _ = False"

lemma after_frame:
  assumes inv: "storage_inv D (en_storage e)" and "plain_statement st" "\<not> is_transaction st"
  shows "stmt_frame D (en_storage e) (after D st e)"
  using after_achieves [OF assms] by (simp add: achieves_def)

lemma after_in_transaction:
  assumes t: "in_transaction D s0 (en_storage e)" and "plain_statement st" "\<not> ends_transaction st"
  shows "in_transaction D s0 (after D st e)"
proof (cases "st = Begin")
  case True
  from t have "st_txn (en_storage e)" by (simp add: in_transaction_def)
  from begin_transaction_busy [OF this, of D] True t show ?thesis
    by (simp add: after_def op_seq_def op_bind_def)
next
  case False
  with assms(3) have "\<not> is_transaction st" by (cases st) simp_all
  from in_transaction_frame [OF t after_frame [OF _ assms(2) this]] t show ?thesis
    by (simp add: in_transaction_def)
qed

lemma run_in_transaction:
  assumes "in_transaction D s0 (en_storage e)" "\<forall>st \<in> set sts. plain_statement st \<and> \<not> ends_transaction st"
  shows "in_transaction D s0 (en_storage (run_all D sts e)) \<and> en_identity (run_all D sts e) = en_identity e"
  using assms
proof (induction sts arbitrary: e)
  case (Cons st sts)
  obtain c where c: "en_storage (snd (execute_statement D st e)) = (after D st e)\<lparr>dk_clock := c\<rparr>"
    "en_identity (snd (execute_statement D st e)) = en_identity e" by (rule execute_storage)
  have "in_transaction D s0 (after D st e)"
    using Cons.prems by (intro after_in_transaction) simp_all
  with Cons.IH [of "snd (execute_statement D st e)"] Cons.prems(2) c show ?case by simp
qed simp

lemma begin_ok:
  assumes inv: "storage_inv D (en_storage e)" and idle: "\<not> st_txn (en_storage e)"
    and role: "role_allows (id_role (en_identity e)) Begin"
  shows "in_transaction D (en_storage e) (after D Begin e)" "db_of D (after D Begin e) = db_of D (en_storage e)"
    "answer D Begin e = Ok (Message ''transaction started'')"
    "st_index_catalog (after D Begin e) = st_index_catalog (en_storage e)"
    "st_migrations (after D Begin e) = st_migrations (en_storage e)"
proof -
  obtain s' snap where s: "begin_transaction D (en_storage e) = (Ok (), s')" "storage_inv D s'" "st_txn s'"
    "dk_snapshot s' = Some snap" "snapshot_of D (en_storage e) snap" "st_key s' = st_key (en_storage e)"
    "st_catalog s' = st_catalog (en_storage e)" "\<And>t. located D s' t = located D (en_storage e) t"
    "st_index_catalog s' = st_index_catalog (en_storage e)" "st_migrations s' = st_migrations (en_storage e)"
    by (rule begin_transaction_ok [OF inv idle]) (rule that)
  have a: "after D Begin e = s'" "answer D Begin e = Ok (Message ''transaction started'')"
    using role s(1) by (simp_all add: after_def answer_def op_seq_step op_apply)
  then show "answer D Begin e = Ok (Message ''transaction started'')" by simp
  show "st_index_catalog (after D Begin e) = st_index_catalog (en_storage e)"
    "st_migrations (after D Begin e) = st_migrations (en_storage e)" using s(9,10) by (simp_all add: a)
  show "in_transaction D (en_storage e) (after D Begin e)" using s by (simp add: a in_transaction_def)
  show "db_of D (after D Begin e) = db_of D (en_storage e)"
    unfolding a using s(7,8) by (intro same_tables_db_of) (simp_all add: stored_of_def)
qed

lemma rollback_ok:
  assumes t: "in_transaction D s0 (en_storage e)" and role: "role_allows (id_role (en_identity e)) Rollback"
  shows "storage_inv D (after D Rollback e)" "\<not> st_txn (after D Rollback e)"
    "db_of D (after D Rollback e) = db_of D s0" "st_migrations (after D Rollback e) = st_migrations s0"
    "st_index_catalog (after D Rollback e) = st_index_catalog s0" "st_key (after D Rollback e) = st_key s0"
    "answer D Rollback e = Ok (Message ''transaction rolled back'')"
proof -
  from t obtain snap where snap: "storage_inv D (en_storage e)" "st_txn (en_storage e)"
    "dk_snapshot (en_storage e) = Some snap" "snapshot_of D s0 snap" "st_key (en_storage e) = st_key s0"
    by (auto simp: in_transaction_def)
  obtain s' where s: "rollback_transaction D (en_storage e) = (Ok (), s')" "storage_inv D s'" "\<not> st_txn s'"
    "dk_snapshot s' = None" "st_key s' = st_key s0" "st_catalog s' = st_catalog s0"
    "st_index_catalog s' = st_index_catalog s0" "st_migrations s' = st_migrations s0"
    "\<And>t. located D s' t = located D s0 t"
    by (rule rollback_transaction_ok [OF snap]) (rule that)
  have a: "after D Rollback e = s'" "answer D Rollback e = Ok (Message ''transaction rolled back'')"
    using role s(1) by (simp_all add: after_def answer_def op_seq_step op_apply)
  show "db_of D (after D Rollback e) = db_of D s0"
    unfolding a using s(6,9) by (intro same_tables_db_of) (simp_all add: stored_of_def)
  show "storage_inv D (after D Rollback e)" "\<not> st_txn (after D Rollback e)"
    "st_migrations (after D Rollback e) = st_migrations s0"
    "st_index_catalog (after D Rollback e) = st_index_catalog s0" "st_key (after D Rollback e) = st_key s0"
    "answer D Rollback e = Ok (Message ''transaction rolled back'')"
    using s a by simp_all
qed

lemma commit_ok:
  assumes t: "in_transaction D s0 (en_storage e)" and role: "role_allows (id_role (en_identity e)) Commit"
  shows "storage_inv D (after D Commit e)" "\<not> st_txn (after D Commit e)"
    "db_of D (after D Commit e) = db_of D (en_storage e)" "answer D Commit e = Ok (Message ''transaction committed'')"
    "st_index_catalog (after D Commit e) = st_index_catalog (en_storage e)"
    "st_migrations (after D Commit e) = st_migrations (en_storage e)"
  using t role by (auto simp: in_transaction_def after_def answer_def op_seq_def op_bind_def op_apply
      commit_transaction_eq storage_inv_commit db_of_commit)

lemma transaction_refused:
  assumes "st = Begin \<and> st_txn (en_storage e) \<or> st \<in> {Commit, Rollback} \<and> \<not> st_txn (en_storage e)"
  shows "after D st e = en_storage e" "\<exists>err. answer D st e = Err err"
  using assms begin_transaction_busy [of "en_storage e" D] rollback_idle [of "en_storage e" D]
  by (auto simp: after_def answer_def op_seq_def op_bind_def op_apply commit_transaction_eq)

section \<open>The abstract engine\<close>

text \<open>
  The engine seen from outside: the tables, and, while a transaction is open, the tables that a
  ROLLBACK would bring back. \<open>simulates\<close> is the refinement relation; \<open>effect\<close> is what a statement does
  to the abstract state when it succeeds (\<open>None\<close> when it cannot: a BEGIN inside a transaction, a
  COMMIT or ROLLBACK outside of one).
\<close>

definition simulates :: "deps \<Rightarrow> storage \<Rightarrow> db \<Rightarrow> db option \<Rightarrow> bool" where
  "simulates D s db saved \<longleftrightarrow> storage_inv D s \<and> db_of D s = db \<and>
     (case saved of None \<Rightarrow> \<not> st_txn s | Some db0 \<Rightarrow> \<exists>s0. in_transaction D s0 s \<and> db_of D s0 = db0)"

fun effect :: "deps \<Rightarrow> storage \<Rightarrow> statement \<Rightarrow> db option \<Rightarrow> (db \<times> db option) option" where
  "effect D s Begin saved = (case saved of None \<Rightarrow> Some (db_of D s, Some (db_of D s)) | Some db0 \<Rightarrow> None)"
| "effect D s Commit saved = (case saved of None \<Rightarrow> None | Some db0 \<Rightarrow> Some (db_of D s, None))"
| "effect D s Rollback saved = (case saved of None \<Rightarrow> None | Some db0 \<Rightarrow> Some (db0, None))"
| "effect D s st saved = Some (statement_db D s st, saved)"

definition reaches :: "deps \<Rightarrow> storage \<Rightarrow> (db \<times> db option) option \<Rightarrow> bool" where
  "reaches D s out = (case out of None \<Rightarrow> False | Some (db, saved) \<Rightarrow> simulates D s db saved)"

lemma simulates_clock [simp]: "simulates D (s\<lparr>dk_clock := c\<rparr>) db saved \<longleftrightarrow> simulates D s db saved"
  by (simp add: simulates_def split: option.splits)

lemma reaches_clock [simp]: "reaches D (s\<lparr>dk_clock := c\<rparr>) out \<longleftrightarrow> reaches D s out"
  by (simp add: reaches_def split: option.splits)

lemma effect_plain: "\<not> is_transaction st \<Longrightarrow> effect D s st saved = Some (statement_db D s st, saved)"
  by (cases st) simp_all

lemma simulates_txn: "simulates D s db saved \<Longrightarrow> st_txn s \<longleftrightarrow> saved \<noteq> None"
  by (auto simp: simulates_def in_transaction_def split: option.splits)

lemma simulates_frame:
  assumes "simulates D s db saved" "stmt_frame D s s'"
  shows "simulates D s' (db_of D s') saved"
  using assms in_transaction_frame [OF _ assms(2)]
  by (auto simp: simulates_def stmt_frame_def split: option.splits)

text \<open>The three transaction statements, and any statement, when it runs.\<close>

lemma transaction_simulates:
  assumes sim: "simulates D (en_storage e) db saved" and role: "role_allows (id_role (en_identity e)) st"
    and st: "is_transaction st"
  shows "is_ok (answer D st e) \<and> reaches D (after D st e) (effect D (en_storage e) st saved) \<or>
    (\<exists>err. answer D st e = Err err) \<and> after D st e = en_storage e"
proof -
  from sim have inv: "storage_inv D (en_storage e)" and db: "db_of D (en_storage e) = db" by (simp_all add: simulates_def)
  from st consider "st = Begin" | "st = Commit" | "st = Rollback" by (cases st) simp_all
  then show ?thesis
  proof cases
    case 1
    show ?thesis
    proof (cases saved)
      case None
      with simulates_txn [OF sim] have idle: "\<not> st_txn (en_storage e)" by simp
      from begin_ok [OF inv idle role [unfolded 1]] db None 1 show ?thesis
        by (auto simp: reaches_def simulates_def in_transaction_def)
    next
      case (Some db0)
      with simulates_txn [OF sim] 1 transaction_refused [of st e D] show ?thesis by simp
    qed
  next
    case 2
    show ?thesis
    proof (cases saved)
      case None
      with simulates_txn [OF sim] 2 transaction_refused [of st e D] show ?thesis by simp
    next
      case (Some db0)
      with sim obtain s0 where "in_transaction D s0 (en_storage e)" by (auto simp: simulates_def)
      from commit_ok [OF this role [unfolded 2]] 2 Some show ?thesis by (simp add: reaches_def simulates_def)
    qed
  next
    case 3
    show ?thesis
    proof (cases saved)
      case None
      with simulates_txn [OF sim] 3 transaction_refused [of st e D] show ?thesis by simp
    next
      case (Some db0)
      with sim obtain s0 where "in_transaction D s0 (en_storage e)" "db_of D s0 = db0" by (auto simp: simulates_def)
      from rollback_ok [OF this(1) role [unfolded 3]] this(2) 3 Some show ?thesis by (simp add: reaches_def simulates_def)
    qed
  qed
qed

lemma after_simulates:
  assumes sim: "simulates D (en_storage e) db saved" and plain: "plain_statement st"
  shows "case answer D st e of
      Ok _ \<Rightarrow> reaches D (after D st e) (effect D (en_storage e) st saved)
    | Err err \<Rightarrow> simulates D (after D st e) db saved \<or>
        err = clock_error \<and> reaches D (after D st e) (effect D (en_storage e) st saved)
    | Panic p \<Rightarrow> simulates D (after D st e) db saved"
proof (cases "role_allows (id_role (en_identity e)) st")
  case False
  with sim show ?thesis by (simp add: answer_def after_def)
next
  case role: True
  from sim have inv: "storage_inv D (en_storage e)" and db: "db_of D (en_storage e) = db" by (simp_all add: simulates_def)
  show ?thesis
  proof (cases "is_transaction st")
    case True
    from transaction_simulates [OF sim role True] sim show ?thesis by (cases "answer D st e") auto
  next
    case False
    have a: "achieves D (en_storage e) (statement_db D (en_storage e) st) (answer D st e, after D st e)"
      by (rule after_achieves [OF inv plain False])
    then have "simulates D (after D st e) (db_of D (after D st e)) saved"
      by (intro simulates_frame [OF sim]) (simp add: achieves_def)
    with a db show ?thesis
      by (cases "answer D st e") (auto simp: effect_plain [OF False] reaches_def)
  qed
qed

section \<open>Reachable states\<close>

text \<open>
  A restart stands for a clean exit as well as for a crash between two statements: the new process
  sees the files only. The role of the new session is arbitrary. \<open>allowed\<close> restricts the statements,
  given the tables they run on.
\<close>

inductive engine_step :: "deps \<Rightarrow> (db \<Rightarrow> statement \<Rightarrow> bool) \<Rightarrow> engine \<Rightarrow> engine \<Rightarrow> bool" for D allowed where
  statement_step: "allowed (db_of D (en_storage e)) st \<Longrightarrow> engine_step D allowed e (snd (execute_statement D st e))"
| restart_step: "engine_open D (st_key (en_storage e)) (disk.truncate (en_storage e)) who (en_audit e) = Ok e' \<Longrightarrow>
    engine_step D allowed e e'"

inductive reachable :: "deps \<Rightarrow> u8 list \<Rightarrow> (db \<Rightarrow> statement \<Rightarrow> bool) \<Rightarrow> engine \<Rightarrow> bool" for D key allowed where
  reachable_start: "engine_open D key empty_disk who [] = Ok e \<Longrightarrow> reachable D key allowed e"
| reachable_step: "reachable D key allowed e \<Longrightarrow> engine_step D allowed e e' \<Longrightarrow> reachable D key allowed e'"

text \<open>
  The statements that keep the integrity of the data: no UPDATE that assigns both sides of a foreign
  key within its table, no ADD, DROP or RENAME COLUMN of the kinds that \<open>safe_in\<close> excludes.
\<close>

definition safe_statement :: "db \<Rightarrow> statement \<Rightarrow> bool" where
  "safe_statement db st \<longleftrightarrow> plain_statement st \<and> safe_in db st"

definition engine_ok :: "deps \<Rightarrow> engine \<Rightarrow> bool" where
  "engine_ok D e \<longleftrightarrow> (\<exists>db saved. simulates D (en_storage e) db saved)"

text \<open>While a transaction is open, the state it would return to is sound too.\<close>

definition engine_sound :: "deps \<Rightarrow> engine \<Rightarrow> bool" where
  "engine_sound D e \<longleftrightarrow> (\<exists>db saved. simulates D (en_storage e) db saved \<and> integrity db \<and>
     (\<forall>db0. saved = Some db0 \<longrightarrow> integrity db0))"

lemma same_located_db_of:
  "st_catalog s' = st_catalog s \<Longrightarrow> (\<And>u. located D s' u = located D s u) \<Longrightarrow> db_of D s' = db_of D s"
  by (intro same_tables_db_of) (simp_all add: stored_of_def)

lemma reopen_ok:
  assumes "storage_inv D (en_storage e)"
  obtains e' where "engine_open D (st_key (en_storage e)) (disk.truncate (en_storage e)) who log = Ok e'"
    "storage_inv D (en_storage e')" "db_of D (en_storage e') = db_of D (en_storage e)"
    "\<not> st_txn (en_storage e')" "st_index_catalog (en_storage e') = st_index_catalog (en_storage e)"
    "st_migrations (en_storage e') = st_migrations (en_storage e)" "st_key (en_storage e') = st_key (en_storage e)"
    "en_identity e' = who" "en_audit e' = log"
proof -
  obtain s' where s: "storage_open D (st_key (en_storage e)) (disk.truncate (en_storage e)) = Ok s'" "storage_inv D s'"
    "st_key s' = st_key (en_storage e)" "st_catalog s' = st_catalog (en_storage e)"
    "st_migrations s' = st_migrations (en_storage e)"
    "st_index_catalog s' = st_index_catalog (en_storage e)" "\<not> st_txn s'"
    "\<And>t. located D s' t = located D (en_storage e) t"
    by (rule storage_open_ok [OF assms]) (rule that)
  have "db_of D s' = db_of D (en_storage e)" using s(4,8) by (rule same_located_db_of)
  with s show ?thesis
    by (intro that [of "\<lparr>en_storage = s', en_identity = who, en_audit = log\<rparr>"]) (simp_all add: engine_open_def)
qed

lemma restart_simulates:
  assumes "storage_inv D (en_storage e)"
    "engine_open D (st_key (en_storage e)) (disk.truncate (en_storage e)) who (en_audit e) = Ok e'"
  shows "simulates D (en_storage e') (db_of D (en_storage e)) None"
  by (rule reopen_ok [OF assms(1), of who "en_audit e"]) (use assms(2) in \<open>auto simp: simulates_def\<close>)

lemma statement_engine_ok:
  assumes "engine_ok D e" "plain_statement st"
  shows "engine_ok D (snd (execute_statement D st e))"
proof -
  from assms(1) obtain db saved where sim: "simulates D (en_storage e) db saved" by (auto simp: engine_ok_def)
  obtain c where "en_storage (snd (execute_statement D st e)) = (after D st e)\<lparr>dk_clock := c\<rparr>"
    by (rule execute_storage)
  with after_simulates [OF sim assms(2)] show ?thesis
    by (auto simp: engine_ok_def reaches_def split: res.splits option.splits)
qed

lemma statement_engine_sound:
  assumes "engine_sound D e" "safe_statement (db_of D (en_storage e)) st"
  shows "engine_sound D (snd (execute_statement D st e))"
proof -
  from assms(1) obtain db saved where sim: "simulates D (en_storage e) db saved" and i: "integrity db"
    and i0: "\<And>db0. saved = Some db0 \<Longrightarrow> integrity db0" by (auto simp: engine_sound_def)
  from assms(2) sim have plain: "plain_statement st" and safe: "safe_in (db_of D (en_storage e)) st"
    and inv: "storage_inv D (en_storage e)" and db: "db_of D (en_storage e) = db"
    by (simp_all add: safe_statement_def simulates_def)
  obtain c where c: "en_storage (snd (execute_statement D st e)) = (after D st e)\<lparr>dk_clock := c\<rparr>"
    by (rule execute_storage)
  have "\<exists>db' saved'. simulates D (after D st e) db' saved' \<and> integrity db' \<and> (\<forall>db0. saved' = Some db0 \<longrightarrow> integrity db0)"
  proof (cases "role_allows (id_role (en_identity e)) st")
    case False
    with sim i i0 show ?thesis by (auto simp: after_def)
  next
    case role: True
    show ?thesis
    proof (cases "is_transaction st")
      case True
      then have eff: "integrity db' \<and> (\<forall>db0. saved' = Some db0 \<longrightarrow> integrity db0)"
        if "effect D (en_storage e) st saved = Some (db', saved')" for db' saved'
        using that i i0 db by (cases st; cases saved) auto
      from transaction_simulates [OF sim role True] show ?thesis
      proof (elim disjE conjE)
        assume "reaches D (after D st e) (effect D (en_storage e) st saved)"
        then obtain db' saved' where "effect D (en_storage e) st saved = Some (db', saved')"
          "simulates D (after D st e) db' saved'" by (auto simp: reaches_def split: option.splits)
        with eff show ?thesis by blast
      next
        assume "after D st e = en_storage e"
        with sim i i0 show ?thesis by auto
      qed
    next
      case False
      obtain r s' where run: "execute_statement_unchecked D st (en_storage e) = (r, s')" by fastforce
      have a: "after D st e = s'" using role run by (simp add: after_def)
      have "integrity (db_of D s')"
        by (rule safe_statement_integrity [OF inv _ safe run plain False]) (simp add: db i)
      moreover have "simulates D s' (db_of D s') saved"
        using simulates_frame [OF sim after_frame [OF inv plain False]] a by simp
      ultimately show ?thesis using a i0 by auto
    qed
  qed
  with c show ?thesis by (simp add: engine_sound_def)
qed

lemma engine_step_ok:
  assumes "engine_step D (\<lambda>db. plain_statement) e e'" "engine_ok D e"
  shows "engine_ok D e'"
  using assms(1)
proof (cases rule: engine_step.cases)
  case (statement_step st)
  with statement_engine_ok [OF assms(2)] show ?thesis by simp
next
  case (restart_step who)
  from assms(2) have "storage_inv D (en_storage e)" by (auto simp: engine_ok_def simulates_def)
  from restart_simulates [OF this restart_step] show ?thesis by (auto simp: engine_ok_def)
qed

lemma engine_step_sound:
  assumes "engine_step D safe_statement e e'" "engine_sound D e"
  shows "engine_sound D e'"
  using assms(1)
proof (cases rule: engine_step.cases)
  case (statement_step st)
  with statement_engine_sound [OF assms(2)] show ?thesis by simp
next
  case (restart_step who)
  from assms(2) have "storage_inv D (en_storage e)" "integrity (db_of D (en_storage e))"
    by (auto simp: engine_sound_def simulates_def)
  with restart_simulates [OF this(1) restart_step] show ?thesis by (auto simp: engine_sound_def)
qed

lemma engine_start:
  assumes "deps_ok D" "engine_open D key empty_disk who [] = Ok e"
  shows "simulates D (en_storage e) Map.empty None"
proof -
  obtain s where s: "storage_open D key empty_disk = Ok s" "storage_inv D s" "st_catalog s = fmempty" "\<not> st_txn s"
    by (rule storage_open_empty [OF assms(1)]) (rule that)
  with assms(2) have "en_storage e = s" by (auto simp: engine_open_def)
  moreover have "db_of D s = Map.empty" using s(3) by (auto simp: db_of_def)
  ultimately show ?thesis using s by (simp add: simulates_def)
qed

end
