(* ===== verification/Engine_Properties.thy ===== *)
theory Engine_Properties
  imports Session Sample_Storage
begin

text \<open>
  The properties of the engine as a whole, each with its use at the sample storage of
  \<open>Sample_Storage\<close>.
\<close>

section \<open>A sample engine\<close>

definition sample_identity :: "role \<Rightarrow> identity" where
  "sample_identity r = \<lparr>id_username = ''root'', id_role = r\<rparr>"

lemma sample_engine:
  obtains e :: engine where "storage_inv sample_deps (en_storage e)" "en_identity e = sample_identity r"
    "db_of sample_deps (en_storage e) = [''users'' \<mapsto> (ts_columns sample_schema, [sample_data])]"
    "\<not> st_txn (en_storage e)"
proof -
  obtain s where s: "storage_inv sample_deps s" "fmdom (st_catalog s) = {|''users''|}"
    "columns_of s ''users'' = Some (ts_columns sample_schema)" "rows_of sample_deps s ''users'' = [sample_data]"
    "\<not> st_txn s"
    by (rule sample_storage_exists) (rule that)
  have "db_of sample_deps s u = [''users'' \<mapsto> (ts_columns sample_schema, [sample_data])] u" for u
  proof (cases "u = ''users''")
    case True
    with s(3,4) show ?thesis by (simp add: db_of_columns)
  next
    case False
    have "u |\<notin>| fmdom (st_catalog s)" unfolding s(2) using False by simp
    then have "fmlookup (st_catalog s) u = None" unfolding fmdom_notD_iff by simp
    with False show ?thesis by (simp add: db_of_def)
  qed
  with s show ?thesis
    by (intro that [of "\<lparr>en_storage = s, en_identity = sample_identity r, en_audit = []\<rparr>"]) (simp_all add: fun_eq_iff)
qed

lemma sample_catalog:
  assumes "db_of D s t = Some (cols, rows)"
  obtains sch where "fmlookup (st_catalog s) t = Some sch" "ts_columns sch = cols" "rows_of D s t = rows"
  using assms by (auto simp: db_of_def)

section \<open>Statements and the abstract database\<close>

text \<open>
  C1: every statement, BEGIN, COMMIT and ROLLBACK included, implements its abstract effect. The
  abstract state is the tables and, inside a transaction, the tables a ROLLBACK would bring back.
  When a statement succeeds the engine is in the state of \<open>effect\<close>; when it fails it is in the state
  before, all or nothing. There is one exception: a statement whose work is done still fails when
  the clock cannot be read for its migration record or its audit entry, and then its effect may be
  in place. When a statement unwinds, it is one with an ORDER BY, in the sort, and the state is the
  one before. (Tables are created under names that are plain file names.)
\<close>
theorem statement_refines:
  assumes sim: "simulates D (en_storage e) db saved" and plain: "plain_statement st"
    and run: "execute_statement D st e = (r, e')"
  shows "case r of
      Ok _ \<Rightarrow> \<exists>db' saved'. effect D (en_storage e) st saved = Some (db', saved') \<and> simulates D (en_storage e') db' saved'
    | Err err \<Rightarrow> simulates D (en_storage e') db saved \<or> err = clock_error \<and>
        (\<exists>db' saved'. effect D (en_storage e) st saved = Some (db', saved') \<and> simulates D (en_storage e') db' saved')
    | Panic p \<Rightarrow> simulates D (en_storage e') db saved \<and> sorts st \<and> sort_panic D p"
proof -
  obtain c where c: "en_storage e' = (after D st e)\<lparr>dk_clock := c\<rparr>"
    by (rule execute_storage [of D st e]) (simp add: run)
  have r: "r = answer D st e \<or> r = Err clock_error \<and> no_panic (answer D st e)"
    using execute_result [of D st e] by (simp add: run)
  have reach: "reaches D s out \<longleftrightarrow> (\<exists>db' saved'. out = Some (db', saved') \<and> simulates D s db' saved')" for s out
    by (auto simp: reaches_def split: option.splits)
  from after_simulates [OF sim plain] answer_panics [of st D e] r show ?thesis
    by (cases "answer D st e") (auto simp: c reach)
qed

lemma statement_refines_witness:
  "\<exists>e r e'. execute_statement sample_deps Begin e = (r, e') \<and> is_ok r \<and>
     simulates sample_deps (en_storage e') [''users'' \<mapsto> (ts_columns sample_schema, [sample_data])]
       (Some [''users'' \<mapsto> (ts_columns sample_schema, [sample_data])])"
proof -
  let ?db = "[''users'' \<mapsto> (ts_columns sample_schema, [sample_data])]"
  obtain e :: engine where e: "storage_inv sample_deps (en_storage e)" "\<not> st_txn (en_storage e)"
    "en_identity e = sample_identity Admin" "db_of sample_deps (en_storage e) = ?db"
    by (rule sample_engine) (rule that)
  then have sim: "simulates sample_deps (en_storage e) ?db None" by (simp add: simulates_def)
  have role: "role_allows (id_role (en_identity e)) Begin" by (simp add: e(3) sample_identity_def)
  obtain now where now: "d_now sample_deps (dk_clock (after sample_deps Begin e)) = Some now"
    using sample_clock by blast
  obtain r e' where run: "execute_statement sample_deps Begin e = (r, e')" by fastforce
  then have "is_ok r" by (simp add: execute_statement_eq Let_def now begin_ok(3) [OF e(1,2) role]) (auto simp: is_ok_iff)
  then obtain x where r: "r = Ok x" by (auto simp: is_ok_iff)
  have "simulates sample_deps (en_storage e') ?db (Some ?db)"
    using statement_refines [OF sim _ run] by (simp add: r e(4))
  with run r show ?thesis by (metis is_ok.simps(1))
qed





text \<open>
  C15: a restart (after a clean exit or a crash between statements) finds every table as it was,
  with the index definitions and the migration log, and no transaction in progress. In
  particular the changes of a transaction that was never committed survive a crash.
\<close>
theorem reopen_restores:
  fixes e :: engine
  assumes "storage_inv D (en_storage e)"
  shows "\<exists>e'. engine_open D (st_key (en_storage e)) (disk.truncate (en_storage e)) who log = Ok e' \<and>
    db_of D (en_storage e') = db_of D (en_storage e) \<and> \<not> st_txn (en_storage e') \<and>
    st_index_catalog (en_storage e') = st_index_catalog (en_storage e) \<and>
    st_migrations (en_storage e') = st_migrations (en_storage e) \<and> storage_inv D (en_storage e')"
  by (rule reopen_ok [OF assms, of who log]) blast

lemma reopen_restores_witness:
  "\<exists>(e :: engine) e'. engine_open sample_deps (st_key (en_storage e)) (disk.truncate (en_storage e)) (sample_identity ReadOnly) [] = Ok e' \<and>
    db_of sample_deps (en_storage e') = [''users'' \<mapsto> (ts_columns sample_schema, [sample_data])]"
proof -
  obtain e :: engine where e: "storage_inv sample_deps (en_storage e)"
    "db_of sample_deps (en_storage e) = [''users'' \<mapsto> (ts_columns sample_schema, [sample_data])]"
    by (rule sample_engine) (rule that)
  obtain e' where "engine_open sample_deps (st_key (en_storage e)) (disk.truncate (en_storage e))
      (sample_identity ReadOnly) [] = Ok e'" "db_of sample_deps (en_storage e') = db_of sample_deps (en_storage e)"
    using reopen_restores [OF e(1), of "sample_identity ReadOnly" "[]"] by blast
  with e(2) have "engine_open sample_deps (st_key (en_storage e)) (disk.truncate (en_storage e))
      (sample_identity ReadOnly) [] = Ok e' \<and>
    db_of sample_deps (en_storage e') = [''users'' \<mapsto> (ts_columns sample_schema, [sample_data])]" by simp
  then show ?thesis by blast
qed

section \<open>INSERT, UPDATE, DELETE\<close>

lemma get_schema_Ok: "get_schema s t = Ok sch \<longleftrightarrow> fmlookup (st_catalog s) t = Some sch"
  by (cases "fmlookup (st_catalog s) t") (simp_all add: get_schema_def)

text \<open>What the checks of an INSERT amount to on the abstract database.\<close>

definition admissible :: "db \<Rightarrow> column_schema list \<Rightarrow> row list \<Rightarrow> row \<Rightarrow> bool" where
  "admissible db cols rows r \<longleftrightarrow>
     (\<forall>col \<in> set cols. needs_value col \<longrightarrow> row_get r (cs_name col) \<noteq> VNull) \<and>
     (\<forall>col \<in> set cols. is_unique col \<and> row_get r (cs_name col) \<noteq> VNull \<longrightarrow>
        (\<forall>x \<in> set rows. fmlookup x (cs_name col) \<noteq> Some (row_get r (cs_name col)))) \<and>
     (\<forall>col \<in> set cols. \<forall>pt pc. References pt pc \<in> set (cs_constraints col) \<longrightarrow>
        row_get r (cs_name col) = VNull \<or> key_present db pt pc (row_get r (cs_name col)))"

lemma insert_allowed_iff:
  assumes "storage_inv D s" "fmlookup (st_catalog s) t = Some sch"
  shows "insert_allowed D s t sch r \<longleftrightarrow> admissible (db_of D s) (ts_columns sch) (rows_of D s t) r"
  unfolding insert_allowed_def check_foreign_keys_row_Ok [OF assms(1)] admissible_def insertable_def
    row_not_null_def unique_values_def is_new_def list_all_iff
  by (auto simp: ball_conj_distrib)

text \<open>
  C6: INSERT adds the row at the end of its table, and reports one row, exactly when the row can be
  built (known columns, right count, castable values) and is admissible: no NULL where a value is
  needed, no value of a unique column that a row already has, every foreign key present. Otherwise
  it fails and no table changes.
\<close>
theorem insert_correct:
  assumes inv: "storage_inv D s" and t: "get_schema s t = Ok sch"
    and run: "insert_row D t columns vals s = (r, s')"
  shows "if \<exists>row. build_row sch t columns vals = Ok row \<and>
        admissible (db_of D s) (ts_columns sch) (rows_of D s t) row
    then r = Ok (Message ''1 row inserted'') \<and>
      (\<exists>row. build_row sch t columns vals = Ok row \<and> row_typed (ts_columns sch) row \<and>
        db_of D s' = (db_of D s)(t \<mapsto> (ts_columns sch, rows_of D s t @ [row])))
    else (\<exists>e. r = Err e) \<and> db_of D s' = db_of D s"
proof -
  from t have cat: "fmlookup (st_catalog s) t = Some sch" by (simp add: get_schema_Ok)
  from inv show ?thesis
  proof (cases rule: insert_row_cases [where t = t and columns = columns and vals = vals])
    case (inserted sch' row s1)
    have "sch' = sch" using inserted(1) cat by simp
    with inserted run cat insert_allowed_iff [OF inv cat] table_change_db_of [OF inserted(5,1)]
      build_row_typed [OF inserted(2) storage_inv_distinct [OF inv inserted(1)]]
    show ?thesis by auto
  next
    case (rejected e s1)
    with run cat insert_allowed_iff [OF inv cat] show ?thesis by auto
  qed
qed

text \<open>
  C7: UPDATE replaces exactly the rows that match the WHERE clause by their copies with the new
  values (in place, the others untouched) and reports their number, when every check passes; when
  any fails it changes no row at all.
\<close>
theorem update_correct:
  assumes inv: "storage_inv D s" and t: "get_schema s t = Ok sch" and g: "where_filter D s t sch f = Ok g"
    and bs: "prepare_assignments sch t as = Ok bs" and run: "update_rows D t as f s = (r, s')"
  shows "if update_allowed D s t sch bs g
    then r = Ok (rows_updated (length (filter (\<lambda>row. row_matches_filter row g) (rows_of D s t)))) \<and>
      db_of D s' = (db_of D s)(t \<mapsto> (ts_columns sch,
        map (\<lambda>row. if row_matches_filter row g then assign_row bs row else row) (rows_of D s t)))
    else (\<exists>e. r = Err e) \<and> db_of D s' = db_of D s"
  using inv
proof (cases rule: update_rows_cases [where t = t and f = f and as = as])
  case (updated sch' g' bs' s1)
  have eq: "update_one bs g = (\<lambda>row. if row_matches_filter row g then assign_row bs row else row)"
    "matches g = (\<lambda>row. row_matches_filter row g)"
    by (simp_all add: fun_eq_iff update_one_def matches_def)
  from t have "sch' = sch" using updated(1) by (simp add: get_schema_Ok)
  with updated g bs have same: "g' = g" "bs' = bs" by simp_all
  from updated run table_change_db_of [OF updated(6,1)] show ?thesis
    by (simp add: eq same \<open>sch' = sch\<close>)
next
  case (rejected e s1)
  with run t g bs show ?thesis by (auto simp: get_schema_Ok)
next
  case (unwound p)
  with t g show ?thesis by (auto simp: get_schema_Ok)
qed

text \<open>
  C8: DELETE removes exactly the rows that match the WHERE clause, keeps the others in order and
  reports how many it removed, when no row of a referencing table needs one of them; otherwise it
  fails and removes nothing.
\<close>
theorem delete_correct:
  assumes inv: "storage_inv D s" and t: "get_schema s t = Ok sch" and g: "where_filter D s t sch f = Ok g"
    and run: "delete_rows D t f s = (r, s')"
  shows "if check_referencing_children_on_delete D s t g = Ok ()
    then r = Ok (rows_deleted (length (filter (\<lambda>row. row_matches_filter row g) (rows_of D s t)))) \<and>
      db_of D s' = (db_of D s)(t \<mapsto> (ts_columns sch,
        filter (\<lambda>row. \<not> row_matches_filter row g) (rows_of D s t)))
    else (\<exists>e. r = Err e) \<and> s' = s"
  using inv
proof (cases rule: delete_rows_cases [where t = t and f = f])
  case (deleted sch' g' s1)
  have eq: "matches g = (\<lambda>row. row_matches_filter row g)" by (simp add: fun_eq_iff matches_def)
  from t have "sch' = sch" using deleted(1) by (simp add: get_schema_Ok)
  with deleted g have "g' = g" by simp
  with deleted run table_change_db_of [OF deleted(5,1)] show ?thesis
    by (simp add: eq \<open>sch' = sch\<close>)
next
  case (rejected e)
  with run t g show ?thesis by (auto simp: get_schema_Ok)
next
  case (unwound p)
  with t g show ?thesis by (auto simp: get_schema_Ok)
qed

text \<open>The sample storage, for the storage-level operations.\<close>

lemma sample_tables:
  obtains s sch where "storage_inv sample_deps s" "get_schema s ''users'' = Ok sch"
    "ts_columns sch = ts_columns sample_schema" "rows_of sample_deps s ''users'' = [sample_data]"
    "db_of sample_deps s = [''users'' \<mapsto> (ts_columns sample_schema, [sample_data])]"
proof -
  obtain e :: engine where e: "storage_inv sample_deps (en_storage e)"
    "db_of sample_deps (en_storage e) = [''users'' \<mapsto> (ts_columns sample_schema, [sample_data])]"
    by (rule sample_engine) (rule that)
  then have "db_of sample_deps (en_storage e) ''users'' = Some (ts_columns sample_schema, [sample_data])" by simp
  then obtain sch where sch: "fmlookup (st_catalog (en_storage e)) ''users'' = Some sch"
    "ts_columns sch = ts_columns sample_schema" "rows_of sample_deps (en_storage e) ''users'' = [sample_data]"
    by (rule sample_catalog) (rule that)
  show ?thesis
    by (rule that [of "en_storage e" sch]) (simp_all add: e sch get_schema_Ok)
qed

lemma no_references:
  assumes "\<And>u c pc. \<not> references (db_of D s) u c t pc"
  shows "referencing_columns s t = Ok []"
proof -
  obtain refs where refs: "referencing_columns s t = Ok refs"
    "\<And>u c pc. (u, c, pc) \<in> set refs \<longleftrightarrow> references (db_of D s) u c t pc"
    by (rule referencing_columns_ok) (rule that)
  have "refs = []"
  proof (cases refs)
    case (Cons x xs)
    then have "(fst x, fst (snd x), snd (snd x)) \<in> set refs" by simp
    with refs(2) assms show ?thesis by metis
  qed
  with refs(1) show ?thesis by simp
qed

lemma sample_no_references:
  "\<not> references [''users'' \<mapsto> (ts_columns sample_schema, rows)] u c t pc"
  by (auto simp: references_def sample_schema_def split: if_splits)

lemma insert_correct_witness:
  "\<exists>s s'. insert_row sample_deps ''users'' None [VInt 2, VText ''bob''] s = (Ok (Message ''1 row inserted''), s') \<and>
     length (rows_of sample_deps s' ''users'') = 2 \<and>
     fst (insert_row sample_deps ''users'' None [VInt 1, VText ''bob''] s) \<noteq> Ok (Message ''1 row inserted'')"
proof -
  obtain s sch where s: "storage_inv sample_deps s" "get_schema s ''users'' = Ok sch"
    "ts_columns sch = ts_columns sample_schema" "rows_of sample_deps s ''users'' = [sample_data]"
    by (rule sample_tables) (rule that)
  have build: "build_row sch ''users'' None [VInt n, VText ''bob''] =
      Ok (fmupd ''name'' (VText ''bob'') (fmupd ''id'' (VInt n) fmempty))" for n
    by (simp add: build_row_def s(3) sample_schema_def)
  have adm: "admissible (db_of sample_deps s) (ts_columns sch) [sample_data]
      (fmupd ''name'' (VText ''bob'') (fmupd ''id'' (VInt n) fmempty)) \<longleftrightarrow> n \<noteq> 1" for n
    by (auto simp: admissible_def s(3) sample_schema_def sample_data_def needs_value_def is_unique_def
        has_constraint_def row_get_def)
  obtain r s' where run: "insert_row sample_deps ''users'' None [VInt 2, VText ''bob''] s = (r, s')" by fastforce
  obtain r1 s1 where run1: "insert_row sample_deps ''users'' None [VInt 1, VText ''bob''] s = (r1, s1)" by fastforce
  from insert_correct [OF s(1,2) run]
  have ok: "r = Ok (Message ''1 row inserted'')" and db: "\<exists>row. db_of sample_deps s' =
      (db_of sample_deps s)(''users'' \<mapsto> (ts_columns sch, [sample_data] @ [row]))"
    by (simp_all add: build adm s(4)) blast
  then obtain row where "db_of sample_deps s' ''users'' = Some (ts_columns sch, [sample_data] @ [row])" by auto
  then have "rows_of sample_deps s' ''users'' = [sample_data] @ [row]" by (rule sample_catalog) simp
  moreover from insert_correct [OF s(1,2) run1] have "\<exists>e. r1 = Err e" by (simp add: build adm s(4))
  ultimately show ?thesis using run run1 ok by (intro exI [of _ s] exI [of _ s']) auto
qed

lemma update_correct_witness:
  "\<exists>s s' row. update_rows sample_deps ''users'' [(''name'', VText ''eve'')] None s = (Ok (rows_updated 1), s') \<and>
     rows_of sample_deps s' ''users'' = [row] \<and> row_get row ''name'' = VText ''eve''"
proof -
  obtain s sch where s: "storage_inv sample_deps s" "get_schema s ''users'' = Ok sch"
    "ts_columns sch = ts_columns sample_schema" "rows_of sample_deps s ''users'' = [sample_data]"
    "db_of sample_deps s = [''users'' \<mapsto> (ts_columns sample_schema, [sample_data])]"
    by (rule sample_tables) (rule that)
  have g: "where_filter sample_deps s ''users'' sch None = Ok None"
    by (simp add: where_filter_def resolve_opt_def prepare_opt_def)
  have bs: "prepare_assignments sch ''users'' [(''name'', VText ''eve'')] = Ok [(''name'', VText ''eve'')]"
    by (simp add: prepare_assignments_def s(3) sample_schema_def)
  have refs: "referencing_columns s ''users'' = Ok []"
    by (rule no_references [of sample_deps]) (simp add: s(5) sample_no_references)
  have "update_allowed sample_deps s ''users'' sch [(''name'', VText ''eve'')] None"
    by (simp add: update_allowed_def check_assigned_keys_def check_assigned_nulls_def find_column_def s(3) sample_schema_def
        check_referencing_children_on_update_def refs check_unique_constraints_for_update_def has_constraint_def)
  moreover obtain r s' where run: "update_rows sample_deps ''users'' [(''name'', VText ''eve'')] None s = (r, s')" by fastforce
  ultimately have r: "r = Ok (rows_updated 1)" "db_of sample_deps s' ''users'' =
      Some (ts_columns sch, [assign_row [(''name'', VText ''eve'')] sample_data])"
    using update_correct [OF s(1,2) g bs run] by (simp_all add: s(4) row_matches_filter_def)
  then have "rows_of sample_deps s' ''users'' = [assign_row [(''name'', VText ''eve'')] sample_data]"
    by (auto elim: sample_catalog)
  moreover have "row_get (assign_row [(''name'', VText ''eve'')] sample_data) ''name'' = VText ''eve''"
    by (simp add: assign_row_def)
  ultimately show ?thesis using run r(1) by blast
qed

lemma delete_correct_witness:
  "\<exists>s s'. delete_rows sample_deps ''users'' None s = (Ok (rows_deleted 1), s') \<and> rows_of sample_deps s' ''users'' = []"
proof -
  obtain s sch where s: "storage_inv sample_deps s" "get_schema s ''users'' = Ok sch"
    "rows_of sample_deps s ''users'' = [sample_data]"
    "db_of sample_deps s = [''users'' \<mapsto> (ts_columns sample_schema, [sample_data])]"
    by (rule sample_tables) (rule that)
  have g: "where_filter sample_deps s ''users'' sch None = Ok None"
    by (simp add: where_filter_def resolve_opt_def prepare_opt_def)
  have refs: "referencing_columns s ''users'' = Ok []"
    by (rule no_references [of sample_deps]) (simp add: s(4) sample_no_references)
  obtain r s' where run: "delete_rows sample_deps ''users'' None s = (r, s')" by fastforce
  have "r = Ok (rows_deleted 1)" "db_of sample_deps s' ''users'' = Some (ts_columns sch, [])"
    using delete_correct [OF s(1,2) g run]
    by (simp_all add: s(3) row_matches_filter_def check_referencing_children_on_delete_def refs)
  moreover from this(2) have "rows_of sample_deps s' ''users'' = []" by (auto elim: sample_catalog)
  ultimately show ?thesis using run by blast
qed

end
