(* ===== verification/Access_Properties.thy ===== *)
theory Access_Properties
  imports Engine_Properties
begin

text \<open>
  Authorization and the audit log: what a role may do, what a refused statement leaves behind, one
  audit entry per statement, and where the engine can panic.
\<close>

text \<open>
  C17: a statement the role does not allow is refused before anything is read or written: the
  answer is the authorization error, the storage is the one before (the clock apart), and the
  audit log has one more entry, for a failed action.
\<close>
theorem denied_statement_refused:
  assumes denied: "\<not> role_allows (id_role (en_identity e)) st"
    and clock: "d_now D (dk_clock (en_storage e)) = Some now"
  shows "execute_statement D st e =
    (Err (AuthorizationDenied (id_username (en_identity e)) (statement_action st)),
     e\<lparr>en_storage := (en_storage e)\<lparr>dk_clock := Suc (dk_clock (en_storage e))\<rparr>,
       en_audit := en_audit e @ d_audit_json D
         \<lparr>ae_timestamp = now, ae_username = id_username (en_identity e), ae_role = id_role (en_identity e),
          ae_action = statement_action st, ae_success = False,
          ae_message = Some (show_error (AuthorizationDenied (id_username (en_identity e)) (statement_action st)))\<rparr> @ [NL]\<rparr>)"
  using denied clock
  by (simp add: execute_statement_eq after_def answer_def audit_line_def Let_def)

lemma denied_statement_refused_witness:
  "\<exists>e. fst (execute_statement sample_deps (DropTable ''users'') e) = Err (AuthorizationDenied ''root'' ''DROP_TABLE'')"
proof -
  obtain e :: engine where e: "en_identity e = sample_identity ReadWrite" by (rule sample_engine) (rule that)
  have denied: "\<not> role_allows (id_role (en_identity e)) (DropTable ''users'')" by (simp add: e sample_identity_def)
  obtain now where now: "d_now sample_deps (dk_clock (en_storage e)) = Some now"
    using sample_clock by blast
  show ?thesis
    using denied_statement_refused [OF denied now] by (intro exI [of _ e]) (simp add: e sample_identity_def)
qed

lemma query_only:
  assumes "id_role (en_identity e) = ReadOnly"
  shows "after D st e = en_storage e"
  using assms query_unchecked [of st D "en_storage e"] read_only_allows_iff [of st] by (simp add: after_def)

text \<open>
  C16: a session with the read-only role never changes the storage: whatever statements it sends,
  the tables, files, indexes, caches and the state of a transaction are the ones it started with;
  only the clock has moved.
\<close>
theorem read_only_changes_nothing:
  assumes "id_role (en_identity e) = ReadOnly"
  shows "\<exists>c. en_storage (run_all D sts e) = (en_storage e)\<lparr>dk_clock := c\<rparr>"
  using assms
proof (induction sts arbitrary: e)
  case (Cons st sts)
  obtain c where c: "en_storage (snd (execute_statement D st e)) = (en_storage e)\<lparr>dk_clock := c\<rparr>"
    "en_identity (snd (execute_statement D st e)) = en_identity e"
    using execute_storage [of D st e] query_only [OF Cons.prems, of D st] by metis
  with Cons.IH [of "snd (execute_statement D st e)"] Cons.prems show ?case by auto
next
  case (Nil e)
  have "en_storage (run_all D [] e) = (en_storage e)\<lparr>dk_clock := dk_clock (en_storage e)\<rparr>" by simp
  then show ?case by blast
qed

lemma read_only_changes_nothing_witness:
  "\<exists>e. db_of sample_deps (en_storage (run_all sample_deps [Delete ''users'' None, Commit, DropTable ''users''] e)) =
     [''users'' \<mapsto> (ts_columns sample_schema, [sample_data])]"
proof -
  obtain e :: engine where e: "en_identity e = sample_identity ReadOnly"
    "db_of sample_deps (en_storage e) = [''users'' \<mapsto> (ts_columns sample_schema, [sample_data])]"
    by (rule sample_engine) (rule that)
  have role: "id_role (en_identity e) = ReadOnly" by (simp add: e sample_identity_def)
  from read_only_changes_nothing [OF role, of sample_deps "[Delete ''users'' None, Commit, DropTable ''users'']"]
  show ?thesis using e(2) by (intro exI [of _ e]) auto
qed

definition schema_of :: "db \<Rightarrow> string \<rightharpoonup> column_schema list" where
  "schema_of db t = map_option fst (db t)"

lemma schema_of_columns: "schema_of (db_of D s) = columns_of s"
  by (auto simp: fun_eq_iff schema_of_def columns_of_def db_of_def option.map_comp comp_def)

definition same_schema :: "deps \<Rightarrow> storage \<Rightarrow> storage \<Rightarrow> bool" where
  "same_schema D s s' \<longleftrightarrow> schema_of (db_of D s') = schema_of (db_of D s) \<and>
     st_index_catalog s' = st_index_catalog s \<and> st_migrations s' = st_migrations s"

lemma same_schema_trans: "same_schema D s s' \<Longrightarrow> same_schema D s' s'' \<Longrightarrow> same_schema D s s''"
  by (simp add: same_schema_def)

lemma same_schema_clock [simp]: "same_schema D s (s'\<lparr>dk_clock := c\<rparr>) \<longleftrightarrow> same_schema D s s'"
  by (simp add: same_schema_def)

text \<open>A data writer's state: an open transaction would go back to the same schema.\<close>

definition writer_state :: "deps \<Rightarrow> storage \<Rightarrow> storage \<Rightarrow> bool" where
  "writer_state D s s' \<longleftrightarrow> storage_inv D s' \<and> same_schema D s s' \<and>
     (st_txn s' \<longrightarrow> (\<exists>s0. in_transaction D s0 s' \<and> same_schema D s s0))"

lemma writer_state_clock [simp]: "writer_state D s (s'\<lparr>dk_clock := c\<rparr>) \<longleftrightarrow> writer_state D s s'"
  by (simp add: writer_state_def)

lemma writer_step:
  assumes w: "writer_state D s (en_storage e)" and role: "id_role (en_identity e) = ReadWrite"
  shows "writer_state D s (after D st e)"
proof (cases "is_schema_change st")
  case True
  with role read_write_allows_iff [of st] w show ?thesis by (simp add: after_def)
next
  case False
  then have plain: "plain_statement st" and allowed: "role_allows (id_role (en_identity e)) st"
    using role read_write_allows_iff [of st] by (cases st; simp)+
  from w have inv: "storage_inv D (en_storage e)" and same: "same_schema D s (en_storage e)"
    and txn: "st_txn (en_storage e) \<Longrightarrow> \<exists>s0. in_transaction D s0 (en_storage e) \<and> same_schema D s s0"
    by (simp_all add: writer_state_def)
  show ?thesis
  proof (cases "is_transaction st")
    case transaction: False
    have "row_frame (en_storage e) (after D st e)"
      using data_statement_frame [OF inv False transaction] allowed by (simp add: after_def)
    then have "same_schema D (en_storage e) (after D st e)" "st_txn (after D st e) = st_txn (en_storage e)"
      by (simp_all add: same_schema_def row_frame_def schema_of_columns)
    moreover have fr: "stmt_frame D (en_storage e) (after D st e)" by (rule after_frame [OF inv plain transaction])
    ultimately show ?thesis
      using same_schema_trans [OF same] txn in_transaction_frame [OF _ fr]
      by (auto simp: writer_state_def stmt_frame_def)
  next
    case True
    then consider "st = Begin" | "st = Commit" | "st = Rollback" by (cases st) simp_all
    then show ?thesis
    proof cases
      case 1
      show ?thesis
      proof (cases "st_txn (en_storage e)")
        case True
        with 1 w transaction_refused(1) [of st e D] show ?thesis by simp
      next
        case False
        note b = begin_ok [OF inv False allowed [unfolded 1]]
        have "same_schema D (en_storage e) (after D Begin e)" using b(2,4,5) by (simp add: same_schema_def)
        with b(1) same_schema_trans [OF same] same 1 show ?thesis
          by (auto simp: writer_state_def in_transaction_def)
      qed
    next
      case 2
      show ?thesis
      proof (cases "st_txn (en_storage e)")
        case False
        with 2 w transaction_refused(1) [of st e D] show ?thesis by simp
      next
        case True
        with txn obtain s0 where "in_transaction D s0 (en_storage e)" by blast
        from commit_ok [OF this allowed [unfolded 2]] 2 same show ?thesis
          by (simp add: writer_state_def same_schema_def)
      qed
    next
      case 3
      show ?thesis
      proof (cases "st_txn (en_storage e)")
        case False
        with 3 w transaction_refused(1) [of st e D] show ?thesis by simp
      next
        case True
        with txn obtain s0 where s0: "in_transaction D s0 (en_storage e)" "same_schema D s s0" by blast
        from rollback_ok [OF s0(1) allowed [unfolded 3]] 3 s0(2) show ?thesis
          by (simp add: writer_state_def same_schema_def)
      qed
    qed
  qed
qed

text \<open>
  C18: the role of data writers cannot change the schema: whatever a session of it sends (it starts
  outside of a transaction, and may open, commit and roll back its own), no table or column appears,
  disappears or is changed, no index is created or dropped, and nothing enters the migration log.
\<close>
theorem read_write_keeps_schema:
  assumes "storage_inv D (en_storage e)" and "id_role (en_identity e) = ReadWrite" and "\<not> st_txn (en_storage e)"
  shows "schema_of (db_of D (en_storage (run_all D sts e))) = schema_of (db_of D (en_storage e)) \<and>
    st_index_catalog (en_storage (run_all D sts e)) = st_index_catalog (en_storage e) \<and>
    st_migrations (en_storage (run_all D sts e)) = st_migrations (en_storage e)"
proof -
  have "writer_state D s (en_storage (run_all D sts e'))"
    if "writer_state D s (en_storage e')" "id_role (en_identity e') = ReadWrite" for s e'
    using that
  proof (induction sts arbitrary: e')
    case (Cons st sts)
    obtain c where c: "en_storage (snd (execute_statement D st e')) = (after D st e')\<lparr>dk_clock := c\<rparr>"
      "en_identity (snd (execute_statement D st e')) = en_identity e'" by (rule execute_storage)
    from Cons.IH [of "snd (execute_statement D st e')"] writer_step [OF Cons.prems] Cons.prems(2) c
    show ?case by simp
  qed simp
  from this [of "en_storage e" e] assms show ?thesis by (simp add: writer_state_def same_schema_def)
qed

lemma read_write_keeps_schema_witness:
  "\<exists>e. schema_of (db_of sample_deps (en_storage (run_all sample_deps
       [Begin, DropTable ''users'', Delete ''users'' None, DropIndex ''by_id'', Rollback] e))) ''users'' =
     Some (ts_columns sample_schema)"
proof -
  let ?sts = "[Begin, DropTable ''users'', Delete ''users'' None, DropIndex ''by_id'', Rollback]"
  obtain e :: engine where e: "storage_inv sample_deps (en_storage e)" "en_identity e = sample_identity ReadWrite"
    "db_of sample_deps (en_storage e) = [''users'' \<mapsto> (ts_columns sample_schema, [sample_data])]"
    "\<not> st_txn (en_storage e)"
    by (rule sample_engine) (rule that)
  have role: "id_role (en_identity e) = ReadWrite" by (simp add: e sample_identity_def)
  from read_write_keeps_schema [OF e(1) role e(4), of ?sts] show ?thesis
    by (intro exI [of _ e]) (simp add: schema_of_def e(3) del: run_all_simps)
qed

section \<open>The audit log\<close>

text \<open>
  The statements that come back with an answer, and whether they succeeded. A statement that unwinds
  (in the sort of an ORDER BY) takes the process down before its entry is written.
\<close>

fun returned :: "deps \<Rightarrow> statement list \<Rightarrow> engine \<Rightarrow> statement list" where
  "returned D [] e = []"
| "returned D (st # sts) e = (if no_panic (fst (execute_statement D st e)) then [st] else []) @
     returned D sts (snd (execute_statement D st e))"

fun outcomes :: "deps \<Rightarrow> statement list \<Rightarrow> engine \<Rightarrow> bool list" where
  "outcomes D [] e = []"
| "outcomes D (st # sts) e =
     (if no_panic (fst (execute_statement D st e)) then [is_ok (fst (execute_statement D st e))] else []) @
     outcomes D sts (snd (execute_statement D st e))"

lemma no_sort_no_panic: "\<not> sorts st \<Longrightarrow> no_panic (fst (execute_statement D st e))"
  using op_panics_withinD [OF execute_panics [of st D]] by (auto simp: panics_within_def no_panic_def)

lemma returned_all: "\<forall>st \<in> set sts. \<not> sorts st \<Longrightarrow> returned D sts e = sts"
  by (induction sts arbitrary: e) (simp_all add: no_sort_no_panic)

text \<open>
  C19: while the clock works, the audit log grows by exactly one line per statement that returns, in
  order, with the user, the role, the kind of the statement and whether it succeeded; no line is
  changed. Every statement without an ORDER BY returns.
\<close>
theorem audit_trail:
  assumes "\<And>n. d_now D n \<noteq> None"
  shows "\<exists>entries. en_audit (run_all D sts e) = en_audit e @ concat (map (\<lambda>a. d_audit_json D a @ [NL]) entries) \<and>
    map ae_action entries = map statement_action (returned D sts e) \<and> map ae_success entries = outcomes D sts e \<and>
    (\<forall>a \<in> set entries. ae_username a = id_username (en_identity e) \<and> ae_role a = id_role (en_identity e)) \<and>
    ((\<forall>st \<in> set sts. \<not> sorts st) \<longrightarrow> returned D sts e = sts)"
proof -
  have "\<exists>entries. en_audit (run_all D sts e) = en_audit e @ concat (map (\<lambda>a. d_audit_json D a @ [NL]) entries) \<and>
    map ae_action entries = map statement_action (returned D sts e) \<and> map ae_success entries = outcomes D sts e \<and>
    (\<forall>a \<in> set entries. ae_username a = id_username (en_identity e) \<and> ae_role a = id_role (en_identity e))"
  proof (induction sts arbitrary: e)
    case (Cons st sts)
    let ?e = "snd (execute_statement D st e)"
    obtain now where now: "d_now D (dk_clock (after D st e)) = Some now" using assms by fastforce
    define a where "a = \<lparr>ae_timestamp = now, ae_username = id_username (en_identity e), ae_role = id_role (en_identity e),
        ae_action = statement_action st, ae_success = is_ok (answer D st e),
        ae_message = (case answer D st e of Err err \<Rightarrow> Some (show_error err) | _ \<Rightarrow> None)\<rparr>"
    define new where "new = (if no_panic (answer D st e) then [a] else [])"
    have e: "en_audit ?e = en_audit e @ concat (map (\<lambda>a. d_audit_json D a @ [NL]) new)" "en_identity ?e = en_identity e"
      "fst (execute_statement D st e) = answer D st e"
      by (simp_all add: execute_statement_eq now audit_line_def a_def new_def Let_def)
    from Cons.IH [of ?e] obtain as where as:
      "en_audit (run_all D sts ?e) = en_audit ?e @ concat (map (\<lambda>a. d_audit_json D a @ [NL]) as)"
      "map ae_action as = map statement_action (returned D sts ?e)" "map ae_success as = outcomes D sts ?e"
      "\<forall>a \<in> set as. ae_username a = id_username (en_identity e) \<and> ae_role a = id_role (en_identity e)"
      unfolding e(2) by blast
    show ?case
      by (rule exI [of _ "new @ as"]) (use as e in \<open>simp add: a_def new_def\<close>)
  qed simp
  with returned_all [of sts D e] show ?thesis by blast
qed

lemma audit_trail_witness:
  "\<exists>e entries. en_audit (run_all sample_deps [ShowTables, DropTable ''users''] e) =
     en_audit e @ concat (map (\<lambda>a. d_audit_json sample_deps a @ [NL]) entries) \<and>
     map ae_action entries = [''SHOW_TABLES'', ''DROP_TABLE'']"
proof -
  obtain e :: engine where "en_identity e = sample_identity Admin" by (rule sample_engine) (rule that)
  have quiet: "\<forall>st \<in> set [ShowTables, DropTable ''users'']. \<not> sorts st" by simp
  from audit_trail [of sample_deps "[ShowTables, DropTable ''users'']" e, OF sample_clock] quiet
  obtain entries where "en_audit (run_all sample_deps [ShowTables, DropTable ''users''] e) =
     en_audit e @ concat (map (\<lambda>a. d_audit_json sample_deps a @ [NL]) entries)"
    "map ae_action entries = map statement_action [ShowTables, DropTable ''users'']" by metis
  then show ?thesis by (intro exI [of _ e] exI [of _ entries]) (simp del: run_all_simps)
qed

section \<open>Panics\<close>

text \<open>
  C20: the engine panics only in the sort of an ORDER BY: on any storage, well-formed or not, if a
  sequence of statements unwinds, then one of them has an ORDER BY, and the sort of the standard
  library was given full rows that its comparator does not order, because a sort column has a NULL
  or values of several types in it, and unwound with that message. A sequence without an ORDER BY
  always comes back with a value or an error.
\<close>
theorem engine_panics_only_in_sort:
  "case fst (execute_all D sts e) of
     Panic p \<Rightarrow> (\<exists>st \<in> set sts. sorts st) \<and>
       (\<exists>cols ob rows. list_all (\<lambda>r. length r = length cols) rows \<and> \<not> one_type_keys cols ob rows \<and>
          d_sort D (order_compare (order_indices cols ob)) rows = Inl p)
   | _ \<Rightarrow> True"
proof -
  have "op_panics_within (\<lambda>p. (\<exists>st \<in> set sts. sorts st) \<and> sort_panic D p) (op_map (execute_statement D) sts)"
  proof (induction sts)
    case (Cons st sts)
    have "op_panics_within (\<lambda>p. (\<exists>st \<in> set (st # sts). sorts st) \<and> sort_panic D p) (execute_statement D st)"
      "op_panics_within (\<lambda>p. (\<exists>st \<in> set (st # sts). sorts st) \<and> sort_panic D p) (op_map (execute_statement D) sts)"
      using execute_panics [of st D] Cons by (auto simp: op_panics_within_def panics_within_def)
    then show ?case by (auto intro!: panic_intros)
  qed simp
  from op_panics_withinD [OF this, of e] show ?thesis
    by (auto simp: execute_all_def panics_within_def sort_panic_def list_all_iff split: res.splits)
qed

end
