(* ===== verification/Schema_Properties.thy ===== *)
theory Schema_Properties
  imports Access_Properties Query_Correct
begin

text \<open>
  CREATE TABLE, DROP TABLE and SELECT on the abstract database, and the two places where the checks
  of UPDATE and ALTER TABLE are too weak to keep foreign keys.
\<close>

section \<open>CREATE TABLE and DROP TABLE\<close>

definition pk_columns :: "column_schema list \<Rightarrow> column_schema list" where
  "pk_columns cols = filter (\<lambda>col. PrimaryKey \<in> set (cs_constraints col)) cols"

lemma create_columns_iff:
  "is_ok (create_columns seen n out cols) \<longleftrightarrow> distinct (map cd_name cols) \<and>
     set (map cd_name cols) \<inter> seen = {} \<and>
     (pk_columns (map lower_column cols) = [] \<or> n + length (pk_columns (map lower_column cols)) \<le> 1)"
  by (induction seen n out cols rule: create_columns.induct) (auto simp: Let_def pk_columns_def filter_empty_conv)

text \<open>The type of the column a reference points to, the new table's own columns included.\<close>

definition target_type :: "db \<Rightarrow> string \<Rightarrow> column_schema list \<Rightarrow> string \<Rightarrow> string \<Rightarrow> data_type option" where
  "target_type db t cols pt pc =
     (case (if pt = t then Some cols else map_option fst (db pt)) of
        None \<Rightarrow> None
      | Some pcols \<Rightarrow> map_option cs_type (find (\<lambda>c. cs_name c = pc) pcols))"

lemma reference_type_target: "reference_type s t cols pt pc = target_type (db_of D s) t cols pt pc"
  by (cases "fmlookup (st_catalog s) pt") (simp_all add: reference_type_def target_type_def get_schema_def db_of_def)

definition valid_columns :: "db \<Rightarrow> string \<Rightarrow> column_schema list \<Rightarrow> bool" where
  "valid_columns db t cols \<longleftrightarrow> cols \<noteq> [] \<and> distinct (map cs_name cols) \<and> length (pk_columns cols) \<le> 1 \<and>
     (\<forall>col \<in> set cols. \<forall>pt pc. References pt pc \<in> set (cs_constraints col) \<longrightarrow>
        target_type db t cols pt pc = Some (cs_type col))"

lemma check_reference_Ok:
  "check_reference s t cols col con = Ok () \<longleftrightarrow>
   (\<forall>pt pc. con = References pt pc \<longrightarrow> target_type (db_of D s) t cols pt pc = Some (cs_type col))"
  by (cases con) (auto simp: check_reference_def reference_type_target [where D = D] split: option.splits)

lemma check_references_Ok:
  "check_references s t cols = Ok () \<longleftrightarrow>
   (\<forall>col \<in> set cols. \<forall>pt pc. References pt pc \<in> set (cs_constraints col) \<longrightarrow>
      target_type (db_of D s) t cols pt pc = Some (cs_type col))"
  unfolding check_references_def each_res_Ok_iff check_reference_Ok [where D = D] by blast

text \<open>
  C13: CREATE TABLE succeeds exactly for a new name with a sound list of columns (at least one,
  distinct names, at most one PRIMARY KEY, every REFERENCES to an existing column of the same type,
  a column of the table itself included); the new table is empty and has those columns. Otherwise
  nothing changes at all.
\<close>
theorem create_table_correct:
  assumes inv: "storage_inv D s" and name: "plain_name t" and run: "create_table D t columns s = (r, s')"
  shows "if valid_columns (db_of D s) t (map lower_column columns) \<and> db_of D s t = None
    then (r = Ok (Message (''table '' @ quoted t @ '' created'')) \<or> r = Err clock_error) \<and>
      db_of D s' = (db_of D s)(t \<mapsto> (map lower_column columns, []))
    else (\<exists>e. r = Err e) \<and> s' = s"
proof -
  have ok: "(\<exists>scs. create_columns {} 0 [] columns = Ok scs) \<longleftrightarrow> distinct (map cd_name columns) \<and>
      length (pk_columns (map lower_column columns)) \<le> 1"
    using create_columns_iff [of "{}" 0 "[]" columns] by (auto simp: is_ok_iff)
  from inv name show ?thesis
  proof (cases rule: create_table_cases [where columns = columns])
    case (created scs r1 s1)
    have "columns \<noteq> []" using created(6,9) by (auto simp: create_table_def op_apply)
    with created ok have "valid_columns (db_of D s) t (map lower_column columns) \<and> db_of D s t = None"
      by (auto simp: valid_columns_def check_references_Ok [where D = D])
    with created run show ?thesis by auto
  next
    case (refused e)
    have "\<not> (valid_columns (db_of D s) t (map lower_column columns) \<and> db_of D s t = None)"
    proof
      assume v: "valid_columns (db_of D s) t (map lower_column columns) \<and> db_of D s t = None"
      then have "columns \<noteq> []" "distinct (map cd_name columns)" "length (pk_columns (map lower_column columns)) \<le> 1"
        by (auto simp: valid_columns_def comp_def)
      with ok obtain scs where scs: "create_columns {} 0 [] columns = Ok scs" by blast
      then have scs_eq: "scs = map lower_column columns" using create_columns_ok(1) by fastforce
      have refs: "check_references s t scs = Ok ()"
        using v by (auto simp: valid_columns_def check_references_Ok [where D = D] scs_eq)
      define sch where "sch = \<lparr>ts_name = t, ts_columns = scs, ts_next_row_id = 0\<rparr>"
      have run': "create_table D t columns s = op_seq (storage_create_table D sch)
          (op_ret (Message (''table '' @ quoted t @ '' created''))) s"
        using \<open>columns \<noteq> []\<close> scs refs by (simp add: create_table_def sch_def)
      have new: "fmlookup (st_catalog s) (ts_name sch) = None" using v by (simp add: sch_def)
      have sch_ok: "schema_ok (ts_name sch) sch"
        using v name by (simp add: schema_ok_def sch_def scs_eq valid_columns_def comp_def)
      show False
      proof (rule storage_create_table_ok [OF inv new sch_ok])
        fix r1 s1 assume "storage_create_table D sch s = (r1, s1)" "st_catalog s1 = fmupd (ts_name sch) sch (st_catalog s)"
        then have "st_catalog (snd (create_table D t columns s)) = fmupd t sch (st_catalog s)"
          by (simp add: run' op_seq_def op_bind_def op_apply sch_def split: res.splits)
        with refused have "fmlookup (st_catalog s) t = Some sch" by (metis fmupd_lookup snd_conv)
        with new show False by (simp add: sch_def)
      qed
    qed
    with refused run show ?thesis by auto
  qed
qed

text \<open>
  C14: DROP TABLE removes the table, and only it, when no other table has a column that references
  it; when one has, the statement is refused and nothing changes.
\<close>
theorem drop_table_correct:
  assumes inv: "storage_inv D s" and run: "drop_table D t s = (r, s')"
  shows "if (\<exists>u c pc. u \<noteq> t \<and> references (db_of D s) u c t pc) \<or> db_of D s t = None
    then (\<exists>e. r = Err e) \<and> s' = s
    else (r = Ok (Message (''table '' @ quoted t @ '' dropped'')) \<or> r = Err clock_error) \<and>
      db_of D s' = (db_of D s)(t := None)"
  using inv
proof (cases rule: drop_table_cases [where t = t])
  case (dropped r1 s1)
  then have c: "\<not> ((\<exists>u c pc. u \<noteq> t \<and> references (db_of D s) u c t pc) \<or> db_of D s t = None)" by auto
  from dropped run show ?thesis unfolding if_not_P [OF c] by simp
next
  case (referenced u c pc m)
  then have c: "(\<exists>u c pc. u \<noteq> t \<and> references (db_of D s) u c t pc) \<or> db_of D s t = None" by blast
  from referenced(3) run show ?thesis unfolding if_P [OF c] by simp
next
  case unknown
  with run show ?thesis by auto
qed

section \<open>SELECT\<close>

text \<open>
  C10: a SELECT without joins, grouping and ordering answers the rows of the table that match the
  WHERE clause, in the order of the table, cut to the chosen columns and to the window of LIMIT and
  OFFSET.
\<close>
theorem select_filters_and_projects:
  assumes inv: "storage_inv D s" and t: "get_schema s t = Ok sch" and fits: "table_fits s t"
    and g: "where_filter D s t sch f = Ok g" and cols: "resolve_select_columns sch t exprs [] = Ok cols"
    and plain: "\<not> (\<exists>e \<in> set exprs. is_aggregate e)"
  shows "select D s t exprs [] f [] None [] limit offset = Ok (Rows cols
    (take (case limit of None \<Rightarrow> USIZE_MAX | Some n \<Rightarrow> n) (drop (case offset of None \<Rightarrow> 0 | Some n \<Rightarrow> n)
      (map (\<lambda>r. map (row_get r) cols) (filter (\<lambda>r. row_matches_filter r g) (rows_of D s t))))))"
proof -
  from g obtain f' where f': "resolve_opt D s f = Ok f'" "prepare_opt sch t f' = Ok g"
    by (auto simp: where_filter_def res_simps)
  have rows: "read_rows D s t = Ok (rows_of D s t)"
    using read_rows_ok(2) [OF storage_invD(2) [OF inv]] t by (simp add: get_schema_Ok)
  have "select_resolved D s t sch exprs [] f' [] None [] limit offset =
      select_resolved D (without_indexes s) t sch exprs [] f' [] None [] limit offset"
    by (rule select_resolved_without [OF inv fits t, symmetric])
  also have "\<dots> = select_finish D [] limit offset cols
      (map (\<lambda>r. map (row_get r) cols) (filter (\<lambda>r. row_matches_filter r g) (rows_of D s t)))"
    using plain by (simp add: select_resolved_def select_source_def read_rows_filtered_def f' rows select_output_def cols)
  finally show ?thesis by (simp add: select_def t f' select_finish_def)
qed

section \<open>Two checks that are too weak\<close>

text \<open>A table whose rows refer to rows of the same table.\<close>

definition node_columns :: "column_schema list" where
  "node_columns = [\<lparr>cs_name = ''id'', cs_type = TInt, cs_constraints = [PrimaryKey]\<rparr>,
     \<lparr>cs_name = ''parent'', cs_type = TInt, cs_constraints = [References ''nodes'' ''id'']\<rparr>]"

definition node :: "value_t \<Rightarrow> value_t \<Rightarrow> row" where
  "node i p = fmupd ''parent'' p (fmupd ''id'' i fmempty)"

lemma node_simps [simp]:
  "fmlookup (node i p) c = (if c = ''parent'' then Some p else if c = ''id'' then Some i else None)"
  "row_get (node i p) c = (if c = ''parent'' then p else if c = ''id'' then i else VNull)"
  by (simp_all add: node_def row_get_def)

lemma node_references:
  "references [''nodes'' \<mapsto> (node_columns, rows)] u c t pc \<longleftrightarrow> u = ''nodes'' \<and> c = ''parent'' \<and> t = ''nodes'' \<and> pc = ''id''"
proof -
  have "references [''nodes'' \<mapsto> (node_columns, rows)] u c t pc \<longleftrightarrow>
    u = ''nodes'' \<and> (\<exists>col \<in> set node_columns. cs_name col = c \<and> References t pc \<in> set (cs_constraints col))"
    unfolding references_def by auto
  then show ?thesis unfolding node_columns_def by (simp only: list.set ball_simps bex_simps) auto
qed

lemma sample_nodes:
  obtains s where "storage_inv sample_deps s" "db_of sample_deps s = [''nodes'' \<mapsto> (node_columns, [node i p])]"
proof -
  let ?D = sample_deps and ?sch = "\<lparr>ts_name = ''nodes'', ts_columns = node_columns, ts_next_row_id = 0\<rparr>"
  obtain s0 where s0: "storage_inv ?D s0" "st_catalog s0 = fmempty"
    using storage_open_empty [OF sample_deps_ok] by metis
  have new: "fmlookup (st_catalog s0) (ts_name ?sch) = None" by (simp add: s0(2))
  have ok: "schema_ok (ts_name ?sch) ?sch" by (simp add: schema_ok_def node_columns_def plain_name_def)
  obtain s1 where s1: "storage_inv ?D s1" "st_catalog s1 = fmupd (ts_name ?sch) ?sch (st_catalog s0)"
    "stored_of ?D s1 (ts_name ?sch) = []"
    by (rule storage_create_table_ok [OF s0(1) new ok]) (rule that)
  have cat1: "fmlookup (st_catalog s1) ''nodes'' = Some ?sch" by (simp add: s1(2))
  then have t1: "fmlookup (st_catalog s1) ''nodes'' \<noteq> None" by simp
  obtain rid s2 where s2: "storage_inv ?D s2" "row_frame s1 s2" "same_rows ?D {''nodes''} s1 s2"
    "stored_of ?D s2 ''nodes'' = stored_of ?D s1 ''nodes'' @ [\<lparr>sr_id = rid, sr_data = node i p\<rparr>]"
    by (rule append_row_ok [OF s1(1) t1, of "node i p"]) (rule that)
  have "table_change ?D ''nodes'' (\<lambda>rows. rows @ [node i p]) s1 s2"
    using s2 by (simp add: table_change_def rows_of_def)
  from table_change_db_of [OF this cat1] s1(3)
  have "db_of ?D s2 = (db_of ?D s1)(''nodes'' \<mapsto> (node_columns, [node i p]))" by (simp add: rows_of_def)
  moreover have "db_of ?D s1 u = None" if "u \<noteq> ''nodes''" for u using that by (simp add: s1(2) s0(2))
  ultimately have "db_of ?D s2 = [''nodes'' \<mapsto> (node_columns, [node i p])]" by (simp add: fun_eq_iff)
  with s2(1) show ?thesis by (rule that)
qed

text \<open>
  C39: the foreign-key checks of an UPDATE are made against the rows before it. On a table that
  references itself, a single accepted UPDATE that moves a row's key and points the row at its
  own old key turns a sound database into one with a dangling foreign key.
\<close>
theorem update_can_dangle:
  "\<exists>s s'. storage_inv sample_deps s \<and> integrity (db_of sample_deps s) \<and>
     update_rows sample_deps ''nodes'' [(''id'', VInt 2), (''parent'', VInt 1)] None s = (Ok (rows_updated 1), s') \<and>
     db_of sample_deps s' = [''nodes'' \<mapsto> (node_columns, [node (VInt 2) (VInt 1)])] \<and>
     \<not> integrity (db_of sample_deps s')"
proof -
  let ?D = sample_deps and ?as = "[(''id'', VInt 2), (''parent'', VInt 1)]"
  obtain s where s: "storage_inv ?D s" "db_of ?D s = [''nodes'' \<mapsto> (node_columns, [node (VInt 1) VNull])]"
    by (rule sample_nodes) (rule that)
  then have "db_of ?D s ''nodes'' = Some (node_columns, [node (VInt 1) VNull])" by simp
  then obtain sch where sch: "fmlookup (st_catalog s) ''nodes'' = Some sch" "ts_columns sch = node_columns"
    "rows_of ?D s ''nodes'' = [node (VInt 1) VNull]"
    by (rule sample_catalog) (rule that)
  have g: "where_filter ?D s ''nodes'' sch None = Ok None"
    by (simp add: where_filter_def resolve_opt_def prepare_opt_def)
  have bs: "prepare_assignments sch ''nodes'' ?as = Ok ?as"
    by (simp add: prepare_assignments_def sch node_columns_def)
  have reads: "read_rows ?D s ''nodes'' = Ok [node (VInt 1) VNull]"
    by (simp add: read_rows_cases [OF s(1)] s(2))
  obtain refs where refs: "referencing_columns s ''nodes'' = Ok refs"
    "\<And>u c pc. (u, c, pc) \<in> set refs \<longleftrightarrow> references (db_of ?D s) u c ''nodes'' pc"
    by (rule referencing_columns_ok) (rule that)
  have "\<forall>x \<in> set refs. x = (''nodes'', ''parent'', ''id'')"
    using refs(2) unfolding s(2) node_references by (auto simp: split_paired_all)
  then have children: "check_referencing_children_on_update ?D s ''nodes'' ?as None = Ok ()"
    by (auto simp: check_referencing_children_on_update_def refs(1) reads each_res_Ok_iff row_matches_filter_def)
  have keys: "check_assigned_keys ?D s ''nodes'' sch ?as = Ok ()"
    by (simp add: check_assigned_keys_def find_column_def sch node_columns_def check_foreign_key_def reads)
  have unique: "check_unique_constraints_for_update ?D s ''nodes'' sch ?as None = Ok ()"
    by (simp add: check_unique_constraints_for_update_def sch node_columns_def has_constraint_def reads
        updated_value_def row_matches_filter_def)
  have allowed: "update_allowed ?D s ''nodes'' sch ?as None"
    by (simp add: update_allowed_def children keys unique check_assigned_nulls_def)
  have node: "update_one ?as None (node (VInt 1) VNull) = node (VInt 2) (VInt 1)"
    by (rule fmap_ext) (simp add: update_one_def matches_def row_matches_filter_def assign_row_def)
  from s(1) show ?thesis
  proof (cases rule: update_rows_cases [where t = "''nodes''" and f = None and as = ?as])
    case (updated sch' g' bs' s1)
    from updated(1) sch(1) have "sch' = sch" by simp
    with updated g bs have same: "g' = None" "bs' = ?as" by simp_all
    have db: "db_of ?D s1 = [''nodes'' \<mapsto> (node_columns, [node (VInt 2) (VInt 1)])]"
      using table_change_db_of [OF updated(6,1)] by (simp add: same sch \<open>sch' = sch\<close> node s(2))
    have "\<not> keys_ok (db_of ?D s1)"
      unfolding keys_ok_def db node_references by (auto simp: key_present_def)
    then have "\<not> integrity (db_of ?D s1)" by (simp add: integrity_def)
    moreover have "integrity (db_of ?D s)"
      unfolding integrity_def keys_ok_def s(2) node_references
      by (auto simp: table_ok_def row_typed_def row_not_null_def column_unique_def node_columns_def node_def
          has_type_def needs_value_def has_constraint_def split: if_splits)
    moreover have "update_rows ?D ''nodes'' ?as None s = (Ok (rows_updated 1), s1)"
      using updated(5) by (simp add: same sch(3) matches_def row_matches_filter_def)
    ultimately show ?thesis using s(1) db by blast
  next
    case (rejected e s1)
    from rejected(3) [OF sch(1) g bs] allowed show ?thesis by simp
  next
    case (unwound p)
    from unwound(2) [OF sch(1)] g show ?thesis by simp
  qed
qed

text \<open>
  C40: ALTER TABLE ... DROP COLUMN does not look at the references to the column: when a row holds
  a foreign key into the dropped column, the database is left with a dangling foreign key.
\<close>
theorem drop_column_can_dangle:
  assumes inv: "storage_inv D s" and t: "db_of D s t = Some (cols, rows)" and c: "c \<in> cs_name ` set cols" "2 \<le> length cols"
    and ref: "references (db_of D s) u d t c" "(u, d) \<noteq> (t, c)"
    and child: "db_of D s u = Some (ucols, urows)" "r \<in> set urows" "row_get r d \<noteq> VNull"
    and run: "alter_table_drop_column D t c s = (x, s')"
  shows "\<not> integrity (db_of D s')"
proof -
  from t obtain sch where sch: "fmlookup (st_catalog s) t = Some sch" "ts_columns sch = cols" "rows_of D s t = rows"
    by (rule sample_catalog) (rule that)
  have len: "\<not> length (ts_columns sch) \<le> 1" and has: "has_column sch c"
    using c sch by (auto simp: has_column_def)
  obtain y s1 where s1: "drop_column D t c s = (y, s1)"
    "column_change D t (filter (\<lambda>col. cs_name col \<noteq> c) (ts_columns sch)) (fmdrop c) s s1"
    "y = Ok (length (stored_of D s t)) \<or> y = Err clock_error"
    by (rule drop_column_ok [OF inv sch(1) len has]) (rule that)
  have "s' = s1" using run s1(1,3) by (auto simp: alter_table_drop_column_def op_bind_def op_apply)
  have db: "db_of D s' = (db_of D s)(t \<mapsto> (filter (\<lambda>col. cs_name col \<noteq> c) cols, map (fmdrop c) rows))"
    using column_change_db_of [OF s1(2) sch(1), of "filter (\<lambda>col. cs_name col \<noteq> c)"] t by (simp add: sch \<open>s' = s1\<close>)
  have gone: "\<not> key_present (db_of D s') t c v" for v by (auto simp: db key_present_def)
  have "\<exists>ucols urows r. references (db_of D s') u d t c \<and> db_of D s' u = Some (ucols, urows) \<and> r \<in> set urows \<and> row_get r d \<noteq> VNull"
  proof (cases "u = t")
    case True
    with ref(2) have "d \<noteq> c" by simp
    with True ref(1) child t show ?thesis
      by (auto simp: db references_def row_get_drop_other intro!: bexI [of _ r])
  next
    case False
    with ref(1) child show ?thesis by (auto simp: db references_def)
  qed
  with gone show ?thesis unfolding integrity_def keys_ok_def by blast
qed

lemma drop_column_can_dangle_witness:
  "\<exists>s. integrity (db_of sample_deps s) \<and> \<not> integrity (db_of sample_deps (snd (alter_table_drop_column sample_deps ''nodes'' ''id'' s)))"
proof -
  obtain s where s: "storage_inv sample_deps s" "db_of sample_deps s = [''nodes'' \<mapsto> (node_columns, [node (VInt 1) (VInt 1)])]"
    by (rule sample_nodes) (rule that)
  have i: "integrity (db_of sample_deps s)"
    unfolding integrity_def keys_ok_def s(2) node_references
    by (auto simp: table_ok_def row_typed_def row_not_null_def column_unique_def node_columns_def node_def key_present_def
        has_type_def needs_value_def has_constraint_def split: if_splits)
  obtain x s' where run: "alter_table_drop_column sample_deps ''nodes'' ''id'' s = (x, s')" by fastforce
  have "\<not> integrity (db_of sample_deps s')"
    by (rule drop_column_can_dangle [OF s(1) _ _ _ _ _ _ _ _ run, of node_columns "[node (VInt 1) (VInt 1)]" "''nodes''"
          "''parent''" node_columns "[node (VInt 1) (VInt 1)]" "node (VInt 1) (VInt 1)"])
      (simp_all add: s(2) node_references, simp_all add: node_columns_def)
  with i run show ?thesis by (intro exI [of _ s]) simp
qed

section \<open>Uses at the sample storage\<close>

lemma create_table_correct_witness:
  "\<exists>s s'. create_table sample_deps ''t'' [\<lparr>cd_name = ''u'', cd_type = TInt, cd_constraints = [CReferences ''users'' ''id'']\<rparr>] s = (Ok (Message (''table '' @ quoted ''t'' @ '' created'')), s') \<or>
     create_table sample_deps ''t'' [\<lparr>cd_name = ''u'', cd_type = TInt, cd_constraints = [CReferences ''users'' ''id'']\<rparr>] s = (Err clock_error, s')"
proof -
  obtain s where s: "storage_inv sample_deps s" "db_of sample_deps s = [''users'' \<mapsto> (ts_columns sample_schema, [sample_data])]"
    by (rule sample_tables) (rule that)
  obtain r s' where run: "create_table sample_deps ''t'' [\<lparr>cd_name = ''u'', cd_type = TInt, cd_constraints = [CReferences ''users'' ''id'']\<rparr>] s = (r, s')"
    by fastforce
  have name: "plain_name ''t''" by (simp add: plain_name_def)
  from create_table_correct [OF s(1) name run] run show ?thesis
    by (simp add: valid_columns_def s(2) lower_column_def pk_columns_def target_type_def sample_schema_def del: db_of_None) blast
qed

lemma drop_table_correct_witness:
  "\<exists>s s'. (drop_table sample_deps ''users'' s = (Ok (Message (''table '' @ quoted ''users'' @ '' dropped'')), s') \<or>
      drop_table sample_deps ''users'' s = (Err clock_error, s')) \<and> db_of sample_deps s' ''users'' = None"
proof -
  obtain s where s: "storage_inv sample_deps s" "db_of sample_deps s = [''users'' \<mapsto> (ts_columns sample_schema, [sample_data])]"
    by (rule sample_tables) (rule that)
  obtain r s' where run: "drop_table sample_deps ''users'' s = (r, s')" by fastforce
  have free: "\<not> ((\<exists>u c pc. u \<noteq> ''users'' \<and> references (db_of sample_deps s) u c ''users'' pc) \<or> db_of sample_deps s ''users'' = None)"
    by (simp add: s(2) sample_no_references del: db_of_None)
  from drop_table_correct [OF s(1) run, unfolded if_not_P [OF free]] run show ?thesis
    by (intro exI [of _ s] exI [of _ s']) (auto simp del: db_of_None)
qed

end
