(* ===== verification/Storage_Properties.thy ===== *)
theory Storage_Properties
  imports Schema_Properties
begin

text \<open>
  Properties of the layers below the statements: encryption, the unique-value cache, the secondary
  indexes, and the typing of WHERE clauses.
\<close>

section \<open>The sample storage within the limits of a locator\<close>

lemma sample_fits:
  obtains s sch where "storage_inv sample_deps s" "get_schema s ''users'' = Ok sch"
    "ts_columns sch = ts_columns sample_schema" "rows_of sample_deps s ''users'' = [sample_data]"
    "table_fits s ''users''" "st_index_catalog s = [\<lparr>ix_name = ''by_id'', ix_table = ''users'', ix_column = ''id''\<rparr>]"
proof -
  obtain s where s: "storage_inv sample_deps s" "columns_of s ''users'' = Some (ts_columns sample_schema)"
    "st_index_catalog s = [\<lparr>ix_name = ''by_id'', ix_table = ''users'', ix_column = ''id''\<rparr>]"
    "rows_of sample_deps s ''users'' = [sample_data]" "length (content_of s ''users'') = 99"
    by (rule sample_storage_exists) (rule that)
  from s(2) obtain sch where sch: "fmlookup (st_catalog s) ''users'' = Some sch"
    "ts_columns sch = ts_columns sample_schema" by (auto simp: columns_of_def)
  have "table_fits s ''users''"
    using s(5) split_lines_length [of _ "content_of s ''users''"] by (fastforce simp: table_fits_def)
  with s sch show ?thesis by (intro that [of s sch]) (simp_all add: get_schema_Ok)
qed

lemma select_filters_and_projects_witness:
  "\<exists>s. storage_inv sample_deps s \<and>
     select sample_deps s ''users'' [Column ''name''] [] (Some (Compare ''id'' OpEq (VInt 1))) [] None [] None None =
       Ok (Rows [''name''] [[VText ''ann'']])"
proof -
  obtain s sch where s: "storage_inv sample_deps s" "get_schema s ''users'' = Ok sch"
    "ts_columns sch = ts_columns sample_schema" "rows_of sample_deps s ''users'' = [sample_data]" "table_fits s ''users''"
    by (rule sample_fits) (rule that)
  have g: "where_filter sample_deps s ''users'' sch (Some (Compare ''id'' OpEq (VInt 1))) = Ok (Some (Compare ''id'' OpEq (VInt 1)))"
    by (simp add: where_filter_def resolve_opt_def prepare_opt_def find_column_def s(3) sample_schema_def)
  have cols: "resolve_select_columns sch ''users'' [Column ''name''] [] = Ok [''name'']"
    by (simp add: has_column_def s(3) sample_schema_def)
  have plain: "\<not> (\<exists>e \<in> set [Column ''name'']. is_aggregate e)" by (simp add: is_aggregate_def)
  have row: "filter (\<lambda>r. row_matches_filter r (Some (Compare ''id'' OpEq (VInt 1)))) [sample_data] = [sample_data]"
    "row_get sample_data ''name'' = VText ''ann''"
    by (simp_all add: row_matches_filter_def sample_data_def)
  have "take USIZE_MAX [x] = [x]" for x :: "value_t list" by (simp add: USIZE_MAX_def)
  with select_filters_and_projects [OF s(1,2,5) g cols plain, of None None] s(1,4) row show ?thesis
    by (intro exI [of _ s]) simp
qed

section \<open>Encryption\<close>

text \<open>
  C23: what is encrypted comes back: under any key, with the random nonce drawn for it, encryption
  succeeds, its text is one line of base64 characters, and decryption under the same key returns
  the plaintext; and the master key that \<open>--keygen\<close> generates is a line of base64 text that is
  accepted as a key of 32 bytes, the random ones drawn for it.
\<close>
theorem encryption_roundtrip:
  assumes "deps_ok D"
  shows "(\<exists>s. encrypt_to_base64 D key plaintext rng = (Ok s, Suc rng) \<and> decrypt_from_base64 D key s = Ok plaintext \<and>
      list_all b64_char s \<and> NL \<notin> set s) \<and>
    (\<exists>k. generate_base64_key D rng = (Ok k, Suc rng) \<and> list_all b64_char k \<and>
      from_base64_key D k = Ok (d_random D rng 32) \<and> length (d_random D rng 32) = 32)"
proof -
  obtain s where s: "encrypt_to_base64 D key plaintext rng = (Ok s, Suc rng)" "list_all b64_char s" "s \<noteq> []"
    "decrypt_from_base64 D key s = Ok plaintext"
    by (rule encrypt_ok [OF assms]) (rule that)
  have "list_all b64_char (d_b64_encode D (d_random D rng 32))" "length (d_random D rng 32) = 32"
    using assms by (simp_all add: deps_ok_def base64_ok_def random_ok_def)
  with generated_key_accepted [OF assms, of rng] s b64_no_newline [OF s(2)] show ?thesis
    by (simp add: generate_base64_key_def KEY_LEN_def)
qed

lemma encryption_roundtrip_witness:
  "(\<exists>s. encrypt_to_base64 sample_deps [1, 2] [3] 7 = (Ok s, 8) \<and> decrypt_from_base64 sample_deps [1, 2] s = Ok [3]) \<and>
   (\<exists>k raw. generate_base64_key sample_deps 7 = (Ok k, 8) \<and> from_base64_key sample_deps k = Ok raw \<and> length raw = 32)"
  using encryption_roundtrip [OF sample_deps_ok, of "[1, 2]" "[3]" 7] by auto

section \<open>The unique-value cache and the indexes\<close>

text \<open>
  C22: the cache of unique values is invisible: the probe answers whether a row of the table has the
  value (a NULL is never a duplicate), exactly as a scan of the table would, and changes nothing
  but the cache.
\<close>
theorem unique_probe_is_scan:
  assumes inv: "storage_inv D s" and t: "db_of D s t = Some (cols, rows)"
  shows "\<exists>s'. unique_value_exists D t c v s = (Ok (v \<noteq> VNull \<and> (\<exists>r \<in> set rows. fmlookup r c = Some v)), s') \<and>
    storage_inv D s' \<and> db_of D s' = db_of D s"
proof -
  from t obtain sch where sch: "fmlookup (st_catalog s) t = Some sch" "rows_of D s t = rows"
    by (rule sample_catalog) (rule that)
  then have "fmlookup (st_catalog s) t \<noteq> None" by simp
  then show ?thesis
  proof (rule unique_value_exists_ok [OF inv])
    fix s' assume *: "unique_value_exists D t c v s =
        (Ok (v \<noteq> VNull \<and> (\<exists>r \<in> set (rows_of D s t). fmlookup r c = Some v)), s')"
      "storage_inv D s'" "row_frame s s'" "same_rows D {} s s'"
    then have "quiet D s s'" by (simp add: quiet_def)
    with * sch(2) show ?thesis by auto
  qed
qed

lemma unique_probe_is_scan_witness:
  "\<exists>s. fst (unique_value_exists sample_deps ''users'' ''id'' (VInt 1) s) = Ok True \<and>
     fst (unique_value_exists sample_deps ''users'' ''id'' (VInt 2) s) = Ok False"
proof -
  obtain s where s: "storage_inv sample_deps s" "db_of sample_deps s = [''users'' \<mapsto> (ts_columns sample_schema, [sample_data])]"
    by (rule sample_tables) (rule that)
  have t: "db_of sample_deps s ''users'' = Some (ts_columns sample_schema, [sample_data])" by (simp add: s(2))
  from unique_probe_is_scan [OF s(1) t, of "''id''" "VInt 1"] unique_probe_is_scan [OF s(1) t, of "''id''" "VInt 2"]
  show ?thesis by (intro exI [of _ s]) (auto simp: sample_data_def)
qed

lemma indexed_lookup:
  assumes "storage_inv D s" "ix \<in> set (st_index_catalog s)" "ix_table ix = t" "ix_column ix = c"
  obtains ls where "find_indexed_locators D s t c v = Ok (Some ls)"
proof -
  obtain i where i: "find (\<lambda>ix. ix_table ix = t \<and> ix_column ix = c) (st_index_catalog s) = Some i"
    using assms(2-4) by (metis (mono_tags, lifting) find_None_iff option.exhaust)
  then have "i \<in> set (st_index_catalog s)" by (auto simp: find_Some_iff)
  with storage_invD(3) [OF assms(1)] obtain m where "fmlookup (st_index_maps s) (ix_name i) = Some m"
    by (auto simp: indexes_ok_def index_ok_def)
  with i that show ?thesis by (simp add: find_indexed_locators_def)
qed

text \<open>
  C21: a lookup through an index finds, at the file positions it stores, exactly the rows whose
  column has the value, in the order of the table: no stale, missing or shifted entry, after any
  sequence of statements (every reachable storage satisfies the hypotheses on the storage).
\<close>
theorem index_lookup_exact:
  assumes "storage_inv D s" and "ix \<in> set (st_index_catalog s)" "ix_table ix = t" "ix_column ix = c"
    and "table_fits s t"
  shows "\<exists>ls. find_indexed_locators D s t c v = Ok (Some ls) \<and>
    read_rows_at D s t ls = Ok (filter (\<lambda>r. row_get r c = v) (rows_of D s t))"
proof -
  obtain ls where ls: "find_indexed_locators D s t c v = Ok (Some ls)"
    using indexed_lookup [OF assms(1-4)] by blast
  have "fmlookup (st_catalog s) t \<noteq> None"
    using assms(2,3) storage_invD(3) [OF assms(1)] by (auto simp: indexes_ok_def)
  with assms have l: "table_lawful D s t" by (simp add: table_lawful_def)
  have "read_rows_at D s t ls = Ok (map (\<lambda>x. sr_data (snd x)) (filter (\<lambda>x. row_get (sr_data (snd x)) c = v) (located D s t)))"
    unfolding find_indexed_locators_found [OF assms(1) ls] by (rule read_at_located [OF l]) auto
  with ls show ?thesis by (simp add: rows_of_def stored_of_def filter_map comp_def)
qed

lemma index_lookup_exact_witness:
  "\<exists>s ls. find_indexed_locators sample_deps s ''users'' ''id'' (VInt 1) = Ok (Some ls) \<and>
     read_rows_at sample_deps s ''users'' ls = Ok [sample_data]"
proof -
  obtain s sch where s: "storage_inv sample_deps s" "rows_of sample_deps s ''users'' = [sample_data]" "table_fits s ''users''"
    "st_index_catalog s = [\<lparr>ix_name = ''by_id'', ix_table = ''users'', ix_column = ''id''\<rparr>]"
    by (rule sample_fits) (rule that)
  let ?ix = "\<lparr>ix_name = ''by_id'', ix_table = ''users'', ix_column = ''id''\<rparr>"
  have ix: "?ix \<in> set (st_index_catalog s)" "ix_table ?ix = ''users''" "ix_column ?ix = ''id''" by (simp_all add: s(4))
  from index_lookup_exact [OF s(1) ix s(3), of "VInt 1"] show ?thesis
    by (intro exI [of _ s]) (simp add: s(2) sample_data_def)
qed

section \<open>Typing of WHERE clauses\<close>

text \<open>
  C25: a WHERE clause that passes preparation compares columns of the table with values of their own
  type only (LIKE with texts), holds no subquery any more, and preparing it again changes nothing.
\<close>
theorem prepared_filter_typed:
  assumes "prepare_filter sch t f = Ok g"
  shows "filter_typed sch g \<and> prepare_filter sch t' g = Ok g"
  using prepare_filter_typed [OF assms] prepare_filter_idem by blast

lemma prepared_filter_typed_witness:
  "filter_typed sample_schema (Compare ''id'' OpEq (VInt 1)) \<and>
   prepare_filter sample_schema ''u'' (Compare ''id'' OpEq (VInt 1)) = Ok (Compare ''id'' OpEq (VInt 1))"
proof -
  have "prepare_filter sample_schema ''users'' (Compare ''id'' OpEq (VInt 1)) = Ok (Compare ''id'' OpEq (VInt 1))"
    by (simp add: find_column_def sample_schema_def)
  then show ?thesis by (rule prepared_filter_typed)
qed

end
