(* ===== verification/Auth.thy ===== *)
theory Auth
  imports Storage Sample_Deps
begin

text \<open>
  \<open>AuthManager\<close> of \<open>src/security.rs\<close>: the user store, its sealed file, creation of users and
  login. \<open>am_files\<close> are the files of the \<open>security\<close> directory.
\<close>

section \<open>The manager\<close>

record auth_manager =
  am_files :: "string \<rightharpoonup> string"
  am_rng :: nat
  am_store :: auth_store
  am_key :: "u8 list"

type_synonym 'a auth_op = "(auth_manager, flux_error, 'a) op"

definition PBKDF2_ROUNDS :: u32 where "PBKDF2_ROUNDS = 210000"
definition SALT_LEN :: nat where "SALT_LEN = 16"
definition HASH_LEN :: nat where "HASH_LEN = 32"

definition users_path :: string where "users_path = ''users.enc''"

definition str_bytes :: "string \<Rightarrow> u8 list" where
  "str_bytes s = map (\<lambda>c. of_nat (byte c)) s"

definition from_env :: "deps \<Rightarrow> (string \<rightharpoonup> string) \<Rightarrow> string \<Rightarrow> u8 list result" where
  "from_env D env name = (case env name of
     None \<Rightarrow> Err (Configuration (''master key env var '' @ quoted name @ '' is not set''))
   | Some key_b64 \<Rightarrow> from_base64_key D key_b64)"

text \<open>The reading of the file is that of \<open>load_encrypted_json\<close>, written out again in the code.\<close>

definition auth_open :: "deps \<Rightarrow> u8 list \<Rightarrow> (string \<rightharpoonup> string) \<Rightarrow> nat \<Rightarrow> auth_manager result" where
  "auth_open D key files rng =
     tryq (case files users_path of
             None \<Rightarrow> Ok fmempty
           | Some encrypted \<Rightarrow>
               if \<not> utf8_valid encrypted then Err Io
               else if trim encrypted = [] then Ok fmempty
               else tryq (decrypt_from_base64 D key encrypted) (\<lambda>p. ok_or (d_users_unjson D p) Serde))
       (\<lambda>store. Ok \<lparr>am_files = files, am_rng = rng, am_store = store, am_key = key\<rparr>)"

definition has_users :: "auth_manager \<Rightarrow> bool" where
  "has_users m \<longleftrightarrow> am_store m \<noteq> fmempty"

text \<open>\<open>save\<close>: the sealed store goes to a temporary file that replaces the old one.\<close>

definition auth_replace :: "string \<Rightarrow> (string \<rightharpoonup> string) \<Rightarrow> (string \<rightharpoonup> string)" where
  "auth_replace encrypted files =
     (let tmp = with_extension users_path ''tmp'';
          f1 = files(tmp \<mapsto> encrypted);
          f2 = (if f1 users_path \<noteq> None then f1(users_path := None) else f1)
      in (f2(users_path := f2 tmp))(tmp := None))"

definition auth_save :: "deps \<Rightarrow> unit auth_op" where
  "auth_save D = (\<lambda>m.
     case encrypt_to_base64 D (am_key m) (d_users_json D (am_store m)) (am_rng m) of
       (Ok encrypted, g) \<Rightarrow> (Ok (), m\<lparr>am_rng := g, am_files := auth_replace encrypted (am_files m)\<rparr>)
     | (Err e, g) \<Rightarrow> (Err e, m\<lparr>am_rng := g\<rparr>)
     | (Panic p, g) \<Rightarrow> (Panic p, m\<lparr>am_rng := g\<rparr>))"

section \<open>Users\<close>

definition validate_username :: "string \<Rightarrow> unit result" where
  "validate_username username =
     (if username = [] then Err (Configuration ''username cannot be empty'')
      else if \<not> list_all is_ident_char (chars username)
      then Err (Configuration (''username can contain only ASCII letters, numbers and '' @ quoted ''_''))
      else Ok ())"

definition create_user :: "deps \<Rightarrow> string \<Rightarrow> string \<Rightarrow> role \<Rightarrow> unit auth_op" where
  "create_user D username password r =
     op_bind (op_lift (validate_username username)) (\<lambda>_.
     if length password < 12 then op_err (Configuration ''password must be at least 12 characters long'')
     else (\<lambda>m.
       if fmlookup (am_store m) username \<noteq> None then (Err (UserExists username), m)
       else (let salt = d_random D (am_rng m) SALT_LEN;
                 h = d_pbkdf2 D (str_bytes password) salt PBKDF2_ROUNDS HASH_LEN;
                 rec = \<lparr>ur_role = r, ur_salt_b64 = d_b64_encode D salt, ur_hash_b64 = d_b64_encode D h,
                   ur_iterations = PBKDF2_ROUNDS\<rparr>
             in auth_save D (m\<lparr>am_rng := Suc (am_rng m), am_store := fmupd username rec (am_store m)\<rparr>))))"

text \<open>The loop over the zipped bytes, with \<open>diff\<close> as accumulator.\<close>

definition constant_time_eq :: "u8 list \<Rightarrow> u8 list \<Rightarrow> bool" where
  "constant_time_eq left right =
     (if length left \<noteq> length right then False
      else fold (\<lambda>(a, b) diff. or diff (xor a b)) (zip left right) 0 = 0)"

definition authenticate :: "deps \<Rightarrow> auth_manager \<Rightarrow> string \<Rightarrow> string \<Rightarrow> identity result" where
  "authenticate D m username password =
     tryq (ok_or (fmlookup (am_store m) username) AuthenticationFailed) (\<lambda>rec.
     tryq (ok_or (d_b64_decode D (ur_salt_b64 rec)) Base64) (\<lambda>salt.
     tryq (ok_or (d_b64_decode D (ur_hash_b64 rec)) Base64) (\<lambda>expected.
     let computed = d_pbkdf2 D (str_bytes password) salt (ur_iterations rec) (length expected)
     in if \<not> constant_time_eq computed expected then Err AuthenticationFailed
        else Ok \<lparr>id_username = username, id_role = ur_role rec\<rparr>)))"

section \<open>Facts\<close>

lemma xor_zero_iff: "xor a b = 0 \<longleftrightarrow> a = (b :: 'a::len word)"
  by (auto simp: bit_eq_iff bit_xor_iff)

lemma or_fold_zero:
  "fold (\<lambda>(a, b) diff. or diff (xor a b)) xs d = 0 \<longleftrightarrow> (d :: u8) = 0 \<and> (\<forall>(a, b) \<in> set xs. a = b)"
  by (induction xs arbitrary: d) (auto simp: or_eq_0_iff xor_zero_iff split: prod.splits)

text \<open>The constant-time comparison accepts exactly equal byte strings.\<close>

lemma constant_time_eq_iff [simp]: "constant_time_eq left right \<longleftrightarrow> left = right"
  by (auto simp: constant_time_eq_def or_fold_zero list_eq_iff_nth_eq set_zip)

text \<open>PBKDF2 fills the buffer it is given; the serialised store is never read back as something else.\<close>

definition pbkdf2_ok :: "deps \<Rightarrow> bool" where
  "pbkdf2_ok D \<longleftrightarrow> (\<forall>p s r n. length (d_pbkdf2 D p s r n) = n)"

definition auth_ok :: "deps \<Rightarrow> auth_manager \<Rightarrow> bool" where
  "auth_ok D m \<longleftrightarrow> auth_open D (am_key m) (am_files m) (am_rng m) = Ok m"

lemma tmp_users_path [simp]: "with_extension users_path ''tmp'' = ''users.tmp''"
  by (simp add: with_extension_def users_path_def str_rfind_def numeral_2_eq_2)

lemma auth_replace_file: "auth_replace c files users_path = Some c"
  unfolding auth_replace_def Let_def tmp_users_path by (simp add: users_path_def)

lemma auth_save_ok:
  assumes "deps_ok D"
  shows "\<exists>f. auth_save D m = (Ok (), m\<lparr>am_rng := Suc (am_rng m), am_files := f\<rparr>) \<and>
    auth_ok D (m\<lparr>am_rng := Suc (am_rng m), am_files := f\<rparr>)"
proof -
  obtain c where c: "encrypt_to_base64 D (am_key m) (d_users_json D (am_store m)) (am_rng m) = (Ok c, Suc (am_rng m))"
    "list_all b64_char c" "c \<noteq> []" "decrypt_from_base64 D (am_key m) c = Ok (d_users_json D (am_store m))"
    by (rule encrypt_ok [OF assms]) (rule that)
  have "d_users_unjson D (d_users_json D (am_store m)) = Some (am_store m)"
    by (rule json_okD(7) [OF assms])
  with c have "auth_open D (am_key m) (auth_replace c (am_files m)) g =
      Ok \<lparr>am_files = auth_replace c (am_files m), am_rng = g, am_store = am_store m, am_key = am_key m\<rparr>" for g
    by (simp add: auth_open_def auth_replace_file trim_b64 utf8_valid_ascii is_ascii_b64)
  then have "auth_ok D (m\<lparr>am_rng := g, am_files := auth_replace c (am_files m)\<rparr>)" for g
    by (simp add: auth_ok_def)
  with c(1) show ?thesis by (intro exI [of _ "auth_replace c (am_files m)"]) (simp add: auth_save_def)
qed

definition valid_user :: "auth_manager \<Rightarrow> string \<Rightarrow> string \<Rightarrow> bool" where
  "valid_user m username password \<longleftrightarrow> username \<noteq> [] \<and> (\<forall>g \<in> set (chars username). is_ident_char g) \<and>
     12 \<le> length password \<and> fmlookup (am_store m) username = None"

lemma validate_username_iff:
  "validate_username u = Ok () \<longleftrightarrow> u \<noteq> [] \<and> (\<forall>g \<in> set (chars u). is_ident_char g)"
  by (simp add: validate_username_def list_all_iff)

lemma create_user_cases:
  assumes D: "deps_ok D"
  shows "if valid_user m u p
    then \<exists>f salt. create_user D u p r m = (Ok (), m\<lparr>am_files := f, am_rng := Suc (Suc (am_rng m)), am_store := fmupd u
        \<lparr>ur_role = r, ur_salt_b64 = d_b64_encode D salt,
          ur_hash_b64 = d_b64_encode D (d_pbkdf2 D (str_bytes p) salt PBKDF2_ROUNDS HASH_LEN),
          ur_iterations = PBKDF2_ROUNDS\<rparr> (am_store m)\<rparr>) \<and> auth_ok D (snd (create_user D u p r m))
    else \<exists>e. create_user D u p r m = (Err e, m)"
proof (cases "validate_username u")
  case (Ok x)
  then have val: "u \<noteq> [] \<and> (\<forall>g \<in> set (chars u). is_ident_char g)" by (simp add: validate_username_iff [symmetric])
  show ?thesis
  proof (cases "valid_user m u p")
    case True
    define salt where "salt = d_random D (am_rng m) SALT_LEN"
    define m1 where "m1 = m\<lparr>am_rng := Suc (am_rng m), am_store := fmupd u
        \<lparr>ur_role = r, ur_salt_b64 = d_b64_encode D salt,
          ur_hash_b64 = d_b64_encode D (d_pbkdf2 D (str_bytes p) salt PBKDF2_ROUNDS HASH_LEN),
          ur_iterations = PBKDF2_ROUNDS\<rparr> (am_store m)\<rparr>"
    have run: "create_user D u p r m = auth_save D m1"
      using True Ok by (simp add: create_user_def valid_user_def Let_def salt_def m1_def)
    obtain f where f: "auth_save D m1 = (Ok (), m1\<lparr>am_rng := Suc (am_rng m1), am_files := f\<rparr>)"
      "auth_ok D (m1\<lparr>am_rng := Suc (am_rng m1), am_files := f\<rparr>)"
      using auth_save_ok [OF D] by blast
    with True show ?thesis
      by (simp add: run) (intro exI [of _ f] exI [of _ salt], simp add: m1_def)
  next
    case False
    with val Ok show ?thesis by (auto simp: create_user_def valid_user_def op_apply)
  qed
next
  case (Err e)
  then have "\<not> valid_user m u p" by (auto simp: valid_user_def validate_username_def list_all_iff split: if_splits)
  with Err show ?thesis by (simp add: create_user_def)
next
  case (Panic q)
  then show ?thesis by (simp add: validate_username_def split: if_splits)
qed

text \<open>
  C28: an account can be created exactly for a new, non-empty name of ASCII letters, digits and
  underscores with a password of at least 12 bytes. After it, that name and password log in with
  the given role, another password is accepted only if it has the same hash, no other account is
  affected, and the store read back from the disk is the one in memory. A refusal changes nothing.
\<close>
theorem create_user_correct:
  assumes "deps_ok D" and "pbkdf2_ok D" and run: "create_user D u p r m = (x, m')"
  shows "if valid_user m u p
    then x = Ok () \<and> authenticate D m' u p = Ok \<lparr>id_username = u, id_role = r\<rparr> \<and>
      (\<exists>salt. \<forall>q. authenticate D m' u q =
        (if d_pbkdf2 D (str_bytes q) salt PBKDF2_ROUNDS HASH_LEN = d_pbkdf2 D (str_bytes p) salt PBKDF2_ROUNDS HASH_LEN
         then Ok \<lparr>id_username = u, id_role = r\<rparr> else Err AuthenticationFailed)) \<and>
      (\<forall>v q. v \<noteq> u \<longrightarrow> authenticate D m' v q = authenticate D m v q) \<and>
      auth_open D (am_key m) (am_files m') (am_rng m') = Ok m'
    else (\<exists>e. x = Err e) \<and> m' = m"
proof (cases "valid_user m u p")
  case True
  with create_user_cases [OF assms(1), of m u p r] run obtain f salt where
    m': "x = Ok ()" "m' = m\<lparr>am_files := f, am_rng := Suc (Suc (am_rng m)), am_store := fmupd u
        \<lparr>ur_role = r, ur_salt_b64 = d_b64_encode D salt,
          ur_hash_b64 = d_b64_encode D (d_pbkdf2 D (str_bytes p) salt PBKDF2_ROUNDS HASH_LEN),
          ur_iterations = PBKDF2_ROUNDS\<rparr> (am_store m)\<rparr>" "auth_ok D m'" by auto
  have b64: "d_b64_decode D (d_b64_encode D bs) = Some bs" for bs
    using assms(1) by (simp add: deps_ok_def base64_ok_def)
  have len: "length (d_pbkdf2 D q s i n) = n" for q s i n using assms(2) by (simp add: pbkdf2_ok_def)
  have auth: "authenticate D m' u q =
      (if d_pbkdf2 D (str_bytes q) salt PBKDF2_ROUNDS HASH_LEN = d_pbkdf2 D (str_bytes p) salt PBKDF2_ROUNDS HASH_LEN
       then Ok \<lparr>id_username = u, id_role = r\<rparr> else Err AuthenticationFailed)" for q
    by (simp add: authenticate_def m'(2) b64 len Let_def)
  have "auth_open D (am_key m) (am_files m') (am_rng m') = Ok m'"
    using m'(3) by (simp add: auth_ok_def m'(2))
  moreover have "authenticate D m' v q = authenticate D m v q" if "v \<noteq> u" for v q
    using that by (simp add: authenticate_def m'(2))
  ultimately show ?thesis using True m'(1) auth by (auto intro!: exI [of _ salt])
next
  case False
  with create_user_cases [OF assms(1), of m u p r] run show ?thesis by auto
qed

lemma sample_pbkdf2_ok: "pbkdf2_ok sample_deps"
  by (auto simp: pbkdf2_ok_def sample_deps_def min_def)

lemma create_user_correct_witness:
  "\<exists>m m'. create_user sample_deps ''ann'' ''twelve bytes'' ReadWrite m = (Ok (), m') \<and>
     authenticate sample_deps m' ''ann'' ''twelve bytes'' = Ok \<lparr>id_username = ''ann'', id_role = ReadWrite\<rparr>"
proof -
  define m where "m = \<lparr>am_files = (\<lambda>_. None), am_rng = 0, am_store = fmempty, am_key = []\<rparr>"
  obtain x m' where run: "create_user sample_deps ''ann'' ''twelve bytes'' ReadWrite m = (x, m')" by fastforce
  have "is_ascii ''ann''" by (simp add: is_ascii_def byte_def)
  then have "valid_user m ''ann'' ''twelve bytes''"
    by (simp add: valid_user_def m_def utf8_extra_def is_ident_char_def is_ascii_alnum_def byte_def)
  with create_user_correct [OF sample_deps_ok sample_pbkdf2_ok run] run show ?thesis by auto
qed

text \<open>
  Nobody logs in without an account: a successful login returns the name that was given and the
  role stored for it, and the password's hash under the stored salt is the stored hash.
\<close>

lemma login_needs_account:
  assumes "authenticate D m u p = Ok who"
  shows "\<exists>rec salt. fmlookup (am_store m) u = Some rec \<and> who = \<lparr>id_username = u, id_role = ur_role rec\<rparr> \<and>
    d_b64_decode D (ur_salt_b64 rec) = Some salt \<and>
    (\<exists>n. d_b64_decode D (ur_hash_b64 rec) = Some (d_pbkdf2 D (str_bytes p) salt (ur_iterations rec) n))"
  using assms by (auto simp: authenticate_def res_simps Let_def split: if_splits option.splits) metis

end
