(* ===== verification/Lexer.thy ===== *)
theory Lexer
  imports Data_Model
begin

text \<open>
  The lexical helpers of \<open>src/parser.rs\<close>: searching and splitting outside quotes and parentheses,
  prefixes, identifiers and literals. A slice \<open>&s[a..b]\<close> is \<open>str_slice\<close>, which panics as in Rust.
\<close>

section \<open>Quotes\<close>

abbreviation (input) SQ :: char where "SQ \<equiv> CHR 0x27"
abbreviation (input) DQ :: char where "DQ \<equiv> CHR 0x22"
abbreviation (input) LPAREN :: char where "LPAREN \<equiv> CHR ''(''"
abbreviation (input) RPAREN :: char where "RPAREN \<equiv> CHR '')''"

definition next_is :: "'a \<Rightarrow> 'a list \<Rightarrow> bool" where
  "next_is x xs = (case xs of [] \<Rightarrow> False | y # _ \<Rightarrow> y = x)"

text \<open>
  The treatment of quotes that every scanning loop starts with: what a quote does to the flags
  \<open>in_single\<close> and \<open>in_double\<close>, and whether a doubled quote inside a string is skipped whole. None
  means that the character is not a quote here.
\<close>

definition quote_step :: "'a \<Rightarrow> 'a \<Rightarrow> bool \<Rightarrow> bool \<Rightarrow> 'a \<Rightarrow> 'a list \<Rightarrow> (bool \<times> bool \<times> bool) option" where
  "quote_step sq dq in_single in_double x xs =
     (if x = sq \<and> \<not> in_double then
        (if in_single \<and> next_is sq xs then Some (in_single, in_double, True)
         else Some (\<not> in_single, in_double, False))
      else if x = dq \<and> \<not> in_single then
        (if in_double \<and> next_is dq xs then Some (in_single, in_double, True)
         else Some (in_single, \<not> in_double, False))
      else None)"

text \<open>Induction along a scanning loop.\<close>

lemma scan_induct [case_names Nil skip quote char]:
  assumes "\<And>s d. P s d []"
    and "\<And>s d g g' gs s' d'. quote_step sq dq s d g (g' # gs) = Some (s', d', True) \<Longrightarrow> P s' d' gs \<Longrightarrow> P s d (g # g' # gs)"
    and "\<And>s d g gs s' d'. quote_step sq dq s d g gs = Some (s', d', False) \<Longrightarrow> P s' d' gs \<Longrightarrow> P s d (g # gs)"
    and "\<And>s d g gs. quote_step sq dq s d g gs = None \<Longrightarrow> P s d gs \<Longrightarrow> P s d (g # gs)"
  shows "P s d gs"
proof (induction gs arbitrary: s d rule: measure_induct_rule [of length])
  case (less gs)
  show ?case
  proof (cases gs)
    case (Cons g gs')
    show ?thesis
    proof (cases "quote_step sq dq s d g gs'")
      case None
      with less.IH [of gs'] Cons assms(4) show ?thesis by simp
    next
      case (Some q)
      then obtain s' d' skip where q: "quote_step sq dq s d g gs' = Some (s', d', skip)" by (cases q) simp
      show ?thesis
      proof (cases skip)
        case True
        with q obtain g' gs'' where "gs' = g' # gs''"
          by (cases gs') (auto simp: quote_step_def next_is_def split: if_splits)
        with q True less.IH [of gs''] Cons assms(2) show ?thesis by simp
      next
        case False
        with q less.IH [of gs'] Cons assms(3) show ?thesis by simp
      qed
    qed
  qed (simp add: assms(1))
qed

text \<open>The counter of open parentheses, 32 bits wide; it stands still inside quotes.\<close>

definition paren_step :: "'a \<Rightarrow> 'a \<Rightarrow> bool \<Rightarrow> bool \<Rightarrow> 'a \<Rightarrow> 32 word \<Rightarrow> 32 word" where
  "paren_step opn cls in_single in_double x depth =
     (if \<not> in_single \<and> \<not> in_double then (if x = opn then depth + 1 else if x = cls then depth - 1 else depth)
      else depth)"

section \<open>Characters outside quotes\<close>

text \<open>The answer is an index into the vector of characters; the callers slice bytes with it.\<close>

function find_char_loop :: "string \<Rightarrow> bool \<Rightarrow> bool \<Rightarrow> nat \<Rightarrow> string list \<Rightarrow> nat option" where
  "find_char_loop target s d i [] = None"
| "find_char_loop target s d i (g # gs) =
     (case quote_step [SQ] [DQ] s d g gs of
        Some (s', d', skip) \<Rightarrow>
          if skip then find_char_loop target s' d' (i + 2) (drop 1 gs)
          else find_char_loop target s' d' (i + 1) gs
      | None \<Rightarrow> if g = target \<and> \<not> s \<and> \<not> d then Some i else find_char_loop target s d (i + 1) gs)"
  by pat_completeness auto
termination
  by (relation "measure (\<lambda>(_, _, _, _, gs). length gs)") auto

definition find_char_outside_quotes :: "string \<Rightarrow> string \<Rightarrow> nat result" where
  "find_char_outside_quotes input target =
     ok_or (find_char_loop target False False 0 (chars input))
       (Parse (''expected '' @ quoted target @ '' in expression''))"

definition operator_at :: "string \<Rightarrow> string list \<Rightarrow> (nat \<times> compare_op) option" where
  "operator_at g gs =
     (if g = ''>'' \<and> next_is ''='' gs then Some (2, OpGte)
      else if g = ''<'' \<and> next_is ''='' gs then Some (2, OpLte)
      else if g = ''!'' \<and> next_is ''='' gs then Some (2, OpNotEq)
      else if g = ''<'' \<and> next_is ''>'' gs then Some (2, OpNotEq)
      else if g = ''='' then Some (1, OpEq)
      else if g = ''>'' then Some (1, OpGt)
      else if g = ''<'' then Some (1, OpLt)
      else None)"

function find_operator_loop :: "bool \<Rightarrow> bool \<Rightarrow> nat \<Rightarrow> string list \<Rightarrow> (nat \<times> nat \<times> compare_op) option" where
  "find_operator_loop s d i [] = None"
| "find_operator_loop s d i (g # gs) =
     (case quote_step [SQ] [DQ] s d g gs of
        Some (s', d', skip) \<Rightarrow>
          if skip then find_operator_loop s' d' (i + 2) (drop 1 gs)
          else find_operator_loop s' d' (i + 1) gs
      | None \<Rightarrow>
          (case (if \<not> s \<and> \<not> d then operator_at g gs else None) of
             Some (len, op) \<Rightarrow> Some (i, len, op)
           | None \<Rightarrow> find_operator_loop s d (i + 1) gs))"
  by pat_completeness auto
termination
  by (relation "measure (\<lambda>(_, _, _, gs). length gs)") auto

definition find_comparison_operator :: "string \<Rightarrow> (nat \<times> nat \<times> compare_op) result" where
  "find_comparison_operator input = ok_or (find_operator_loop False False 0 (chars input))
     (Parse ''WHERE comparison must contain one of: =, !=, <>, >, >=, <, <=, LIKE'')"

section \<open>Splitting\<close>

definition add_piece :: "string \<Rightarrow> string list \<Rightarrow> string list" where
  "add_piece current parts = (if trim current = [] then parts else parts @ [trim current])"

function split_loop :: "string \<Rightarrow> bool \<Rightarrow> bool \<Rightarrow> 32 word \<Rightarrow> string \<Rightarrow> string list \<Rightarrow> string list \<Rightarrow>
    string list result" where
  "split_loop delim s d depth current parts [] =
     (if s \<or> d then Err (Parse ''unterminated quoted string'') else Ok (add_piece current parts))"
| "split_loop delim s d depth current parts (g # gs) =
     (case quote_step [SQ] [DQ] s d g gs of
        Some (s', d', skip) \<Rightarrow>
          if skip then split_loop delim s' d' depth (current @ g @ g) parts (drop 1 gs)
          else split_loop delim s' d' depth (current @ g) parts gs
      | None \<Rightarrow>
          (let depth' = paren_step [LPAREN] [RPAREN] s d g depth
           in if g = delim \<and> \<not> s \<and> \<not> d \<and> depth' = 0
              then split_loop delim s d depth' [] (add_piece current parts) gs
              else split_loop delim s d depth' (current @ g) parts gs))"
  by pat_completeness auto
termination
  by (relation "measure (\<lambda>(_, _, _, _, _, _, gs). length gs)") auto

definition split_aware :: "string \<Rightarrow> string \<Rightarrow> string list result" where
  "split_aware input delim = split_loop delim False False 0 [] [] (chars input)"

definition split_statements :: "string \<Rightarrow> string list result" where
  "split_statements input = split_aware input '';''"

definition split_comma_aware :: "string \<Rightarrow> string list result" where
  "split_comma_aware input = split_aware input '',''"

section \<open>Keywords\<close>

definition is_boundary :: "char option \<Rightarrow> bool" where
  "is_boundary b = (case b of None \<Rightarrow> True
     | Some c \<Rightarrow> is_ascii_whitespace c \<or> c \<in> {LPAREN, RPAREN, CHR '','', CHR '';''})"

definition first_byte :: "string \<Rightarrow> char option" where
  "first_byte s = (case s of [] \<Rightarrow> None | c # _ \<Rightarrow> Some c)"

definition keyword_here :: "string \<Rightarrow> char option \<Rightarrow> string \<Rightarrow> bool" where
  "keyword_here key prev bs \<longleftrightarrow> length key \<le> length bs \<and> eq_ignore_ascii_case (take (length key) bs) key \<and>
     is_boundary prev \<and> is_boundary (first_byte (drop (length key) bs))"

text \<open>The loop runs over bytes; \<open>prev\<close> is \<open>bytes[i - 1]\<close>.\<close>

function keyword_loop :: "string \<Rightarrow> char option \<Rightarrow> bool \<Rightarrow> bool \<Rightarrow> 32 word \<Rightarrow> nat \<Rightarrow> string \<Rightarrow> nat option" where
  "keyword_loop key prev s d depth i [] = None"
| "keyword_loop key prev s d depth i (b # bs) =
     (case quote_step SQ DQ s d b bs of
        Some (s', d', skip) \<Rightarrow>
          if skip then keyword_loop key (Some b) s' d' depth (i + 2) (drop 1 bs)
          else keyword_loop key (Some b) s' d' depth (i + 1) bs
      | None \<Rightarrow>
          (let depth' = paren_step LPAREN RPAREN s d b depth
           in if \<not> s \<and> \<not> d \<and> depth' = 0 \<and> keyword_here key prev (b # bs)
              then Some i
              else keyword_loop key (Some b) s d depth' (i + 1) bs))"
  by pat_completeness auto
termination
  by (relation "measure (\<lambda>(_, _, _, _, _, _, bs). length bs)") auto

definition find_keyword_outside_quotes :: "string \<Rightarrow> string \<Rightarrow> nat option" where
  "find_keyword_outside_quotes input key = keyword_loop key None False False 0 0 input"

definition find_first_keyword :: "string \<Rightarrow> string list \<Rightarrow> nat option" where
  "find_first_keyword input keywords =
     fold (\<lambda>kw best. case find_keyword_outside_quotes input kw of
        None \<Rightarrow> best
      | Some idx \<Rightarrow> (case best of None \<Rightarrow> Some idx | Some b \<Rightarrow> if idx < b then Some idx else best)) keywords None"

definition is_exact_keywords :: "string \<Rightarrow> string list \<Rightarrow> bool" where
  "is_exact_keywords input keywords = (let tokens = split_whitespace input in
     length tokens = length keywords \<and>
     list_all (\<lambda>(token, keyword). eq_ignore_ascii_case token keyword) (zip tokens keywords))"

definition strip_prefix_ci :: "string \<Rightarrow> string \<Rightarrow> string option result" where
  "strip_prefix_ci input prefix =
     (if length input < length prefix then Ok None
      else tryq (str_prefix input (length prefix)) (\<lambda>candidate.
        if eq_ignore_ascii_case candidate prefix
        then tryq (str_suffix input (length prefix)) (\<lambda>rest. Ok (Some rest))
        else Ok None))"

text \<open>
  The pieces between the occurrences of a keyword; the loop moves \<open>cursor\<close> over the input. The
  callers pass AND and OR; an empty keyword, for which the loop would not end, is cut off.
\<close>

function split_keyword_loop :: "string \<Rightarrow> string \<Rightarrow> nat \<Rightarrow> string list \<Rightarrow> string list result" where
  "split_keyword_loop key input cursor segments =
     tryq (str_suffix input cursor) (\<lambda>rest.
     case find_keyword_outside_quotes rest key of
       Some idx_rel \<Rightarrow>
         let idx = cursor + idx_rel in
         tryq (str_slice input cursor idx) (\<lambda>piece.
         if trim piece = [] then Err (Parse (''empty expression around '' @ quoted key))
         else if key = [] then Panic ''no progress''
         else split_keyword_loop key input (idx + length key) (segments @ [trim piece]))
     | None \<Rightarrow>
         if trim rest = [] then Err (Parse (''missing expression after '' @ quoted key))
         else if segments \<noteq> [] then Ok (segments @ [trim rest])
         else Ok [trim input])"
  by pat_completeness auto
termination
  by (relation "measure (\<lambda>(key, input, cursor, _). Suc (length input) - cursor)")
    (auto simp: str_suffix_def str_slice_def neq_Nil_conv split: if_splits)

declare split_keyword_loop.simps [simp del]

definition split_by_keyword_aware :: "string \<Rightarrow> string \<Rightarrow> string list result" where
  "split_by_keyword_aware input key = split_keyword_loop key input 0 []"

section \<open>Identifiers and literals\<close>

definition wrapped :: "char \<Rightarrow> string \<Rightarrow> bool" where
  "wrapped q s \<longleftrightarrow> str_starts_with q s \<and> str_ends_with q s \<and> 2 \<le> length s"

definition normalize_identifier :: "string \<Rightarrow> string result" where
  "normalize_identifier input = (let ident = trim input in
     if ident = [] then Err (Parse ''identifier cannot be empty'')
     else if wrapped DQ ident then str_slice ident 1 (length ident - 1)
     else if \<not> list_all is_ident_char (chars ident)
     then Err (Parse (''invalid identifier '' @ quoted ident))
     else Ok (to_ascii_lowercase ident))"

definition parse_literal :: "string \<Rightarrow> value_t result" where
  "parse_literal input = (let token = trim input in
     if eq_ignore_ascii_case token ''NULL'' then Ok VNull
     else if eq_ignore_ascii_case token ''TRUE'' then Ok (VBool True)
     else if eq_ignore_ascii_case token ''FALSE'' then Ok (VBool False)
     else (case parse_i64 token of
       Some n \<Rightarrow> Ok (VInt n)
     | None \<Rightarrow>
         if wrapped SQ token
         then tryq (str_slice token 1 (length token - 1)) (\<lambda>inner. Ok (VText (replace_pair SQ inner)))
         else if wrapped DQ token
         then tryq (str_slice token 1 (length token - 1)) (\<lambda>inner. Ok (VText (replace_pair DQ inner)))
         else Err (Parse (''invalid literal '' @ quoted token))))"

end
