(* ===== verification/Parser.thy ===== *)
theory Parser
  imports Lexer
begin

text \<open>
  The statement parsers of \<open>src/parser.rs\<close>, one definition per function, in the order of its
  helpers. \<open>parse_select\<close> and the WHERE clause call each other for subqueries: the WHERE parsers
  take the parser of subqueries as a parameter, and \<open>parse_select\<close> ties the knot.
\<close>

abbreviation syntax_error :: "string \<Rightarrow> 'a result" where
  "syntax_error m \<equiv> Err (Parse m)"

definition str_after :: "string \<Rightarrow> nat \<Rightarrow> string \<Rightarrow> string result" where
  "str_after s i keyword = str_suffix s (i + length keyword)"

definition statement_rest :: "string \<Rightarrow> string \<Rightarrow> string result" where
  "statement_rest input keyword =
     tryq (strip_prefix_ci (trim input) keyword) (\<lambda>r.
     tryq (ok_or r (Parse (''expected '' @ keyword))) (\<lambda>rest. Ok (trim rest)))"

section \<open>Column constraints\<close>

fun references_text :: "string list \<Rightarrow> string \<Rightarrow> nat \<Rightarrow> string \<times> nat" where
  "references_text [] spec consumed = (spec, consumed)"
| "references_text (token # tokens) spec consumed =
     (let spec' = spec @ token
      in if RPAREN \<in> set spec' then (spec', consumed + 1) else references_text tokens spec' (consumed + 1))"

definition parse_references_spec :: "string list \<Rightarrow> (column_constraint \<times> nat) result" where
  "parse_references_spec tokens =
     (let (spec, consumed) = references_text tokens [] 0;
          bad = Parse (''REFERENCES requires '' @ quoted ''table(column)'') in
      case (str_find LPAREN spec, str_rfind RPAREN spec) of
        (Some opn, Some close) \<Rightarrow>
          if close \<le> opn then Err bad
          else tryq (str_suffix spec (close + 1)) (\<lambda>tail.
            if trim tail \<noteq> [] then Err bad
            else tryq (str_prefix spec opn) (\<lambda>t.
              tryq (normalize_identifier (trim t)) (\<lambda>t.
              tryq (str_slice spec (opn + 1) close) (\<lambda>c.
              tryq (normalize_identifier (trim c)) (\<lambda>c.
              Ok (CReferences t c, consumed))))))
      | _ \<Rightarrow> Err bad)"

text \<open>The loop over the tokens after the type; \<open>pk\<close>: whether PRIMARY KEY is known (CREATE TABLE).\<close>

function column_constraints :: "bool \<Rightarrow> string \<Rightarrow> string list \<Rightarrow> column_constraint list \<Rightarrow>
    column_constraint list result" where
  "column_constraints pk place [] out = Ok out"
| "column_constraints pk place (token # tokens) out =
     (if pk \<and> eq_ignore_ascii_case token ''PRIMARY'' \<and> tokens \<noteq> [] \<and> eq_ignore_ascii_case (hd tokens) ''KEY''
      then column_constraints pk place (drop 1 tokens) (out @ [CPrimaryKey])
      else if eq_ignore_ascii_case token ''NOT'' \<and> tokens \<noteq> [] \<and> eq_ignore_ascii_case (hd tokens) ''NULL''
      then column_constraints pk place (drop 1 tokens) (out @ [CNotNull])
      else if eq_ignore_ascii_case token ''UNIQUE''
      then column_constraints pk place tokens (out @ [CUnique])
      else if eq_ignore_ascii_case token ''REFERENCES''
      then tryq (parse_references_spec tokens) (\<lambda>(reference, consumed).
        column_constraints pk place (drop consumed tokens) (out @ [reference]))
      else syntax_error (''unknown constraint '' @ quoted token @ '' in '' @ place))"
  by pat_completeness auto
termination
  by (relation "measure (\<lambda>(_, _, tokens, _). length tokens)") auto

section \<open>Schema statements\<close>

definition parse_column_def :: "string \<Rightarrow> column_def result" where
  "parse_column_def part =
     (case split_whitespace part of
        col_name # type_name # tokens \<Rightarrow>
          tryq (ok_or (data_type_parse type_name) (Parse (''unknown type '' @ quoted type_name))) (\<lambda>ty.
          tryq (column_constraints True ''column definition'' tokens []) (\<lambda>cs.
          tryq (normalize_identifier col_name) (\<lambda>n.
          Ok \<lparr>cd_name = n, cd_type = ty, cd_constraints = cs\<rparr>)))
      | _ \<Rightarrow> syntax_error (''invalid column definition: '' @ quoted part))"

definition parse_create_table :: "string \<Rightarrow> statement result" where
  "parse_create_table input =
     tryq (statement_rest input ''CREATE TABLE'') (\<lambda>rest.
     tryq (ok_or (str_find LPAREN rest) (Parse ''CREATE TABLE requires column definitions'')) (\<lambda>opn.
     tryq (ok_or (str_rfind RPAREN rest) (Parse (''missing '' @ quoted '')'' @ '' in CREATE TABLE''))) (\<lambda>close.
     if close \<le> opn then syntax_error ''invalid column definition list''
     else tryq (str_suffix rest (close + 1)) (\<lambda>tail.
       if trim tail \<noteq> [] then syntax_error ''unexpected tokens after CREATE TABLE definition''
       else tryq (str_prefix rest opn) (\<lambda>t.
         tryq (normalize_identifier (trim t)) (\<lambda>table_name.
         tryq (str_slice rest (opn + 1) close) (\<lambda>columns_raw.
         tryq (split_comma_aware columns_raw) (\<lambda>parts.
         if parts = [] then syntax_error ''CREATE TABLE must define at least one column''
         else tryq (map_res parse_column_def parts) (\<lambda>columns.
           Ok (CreateTable table_name columns))))))))))"

definition parse_create_index :: "string \<Rightarrow> statement result" where
  "parse_create_index input =
     tryq (statement_rest input ''CREATE INDEX'') (\<lambda>rest.
     tryq (ok_or (find_keyword_outside_quotes rest ''ON'') (Parse ''CREATE INDEX requires ON clause'')) (\<lambda>on_idx.
     tryq (str_prefix rest on_idx) (\<lambda>n.
     tryq (normalize_identifier (trim n)) (\<lambda>index_name.
     tryq (str_after rest on_idx ''ON'') (\<lambda>on_part.
     let on_part = trim on_part in
     tryq (ok_or (str_find LPAREN on_part) (Parse (''CREATE INDEX requires '' @ quoted ''(column)''))) (\<lambda>opn.
     tryq (ok_or (str_rfind RPAREN on_part) (Parse (''missing '' @ quoted '')'' @ '' in CREATE INDEX''))) (\<lambda>close.
     if close \<le> opn then syntax_error ''invalid CREATE INDEX column definition''
     else tryq (str_suffix on_part (close + 1)) (\<lambda>tail.
       if trim tail \<noteq> [] then syntax_error ''unexpected tokens after CREATE INDEX''
       else tryq (str_prefix on_part opn) (\<lambda>t.
         tryq (normalize_identifier (trim t)) (\<lambda>t.
         tryq (str_slice on_part (opn + 1) close) (\<lambda>c.
         tryq (normalize_identifier (trim c)) (\<lambda>c.
         Ok (CreateIndex index_name t c)))))))))))))"

definition parse_drop_table :: "string \<Rightarrow> statement result" where
  "parse_drop_table input =
     tryq (statement_rest input ''DROP TABLE'') (\<lambda>rest.
     if rest = [] then syntax_error ''DROP TABLE requires table name''
     else tryq (normalize_identifier rest) (\<lambda>n. Ok (DropTable n)))"

definition parse_drop_index :: "string \<Rightarrow> statement result" where
  "parse_drop_index input =
     tryq (statement_rest input ''DROP INDEX'') (\<lambda>rest.
     if rest = [] then syntax_error ''DROP INDEX requires index name''
     else tryq (normalize_identifier rest) (\<lambda>n. Ok (DropIndex n)))"

text \<open>The definition and the optional literal after DEFAULT.\<close>

definition split_default :: "string \<Rightarrow> (string \<times> string option) result" where
  "split_default definition_text =
     (case find_keyword_outside_quotes definition_text ''DEFAULT'' of
        Some i \<Rightarrow>
          tryq (str_prefix definition_text i) (\<lambda>a.
          tryq (str_after definition_text i ''DEFAULT'') (\<lambda>b. Ok (trim a, Some (trim b))))
      | None \<Rightarrow> Ok (definition_text, None))"

definition parse_alter_add_column :: "string \<Rightarrow> string \<Rightarrow> statement result" where
  "parse_alter_add_column t definition_text =
     (if definition_text = [] then syntax_error ''ADD COLUMN requires column definition''
      else tryq (split_default definition_text) (\<lambda>(column_def_raw, default_raw).
        case split_whitespace column_def_raw of
          column_name # type_name # tokens \<Rightarrow>
            tryq (column_constraints False ''ADD COLUMN'' tokens []) (\<lambda>cs.
            tryq (ok_or (data_type_parse type_name) (Parse (''unknown type '' @ quoted type_name))) (\<lambda>ty.
            tryq (case default_raw of
                    None \<Rightarrow> Ok None
                  | Some raw \<Rightarrow>
                      if raw = [] then syntax_error ''DEFAULT requires a literal value''
                      else tryq (parse_literal raw) (\<lambda>v. Ok (Some v))) (\<lambda>dflt.
            tryq (normalize_identifier column_name) (\<lambda>n.
            Ok (AlterTableAddColumn t \<lparr>cd_name = n, cd_type = ty, cd_constraints = cs\<rparr> dflt)))))
        | _ \<Rightarrow> syntax_error ''ADD COLUMN requires name and type''))"

definition parse_alter_table :: "string \<Rightarrow> statement result" where
  "parse_alter_table input =
     tryq (statement_rest input ''ALTER TABLE'') (\<lambda>rest.
     if rest = [] then syntax_error ''ALTER TABLE requires table name and operation''
     else case find_keyword_outside_quotes rest ''ADD COLUMN'' of
       Some i \<Rightarrow>
         tryq (str_prefix rest i) (\<lambda>t.
         tryq (normalize_identifier (trim t)) (\<lambda>t.
         tryq (str_after rest i ''ADD COLUMN'') (\<lambda>d. parse_alter_add_column t (trim d))))
     | None \<Rightarrow>
     (case find_keyword_outside_quotes rest ''DROP COLUMN'' of
       Some i \<Rightarrow>
         tryq (str_prefix rest i) (\<lambda>t.
         tryq (normalize_identifier (trim t)) (\<lambda>t.
         tryq (str_after rest i ''DROP COLUMN'') (\<lambda>c.
         tryq (normalize_identifier (trim c)) (\<lambda>c. Ok (AlterTableDropColumn t c)))))
     | None \<Rightarrow>
     (case find_keyword_outside_quotes rest ''RENAME COLUMN'' of
       Some i \<Rightarrow>
         tryq (str_prefix rest i) (\<lambda>t.
         tryq (normalize_identifier (trim t)) (\<lambda>t.
         tryq (str_after rest i ''RENAME COLUMN'') (\<lambda>rename_part.
         let rename_part = trim rename_part in
         tryq (ok_or (find_keyword_outside_quotes rename_part ''TO'') (Parse ''RENAME COLUMN requires TO'')) (\<lambda>to_idx.
         tryq (str_prefix rename_part to_idx) (\<lambda>old.
         tryq (normalize_identifier (trim old)) (\<lambda>old.
         tryq (str_after rename_part to_idx ''TO'') (\<lambda>new.
         tryq (normalize_identifier (trim new)) (\<lambda>new.
         Ok (AlterTableRenameColumn t old new)))))))))
     | None \<Rightarrow> syntax_error ''ALTER TABLE supports: ADD COLUMN, DROP COLUMN, RENAME COLUMN'')))"

section \<open>WHERE and HAVING\<close>

definition aggregate_func_parse :: "string \<Rightarrow> aggregate_func option" where
  "aggregate_func_parse n = (let u = to_ascii_uppercase n in
     if u = ''COUNT'' then Some Count else if u = ''SUM'' then Some Sum else if u = ''MIN'' then Some Min
     else if u = ''MAX'' then Some Max else if u = ''AVG'' then Some Avg else None)"

definition try_parse_aggregate :: "string \<Rightarrow> select_expr option result" where
  "try_parse_aggregate input = (let trimmed = trim input in
     case str_find LPAREN trimmed of
       None \<Rightarrow> Ok None
     | Some opn \<Rightarrow>
         if \<not> str_ends_with RPAREN trimmed then Ok None
         else tryq (str_prefix trimmed opn) (\<lambda>func_name.
           case aggregate_func_parse (trim func_name) of
             None \<Rightarrow> Ok None
           | Some func \<Rightarrow>
               tryq (str_slice trimmed (opn + 1) (length trimmed - 1)) (\<lambda>inner.
               if trim inner = ''*'' then Ok (Some (Aggregate func Star))
               else tryq (normalize_identifier (trim inner)) (\<lambda>c. Ok (Some (Aggregate func (AggColumn c)))))))"

definition parse_and_expr :: "(string \<Rightarrow> filter_expr result) \<Rightarrow> string \<Rightarrow> filter_expr result" where
  "parse_and_expr leaf input =
     tryq (split_by_keyword_aware input ''AND'') (\<lambda>parts.
     if length parts \<le> 1 then leaf input
     else tryq (leaf (hd parts)) (\<lambda>first.
       fold_res (\<lambda>part expr. tryq (leaf part) (\<lambda>r. Ok (FAnd expr r))) (tl parts) first))"

definition parse_or_expr :: "(string \<Rightarrow> filter_expr result) \<Rightarrow> string \<Rightarrow> filter_expr result" where
  "parse_or_expr leaf input =
     tryq (split_by_keyword_aware input ''OR'') (\<lambda>parts.
     if length parts \<le> 1 then parse_and_expr leaf input
     else tryq (parse_and_expr leaf (hd parts)) (\<lambda>first.
       fold_res (\<lambda>part expr. tryq (parse_and_expr leaf part) (\<lambda>r. Ok (FOr expr r))) (tl parts) first))"

definition parse_having_comparison :: "string \<Rightarrow> filter_expr result" where
  "parse_having_comparison input = (let trimmed = trim input in
     tryq (find_comparison_operator trimmed) (\<lambda>(idx, op_len, op).
     tryq (str_prefix trimmed idx) (\<lambda>lhs.
     tryq (try_parse_aggregate (trim lhs)) (\<lambda>agg.
     tryq (case agg of
             Some (Aggregate func target) \<Rightarrow> Ok (aggregate_label func target)
           | _ \<Rightarrow> normalize_identifier (trim lhs)) (\<lambda>c.
     tryq (str_suffix trimmed (idx + op_len)) (\<lambda>rhs.
     tryq (parse_literal (trim rhs)) (\<lambda>v. Ok (Compare c op v))))))))"

definition parse_having :: "string \<Rightarrow> filter_expr result" where
  "parse_having input = parse_or_expr parse_having_comparison (trim input)"

text \<open>\<open>IS NULL\<close> and \<open>IS NOT NULL\<close>: the column before, nothing after.\<close>

definition parse_null_test :: "string \<Rightarrow> nat \<Rightarrow> string \<Rightarrow> (string \<Rightarrow> filter_expr) \<Rightarrow> filter_expr result" where
  "parse_null_test trimmed i keyword test =
     tryq (str_prefix trimmed i) (\<lambda>c.
     tryq (normalize_identifier (trim c)) (\<lambda>c.
     tryq (str_after trimmed i keyword) (\<lambda>tail.
     if trim tail \<noteq> []
     then syntax_error (''unexpected tokens after '' @ keyword @ '': '' @ quoted (trim tail))
     else Ok (test c))))"

definition parse_in :: "(string \<Rightarrow> statement result) \<Rightarrow> string \<Rightarrow> nat \<Rightarrow> string \<Rightarrow> bool \<Rightarrow> filter_expr result" where
  "parse_in subquery trimmed i keyword negated =
     tryq (str_prefix trimmed i) (\<lambda>c.
     tryq (normalize_identifier (trim c)) (\<lambda>c.
     tryq (str_after trimmed i keyword) (\<lambda>rhs.
     let rhs = trim rhs in
     if \<not> str_starts_with LPAREN rhs \<or> \<not> str_ends_with RPAREN rhs
     then syntax_error ''IN requires a parenthesized value list or subquery''
     else tryq (str_slice rhs 1 (length rhs - 1)) (\<lambda>inner.
       let inner = trim inner in
       tryq (strip_prefix_ci inner ''SELECT'') (\<lambda>sel.
       if sel \<noteq> None then tryq (subquery inner) (\<lambda>q. Ok (InSubquery c q negated))
       else tryq (split_comma_aware inner) (\<lambda>tokens.
         tryq (map_res parse_literal tokens) (\<lambda>vs.
         if vs = [] then syntax_error ''IN requires at least one value''
         else Ok (InList c vs negated))))))))"

definition parse_comparison_expr :: "(string \<Rightarrow> statement result) \<Rightarrow> string \<Rightarrow> filter_expr result" where
  "parse_comparison_expr subquery input = (let trimmed = trim input in
     if trimmed = [] then syntax_error ''empty WHERE expression''
     else case find_keyword_outside_quotes trimmed ''IS NOT NULL'' of
       Some i \<Rightarrow> parse_null_test trimmed i ''IS NOT NULL'' IsNotNull
     | None \<Rightarrow>
     (case find_keyword_outside_quotes trimmed ''IS NULL'' of
       Some i \<Rightarrow> parse_null_test trimmed i ''IS NULL'' IsNull
     | None \<Rightarrow>
     (case find_keyword_outside_quotes trimmed ''NOT IN'' of
       Some i \<Rightarrow> parse_in subquery trimmed i ''NOT IN'' True
     | None \<Rightarrow>
     (case find_keyword_outside_quotes trimmed ''IN'' of
       Some i \<Rightarrow> parse_in subquery trimmed i ''IN'' False
     | None \<Rightarrow>
     (case find_keyword_outside_quotes trimmed ''LIKE'' of
       Some i \<Rightarrow>
         tryq (str_prefix trimmed i) (\<lambda>c.
         tryq (normalize_identifier (trim c)) (\<lambda>c.
         tryq (str_after trimmed i ''LIKE'') (\<lambda>rhs.
         tryq (parse_literal (trim rhs)) (\<lambda>v. Ok (Compare c OpLike v)))))
     | None \<Rightarrow>
         tryq (find_comparison_operator trimmed) (\<lambda>(idx, op_len, op).
         tryq (str_prefix trimmed idx) (\<lambda>c.
         tryq (normalize_identifier (trim c)) (\<lambda>c.
         tryq (str_suffix trimmed (idx + op_len)) (\<lambda>rhs.
         tryq (parse_literal (trim rhs)) (\<lambda>v. Ok (Compare c op v)))))))))))"

definition parse_filter :: "(string \<Rightarrow> statement result) \<Rightarrow> string \<Rightarrow> filter_expr result" where
  "parse_filter subquery input = parse_or_expr (parse_comparison_expr subquery) (trim input)"

section \<open>SELECT\<close>

definition parse_select_columns :: "string \<Rightarrow> select_expr list result" where
  "parse_select_columns input = (let trimmed = trim input in
     if trimmed = ''*'' then Ok [AllColumns]
     else tryq (split_comma_aware trimmed) (\<lambda>parts.
       if parts = [] then syntax_error ''SELECT column list is empty''
       else map_res (\<lambda>part. let p = trim part in
         if p = ''*'' then Ok AllColumns
         else tryq (try_parse_aggregate p) (\<lambda>agg. case agg of
             Some a \<Rightarrow> Ok a
           | None \<Rightarrow> tryq (normalize_identifier p) (\<lambda>c. Ok (Column c)))) parts))"

definition parse_order_clause :: "string \<Rightarrow> order_by_clause result" where
  "parse_order_clause part =
     (case split_whitespace part of
        [] \<Rightarrow> syntax_error ''empty ORDER BY clause''
      | token # tokens \<Rightarrow>
          tryq (normalize_identifier token) (\<lambda>c.
          tryq (case tokens of
                  [] \<Rightarrow> Ok Asc
                | o' # _ \<Rightarrow>
                    (let u = to_ascii_uppercase o' in
                     if u = ''ASC'' then Ok Asc else if u = ''DESC'' then Ok Desc
                     else syntax_error (''invalid sort order '' @ quoted u @ '' (expected ASC or DESC)''))) (\<lambda>ord.
          if 1 < length tokens then syntax_error (''unexpected tokens in ORDER BY: '' @ quoted part)
          else Ok \<lparr>ob_column = c, ob_order = ord\<rparr>)))"

definition parse_order_by :: "string \<Rightarrow> order_by_clause list result" where
  "parse_order_by input = tryq (split_comma_aware input) (map_res parse_order_clause)"

definition parse_qualified_column :: "string \<Rightarrow> (string option \<times> string) result" where
  "parse_qualified_column input = (let trimmed = trim input in
     case str_find (CHR ''.'') trimmed of
       Some dot \<Rightarrow>
         tryq (str_prefix trimmed dot) (\<lambda>t.
         tryq (normalize_identifier (trim t)) (\<lambda>t.
         tryq (str_suffix trimmed (dot + 1)) (\<lambda>c.
         tryq (normalize_identifier (trim c)) (\<lambda>c. Ok (Some t, c)))))
     | None \<Rightarrow> tryq (normalize_identifier trimmed) (\<lambda>c. Ok (None, c)))"

text \<open>One \<open>table ON a = b\<close>; the side that names the joined table is its right side.\<close>

definition parse_join_segment :: "string \<Rightarrow> join_clause result" where
  "parse_join_segment segment =
     tryq (ok_or (find_keyword_outside_quotes segment ''ON'') (Parse ''JOIN requires ON clause'')) (\<lambda>on_idx.
     tryq (str_prefix segment on_idx) (\<lambda>t.
     tryq (normalize_identifier (trim t)) (\<lambda>join_table.
     tryq (str_after segment on_idx ''ON'') (\<lambda>cond.
     let on_condition = trim cond in
     tryq (find_char_outside_quotes on_condition ''='') (\<lambda>eq_idx.
     tryq (str_prefix on_condition eq_idx) (\<lambda>l.
     tryq (parse_qualified_column (trim l)) (\<lambda>left_col.
     tryq (str_suffix on_condition (eq_idx + 1)) (\<lambda>r.
     tryq (parse_qualified_column (trim r)) (\<lambda>right_col.
     Ok (if fst left_col = Some join_table
         then \<lparr>jc_table = join_table, jc_left_table = fst right_col, jc_left_column = snd right_col,
               jc_right_column = snd left_col\<rparr>
         else \<lparr>jc_table = join_table, jc_left_table = fst left_col, jc_left_column = snd left_col,
               jc_right_column = snd right_col\<rparr>))))))))))"

text \<open>After a segment: the end, or \<open>[INNER] JOIN\<close> and what follows it.\<close>

definition next_join :: "string \<Rightarrow> string option result" where
  "next_join after_segment = (let nxt = trim_start after_segment in
     if nxt = [] then Ok None
     else tryq (strip_prefix_ci nxt ''INNER'') (\<lambda>i.
       tryq (strip_prefix_ci (case i of Some r \<Rightarrow> trim_start r | None \<Rightarrow> nxt) ''JOIN'') (\<lambda>j.
       tryq (ok_or j (Parse ''expected JOIN clause'')) (\<lambda>r. Ok (Some (trim_start r))))))"

lemma dropWhile_concat_length: "length (concat (dropWhile P gs)) \<le> length (concat gs)"
  by (induction gs) auto

lemma length_trim_start: "length (trim_start s) \<le> length s"
  using dropWhile_concat_length [of is_whitespace "chars s"] by (simp add: trim_start_def)

lemma length_trim_end: "length (trim_end s) \<le> length s"
  using dropWhile_concat_length [of is_whitespace "rev (chars s)"]
  by (simp add: trim_end_def length_concat rev_map [symmetric])
    (metis concat_chars length_concat)

lemma length_trim: "length (trim s) \<le> length s"
  unfolding trim_def using length_trim_end length_trim_start le_trans by blast

lemma str_slice_OkD: "str_slice s i j = Ok x \<Longrightarrow> x = take (j - i) (drop i s) \<and> i \<le> j \<and> j \<le> length s"
  by (simp add: str_slice_def split: if_splits)

lemma slice_length:
  "str_slice s i j = Ok x \<Longrightarrow> length x \<le> length s - i" "str_prefix s j = Ok x \<Longrightarrow> length x \<le> length s"
  "str_suffix s i = Ok x \<Longrightarrow> length x = length s - i" "str_after s i k = Ok x \<Longrightarrow> length x \<le> length s"
  by (auto dest!: str_slice_OkD simp: str_prefix_def str_suffix_def str_after_def)

lemma strip_prefix_length: "strip_prefix_ci s p = Ok (Some r) \<Longrightarrow> length s = length p + length r"
  by (auto simp: strip_prefix_ci_def res_simps dest: slice_length(3) split: if_splits)

lemma next_join_length:
  assumes "next_join s = Ok (Some r)"
  shows "length r < length s"
proof -
  from assms obtain i u where i: "strip_prefix_ci (trim_start s) ''INNER'' = Ok i"
    and u: "strip_prefix_ci (case i of Some r \<Rightarrow> trim_start r | None \<Rightarrow> trim_start s) ''JOIN'' = Ok (Some u)"
    and r: "r = trim_start u"
    by (auto simp: next_join_def Let_def res_simps split: if_splits)
  have "length (case i of Some r \<Rightarrow> trim_start r | None \<Rightarrow> trim_start s) \<le> length s"
    using length_trim_start [of s] length_trim_start [of "the i"] i by (auto dest: strip_prefix_length split: option.splits)
  moreover have "length r \<le> length u" unfolding r by (rule length_trim_start)
  ultimately show ?thesis using strip_prefix_length [OF u] by simp
qed

definition end_or :: "string \<Rightarrow> nat option \<Rightarrow> nat" where
  "end_or s i = (case i of None \<Rightarrow> length s | Some i \<Rightarrow> i)"

function parse_joins :: "string \<Rightarrow> join_clause list \<Rightarrow> join_clause list result" where
  "parse_joins cursor joins =
     (let seg_end = end_or cursor (find_first_keyword cursor [''INNER'', ''JOIN'']) in
      tryq (str_prefix cursor seg_end) (\<lambda>segment.
      tryq (parse_join_segment (trim segment)) (\<lambda>jc.
      tryq (str_suffix cursor seg_end) (\<lambda>rest.
      tryq (next_join rest) (\<lambda>nxt. case nxt of
          None \<Rightarrow> Ok (joins @ [jc])
        | Some cursor' \<Rightarrow> parse_joins cursor' (joins @ [jc]))))))"
  by pat_completeness auto
termination
proof (relation "measure (\<lambda>(cursor, _). length cursor)")
  fix cursor joins seg_end segment jc rest nxt cursor'
  assume "str_suffix cursor seg_end = (Ok rest :: string result)" "next_join rest = Ok nxt" "nxt = Some cursor'"
  then have "length rest \<le> length cursor" "length cursor' < length rest"
    by (auto dest: slice_length(3) next_join_length)
  then show "((cursor', joins @ [jc]), cursor, joins) \<in> measure (\<lambda>(cursor, _). length cursor)" by simp
qed simp

declare parse_joins.simps [simp del]

definition parse_from :: "string \<Rightarrow> (string \<times> join_clause list) result" where
  "parse_from from_part =
     (case find_keyword_outside_quotes from_part ''JOIN'' of
        Some first_join \<Rightarrow>
          tryq (str_prefix from_part first_join) (\<lambda>left_part.
          tryq (str_prefix left_part (end_or left_part (find_keyword_outside_quotes left_part ''INNER''))) (\<lambda>b.
          tryq (normalize_identifier (trim b)) (\<lambda>t.
          tryq (str_after from_part first_join ''JOIN'') (\<lambda>cursor.
          tryq (parse_joins (trim cursor) []) (\<lambda>joins. Ok (t, joins))))))
      | None \<Rightarrow> tryq (normalize_identifier from_part) (\<lambda>t. Ok (t, [])))"

text \<open>
  One clause of a SELECT: its text, up to the first of the keywords that may follow, and what
  remains after it. What stands before the keyword is dropped.
\<close>

definition take_clause :: "string \<Rightarrow> string \<Rightarrow> string list \<Rightarrow> (string option \<times> string) result" where
  "take_clause remaining keyword enders =
     (case find_keyword_outside_quotes remaining keyword of
        None \<Rightarrow> Ok (None, remaining)
      | Some i \<Rightarrow>
          tryq (str_after remaining i keyword) (\<lambda>a.
          let after_kw = trim a; end_idx = end_or after_kw (find_first_keyword after_kw enders) in
          tryq (str_prefix after_kw end_idx) (\<lambda>clause.
          tryq (str_suffix after_kw end_idx) (\<lambda>rest. Ok (Some (trim clause), trim rest)))))"

definition parse_where_clause :: "(string \<Rightarrow> statement result) \<Rightarrow> string \<Rightarrow> (filter_expr option \<times> string) result" where
  "parse_where_clause subquery remaining =
     tryq (take_clause remaining ''WHERE'' [''GROUP BY'', ''ORDER BY'', ''LIMIT'', ''OFFSET'']) (\<lambda>(clause, rest).
     case clause of None \<Rightarrow> Ok (None, rest)
     | Some t \<Rightarrow> tryq (parse_filter subquery t) (\<lambda>f. Ok (Some f, rest)))"

definition parse_group_clause :: "string \<Rightarrow> (string list \<times> string) result" where
  "parse_group_clause remaining =
     tryq (take_clause remaining ''GROUP BY'' [''HAVING'', ''ORDER BY'', ''LIMIT'', ''OFFSET'']) (\<lambda>(clause, rest).
     case clause of None \<Rightarrow> Ok ([], rest)
     | Some t \<Rightarrow> tryq (split_comma_aware t) (\<lambda>parts. tryq (map_res normalize_identifier parts) (\<lambda>columns.
         if columns = [] then syntax_error ''empty GROUP BY clause'' else Ok (columns, rest))))"

definition parse_having_clause :: "string list \<Rightarrow> string \<Rightarrow> (filter_expr option \<times> string) result" where
  "parse_having_clause group_by remaining =
     tryq (take_clause remaining ''HAVING'' [''ORDER BY'', ''LIMIT'', ''OFFSET'']) (\<lambda>(clause, rest).
     case clause of None \<Rightarrow> Ok (None, rest)
     | Some t \<Rightarrow> if group_by = [] then syntax_error ''HAVING requires GROUP BY''
         else tryq (parse_having t) (\<lambda>h. Ok (Some h, rest)))"

definition parse_order_clauses :: "string \<Rightarrow> (order_by_clause list \<times> string) result" where
  "parse_order_clauses remaining =
     tryq (take_clause remaining ''ORDER BY'' [''LIMIT'', ''OFFSET'']) (\<lambda>(clause, rest).
     case clause of None \<Rightarrow> Ok ([], rest)
     | Some t \<Rightarrow> tryq (parse_order_by t) (\<lambda>obs. Ok (obs, rest)))"

definition parse_limit_clause :: "string \<Rightarrow> (nat option \<times> string) result" where
  "parse_limit_clause remaining =
     tryq (take_clause remaining ''LIMIT'' [''OFFSET'']) (\<lambda>(clause, rest).
     case clause of None \<Rightarrow> Ok (None, rest)
     | Some t \<Rightarrow> tryq (ok_or (parse_usize t) (Parse (''invalid LIMIT value: '' @ quoted t))) (\<lambda>n. Ok (Some n, rest)))"

definition parse_offset_clause :: "string \<Rightarrow> nat option result" where
  "parse_offset_clause remaining =
     (case find_keyword_outside_quotes remaining ''OFFSET'' of
        None \<Rightarrow> Ok None
      | Some i \<Rightarrow> tryq (str_after remaining i ''OFFSET'') (\<lambda>t.
          tryq (ok_or (parse_usize (trim t)) (Parse (''invalid OFFSET value: '' @ quoted (trim t)))) (\<lambda>n. Ok (Some n))))"

definition parse_select_with :: "(string \<Rightarrow> statement result) \<Rightarrow> string \<Rightarrow> statement result" where
  "parse_select_with subquery input =
     tryq (statement_rest input ''SELECT'') (\<lambda>rest.
     tryq (ok_or (find_keyword_outside_quotes rest ''FROM'') (Parse ''SELECT requires FROM clause'')) (\<lambda>from_idx.
     tryq (str_prefix rest from_idx) (\<lambda>columns_raw.
     tryq (str_after rest from_idx ''FROM'') (\<lambda>a.
     let after_from = trim a in
     if after_from = [] then syntax_error ''missing table name in SELECT''
     else
       let from_end = end_or after_from
         (find_first_keyword after_from [''WHERE'', ''GROUP BY'', ''ORDER BY'', ''LIMIT'', ''OFFSET'']) in
       tryq (str_prefix after_from from_end) (\<lambda>from_part.
       tryq (str_suffix after_from from_end) (\<lambda>remaining.
       tryq (parse_from (trim from_part)) (\<lambda>(t, joins).
       tryq (parse_where_clause subquery (trim remaining)) (\<lambda>(f, remaining).
       tryq (parse_group_clause remaining) (\<lambda>(group_by, remaining).
       tryq (parse_having_clause group_by remaining) (\<lambda>(having, remaining).
       tryq (parse_order_clauses remaining) (\<lambda>(order_by, remaining).
       tryq (parse_limit_clause remaining) (\<lambda>(limit, remaining).
       tryq (parse_offset_clause remaining) (\<lambda>offset.
       tryq (parse_select_columns (trim columns_raw)) (\<lambda>columns.
       Ok (Select t columns joins f group_by having order_by limit offset)))))))))))))))"

text \<open>
  The recursion for subqueries, to a given depth: \<open>deeper\<close> stands for whatever a call at that depth
  would do. A subquery is a proper part of its query, so a depth above the length of the text is
  never used up: \<open>parse_select_terminates\<close> shows that \<open>deeper\<close> is then irrelevant, and that
  \<open>parse_select\<close> satisfies the equation of the code.
\<close>

primrec parse_select_depth :: "(string \<Rightarrow> statement result) \<Rightarrow> nat \<Rightarrow> string \<Rightarrow> statement result" where
  "parse_select_depth deeper 0 = deeper"
| "parse_select_depth deeper (Suc n) = parse_select_with (parse_select_depth deeper n)"

definition parse_select :: "string \<Rightarrow> statement result" where
  "parse_select input = parse_select_depth (\<lambda>s. Panic ''stack overflow'') (Suc (length input)) input"

section \<open>Data statements\<close>

text \<open>What stands before VALUES: the table and, between parentheses, the columns.\<close>

definition parse_insert_target :: "string \<Rightarrow> (string \<times> string list option) result" where
  "parse_insert_target before_values =
     (case str_find LPAREN before_values of
        Some open_paren \<Rightarrow>
          tryq (ok_or (str_rfind RPAREN before_values) (Parse (''missing '' @ quoted '')'' @ '' in INSERT column list''))) (\<lambda>close_paren.
          tryq (str_prefix before_values open_paren) (\<lambda>t.
          tryq (normalize_identifier (trim t)) (\<lambda>t.
          tryq (str_slice before_values (open_paren + 1) close_paren) (\<lambda>cols_raw.
          tryq (split_comma_aware cols_raw) (\<lambda>parts.
          tryq (map_res normalize_identifier parts) (\<lambda>cols.
          if cols = [] then syntax_error ''empty column list in INSERT'' else Ok (t, Some cols)))))))
      | None \<Rightarrow> tryq (normalize_identifier before_values) (\<lambda>t. Ok (t, None)))"

definition parse_insert :: "string \<Rightarrow> statement result" where
  "parse_insert input =
     tryq (statement_rest input ''INSERT INTO'') (\<lambda>rest.
     tryq (ok_or (find_keyword_outside_quotes rest ''VALUES'') (Parse ''INSERT requires VALUES clause'')) (\<lambda>values_idx.
     tryq (str_prefix rest values_idx) (\<lambda>b.
     tryq (parse_insert_target (trim b)) (\<lambda>(t, columns).
     tryq (str_after rest values_idx ''VALUES'') (\<lambda>v.
     let values_raw = trim v in
     if \<not> str_starts_with LPAREN values_raw \<or> \<not> str_ends_with RPAREN values_raw
     then syntax_error ''VALUES must be enclosed in parentheses''
     else tryq (str_slice values_raw 1 (length values_raw - 1)) (\<lambda>inner.
       tryq (if trim inner = [] then Ok []
             else tryq (split_comma_aware inner) (map_res parse_literal)) (\<lambda>vals.
       Ok (Insert t columns vals))))))))"

definition parse_assignment :: "string \<Rightarrow> (string \<times> value_t) result" where
  "parse_assignment part =
     tryq (find_char_outside_quotes part ''='') (\<lambda>eq_idx.
     tryq (str_prefix part eq_idx) (\<lambda>c.
     tryq (normalize_identifier (trim c)) (\<lambda>c.
     tryq (str_suffix part (eq_idx + 1)) (\<lambda>v.
     tryq (parse_literal (trim v)) (\<lambda>v. Ok (c, v))))))"

text \<open>The text before WHERE and, if there is one, the filter text.\<close>

definition split_where :: "string \<Rightarrow> (string \<times> string option) result" where
  "split_where s = (case find_keyword_outside_quotes s ''WHERE'' of
     Some i \<Rightarrow> tryq (str_prefix s i) (\<lambda>a. tryq (str_after s i ''WHERE'') (\<lambda>b. Ok (trim a, Some (trim b))))
   | None \<Rightarrow> Ok (s, None))"

definition parse_where :: "string option \<Rightarrow> filter_expr option result" where
  "parse_where where_raw = (case where_raw of None \<Rightarrow> Ok None
     | Some w \<Rightarrow> tryq (parse_filter parse_select w) (\<lambda>f. Ok (Some f)))"

definition parse_update :: "string \<Rightarrow> statement result" where
  "parse_update input =
     tryq (statement_rest input ''UPDATE'') (\<lambda>rest.
     tryq (ok_or (find_keyword_outside_quotes rest ''SET'') (Parse ''UPDATE requires SET clause'')) (\<lambda>set_idx.
     tryq (str_prefix rest set_idx) (\<lambda>t.
     tryq (normalize_identifier (trim t)) (\<lambda>t.
     tryq (str_after rest set_idx ''SET'') (\<lambda>a.
     let after_set = trim a in
     if after_set = [] then syntax_error ''missing assignments in UPDATE''
     else tryq (split_where after_set) (\<lambda>(assignments_raw, where_raw).
       tryq (split_comma_aware assignments_raw) (\<lambda>parts.
       if parts = [] then syntax_error ''UPDATE requires at least one assignment''
       else tryq (map_res parse_assignment parts) (\<lambda>assignments.
         tryq (parse_where where_raw) (\<lambda>f. Ok (Update t assignments f))))))))))"

definition parse_delete :: "string \<Rightarrow> statement result" where
  "parse_delete input =
     tryq (statement_rest input ''DELETE FROM'') (\<lambda>rest.
     if rest = [] then syntax_error ''missing table name in DELETE''
     else tryq (split_where rest) (\<lambda>(table_raw, where_raw).
       tryq (normalize_identifier table_raw) (\<lambda>t.
       tryq (parse_where where_raw) (\<lambda>f. Ok (Delete t f)))))"

section \<open>Scripts\<close>

text \<open>The first prefix in the list that the statement starts with decides the parser.\<close>

fun dispatch :: "string \<Rightarrow> (string \<times> (string \<Rightarrow> statement result)) list \<Rightarrow> statement result" where
  "dispatch trimmed [] = syntax_error (''unknown statement: '' @ trimmed)"
| "dispatch trimmed ((prefix, parser) # rest) =
     tryq (strip_prefix_ci trimmed prefix) (\<lambda>r. case r of
       Some _ \<Rightarrow> parser trimmed
     | None \<Rightarrow> dispatch trimmed rest)"

definition parse_describe :: "string \<Rightarrow> statement result" where
  "parse_describe trimmed =
     tryq (strip_prefix_ci trimmed ''DESCRIBE'') (\<lambda>r.
     tryq (ok_or r (Parse ''expected DESCRIBE'')) (\<lambda>rest.
     tryq (normalize_identifier (trim rest)) (\<lambda>t. Ok (Describe t))))"

definition parse_statement :: "string \<Rightarrow> statement result" where
  "parse_statement input = (let trimmed = trim input in
     if trimmed = [] then syntax_error ''empty statement''
     else if is_exact_keywords trimmed [''SHOW'', ''TABLES''] then Ok ShowTables
     else if is_exact_keywords trimmed [''SHOW'', ''MIGRATIONS''] then Ok ShowMigrations
     else if is_exact_keywords trimmed [''BEGIN''] then Ok Begin
     else if is_exact_keywords trimmed [''COMMIT''] then Ok Commit
     else if is_exact_keywords trimmed [''ROLLBACK''] then Ok Rollback
     else dispatch trimmed
       [(''DESCRIBE'', parse_describe), (''CREATE TABLE'', parse_create_table),
        (''CREATE INDEX'', parse_create_index), (''DROP TABLE'', parse_drop_table),
        (''DROP INDEX'', parse_drop_index), (''INSERT INTO'', parse_insert), (''UPDATE'', parse_update),
        (''ALTER TABLE'', parse_alter_table), (''SELECT'', parse_select), (''DELETE FROM'', parse_delete)])"

definition parse_script :: "string \<Rightarrow> statement list result" where
  "parse_script input = tryq (split_statements input) (map_res parse_statement)"

end
