(* ===== verification/Subquery.thy ===== *)
theory Subquery
  imports Parser
begin

text \<open>
  A subquery is a proper part of the text of its query, so the recursion of \<open>parse_select\<close>
  terminates: followed to a depth above the length of the text it never reaches that depth.
\<close>

section \<open>Parts are not longer than the whole\<close>

lemma tryq_agree: "(\<And>x. r = Ok x \<Longrightarrow> f x = g x) \<Longrightarrow> tryq r f = tryq r g"
  by (cases r) simp_all

lemma statement_rest_length:
  assumes "statement_rest s k = Ok r"
  shows "length r + length k \<le> length s"
proof -
  from assms obtain x where "strip_prefix_ci (trim s) k = Ok (Some x)" "r = trim x"
    by (auto simp: statement_rest_def res_simps)
  with strip_prefix_length [of "trim s" k x] length_trim [of s] length_trim [of x] show ?thesis by simp
qed

lemma after_keyword_length:
  assumes "str_after s i k = (Ok x :: string result)"
  shows "length x + length k \<le> length s"
proof -
  from assms have "i + length k \<le> length s" "length x = length s - (i + length k)"
    by (auto simp: str_after_def str_suffix_def dest!: str_slice_OkD)
  then show ?thesis by simp
qed

lemma split_keyword_length:
  "split_keyword_loop key input cursor segs = Ok ps \<Longrightarrow> \<forall>p \<in> set segs. length p \<le> length input \<Longrightarrow>
    p \<in> set ps \<Longrightarrow> length p \<le> length input"
proof (induction key input cursor segs rule: split_keyword_loop.induct)
  case (1 key input cursor segs)
  from 1(2) obtain rest where rest: "str_suffix input cursor = (Ok rest :: string result)"
    by (subst (asm) split_keyword_loop.simps) (auto simp: res_simps)
  then have l: "length rest \<le> length input" by (auto dest: slice_length(3))
  show ?case
  proof (cases "find_keyword_outside_quotes rest key")
    case None
    with 1(2-4) rest l length_trim [of rest] length_trim [of input] show ?thesis
      by (subst (asm) split_keyword_loop.simps) (auto split: if_splits)
  next
    case (Some i)
    with 1(2) rest obtain piece where piece: "str_slice input cursor (cursor + i) = (Ok piece :: string result)"
      "trim piece \<noteq> []" "key \<noteq> []"
      and run: "split_keyword_loop key input (cursor + i + length key) (segs @ [trim piece]) = Ok ps"
      by (subst (asm) split_keyword_loop.simps) (auto simp: res_simps Let_def split: if_splits)
    have "length (trim piece) \<le> length input"
      using slice_length(1) [OF piece(1)] length_trim [of piece] by simp
    with 1(1) [OF rest Some refl piece(1) _ _ run] piece 1(3,4) show ?thesis by auto
  qed
qed

lemma split_by_keyword_length:
  "split_by_keyword_aware input key = Ok ps \<Longrightarrow> p \<in> set ps \<Longrightarrow> length p \<le> length input"
  unfolding split_by_keyword_aware_def by (rule split_keyword_length) auto

section \<open>Agreement on shorter texts\<close>

lemma fold_res_agree: "(\<And>x acc. x \<in> set xs \<Longrightarrow> f x acc = g x acc) \<Longrightarrow> fold_res f xs a = fold_res g xs a"
  by (induction xs arbitrary: a) (auto intro!: tryq_agree)

lemma parse_and_agree:
  assumes "\<And>s. length s \<le> length input \<Longrightarrow> leaf s = leaf' s"
  shows "parse_and_expr leaf input = parse_and_expr leaf' input"
  unfolding parse_and_expr_def
proof (rule tryq_agree)
  fix ps
  assume ps: "split_by_keyword_aware input ''AND'' = Ok ps"
  have part: "leaf p = leaf' p" if "p \<in> set ps" for p
    using split_by_keyword_length [OF ps that] by (rule assms)
  then have tl: "leaf p = leaf' p" if "p \<in> set (tl ps)" for p using that by (cases ps) simp_all
  show "(if length ps \<le> 1 then leaf input else tryq (leaf (hd ps)) (\<lambda>first.
      fold_res (\<lambda>part expr. tryq (leaf part) (\<lambda>r. Ok (FAnd expr r))) (tl ps) first)) =
    (if length ps \<le> 1 then leaf' input else tryq (leaf' (hd ps)) (\<lambda>first.
      fold_res (\<lambda>part expr. tryq (leaf' part) (\<lambda>r. Ok (FAnd expr r))) (tl ps) first))"
    using assms [of input] part tl
    by (cases ps) (auto intro!: tryq_agree fold_res_agree)
qed

lemma parse_or_agree:
  assumes "\<And>s. length s \<le> length input \<Longrightarrow> leaf s = leaf' s"
  shows "parse_or_expr leaf input = parse_or_expr leaf' input"
  unfolding parse_or_expr_def
proof (rule tryq_agree)
  fix ps
  assume ps: "split_by_keyword_aware input ''OR'' = Ok ps"
  have part: "parse_and_expr leaf p = parse_and_expr leaf' p" if "p \<in> set ps" for p
    using split_by_keyword_length [OF ps that] by (intro parse_and_agree assms) simp
  then have tl: "parse_and_expr leaf p = parse_and_expr leaf' p" if "p \<in> set (tl ps)" for p
    using that by (cases ps) simp_all
  show "(if length ps \<le> 1 then parse_and_expr leaf input else tryq (parse_and_expr leaf (hd ps)) (\<lambda>first.
      fold_res (\<lambda>part expr. tryq (parse_and_expr leaf part) (\<lambda>r. Ok (FOr expr r))) (tl ps) first)) =
    (if length ps \<le> 1 then parse_and_expr leaf' input else tryq (parse_and_expr leaf' (hd ps)) (\<lambda>first.
      fold_res (\<lambda>part expr. tryq (parse_and_expr leaf' part) (\<lambda>r. Ok (FOr expr r))) (tl ps) first))"
    using parse_and_agree [OF assms] part tl
    by (cases ps) (auto intro!: tryq_agree fold_res_agree)
qed

lemma parse_in_agree:
  assumes q: "\<And>s. length s < length trimmed \<Longrightarrow> q s = q' s" and k: "k \<noteq> []"
  shows "parse_in q trimmed i k negated = parse_in q' trimmed i k negated"
  unfolding parse_in_def Let_def
proof (intro tryq_agree)
  fix rhs
  assume "str_after trimmed i k = (Ok rhs :: string result)"
  from after_keyword_length [OF this] k have rhs: "length rhs < length trimmed" by (cases k) simp_all
  { fix inner
    assume inner: "str_slice (trim rhs) 1 (length (trim rhs) - 1) = (Ok inner :: string result)"
    have "q (trim inner) = q' (trim inner)"
      using slice_length(1) [OF inner] length_trim [of rhs] length_trim [of inner] rhs by (intro q) simp }
  then show "(if \<not> str_starts_with LPAREN (trim rhs) \<or> \<not> str_ends_with RPAREN (trim rhs)
     then syntax_error ''IN requires a parenthesized value list or subquery''
     else tryq (str_slice (trim rhs) 1 (length (trim rhs) - 1)) (\<lambda>inner.
       tryq (strip_prefix_ci (trim inner) ''SELECT'') (\<lambda>sel.
       if sel \<noteq> None then tryq (q (trim inner)) (\<lambda>q. Ok (InSubquery c q negated))
       else tryq (split_comma_aware (trim inner)) (\<lambda>tokens.
         tryq (map_res parse_literal tokens) (\<lambda>vs.
         if vs = [] then syntax_error ''IN requires at least one value''
         else Ok (InList c vs negated)))))) = (if \<not> str_starts_with LPAREN (trim rhs) \<or> \<not> str_ends_with RPAREN (trim rhs)
     then syntax_error ''IN requires a parenthesized value list or subquery''
     else tryq (str_slice (trim rhs) 1 (length (trim rhs) - 1)) (\<lambda>inner.
       tryq (strip_prefix_ci (trim inner) ''SELECT'') (\<lambda>sel.
       if sel \<noteq> None then tryq (q' (trim inner)) (\<lambda>q. Ok (InSubquery c q negated))
       else tryq (split_comma_aware (trim inner)) (\<lambda>tokens.
         tryq (map_res parse_literal tokens) (\<lambda>vs.
         if vs = [] then syntax_error ''IN requires at least one value''
         else Ok (InList c vs negated))))))" for c
    by (intro if_cong refl tryq_agree) simp
qed

lemma parse_comparison_agree:
  assumes "\<And>s. length s < length input \<Longrightarrow> q s = q' s"
  shows "parse_comparison_expr q input = parse_comparison_expr q' input"
proof -
  have "parse_in q (trim input) i k negated = parse_in q' (trim input) i k negated" if "k \<noteq> []" for i k negated
    using length_trim [of input] assms that by (intro parse_in_agree) simp_all
  then show ?thesis by (simp add: parse_comparison_expr_def Let_def split: option.split)
qed

lemma parse_filter_agree:
  assumes "\<And>s. length s < length input \<Longrightarrow> q s = q' s"
  shows "parse_filter q input = parse_filter q' input"
  unfolding parse_filter_def
  using length_trim [of input] by (intro parse_or_agree parse_comparison_agree assms) simp

lemma take_clause_length:
  "take_clause s k enders = Ok (c, rest) \<Longrightarrow> \<forall>t. c = Some t \<longrightarrow> length t \<le> length s"
proof -
  assume run: "take_clause s k enders = Ok (c, rest)"
  show ?thesis
  proof (cases "find_keyword_outside_quotes s k")
    case (Some i)
    with run obtain a clause where a: "str_after s i k = (Ok a :: string result)"
      "str_prefix (trim a) (end_or (trim a) (find_first_keyword (trim a) enders)) = (Ok clause :: string result)"
      "c = Some (trim clause)" by (auto simp: take_clause_def res_simps Let_def)
    from slice_length(4) [OF a(1)] slice_length(2) [OF a(2)] length_trim [of a] length_trim [of clause] a(3)
    show ?thesis by simp
  qed (use run in \<open>simp add: take_clause_def\<close>)
qed

lemma parse_where_clause_agree:
  assumes "\<And>s. length s < length remaining \<Longrightarrow> q s = q' s"
  shows "parse_where_clause q remaining = parse_where_clause q' remaining"
  unfolding parse_where_clause_def
proof (rule tryq_agree, clarify)
  fix c rest
  assume run: "take_clause remaining ''WHERE'' [''GROUP BY'', ''ORDER BY'', ''LIMIT'', ''OFFSET''] = Ok (c, rest)"
  have "parse_filter q t = parse_filter q' t" if "c = Some t" for t
    using take_clause_length [OF run] that by (intro parse_filter_agree assms) simp
  then show "(case c of None \<Rightarrow> Ok (None, rest) | Some t \<Rightarrow> tryq (parse_filter q t) (\<lambda>f. Ok (Some f, rest))) =
    (case c of None \<Rightarrow> Ok (None, rest) | Some t \<Rightarrow> tryq (parse_filter q' t) (\<lambda>f. Ok (Some f, rest)))"
    by (cases c) simp_all
qed

lemma parse_select_agree:
  assumes "\<And>s. length s < length input \<Longrightarrow> q s = q' s"
  shows "parse_select_with q input = parse_select_with q' input"
proof -
  have "parse_where_clause q (trim remaining) = parse_where_clause q' (trim remaining)"
    if "statement_rest input ''SELECT'' = Ok rest" "str_after rest from_idx ''FROM'' = (Ok a :: string result)"
      "str_suffix (trim a) from_end = (Ok remaining :: string result)" for rest from_idx a from_end remaining
  proof (rule parse_where_clause_agree)
    fix s :: string
    assume "length s < length (trim remaining)"
    with statement_rest_length [OF that(1)] after_keyword_length [OF that(2)] slice_length(3) [OF that(3)]
      length_trim [of remaining] length_trim [of a] have "length s < length input" by simp
    then show "q s = q' s" by (rule assms)
  qed
  then show ?thesis unfolding parse_select_with_def Let_def
    by (intro tryq_agree if_cong refl) simp
qed

lemma parse_select_depth_agree:
  "length s < n \<Longrightarrow> length s < m \<Longrightarrow> parse_select_depth b n s = parse_select_depth b' m s"
proof (induction n arbitrary: m s)
  case (Suc n)
  then obtain k where m: "m = Suc k" by (cases m) simp_all
  have "parse_select_with (parse_select_depth b n) s = parse_select_with (parse_select_depth b' k) s"
    using Suc.prems by (intro parse_select_agree Suc.IH) (simp_all add: m)
  then show ?case by (simp add: m)
qed simp

lemma parse_select_unfold: "parse_select input = parse_select_with parse_select input"
proof -
  have "parse_select_with (parse_select_depth (\<lambda>s. Panic ''stack overflow'') (length input)) input =
    parse_select_with parse_select input"
    unfolding parse_select_def by (intro parse_select_agree parse_select_depth_agree) simp_all
  then show ?thesis by (simp add: parse_select_def)
qed

section \<open>Termination\<close>

text \<open>
  C37: parsing a SELECT terminates. The recursion for subqueries is followed to a depth \<open>n\<close>, and
  \<open>deeper\<close> is what a call below that depth would do: on a text shorter than \<open>n\<close> that call is never
  made, since the outcome is the same for every \<open>deeper\<close>, and it is the one of \<open>parse_select\<close>, which
  satisfies the recursion of the code.
\<close>
theorem parse_select_terminates:
  assumes "length input < n"
  shows "parse_select_depth deeper n input = parse_select input \<and>
    parse_select input = parse_select_with parse_select input"
proof
  show "parse_select_depth deeper n input = parse_select input"
    unfolding parse_select_def using assms by (intro parse_select_depth_agree) simp_all
qed (rule parse_select_unfold)

lemma parse_select_terminates_witness:
  "parse_select_depth (\<lambda>s. Err Io) 60 ''SELECT a FROM t WHERE a IN (SELECT b FROM u)'' =
     parse_select ''SELECT a FROM t WHERE a IN (SELECT b FROM u)''"
  using parse_select_terminates [of "''SELECT a FROM t WHERE a IN (SELECT b FROM u)''" 60 "\<lambda>s. Err Io"]
  by simp

end
