(* ===== verification/Parser_Panic.thy ===== *)
theory Parser_Panic
  imports Subquery
begin

text \<open>
  Slices of the parser stay in range: on ASCII input every index the scanning functions return is
  a position of the text, and no statement parser panics unless the text has a double quote. The
  inputs that do panic are at the end.
\<close>

section \<open>Parts of an ASCII text\<close>

lemma set_concat_dropWhile: "set (concat (dropWhile P gs)) \<subseteq> set (concat gs)"
  by (auto dest: set_dropWhileD)

lemma set_trim: "set (trim s) \<subseteq> set s"
proof -
  have "set (trim_end x) \<subseteq> set x" for x
  proof
    fix c
    assume "c \<in> set (trim_end x)"
    then obtain g where "g \<in> set (dropWhile is_whitespace (rev (chars x)))" "c \<in> set g"
      by (auto simp: trim_end_def)
    then have "c \<in> set (concat (chars x))" using set_dropWhileD by (force simp del: concat_chars)
    then show "c \<in> set x" by (simp only: concat_chars)
  qed
  moreover have "set (trim_start x) \<subseteq> set x" for x
    using set_concat_dropWhile [of is_whitespace "chars x"] by (simp add: trim_start_def)
  ultimately show ?thesis unfolding trim_def by blast
qed

lemma set_trim_start: "set (trim_start s) \<subseteq> set s"
  using set_concat_dropWhile [of is_whitespace "chars s"] by (simp add: trim_start_def)

lemma is_ascii_subset: "set x \<subseteq> set s \<Longrightarrow> is_ascii s \<Longrightarrow> is_ascii x"
  by (auto simp: is_ascii_def)

lemma is_ascii_trim [simp]: "is_ascii s \<Longrightarrow> is_ascii (trim s)" "is_ascii s \<Longrightarrow> is_ascii (trim_start s)"
  using set_trim set_trim_start is_ascii_subset by blast+

lemma is_ascii_slice [simp]: "is_ascii s \<Longrightarrow> is_ascii (take n s)" "is_ascii s \<Longrightarrow> is_ascii (drop n s)"
  using set_take_subset [of n s] set_drop_subset [of n s] is_ascii_subset by blast+

lemma char_boundary_ascii: "is_ascii s \<Longrightarrow> i \<le> length s \<Longrightarrow> is_char_boundary s i"
  by (auto simp: is_char_boundary_def is_continuation_def is_ascii_def not_le)

lemma slice_ascii:
  assumes "is_ascii s"
  shows "i \<le> j \<Longrightarrow> j \<le> length s \<Longrightarrow> str_slice s i j = Ok (take (j - i) (drop i s))"
    "j \<le> length s \<Longrightarrow> str_prefix s j = Ok (take j s)"
    "i \<le> length s \<Longrightarrow> str_suffix s i = Ok (drop i s)"
    "i + length k \<le> length s \<Longrightarrow> str_after s i k = Ok (drop (i + length k) s)"
  using assms by (simp_all add: str_slice_def str_prefix_def str_suffix_def str_after_def char_boundary_ascii)

section \<open>Indices\<close>

lemma str_find_bound: "str_find c s = Some i \<Longrightarrow> i < length s \<and> s ! i = c"
  by (induction c s arbitrary: i rule: str_find.induct) (auto split: if_splits)

lemma str_rfind_bound:
  assumes "str_rfind c s = Some i"
  shows "i < length s \<and> s ! i = c"
proof -
  from assms obtain j where j: "str_find c (rev s) = Some j" "i = length s - 1 - j"
    by (auto simp: str_rfind_def)
  from str_find_bound [OF j(1)] have "j < length s" "rev s ! j = c" by simp_all
  with j(2) show ?thesis by (auto simp: rev_nth)
qed

lemma keyword_loop_bound:
  "keyword_loop key prev s d depth i bs = Some j \<Longrightarrow> i \<le> j \<and> j + length key \<le> i + length bs"
proof (induction s d bs arbitrary: prev depth i rule: scan_induct [where sq = SQ and dq = DQ])
  case (char s d b bs)
  show ?case
  proof (cases "\<not> s \<and> \<not> d \<and> paren_step LPAREN RPAREN s d b depth = 0 \<and> keyword_here key prev (b # bs)")
    case True
    then have "\<not> s" "\<not> d" "paren_step LPAREN RPAREN s d b depth = 0" "keyword_here key prev (b # bs)" by blast+
    with char.hyps char.prems show ?thesis by (simp add: keyword_here_def)
  next
    case False
    with char.hyps char.prems have "keyword_loop key (Some b) s d (paren_step LPAREN RPAREN s d b depth) (i + 1) bs = Some j"
      by (simp only: keyword_loop.simps option.case Let_def if_False)
    from char.IH [OF this] show ?thesis by simp
  qed
qed fastforce+

lemma find_keyword_bound: "find_keyword_outside_quotes s key = Some i \<Longrightarrow> i + length key \<le> length s"
  using keyword_loop_bound by (fastforce simp: find_keyword_outside_quotes_def)

lemma find_first_keyword_bound: "find_first_keyword s ks = Some i \<Longrightarrow> i \<le> length s"
proof -
  let ?step = "\<lambda>kw best. case find_keyword_outside_quotes s kw of None \<Rightarrow> best
      | Some idx \<Rightarrow> (case best of None \<Rightarrow> Some idx | Some b \<Rightarrow> if idx < b then Some idx else best)"
  have "fold ?step ks best = Some i \<Longrightarrow> (\<forall>b. best = Some b \<longrightarrow> b \<le> length s) \<Longrightarrow> i \<le> length s" for best
  proof (induction ks arbitrary: best)
    case (Cons k ks)
    have "\<forall>b. ?step k best = Some b \<longrightarrow> b \<le> length s"
      using Cons.prems(2) find_keyword_bound [of s k] by (fastforce split: option.splits if_splits)
    with Cons show ?case by simp
  qed simp
  from this [of None] show "find_first_keyword s ks = Some i \<Longrightarrow> i \<le> length s"
    by (simp add: find_first_keyword_def)
qed

lemma end_or_bound: "end_or s (find_first_keyword s ks) \<le> length s"
  "end_or s (find_keyword_outside_quotes s k) \<le> length s"
  using find_first_keyword_bound [of s ks] find_keyword_bound [of s k] by (auto simp: end_or_def split: option.splits)

lemma find_char_loop_bound: "find_char_loop t s d i gs = Some j \<Longrightarrow> j < i + length gs"
  by (induction s d gs arbitrary: i rule: scan_induct [where sq = "[SQ]" and dq = "[DQ]"])
    (fastforce split: if_splits)+

lemma operator_at_bound: "operator_at g gs = Some (n, op) \<Longrightarrow> n \<le> Suc (length gs)"
  by (cases gs) (auto simp: operator_at_def next_is_def split: if_splits)

lemma find_operator_loop_bound: "find_operator_loop s d i gs = Some (j, n, op) \<Longrightarrow> j + n \<le> i + length gs"
proof (induction s d gs arbitrary: i rule: scan_induct [where sq = "[SQ]" and dq = "[DQ]"])
  case (char s d g gs)
  with operator_at_bound [of g gs n op] show ?case by (fastforce split: option.splits if_splits)
qed fastforce+

lemma find_char_bound: "is_ascii s \<Longrightarrow> find_char_outside_quotes s c = Ok i \<Longrightarrow> i + 1 \<le> length s"
  using find_char_loop_bound [of c False False 0 "chars s" i]
  by (simp add: find_char_outside_quotes_def res_simps chars_ascii)

lemma find_operator_bound: "is_ascii s \<Longrightarrow> find_comparison_operator s = Ok (i, n, op) \<Longrightarrow> i + n \<le> length s"
  using find_operator_loop_bound [of False False 0 "chars s" i n op]
  by (simp add: find_comparison_operator_def res_simps chars_ascii)

lemma find_no_panic [simp]:
  "no_panic (find_char_outside_quotes s c)" "no_panic (find_comparison_operator s)"
  by (simp_all add: find_char_outside_quotes_def find_comparison_operator_def)

section \<open>Splitting\<close>

text \<open>What the split returns is made of characters of the input.\<close>

lemma split_loop_no_panic: "no_panic (split_loop delim s d depth cur parts gs)"
  by (induction s d gs arbitrary: depth cur parts rule: scan_induct [where sq = "[SQ]" and dq = "[DQ]"])
    (auto simp: Let_def)

lemma set_add_piece: "set (concat (add_piece cur parts)) \<subseteq> set cur \<union> set (concat parts)"
  using set_trim [of cur] by (auto simp: add_piece_def)

lemma split_loop_set:
  "split_loop delim s d depth cur parts gs = Ok ps \<Longrightarrow>
    set (concat ps) \<subseteq> set cur \<union> set (concat gs) \<union> set (concat parts)"
proof (induction s d gs arbitrary: depth cur parts rule: scan_induct [where sq = "[SQ]" and dq = "[DQ]"])
  case (Nil s d)
  with set_add_piece [of cur parts] show ?case by (simp split: if_splits)
next
  case (skip s d g g' gs s' d')
  from skip.hyps have "g' = [SQ] \<and> g = [SQ] \<or> g' = [DQ] \<and> g = [DQ]"
    by (auto simp: quote_step_def next_is_def split: if_splits)
  with skip.hyps skip.IH [of depth "cur @ g @ g" parts] skip.prems show ?case by auto
next
  case (quote s d g gs s' d')
  with quote.IH [of depth "cur @ g" parts] show ?case by auto
next
  case (char s d g gs)
  let ?depth = "paren_step [LPAREN] [RPAREN] s d g depth"
  show ?case
  proof (cases "g = delim \<and> \<not> s \<and> \<not> d \<and> ?depth = 0")
    case True
    then have "g = delim" "\<not> s" "\<not> d" "?depth = 0" by blast+
    with char.hyps char.prems have "split_loop delim s d ?depth [] (add_piece cur parts) gs = Ok ps"
      by (simp add: Let_def)
    from char.IH [OF this] set_add_piece [of cur parts] show ?thesis by auto
  next
    case False
    with char.hyps char.prems have "split_loop delim s d ?depth (cur @ g) parts gs = Ok ps"
      by (simp only: split_loop.simps option.case Let_def if_False)
    from char.IH [OF this] show ?thesis by auto
  qed
qed

lemma split_aware_no_panic [simp]: "no_panic (split_aware s c)"
  by (simp add: split_aware_def split_loop_no_panic)

lemma split_aware_set: "split_aware s c = Ok ps \<Longrightarrow> p \<in> set ps \<Longrightarrow> set p \<subseteq> set s"
  using split_loop_set [of c False False 0 "[]" "[]" "chars s" ps] by (auto simp: split_aware_def)

lemma split_ws_aux_set: "w \<in> set (split_ws_aux gs cur) \<Longrightarrow> set w \<subseteq> set cur \<union> set (concat gs)"
proof (induction gs cur rule: split_ws_aux.induct)
  case (2 g gs cur)
  then show ?case by (cases "is_whitespace g"; cases "cur = []") auto
qed (simp split: if_splits)

lemma split_whitespace_set: "w \<in> set (split_whitespace s) \<Longrightarrow> set w \<subseteq> set s"
  using split_ws_aux_set [of w "chars s" "[]"] by (simp add: split_whitespace_def)

lemma split_whitespace_ascii: "is_ascii s \<Longrightarrow> w \<in> set (split_whitespace s) \<Longrightarrow> is_ascii w"
  using split_whitespace_set is_ascii_subset by blast

lemma split_aware_ascii: "is_ascii s \<Longrightarrow> split_aware s c = Ok ps \<Longrightarrow> p \<in> set ps \<Longrightarrow> is_ascii p"
  using split_aware_set is_ascii_subset by blast

lemmas split_ascii = split_aware_ascii [of _ "'',''", folded split_comma_aware_def]
  split_aware_ascii [of _ "'';''", folded split_statements_def]

lemma split_no_panic [simp]: "no_panic (split_comma_aware s)" "no_panic (split_statements s)"
  by (simp_all add: split_comma_aware_def split_statements_def)

section \<open>Identifiers, literals and prefixes\<close>

lemma normalize_no_panic [simp]: "is_ascii s \<Longrightarrow> no_panic (normalize_identifier s)"
  by (auto simp: normalize_identifier_def Let_def slice_ascii wrapped_def)

lemma parse_literal_no_panic [simp]: "is_ascii s \<Longrightarrow> no_panic (parse_literal s)"
  by (auto simp: parse_literal_def Let_def slice_ascii wrapped_def split: option.splits)

lemma strip_prefix_ascii:
  "is_ascii s \<Longrightarrow> strip_prefix_ci s p = Ok (if length p \<le> length s \<and> eq_ignore_ascii_case (take (length p) s) p
     then Some (drop (length p) s) else None)"
  by (simp add: strip_prefix_ci_def slice_ascii)

lemma statement_rest_ascii:
  "is_ascii s \<Longrightarrow> no_panic (statement_rest s k)"
  "is_ascii s \<Longrightarrow> statement_rest s k = Ok r \<Longrightarrow> is_ascii r"
  by (auto simp: statement_rest_def strip_prefix_ascii res_simps intro!: no_panic_intros split: if_splits)

lemma starts_ends: "str_starts_with a s \<Longrightarrow> str_ends_with b s \<Longrightarrow> a \<noteq> b \<Longrightarrow> 2 \<le> length s"
  by (cases "tl s" rule: rev_cases; cases s) (auto simp: str_starts_with_def str_ends_with_def)

lemma ends_with_last: "str_ends_with b s \<Longrightarrow> s \<noteq> [] \<and> s ! (length s - 1) = b"
  by (cases s rule: rev_cases) (auto simp: str_starts_with_def str_ends_with_def nth_append)

section \<open>The statement parsers\<close>

text \<open>
  One rule per kind of step, in the collection \<open>steps\<close>: what the step needs so as not to panic,
  and what the rest may assume of its result.
\<close>

named_theorems steps \<open>steps of a parser on ASCII text\<close>

lemma slice_steps [steps]:
  assumes "is_ascii s"
  shows "j \<le> length s \<Longrightarrow> (is_ascii (take j s) \<Longrightarrow> no_panic (f (take j s))) \<Longrightarrow> no_panic (tryq (str_prefix s j) f)"
    "i \<le> length s \<Longrightarrow> (is_ascii (drop i s) \<Longrightarrow> no_panic (f (drop i s))) \<Longrightarrow> no_panic (tryq (str_suffix s i) f)"
    "i \<le> j \<Longrightarrow> j \<le> length s \<Longrightarrow> (is_ascii (take (j - i) (drop i s)) \<Longrightarrow> no_panic (f (take (j - i) (drop i s)))) \<Longrightarrow>
      no_panic (tryq (str_slice s i j) f)"
    "i + length k \<le> length s \<Longrightarrow> (is_ascii (drop (i + length k) s) \<Longrightarrow> no_panic (f (drop (i + length k) s))) \<Longrightarrow>
      no_panic (tryq (str_after s i k) f)"
  using assms by (simp_all add: slice_ascii)

lemma search_steps [steps]:
  "(\<And>i. i + length k \<le> length s \<Longrightarrow> no_panic (f i)) \<Longrightarrow> no_panic (tryq (ok_or (find_keyword_outside_quotes s k) e) f)"
  "(\<And>i. i < length s \<Longrightarrow> s ! i = c \<Longrightarrow> no_panic (f i)) \<Longrightarrow> no_panic (tryq (ok_or (str_find c s) e) f)"
  "(\<And>i. i < length s \<Longrightarrow> s ! i = c \<Longrightarrow> no_panic (f i)) \<Longrightarrow> no_panic (tryq (ok_or (str_rfind c s) e) f)"
  subgoal using find_keyword_bound [of s k] by (cases "find_keyword_outside_quotes s k") auto
  subgoal using str_find_bound [of c s] by (cases "str_find c s") auto
  subgoal using str_rfind_bound [of c s] by (cases "str_rfind c s") auto
  done

lemma option_steps [steps]:
  "no_panic n \<Longrightarrow> (\<And>i. i + length k \<le> length s \<Longrightarrow> no_panic (f i)) \<Longrightarrow>
    no_panic (case find_keyword_outside_quotes s k of None \<Rightarrow> n | Some i \<Rightarrow> f i)"
  "no_panic n \<Longrightarrow> (\<And>i. i < length s \<Longrightarrow> s ! i = c \<Longrightarrow> no_panic (f i)) \<Longrightarrow>
    no_panic (case str_find c s of None \<Rightarrow> n | Some i \<Rightarrow> f i)"
  by (auto dest: find_keyword_bound str_find_bound split: option.splits)

lemma expression_steps [steps]:
  assumes "is_ascii s"
  shows "(\<And>i. i + 1 \<le> length s \<Longrightarrow> no_panic (f i)) \<Longrightarrow> no_panic (tryq (find_char_outside_quotes s c) f)"
    "(\<And>i n op. i + n \<le> length s \<Longrightarrow> no_panic (g (i, n, op))) \<Longrightarrow> no_panic (tryq (find_comparison_operator s) g)"
  using assms by (auto intro!: no_panic_tryq dest: find_char_bound find_operator_bound)

lemma token_steps [steps]:
  assumes "is_ascii s"
  shows "(\<And>x. no_panic (f x)) \<Longrightarrow> no_panic (tryq (normalize_identifier s) f)"
    "(\<And>v. no_panic (g v)) \<Longrightarrow> no_panic (tryq (parse_literal s) g)"
    "(\<And>r. (\<forall>x. r = Some x \<longrightarrow> is_ascii x) \<Longrightarrow> no_panic (j r)) \<Longrightarrow> no_panic (tryq (strip_prefix_ci s k) j)"
  subgoal using assms by (intro no_panic_tryq) simp_all
  subgoal using assms by (intro no_panic_tryq) simp_all
  subgoal using assms by (simp add: strip_prefix_ascii)
  done

lemma rest_step [steps]:
  assumes "is_ascii s" and i: "\<And>r. is_ascii r \<Longrightarrow> no_panic (i r)"
  shows "no_panic (tryq (statement_rest s k) i)"
proof (rule no_panic_tryq)
  fix r
  assume "statement_rest s k = Ok r"
  from statement_rest_ascii(2) [OF assms(1) this] show "no_panic (i r)" by (rule i)
qed (rule statement_rest_ascii(1) [OF assms(1)])

lemma comma_step [steps]:
  assumes "is_ascii s" and h: "\<And>ps. \<forall>p \<in> set ps. is_ascii p \<Longrightarrow> no_panic (h ps)"
  shows "no_panic (tryq (split_comma_aware s) h)"
proof (rule no_panic_tryq)
  fix ps
  assume "split_comma_aware s = Ok ps"
  with split_ascii(1) [OF assms(1)] show "no_panic (h ps)" by (intro h ballI)
qed simp

lemma words_step [steps]:
  assumes "is_ascii s" and "no_panic n"
    and "\<And>c t ts. is_ascii c \<Longrightarrow> is_ascii t \<Longrightarrow> \<forall>x \<in> set ts. is_ascii x \<Longrightarrow> no_panic (f c t ts)"
  shows "no_panic (case split_whitespace s of [] \<Rightarrow> n | c # xs \<Rightarrow> (case xs of [] \<Rightarrow> n | t # ts \<Rightarrow> f c t ts))"
proof (cases "split_whitespace s")
  case (Cons c xs)
  then show ?thesis
    using assms(2) assms(3) [of c "hd xs" "tl xs"] split_whitespace_ascii [OF assms(1)] by (cases xs) simp_all
qed (simp add: assms(2))

lemma plain_steps [steps]:
  "(\<And>x. no_panic (f x)) \<Longrightarrow> no_panic (tryq (ok_or (data_type_parse t) e) f)"
  "(\<And>x. x \<in> set xs \<Longrightarrow> no_panic (h x)) \<Longrightarrow> (\<And>ys. no_panic (k ys)) \<Longrightarrow> no_panic (tryq (map_res h xs) k)"
  "(b \<Longrightarrow> no_panic r) \<Longrightarrow> (\<not> b \<Longrightarrow> no_panic r') \<Longrightarrow> no_panic (if b then r else r')"
  by (auto intro!: no_panic_intros)

lemma references_text_ascii:
  "is_ascii spec \<Longrightarrow> (\<forall>t \<in> set ts. is_ascii t) \<Longrightarrow> is_ascii (fst (references_text ts spec n))"
  by (induction ts spec n rule: references_text.induct) (auto simp: Let_def)

lemma parse_references_no_panic:
  assumes "\<forall>t \<in> set tokens. is_ascii t"
  shows "no_panic (parse_references_spec tokens)"
proof -
  obtain spec n where r: "references_text tokens [] 0 = (spec, n)" by fastforce
  with references_text_ascii [of "[]" tokens 0] assms have "is_ascii spec" by simp
  with r show ?thesis
    by (auto simp: parse_references_spec_def Let_def slice_ascii dest!: str_find_bound str_rfind_bound
        intro!: no_panic_intros split: option.splits)
qed

lemma column_constraints_no_panic:
  "\<forall>t \<in> set tokens. is_ascii t \<Longrightarrow> no_panic (column_constraints pk place tokens out)"
proof (induction pk place tokens out rule: column_constraints.induct)
  case (2 pk place token tokens out)
  have tl: "\<forall>t \<in> set (drop n tokens). is_ascii t" for n using 2(5) by (auto dest: in_set_dropD)
  have ref: "no_panic (parse_references_spec tokens)" using 2(5) by (simp add: parse_references_no_panic)
  show ?case using 2(1-4) 2(5) tl ref
    by (auto intro!: no_panic_tryq simp del: drop_Suc)
qed simp

lemma column_constraints_step [steps]:
  "\<forall>t \<in> set ts. is_ascii t \<Longrightarrow> (\<And>cs. no_panic (f cs)) \<Longrightarrow> no_panic (tryq (column_constraints pk place ts out) f)"
  by (intro no_panic_tryq column_constraints_no_panic) simp_all

lemma parse_column_def_no_panic: "is_ascii s \<Longrightarrow> no_panic (parse_column_def s)"
  unfolding parse_column_def_def by (auto intro!: steps)

lemma parse_create_table_no_panic: "is_ascii s \<Longrightarrow> no_panic (parse_create_table s)"
  unfolding parse_create_table_def by (auto intro!: steps parse_column_def_no_panic)

lemma parse_create_index_no_panic: "is_ascii s \<Longrightarrow> no_panic (parse_create_index s)"
  unfolding parse_create_index_def Let_def by (auto intro!: steps)

lemma parse_drop_no_panic:
  "is_ascii s \<Longrightarrow> no_panic (parse_drop_table s)" "is_ascii s \<Longrightarrow> no_panic (parse_drop_index s)"
  unfolding parse_drop_table_def parse_drop_index_def by (auto intro!: steps)

lemma split_default_step [steps]:
  assumes "is_ascii s"
    and "\<And>a b. is_ascii a \<Longrightarrow> (\<forall>r. b = Some r \<longrightarrow> is_ascii r) \<Longrightarrow> no_panic (f (a, b))"
  shows "no_panic (tryq (split_default s) f)"
  using assms find_keyword_bound [of s "''DEFAULT''"]
  by (auto simp: split_default_def slice_ascii split: option.splits)

lemma default_step [steps]:
  "(\<forall>r. b = Some r \<longrightarrow> is_ascii r) \<Longrightarrow> (\<And>v. no_panic (f v)) \<Longrightarrow>
    no_panic (tryq (case b of None \<Rightarrow> Ok None | Some raw \<Rightarrow> if raw = [] then Err e
      else tryq (parse_literal raw) (\<lambda>v. Ok (Some v))) f)"
  by (auto intro!: no_panic_intros split: option.splits)

lemma parse_alter_add_column_no_panic: "is_ascii s \<Longrightarrow> no_panic (parse_alter_add_column t s)"
  unfolding parse_alter_add_column_def by (intro steps) (auto intro!: steps)

lemma parse_alter_table_no_panic: "is_ascii s \<Longrightarrow> no_panic (parse_alter_table s)"
  unfolding parse_alter_table_def Let_def by (auto intro!: steps parse_alter_add_column_no_panic)

section \<open>WHERE, HAVING and SELECT\<close>

lemma ends_with_after: "str_ends_with b s \<Longrightarrow> i < length s \<Longrightarrow> s ! i \<noteq> b \<Longrightarrow> Suc i \<le> length s - 1"
  by (cases "i = length s - 1") (auto dest: ends_with_last)

lemma aggregate_no_panic: "is_ascii s \<Longrightarrow> no_panic (try_parse_aggregate s)"
  unfolding try_parse_aggregate_def Let_def
  by (intro steps) (auto intro!: steps dest: ends_with_after split: option.splits)

lemma aggregate_step [steps]:
  "is_ascii s \<Longrightarrow> (\<And>a. no_panic (f a)) \<Longrightarrow> no_panic (tryq (try_parse_aggregate s) f)"
  by (intro no_panic_tryq aggregate_no_panic)

lemma fold_step [steps]:
  "(\<And>x acc. x \<in> set xs \<Longrightarrow> no_panic (f x acc)) \<Longrightarrow> no_panic (fold_res f xs a)"
  by (rule no_panic_fold_res)

lemma split_by_keyword_ascii:
  assumes s: "is_ascii s" and key: "key \<noteq> []"
  shows "cursor \<le> length s \<Longrightarrow> \<forall>p \<in> set segs. is_ascii p \<Longrightarrow>
    no_panic (split_keyword_loop key s cursor segs) \<and>
    (\<forall>ps. split_keyword_loop key s cursor segs = Ok ps \<longrightarrow> (\<forall>p \<in> set ps. is_ascii p))"
proof (induction "Suc (length s) - cursor" arbitrary: cursor segs rule: less_induct)
  case less
  let ?rest = "drop cursor s"
  have ascii: "is_ascii ?rest" using s by simp
  show ?case
  proof (cases "find_keyword_outside_quotes ?rest key")
    case None
    with less.prems s ascii show ?thesis
      by (subst (1 2) split_keyword_loop.simps) (auto simp: slice_ascii split: if_splits)
  next
    case (Some i)
    from find_keyword_bound [OF this] less.prems(1) have bound: "cursor + i + length key \<le> length s" by simp
    have piece: "is_ascii (trim (take i ?rest))" using s by simp
    have "Suc (length s) - (cursor + i + length key) < Suc (length s) - cursor"
      using bound key by (cases key) auto
    from less.hyps [OF this bound, of "segs @ [trim (take i ?rest)]"] less.prems(2) piece
    have IH: "no_panic (split_keyword_loop key s (cursor + i + length key) (segs @ [trim (take i ?rest)])) \<and>
      (\<forall>ps. split_keyword_loop key s (cursor + i + length key) (segs @ [trim (take i ?rest)]) = Ok ps \<longrightarrow>
        (\<forall>p \<in> set ps. is_ascii p))" by simp
    have "split_keyword_loop key s cursor segs =
      (if trim (take i ?rest) = [] then Err (Parse (''empty expression around '' @ quoted key))
       else split_keyword_loop key s (cursor + i + length key) (segs @ [trim (take i ?rest)]))"
      using Some bound less.prems s key by (subst split_keyword_loop.simps) (simp add: slice_ascii Let_def)
    with IH show ?thesis by simp
  qed
qed

lemma split_by_keyword_step [steps]:
  assumes "is_ascii s" "key \<noteq> []" and h: "\<And>ps. \<forall>p \<in> set ps. is_ascii p \<Longrightarrow> no_panic (h ps)"
  shows "no_panic (tryq (split_by_keyword_aware s key) h)"
  using split_by_keyword_ascii [OF assms(1,2), of 0 "[]"] h
  by (auto simp: split_by_keyword_aware_def intro!: no_panic_tryq)

lemma tree_no_panic:
  assumes s: "is_ascii s" and leaf: "\<And>s. is_ascii s \<Longrightarrow> no_panic (leaf s)"
  shows "no_panic (parse_and_expr leaf s)" "no_panic (parse_or_expr leaf s)"
proof -
  have step: "no_panic (tryq (l p) f)" if "\<And>s. is_ascii s \<Longrightarrow> no_panic (l s)" "is_ascii p" "\<And>x. no_panic (f x)"
    for l and p and f :: "filter_expr \<Rightarrow> filter_expr result"
    using that by (intro no_panic_tryq)
  have hd_tl: "\<forall>p \<in> set ps. is_ascii p \<Longrightarrow> \<not> length ps \<le> Suc 0 \<Longrightarrow> is_ascii (hd ps)"
    "\<forall>p \<in> set ps. is_ascii p \<Longrightarrow> x \<in> set (tl ps) \<Longrightarrow> is_ascii x" for ps x
    by (cases ps; simp)+
  have conj: "no_panic (parse_and_expr leaf s)" if "is_ascii s" for s
    unfolding parse_and_expr_def using that
    by (auto intro!: steps leaf step [of leaf] dest: hd_tl)
  from conj [OF s] show "no_panic (parse_and_expr leaf s)" .
  show "no_panic (parse_or_expr leaf s)"
    unfolding parse_or_expr_def using s
    by (auto intro!: steps conj step [of "parse_and_expr leaf"] dest: hd_tl)
qed

lemma having_no_panic: "is_ascii s \<Longrightarrow> no_panic (parse_having s)"
proof -
  have leaf: "no_panic (parse_having_comparison s)" if "is_ascii s" for s
  proof -
    have label: "no_panic (tryq (case agg of Some (Aggregate func target) \<Rightarrow> Ok (aggregate_label func target)
        | _ \<Rightarrow> normalize_identifier x) f)" if "is_ascii x" "\<And>y. no_panic (f y)" for agg x and f :: "string \<Rightarrow> filter_expr result"
      using that by (auto intro!: no_panic_tryq split: option.splits select_expr.splits)
    show ?thesis unfolding parse_having_comparison_def Let_def using that
      by (auto intro!: steps label)
  qed
  then show "is_ascii s \<Longrightarrow> no_panic (parse_having s)" unfolding parse_having_def by (intro tree_no_panic) simp_all
qed

lemma parse_null_test_no_panic: "is_ascii s \<Longrightarrow> i + length k \<le> length s \<Longrightarrow> no_panic (parse_null_test s i k f)"
  unfolding parse_null_test_def by (auto intro!: steps)

lemma parse_in_no_panic:
  assumes "is_ascii s" "i + length k \<le> length s" and q: "\<And>s. is_ascii s \<Longrightarrow> no_panic (q s)"
  shows "no_panic (parse_in q s i k negated)"
proof -
  have sub: "no_panic (tryq (q s) f)" if "is_ascii s" "\<And>x. no_panic (f x)" for s and f :: "statement \<Rightarrow> filter_expr result"
    using that q by (intro no_panic_tryq)
  show ?thesis unfolding parse_in_def Let_def using assms(1,2)
    by (auto intro!: steps sub dest: starts_ends [of LPAREN _ RPAREN, simplified])
qed

lemma parse_comparison_no_panic:
  assumes "is_ascii s" and "\<And>s. is_ascii s \<Longrightarrow> no_panic (q s)"
  shows "no_panic (parse_comparison_expr q s)"
  unfolding parse_comparison_expr_def Let_def using assms
  by (intro steps parse_null_test_no_panic parse_in_no_panic) (auto intro!: steps)

lemma filter_step [steps]:
  assumes "is_ascii s" "\<And>s. is_ascii s \<Longrightarrow> no_panic (q s)" "\<And>x. no_panic (f x)"
  shows "no_panic (tryq (parse_filter q s) f)"
  unfolding parse_filter_def using assms
  by (intro no_panic_tryq tree_no_panic(2) parse_comparison_no_panic) simp_all

lemma having_step [steps]:
  "is_ascii s \<Longrightarrow> (\<And>x. no_panic (f x)) \<Longrightarrow> no_panic (tryq (parse_having s) f)"
  by (intro no_panic_tryq having_no_panic)

lemma select_columns_step [steps]:
  assumes "is_ascii s" "\<And>x. no_panic (f x)"
  shows "no_panic (tryq (parse_select_columns s) f)"
proof (rule no_panic_tryq)
  show "no_panic (parse_select_columns s)"
    unfolding parse_select_columns_def Let_def using assms(1)
    by (intro steps) (auto intro!: steps no_panic_map_res split: option.splits)
qed (rule assms(2))

lemma order_by_step [steps]:
  assumes "is_ascii s" "\<And>x. no_panic (f x)"
  shows "no_panic (tryq (parse_order_by s) f)"
proof (rule no_panic_tryq)
  have "no_panic (parse_order_clause p)" if "is_ascii p" for p
    using split_whitespace_ascii [OF that]
    by (auto simp: parse_order_clause_def Let_def intro!: steps no_panic_tryq split: list.splits)
  then show "no_panic (parse_order_by s)"
    unfolding parse_order_by_def using assms(1) by (auto intro!: steps no_panic_map_res)
qed (rule assms(2))

lemma qualified_step [steps]:
  assumes "is_ascii s" "\<And>x. no_panic (f x)"
  shows "no_panic (tryq (parse_qualified_column s) f)"
proof (rule no_panic_tryq)
  show "no_panic (parse_qualified_column s)"
    unfolding parse_qualified_column_def Let_def using assms(1) by (auto intro!: steps)
qed (rule assms(2))

lemma join_segment_step [steps]:
  assumes "is_ascii s" "\<And>x. no_panic (f x)"
  shows "no_panic (tryq (parse_join_segment s) f)"
proof (rule no_panic_tryq)
  show "no_panic (parse_join_segment s)"
    unfolding parse_join_segment_def Let_def using assms(1) by (auto intro!: steps)
qed (rule assms(2))

lemma next_join_step [steps]:
  assumes "is_ascii s" and f: "\<And>r. (\<forall>x. r = Some x \<longrightarrow> is_ascii x) \<Longrightarrow> no_panic (f r)"
  shows "no_panic (tryq (next_join s) f)"
  unfolding next_join_def Let_def using assms
  by (auto simp: strip_prefix_ascii ok_or_def intro!: f split: option.splits)

lemma parse_joins_no_panic: "is_ascii cursor \<Longrightarrow> no_panic (parse_joins cursor joins)"
proof (induction "length cursor" arbitrary: cursor joins rule: less_induct)
  case less
  let ?stop = "end_or cursor (find_first_keyword cursor [''INNER'', ''JOIN''])"
  have rest: "no_panic (tryq (next_join (drop ?stop cursor)) (\<lambda>nxt. case nxt of
      None \<Rightarrow> Ok (joins @ [jc]) | Some cursor' \<Rightarrow> parse_joins cursor' (joins @ [jc])))" for jc
  proof (rule no_panic_tryq)
    show "no_panic (next_join (drop ?stop cursor))"
      using next_join_step [of "drop ?stop cursor" Ok] less.prems by simp
    fix nxt
    assume n: "next_join (drop ?stop cursor) = Ok nxt"
    show "no_panic (case nxt of None \<Rightarrow> Ok (joins @ [jc]) | Some cursor' \<Rightarrow> parse_joins cursor' (joins @ [jc]))"
    proof (cases nxt)
      case (Some c)
      from next_join_length [of "drop ?stop cursor" c] n Some have l: "length c < length cursor" by simp
      have "is_ascii c"
        using next_join_step [of "drop ?stop cursor" "\<lambda>r. if \<forall>x. r = Some x \<longrightarrow> is_ascii x then Ok () else Panic []"]
          less.prems n Some by (simp split: if_splits)
      with less.hyps [OF l] Some show ?thesis by simp
    qed simp
  qed
  show ?case
    unfolding parse_joins.simps [of cursor joins] Let_def
    using less.prems end_or_bound by (intro slice_steps join_segment_step rest) simp_all
qed

lemma from_step [steps]:
  assumes "is_ascii s" "\<And>x. no_panic (f x)"
  shows "no_panic (tryq (parse_from s) f)"
proof (rule no_panic_tryq)
  have joins: "no_panic (tryq (parse_joins c []) g)" if "is_ascii c" "\<And>js. no_panic (g js)"
    for c and g :: "join_clause list \<Rightarrow> (string \<times> join_clause list) result"
    using that by (intro no_panic_tryq parse_joins_no_panic)
  show "no_panic (parse_from s)"
    unfolding parse_from_def using assms(1) end_or_bound
    by (auto intro!: steps joins simp del: length_take)
qed (rule assms(2))

lemma take_clause_step [steps]:
  assumes "is_ascii s" and f: "\<And>c r. is_ascii r \<Longrightarrow> (\<forall>t. c = Some t \<longrightarrow> is_ascii t) \<Longrightarrow> no_panic (f (c, r))"
  shows "no_panic (tryq (take_clause s k enders) f)"
proof (cases "find_keyword_outside_quotes s k")
  case (Some i)
  from find_keyword_bound [OF Some] assms(1) end_or_bound show ?thesis
    by (auto simp: take_clause_def Some Let_def intro!: steps f)
qed (simp add: take_clause_def f assms(1))

lemma clause_steps [steps]:
  assumes "is_ascii s"
  shows "(\<And>s. is_ascii s \<Longrightarrow> no_panic (q s)) \<Longrightarrow> (\<And>x r. is_ascii r \<Longrightarrow> no_panic (f (x, r))) \<Longrightarrow>
      no_panic (tryq (parse_where_clause q s) f)"
    "(\<And>x r. is_ascii r \<Longrightarrow> no_panic (g (x, r))) \<Longrightarrow> no_panic (tryq (parse_group_clause s) g)"
    "(\<And>x r. is_ascii r \<Longrightarrow> no_panic (f (x, r))) \<Longrightarrow> no_panic (tryq (parse_having_clause gb s) f)"
    "(\<And>x r. is_ascii r \<Longrightarrow> no_panic (h (x, r))) \<Longrightarrow> no_panic (tryq (parse_order_clauses s) h)"
    "(\<And>x r. is_ascii r \<Longrightarrow> no_panic (l (x, r))) \<Longrightarrow> no_panic (tryq (parse_limit_clause s) l)"
    "(\<And>x. no_panic (off x)) \<Longrightarrow> no_panic (tryq (parse_offset_clause s) off)"
  subgoal using assms unfolding parse_where_clause_def tryq_assoc by (auto intro!: steps split: option.split)
  subgoal using assms unfolding parse_group_clause_def tryq_assoc by (auto intro!: steps split: option.split)
  subgoal using assms unfolding parse_having_clause_def tryq_assoc by (auto intro!: steps split: option.split)
  subgoal using assms unfolding parse_order_clauses_def tryq_assoc by (auto intro!: steps split: option.split)
  subgoal using assms unfolding parse_limit_clause_def tryq_assoc
    by (auto intro!: steps no_panic_tryq [of "ok_or _ _"] split: option.split)
  subgoal using assms unfolding parse_offset_clause_def tryq_assoc
    by (cases "find_keyword_outside_quotes s ''OFFSET''")
      (auto intro!: steps no_panic_tryq [of "ok_or _ _"] dest: find_keyword_bound)
  done

lemma parse_select_no_panic: "is_ascii s \<Longrightarrow> no_panic (parse_select s)"
proof (induction "length s" arbitrary: s rule: less_induct)
  case less
  define q where "q = (\<lambda>x. if length x < length s then parse_select x else Err Io)"
  have "parse_select s = parse_select_with q s"
    by (subst parse_select_unfold) (rule parse_select_agree, simp add: q_def)
  moreover have "no_panic (q x)" if "is_ascii x" for x
    using less.hyps [of x] that by (simp add: q_def)
  ultimately show ?case
    unfolding parse_select_with_def Let_def using less.prems end_or_bound
    by (auto intro!: steps)
qed

section \<open>Data statements and scripts\<close>

lemma where_steps [steps]:
  assumes "is_ascii s"
  shows "(\<And>a b. is_ascii a \<Longrightarrow> \<forall>r. b = Some r \<longrightarrow> is_ascii r \<Longrightarrow> no_panic (f (a, b))) \<Longrightarrow>
    no_panic (tryq (split_where s) f)"
  using assms find_keyword_bound [of s "''WHERE''"]
  by (auto simp: split_where_def slice_ascii split: option.splits)

lemma parse_where_step [steps]:
  "\<forall>r. b = Some r \<longrightarrow> is_ascii r \<Longrightarrow> (\<And>x. no_panic (f x)) \<Longrightarrow> no_panic (tryq (parse_where b) f)"
  by (auto simp: parse_where_def intro!: steps parse_select_no_panic split: option.splits)

lemma parse_update_no_panic: "is_ascii s \<Longrightarrow> no_panic (parse_update s)"
proof -
  have "no_panic (parse_assignment p)" if "is_ascii p" for p
    unfolding parse_assignment_def using that by (auto intro!: steps)
  then show "is_ascii s \<Longrightarrow> no_panic (parse_update s)"
    unfolding parse_update_def Let_def by (auto intro!: steps)
qed

lemma parse_delete_no_panic: "is_ascii s \<Longrightarrow> no_panic (parse_delete s)"
  unfolding parse_delete_def by (auto intro!: steps)

lemma parse_describe_no_panic: "is_ascii s \<Longrightarrow> no_panic (parse_describe s)"
  unfolding parse_describe_def by (auto intro!: steps simp: ok_or_def split: option.splits)

text \<open>
  The column list of an INSERT is the one slice whose ends are not compared: it is in order because a
  table name before the first parenthesis cannot hold a closing one, unless it is quoted.
\<close>

lemma dropWhile_keeps: "x \<in> set xs \<Longrightarrow> \<not> P x \<Longrightarrow> x \<in> set (dropWhile P xs)"
  by (induction xs) auto

lemma trim_keeps:
  assumes "is_ascii s" "c \<in> set s" "\<not> is_whitespace [c]"
  shows "c \<in> set (trim s)"
proof -
  have "[c] \<in> set (dropWhile is_whitespace (map (\<lambda>c. [c]) s))" using assms by (intro dropWhile_keeps) auto
  then have start: "c \<in> set (trim_start s)" using assms(1) by (force simp: trim_start_def chars_ascii)
  have "[c] \<in> set (dropWhile is_whitespace (rev (map (\<lambda>c. [c]) (trim_start s))))"
    using start assms(3) by (intro dropWhile_keeps) auto
  then show ?thesis using assms(1) by (force simp: trim_def trim_end_def chars_ascii)
qed

lemma normalize_no_paren:
  assumes "is_ascii s" "DQ \<notin> set s" "normalize_identifier s = Ok t"
  shows "RPAREN \<notin> set s"
proof
  assume "RPAREN \<in> set s"
  with assms(1) have "RPAREN \<in> set (trim s)" by (intro trim_keeps) (simp_all add: is_whitespace_def byte_def)
  moreover have "DQ \<notin> set (trim s)" using set_trim assms(2) by blast
  then have "\<not> wrapped DQ (trim s)" by (auto simp: wrapped_def str_starts_with_def split: list.splits)
  ultimately show False
    using assms(1,3)
    by (force simp: normalize_identifier_def Let_def list_all_iff chars_ascii is_ident_char_def
        is_ascii_alnum_def is_ascii_digit_def byte_def split: if_splits)
qed

lemma insert_columns_order:
  assumes ascii: "is_ascii b" and dq: "DQ \<notin> set b" and opn: "str_find LPAREN b = Some opn"
    and cls: "str_rfind RPAREN b = Some cls" and name: "normalize_identifier (trim (take opn b)) = Ok t"
  shows "opn + 1 \<le> cls"
proof (rule ccontr)
  assume "\<not> opn + 1 \<le> cls"
  moreover have "b ! opn = LPAREN" "cls < length b" "b ! cls = RPAREN"
    using str_find_bound [OF opn] str_rfind_bound [OF cls] by simp_all
  ultimately have "cls < opn" by (cases "cls = opn") auto
  with \<open>b ! cls = RPAREN\<close> \<open>cls < length b\<close> have "RPAREN \<in> set (take opn b)" by (auto simp: in_set_conv_nth)
  then have "RPAREN \<in> set (trim (take opn b))"
    using ascii by (intro trim_keeps) (simp_all add: is_whitespace_def byte_def)
  moreover have "DQ \<notin> set (trim (take opn b))" using set_trim [of "take opn b"] set_take_subset [of opn b] dq by blast
  ultimately show False using normalize_no_paren [OF _ _ name] ascii by simp
qed

lemma insert_target_no_panic:
  assumes b: "is_ascii b" "DQ \<notin> set b"
  shows "no_panic (parse_insert_target b)"
proof (cases "str_find LPAREN b")
  case None
  with b show ?thesis by (auto simp: parse_insert_target_def intro!: steps)
next
  case (Some opn)
  show ?thesis
  proof (cases "str_rfind RPAREN b")
    case None
    with Some show ?thesis by (simp add: parse_insert_target_def)
  next
    case (Some cls)
    note opn = \<open>str_find LPAREN b = Some opn\<close>
    have bound: "opn \<le> length b" "cls \<le> length b" using str_find_bound [OF opn] str_rfind_bound [OF Some] by simp_all
    show ?thesis
    proof (cases "normalize_identifier (trim (take opn b))")
      case (Ok t)
      from insert_columns_order [OF b opn Some Ok] bound b(1) show ?thesis
        by (simp add: parse_insert_target_def opn Some slice_ascii Ok) (auto intro!: steps)
    qed (use bound b(1) normalize_no_panic [of "trim (take opn b)"] in
      \<open>simp_all add: parse_insert_target_def opn Some slice_ascii\<close>)
  qed
qed

lemma parse_insert_no_panic:
  assumes s: "is_ascii s" and dq: "DQ \<notin> set s"
  shows "no_panic (parse_insert s)"
proof -
  have rest: "no_panic (tryq (statement_rest s k) g)" if "\<And>r. is_ascii r \<Longrightarrow> DQ \<notin> set r \<Longrightarrow> no_panic (g r)"
    for k and g :: "string \<Rightarrow> statement result"
  proof (rule no_panic_tryq)
    fix r
    assume "statement_rest s k = Ok r"
    then obtain n where "r = trim (drop n (trim s))"
      using s by (auto simp: statement_rest_def strip_prefix_ascii res_simps split: if_splits)
    then have "set r \<subseteq> set s" using set_trim [of s] set_trim [of "drop n (trim s)"] set_drop_subset [of n "trim s"] by blast
    with s dq that show "no_panic (g r)" using is_ascii_subset by blast
  qed (rule statement_rest_ascii(1) [OF s])
  have dq_take: "DQ \<notin> set (trim (take n r))" if "DQ \<notin> set r" for n r
    using that set_trim [of "take n r"] set_take_subset [of n r] by blast
  show ?thesis
    unfolding parse_insert_def Let_def
    by (rule rest, rule search_steps, rule slice_steps, simp_all, rule no_panic_tryq, rule insert_target_no_panic)
      (auto intro!: steps dq_take dest: starts_ends [of LPAREN _ RPAREN, simplified])
qed

lemma dispatch_no_panic:
  "is_ascii s \<Longrightarrow> \<forall>(p, f) \<in> set ps. no_panic (f s) \<Longrightarrow> no_panic (dispatch s ps)"
  by (induction s ps rule: dispatch.induct) (auto simp: strip_prefix_ascii)

lemma parse_statement_no_panic:
  assumes "is_ascii s" "DQ \<notin> set s"
  shows "no_panic (parse_statement s)"
proof -
  have t: "is_ascii (trim s)" "DQ \<notin> set (trim s)" using assms set_trim [of s] by auto
  then have "no_panic (dispatch (trim s)
       [(''DESCRIBE'', parse_describe), (''CREATE TABLE'', parse_create_table),
        (''CREATE INDEX'', parse_create_index), (''DROP TABLE'', parse_drop_table),
        (''DROP INDEX'', parse_drop_index), (''INSERT INTO'', parse_insert), (''UPDATE'', parse_update),
        (''ALTER TABLE'', parse_alter_table), (''SELECT'', parse_select), (''DELETE FROM'', parse_delete)])"
    by (intro dispatch_no_panic)
      (simp_all add: parse_describe_no_panic parse_create_table_no_panic parse_create_index_no_panic
        parse_drop_no_panic parse_insert_no_panic parse_update_no_panic parse_alter_table_no_panic
        parse_select_no_panic parse_delete_no_panic)
  then show ?thesis by (simp add: parse_statement_def Let_def)
qed

text \<open>
  C36: the parser never panics on a script of ASCII characters without double quotes: every slice it
  takes is in range. (On other text it can: \<open>insert_panics\<close>, \<open>in_list_panics\<close>, \<open>prefix_panics\<close>.)
\<close>
theorem parser_no_panic:
  assumes "is_ascii script" "DQ \<notin> set script"
  shows "no_panic (parse_script script)"
proof -
  have "no_panic (parse_statement p)" if "split_statements script = Ok ps" "p \<in> set ps" for p ps
    using that assms split_aware_set [of script "'';''" ps p] split_ascii(2) [of script ps p]
    by (intro parse_statement_no_panic) (auto simp: split_statements_def)
  then show ?thesis
    unfolding parse_script_def by (intro no_panic_tryq no_panic_map_res) simp_all
qed

lemma parser_no_panic_witness: "no_panic (parse_script ''INSERT INTO t (a) VALUES (1); BEGIN'')"
  by (rule parser_no_panic) (simp_all add: byte_def)

section \<open>Inputs that panic\<close>

lemma insert_panics:
  "parse_statement (''INSERT INTO '' @ [DQ] @ ''a)'' @ [DQ] @ '' '' @ [DQ] @ ''('' @ [DQ] @ '' VALUES (1)'') =
    Panic ''str slice''"
  by code_simp

lemma in_list_panics:
  "parse_statement (''DELETE FROM t WHERE n IN ('' @ [SQ] @ ''aaaa'' @ [CHR 195, CHR 169] @ [SQ] @ '')'') =
    Panic ''str slice''"
  by code_simp

text \<open>A prefix of the length of a keyword may end inside a character.\<close>

lemma prefix_panics: "parse_statement (''describ'' @ [CHR 195, CHR 169]) = Panic ''str slice''"
  by code_simp

end
