(* ===== verification/Script.thy ===== *)
theory Script
  imports Access_Properties Parser_Panic
begin

text \<open>
  \<open>Engine::execute_script\<close>: the parser and the engine together. A script is parsed as a whole
  before its first statement runs, and stops at the first statement that fails.
\<close>

definition execute_script :: "deps \<Rightarrow> string \<Rightarrow> query_result list engine_op" where
  "execute_script D script = op_bind (op_lift (parse_script script)) (execute_all D)"

text \<open>The answer to the statement at a position, given that those before it ran.\<close>

definition answer_at :: "deps \<Rightarrow> statement list \<Rightarrow> engine \<Rightarrow> nat \<Rightarrow> query_result result" where
  "answer_at D sts e i = fst (execute_statement D (sts ! i) (run_all D (take i sts) e))"

lemma answer_at_Cons [simp]:
  "answer_at D (st # sts) e 0 = fst (execute_statement D st e)"
  "answer_at D (st # sts) e (Suc i) = answer_at D sts (snd (execute_statement D st e)) i"
  by (simp_all add: answer_at_def)

text \<open>Where a run of statements stops: at the first that does not succeed, with its failure.\<close>

definition stops_at :: "deps \<Rightarrow> statement list \<Rightarrow> engine \<Rightarrow> nat \<Rightarrow> engine \<Rightarrow> bool" where
  "stops_at D sts e k e' \<longleftrightarrow> k < length sts \<and> e' = run_all D (take (Suc k) sts) e \<and> (\<forall>i<k. is_ok (answer_at D sts e i))"

lemma stops_at_Cons:
  "execute_statement D st e = (Ok q, e1) \<Longrightarrow> stops_at D sts e1 k e' \<Longrightarrow> stops_at D (st # sts) e (Suc k) e'"
  unfolding stops_at_def
proof (elim conjE, intro conjI allI impI)
  fix i assume q: "execute_statement D st e = (Ok q, e1)" and "\<forall>i<k. is_ok (answer_at D sts e1 i)" "i < Suc k"
  then show "is_ok (answer_at D (st # sts) e i)" by (cases i) simp_all
qed simp_all

lemma execute_all_cases:
  assumes "execute_all D sts e = (r, e')"
  shows "(\<exists>qs. r = Ok qs \<and> length qs = length sts \<and> e' = run_all D sts e \<and>
      (\<forall>i<length sts. answer_at D sts e i = Ok (qs ! i))) \<or>
    (\<exists>k err. r = Err err \<and> answer_at D sts e k = Err err \<and> stops_at D sts e k e') \<or>
    (\<exists>k p. r = Panic p \<and> answer_at D sts e k = Panic p \<and> stops_at D sts e k e')"
  using assms
proof (induction sts arbitrary: e r e')
  case Nil
  then show ?case by (simp add: execute_all_def op_apply)
next
  case (Cons st sts)
  obtain x e1 where x: "execute_statement D st e = (x, e1)" by fastforce
  obtain r1 e2 where r1: "execute_all D sts e1 = (r1, e2)" by fastforce
  note run = Cons.prems [unfolded execute_all_def]
  show ?case
  proof (cases x)
    case (Ok q)
    from Cons.IH [OF r1] show ?thesis
    proof (elim disjE exE conjE)
      fix qs
      assume qs: "r1 = Ok qs" "length qs = length sts" "e2 = run_all D sts e1"
        "\<forall>i<length sts. answer_at D sts e1 i = Ok (qs ! i)"
      have "r = Ok (q # qs)" "e' = e2" using run x Ok r1 qs(1)
        by (simp_all add: op_bind_def op_apply execute_all_def)
      moreover have "answer_at D (st # sts) e i = Ok ((q # qs) ! i)" if "i < length (st # sts)" for i
        using that qs(4) x Ok by (cases i) simp_all
      ultimately show ?thesis using qs(2,3) x by (intro disjI1 exI [of _ "q # qs"]) simp
    next
      fix k err
      assume k: "r1 = Err err" "answer_at D sts e1 k = Err err" "stops_at D sts e1 k e2"
      have "r = Err err" "e' = e2" using run x Ok r1 k(1)
        by (simp_all add: op_bind_def op_apply execute_all_def)
      with k(2) stops_at_Cons [OF x [unfolded Ok] k(3)] x show ?thesis
        by (intro disjI2 disjI1 exI [of _ "Suc k"]) simp
    next
      fix k p
      assume k: "r1 = Panic p" "answer_at D sts e1 k = Panic p" "stops_at D sts e1 k e2"
      have "r = Panic p" "e' = e2" using run x Ok r1 k(1)
        by (simp_all add: op_bind_def op_apply execute_all_def)
      with k(2) stops_at_Cons [OF x [unfolded Ok] k(3)] x show ?thesis
        by (intro disjI2 exI [of _ "Suc k"]) simp
    qed
  next
    case (Err err)
    with run x have "r = Err err" "e' = e1" by (simp_all add: op_bind_def)
    with x Err show ?thesis by (intro disjI2 disjI1 exI [of _ 0]) (simp add: stops_at_def)
  next
    case (Panic p)
    with run x have "r = Panic p" "e' = e1" by (simp_all add: op_bind_def)
    with x Panic show ?thesis by (intro disjI2 exI [of _ 0]) (simp add: stops_at_def)
  qed
qed

lemma answer_at_panic: "answer_at D sts e k = Panic p \<Longrightarrow> sorts (sts ! k) \<and> sort_panic D p"
  using op_panics_withinD [OF execute_panics [of "sts ! k" D]] by (simp add: answer_at_def panics_within_def)

text \<open>
  C35: a script runs its statements in order up to the first that fails: a script that does not parse
  runs nothing; otherwise either every statement succeeds and their answers are returned in order, or
  the answer is the error of the first statement that fails, and exactly the statements up to it have
  run. Nothing is undone. The one other outcome is that a statement with an ORDER BY unwinds in its
  sort, after exactly the statements before it have succeeded.
\<close>
theorem script_runs_prefix:
  assumes "execute_script D script e = (r, e')"
  shows "case parse_script script of
      Err err \<Rightarrow> r = Err err \<and> e' = e
    | Panic p \<Rightarrow> r = Panic p \<and> e' = e
    | Ok sts \<Rightarrow>
        (\<exists>qs. r = Ok qs \<and> length qs = length sts \<and> e' = run_all D sts e \<and>
          (\<forall>i<length sts. answer_at D sts e i = Ok (qs ! i))) \<or>
        (\<exists>k<length sts. \<exists>err. r = Err err \<and> e' = run_all D (take (Suc k) sts) e \<and>
          answer_at D sts e k = Err err \<and> (\<forall>i<k. is_ok (answer_at D sts e i))) \<or>
        (\<exists>k<length sts. \<exists>p. r = Panic p \<and> sorts (sts ! k) \<and> sort_panic D p \<and>
          e' = run_all D (take (Suc k) sts) e \<and> answer_at D sts e k = Panic p \<and>
          (\<forall>i<k. is_ok (answer_at D sts e i)))"
proof (cases "parse_script script")
  case (Ok sts)
  with assms have "execute_all D sts e = (r, e')" by (simp add: execute_script_def)
  from execute_all_cases [OF this] show ?thesis
    unfolding Ok res.case stops_at_def using answer_at_panic [of D sts e] by blast
qed (use assms in \<open>simp_all add: execute_script_def\<close>)

lemma script_runs_prefix_witness:
  "\<exists>r (e :: engine) e'. execute_script sample_deps ''BEGIN; SHOW TABLES'' e = (r, e') \<and>
     ((\<exists>qs. r = Ok qs \<and> e' = run_all sample_deps [Begin, ShowTables] e) \<or>
      (\<exists>k<2. \<exists>err. r = Err err \<and> e' = run_all sample_deps (take (Suc k) [Begin, ShowTables]) e))"
proof -
  obtain e :: engine where "en_identity e = sample_identity Admin" by (rule sample_engine) (rule that)
  obtain r e' where run: "execute_script sample_deps ''BEGIN; SHOW TABLES'' e = (r, e')" by fastforce
  have "parse_script ''BEGIN; SHOW TABLES'' = Ok [Begin, ShowTables]" by code_simp
  moreover have "\<not> sorts ([Begin, ShowTables] ! k)" if "k < 2" for k :: nat
    using that by (cases k) auto
  ultimately have
    "(\<exists>qs. r = Ok qs \<and> e' = run_all sample_deps [Begin, ShowTables] e) \<or>
      (\<exists>k<2. \<exists>err. r = Err err \<and> e' = run_all sample_deps (take (Suc k) [Begin, ShowTables]) e)"
    using script_runs_prefix [OF run] by (auto simp del: run_all_simps simp: numeral_2_eq_2)
  with run show ?thesis by blast
qed

end
