(* ===== verification/Scan.thy ===== *)
theory Scan
  imports Parser_Panic
begin

text \<open>
  What the scanning functions of the lexer do on a text that is put together from words, quoted
  strings and punctuation: they pass over balanced text without the keyword, delimiter or operator
  they look for, and find the first one that is there.
\<close>

section \<open>Characters\<close>

definition word_char :: "char \<Rightarrow> bool" where
  "word_char c \<longleftrightarrow> 33 < byte c \<and> byte c < 127 \<and> byte c \<notin> {34, 39, 40, 41, 44, 59, 60, 61, 62}"

definition punct :: "char \<Rightarrow> bool" where
  "punct c \<longleftrightarrow> byte c \<in> {32, 33, 40, 41, 44, 59, 60, 61, 62}"

lemma byte_eq_iff: "c = d \<longleftrightarrow> byte c = byte d"
  by (simp add: byte_def)

lemma byte_of_char [simp]: "n < 256 \<Longrightarrow> byte (char_of n) = n"
  by (simp add: byte_def)

lemma byte_ascii_lower: "byte (ascii_lower c) = (if 65 \<le> byte c \<and> byte c \<le> 90 then byte c + 32 else byte c)"
  by (simp add: ascii_lower_def)

lemma word_char_lower: "ascii_lower c = ascii_lower d \<Longrightarrow> word_char c \<longleftrightarrow> word_char d"
  by (auto simp: byte_eq_iff byte_ascii_lower word_char_def split: if_splits)

lemma word_char_not:
  assumes "word_char c"
  shows "c \<noteq> SQ" "c \<noteq> DQ" "c \<noteq> LPAREN" "c \<noteq> RPAREN" "c \<noteq> CHR '' ''" "\<not> punct c" "\<not> is_boundary (Some c)"
    "byte c < 128" "\<not> is_whitespace [c]"
proof -
  have b: "33 < byte c" "byte c < 127" "byte c \<notin> {34, 39, 40, 41, 44, 59, 60, 61, 62}"
    using assms by (simp_all add: word_char_def)
  show n: "c \<noteq> SQ" "c \<noteq> DQ" "c \<noteq> LPAREN" "c \<noteq> RPAREN" "c \<noteq> CHR '' ''"
    using b by (auto simp: byte_def)
  show "\<not> punct c" "byte c < 128" "\<not> is_whitespace [c]"
    using b by (simp_all add: punct_def is_whitespace_def)
  have "c \<noteq> CHR '',''" "c \<noteq> CHR '';''" using b by (auto simp: byte_def)
  with n b show "\<not> is_boundary (Some c)" by (simp add: is_boundary_def is_ascii_whitespace_def)
qed

lemma punct_not: "punct c \<Longrightarrow> c \<noteq> SQ \<and> c \<noteq> DQ \<and> byte c < 128 \<and> \<not> word_char c"
  by (auto simp: word_char_def punct_def byte_def)

lemma word_char_space [simp]: "\<not> word_char CHR '' ''"
  by (simp add: word_char_def byte_def)

section \<open>Quotes\<close>

text \<open>A string with its quotes doubled.\<close>

fun dbl :: "char \<Rightarrow> string \<Rightarrow> string" where
  "dbl q [] = []"
| "dbl q (c # s) = (if c = q then q # q # dbl q s else c # dbl q s)"

lemma dbl_append: "dbl q (s @ t) = dbl q s @ dbl q t"
  by (induction s) auto

lemma dbl_absent: "q \<notin> set s \<Longrightarrow> dbl q s = s"
  by (induction s) auto

lemma utf8_group_cases:
  assumes "utf8_group_ok (c # g)"
  obtains "g = []" "byte c < 128" | "\<forall>b \<in> set (c # g). 128 \<le> byte b"
  using assms by (auto simp: utf8_group_ok_def split: list.splits)

lemma chars_dbl: "utf8_valid s \<Longrightarrow> chars (dbl SQ s) = concat (map (\<lambda>g. if g = [SQ] then [[SQ], [SQ]] else [g]) (chars s))"
proof (induction s rule: chars.induct)
  case (2 c cs)
  let ?g = "take (utf8_extra c) cs" and ?r = "drop (utf8_extra c) cs"
  note v = utf8_Cons [OF 2(2)]
  from v(1) show ?case
  proof (cases rule: utf8_group_cases)
    case 1
    then have "utf8_extra c = 0" by (simp add: utf8_extra_def)
    with 2(1) [OF v(2)] show ?thesis by (simp add: utf8_extra_def byte_def)
  next
    case 2
    then have "SQ \<notin> set (c # ?g)" by (force simp: byte_def)
    then have "dbl SQ (c # cs) = (c # ?g) @ dbl SQ ?r"
      by (metis append_Cons append_take_drop_id dbl_absent dbl_append)
    moreover have "utf8_valid (c # ?g)" using v(1,3) by (simp add: utf8_valid_def min_def)
    moreover have "chars (c # ?g) = [c # ?g]" using v(3) by simp
    moreover have "c # ?g \<noteq> [SQ]" using \<open>SQ \<notin> set (c # ?g)\<close> by auto
    ultimately show ?thesis using "2.IH" [OF v(2)] by (simp only: chars_append) simp
  qed
qed simp

lemma utf8_dbl: "utf8_valid s \<Longrightarrow> utf8_valid (dbl SQ s)"
  by (auto simp: utf8_valid_def chars_dbl list_all_iff utf8_group_ok_def byte_def)

lemma replace_dbl: "replace_pair q (dbl q s) = s"
proof (induction s)
  case (Cons c s)
  show ?case
  proof (cases "c = q")
    case True
    with Cons show ?thesis by simp
  next
    case False
    with Cons show ?thesis by (cases "dbl q s") auto
  qed
qed simp

section \<open>Tokens\<close>

text \<open>A word, a quoted string, a punctuation character; two of the first kinds are never adjacent.\<close>

datatype tok = W string | Q string | P char

abbreviation "SP \<equiv> P CHR '' ''"

primrec untok :: "tok \<Rightarrow> string" where
  "untok (W w) = w"
| "untok (Q t) = SQ # dbl SQ t @ [SQ]"
| "untok (P c) = [c]"

definition text_of :: "tok list \<Rightarrow> string" where
  "text_of ts = concat (map untok ts)"

lemma text_of_simps [simp]:
  "text_of [] = []" "text_of (t # ts) = untok t @ text_of ts" "text_of (ts @ us) = text_of ts @ text_of us"
  by (simp_all add: text_of_def)

primrec good_tok :: "tok \<Rightarrow> bool" where
  "good_tok (W w) \<longleftrightarrow> w \<noteq> [] \<and> list_all word_char w"
| "good_tok (Q t) \<longleftrightarrow> utf8_valid t"
| "good_tok (P c) \<longleftrightarrow> punct c"

primrec is_P :: "tok \<Rightarrow> bool" where
  "is_P (W w) \<longleftrightarrow> False"
| "is_P (Q t) \<longleftrightarrow> False"
| "is_P (P c) \<longleftrightarrow> True"

fun spaced :: "tok list \<Rightarrow> bool" where
  "spaced (t # u # ts) \<longleftrightarrow> (is_P t \<or> is_P u) \<and> spaced (u # ts)"
| "spaced ts \<longleftrightarrow> True"

definition good :: "tok list \<Rightarrow> bool" where
  "good ts \<longleftrightarrow> list_all good_tok ts \<and> spaced ts"

lemma spaced_append:
  "spaced (ts @ us) \<longleftrightarrow> spaced ts \<and> spaced us \<and> (ts \<noteq> [] \<longrightarrow> us \<noteq> [] \<longrightarrow> is_P (last ts) \<or> is_P (hd us))"
  by (induction ts rule: spaced.induct) (cases us; auto)+

lemma good_simps [simp]:
  "good []" "good [t] \<longleftrightarrow> good_tok t" "good (P c # ts) \<longleftrightarrow> punct c \<and> good ts"
  "good (t # P c # ts) \<longleftrightarrow> good_tok t \<and> punct c \<and> good ts"
  by (cases ts; auto simp: good_def)+

lemma good_append:
  "good (ts @ us) \<longleftrightarrow> good ts \<and> good us \<and> (ts \<noteq> [] \<longrightarrow> us \<noteq> [] \<longrightarrow> is_P (last ts) \<or> is_P (hd us))"
  by (auto simp: good_def spaced_append)

lemma good_P [simp]: "good (ts @ P c # us) \<longleftrightarrow> good ts \<and> punct c \<and> good us"
  by (auto simp: good_append)

lemma punct_chars [simp]:
  "punct CHR '' ''" "punct LPAREN" "punct RPAREN" "punct CHR '',''" "punct CHR '';''" "punct CHR ''=''"
  "punct CHR ''<''" "punct CHR ''>''" "punct CHR ''!''"
  by (simp_all add: punct_def byte_def)

text \<open>The nesting of parentheses, and a condition on the tokens outside of them.\<close>

fun scan :: "(tok \<Rightarrow> bool) \<Rightarrow> nat \<Rightarrow> tok list \<Rightarrow> nat option" where
  "scan A n [] = Some n"
| "scan A n (t # ts) =
     (if t = P LPAREN then scan A (Suc n) ts
      else if t = P RPAREN then (case n of 0 \<Rightarrow> None | Suc m \<Rightarrow> scan A m ts)
      else if n = 0 \<and> \<not> A t then None else scan A n ts)"

abbreviation flat :: "(tok \<Rightarrow> bool) \<Rightarrow> tok list \<Rightarrow> bool" where
  "flat A ts \<equiv> scan A 0 ts = Some 0"

lemma scan_append: "scan A n (ts @ us) = (case scan A n ts of None \<Rightarrow> None | Some m \<Rightarrow> scan A m us)"
  by (induction A n ts rule: scan.induct) (auto split: nat.splits)

lemma scan_flat [simp]: "flat A ts \<Longrightarrow> scan A 0 (ts @ us) = scan A 0 us"
  by (simp add: scan_append)

lemma scan_mono: "scan A n ts = Some m \<Longrightarrow> (\<And>t. t \<in> set ts \<Longrightarrow> A t \<Longrightarrow> B t) \<Longrightarrow> scan B n ts = Some m"
  by (induction A n ts rule: scan.induct) (auto split: if_splits nat.splits)

lemma scan_inside: "scan A n ts = Some m \<Longrightarrow> scan B (Suc n) ts = Some (Suc m)"
  by (induction A n ts rule: scan.induct) (auto split: if_splits nat.splits)

abbreviation balanced :: "tok list \<Rightarrow> bool" where
  "balanced ts \<equiv> flat (\<lambda>_. True) ts"

lemma flat_balanced: "flat A ts \<Longrightarrow> balanced ts"
  by (rule scan_mono) simp_all

lemma scan_parens [simp]: "balanced ts \<Longrightarrow> scan B 0 (P LPAREN # ts @ P RPAREN # us) = scan B 0 us"
  by (simp add: scan_append scan_inside)

text \<open>What may follow a text that ends in a word or a string.\<close>

definition stop :: "string \<Rightarrow> bool" where
  "stop bs \<longleftrightarrow> (case bs of [] \<Rightarrow> True | c # _ \<Rightarrow> \<not> word_char c \<and> c \<noteq> SQ \<and> c \<noteq> DQ)"

lemma stop_simps [simp]:
  "stop []" "stop (CHR '' '' # bs)" "punct c \<Longrightarrow> stop (c # bs)"
  using punct_not [of c] by (simp_all add: stop_def)

definition ends_ok :: "tok list \<Rightarrow> string \<Rightarrow> bool" where
  "ends_ok ts bs \<longleftrightarrow> ts = [] \<or> is_P (last ts) \<or> stop bs"

lemma ends_ok_simps [simp]: "ends_ok [] bs" "ends_ok (ts @ [P c]) bs" "stop bs \<Longrightarrow> ends_ok ts bs"
  by (simp_all add: ends_ok_def)

text \<open>Induction along a text of tokens.\<close>

lemma tokens_induct [consumes 2, case_names Nil word quoted punct]:
  assumes "good ts" "ends_ok ts bs"
    and "R []"
    and "\<And>w ts. list_all word_char w \<Longrightarrow> w \<noteq> [] \<Longrightarrow> stop (text_of ts @ bs) \<Longrightarrow> good ts \<Longrightarrow> R ts \<Longrightarrow> R (W w # ts)"
    and "\<And>t ts. utf8_valid t \<Longrightarrow> stop (text_of ts @ bs) \<Longrightarrow> good ts \<Longrightarrow> R ts \<Longrightarrow> R (Q t # ts)"
    and "\<And>c ts. punct c \<Longrightarrow> good ts \<Longrightarrow> R ts \<Longrightarrow> R (P c # ts)"
  shows "R ts"
  using assms(1,2)
proof (induction ts)
  case (Cons t ts)
  have g: "good ts" "good_tok t" using Cons.prems(1) by (cases ts; auto simp: good_def)+
  have e: "ends_ok ts bs" using Cons.prems(2) by (auto simp: ends_ok_def split: if_splits)
  have s: "\<not> is_P t \<Longrightarrow> stop (text_of ts @ bs)"
  proof (cases ts)
    case Nil
    then show "\<not> is_P t \<Longrightarrow> stop (text_of ts @ bs)" using Cons.prems(2) by (simp add: ends_ok_def)
  next
    case (Cons u us)
    then show "\<not> is_P t \<Longrightarrow> stop (text_of ts @ bs)"
      using \<open>good (t # ts)\<close> by (cases u) (auto simp: good_def)
  qed
  show ?case
    using g s Cons.IH [OF g(1) e] assms(4-6) by (cases t) simp_all
qed (rule assms(3))

section \<open>Searching a keyword\<close>

text \<open>A keyword with its first word.\<close>

definition key_of :: "string \<Rightarrow> string \<Rightarrow> bool" where
  "key_of kw key \<longleftrightarrow> kw \<noteq> [] \<and> list_all word_char kw \<and> (key = kw \<or> (\<exists>r. key = kw @ CHR '' '' # r))"

definition not_word :: "string \<Rightarrow> tok \<Rightarrow> bool" where
  "not_word kw t = (case t of W w \<Rightarrow> \<not> eq_ignore_ascii_case w kw | _ \<Rightarrow> True)"

lemma not_word_simps [simp]:
  "not_word kw (W w) \<longleftrightarrow> \<not> eq_ignore_ascii_case w kw" "not_word kw (Q t)" "not_word kw (P c)"
  by (simp_all add: not_word_def)

lemma eq_ignore_nth: "eq_ignore_ascii_case s t \<Longrightarrow> i < length s \<Longrightarrow> ascii_lower (s ! i) = ascii_lower (t ! i)"
  unfolding eq_ignore_ascii_case_def to_ascii_lowercase_def by (metis length_map nth_map)

lemma eq_ignore_length: "eq_ignore_ascii_case s t \<Longrightarrow> length s = length t"
  unfolding eq_ignore_ascii_case_def to_ascii_lowercase_def by (metis length_map)

lemma keyword_not_here:
  assumes key: "key_of kw key" and w: "list_all word_char w" "\<not> eq_ignore_ascii_case w kw" and bs: "stop bs"
  shows "\<not> keyword_here key prev (w @ bs)"
proof
  assume here: "keyword_here key prev (w @ bs)"
  let ?t = "take (length key) (w @ bs)"
  from here have len: "length key \<le> length w + length bs" and eq: "eq_ignore_ascii_case ?t key"
    and bnd: "is_boundary (first_byte (drop (length key) (w @ bs)))" by (simp_all add: keyword_here_def)
  have nth: "ascii_lower ((w @ bs) ! i) = ascii_lower (key ! i)" if "i < length key" for i
    using eq_ignore_nth [OF eq, of i] that len by (simp del: take_append)
  from key have kw: "list_all word_char kw" "length kw \<le> length key" by (auto simp: key_of_def)
  have kwi: "key ! i = kw ! i" if "i < length kw" for i using key that by (auto simp: key_of_def nth_append)
  consider "length w < length kw" | "length kw < length w" | "length w = length kw" by linarith
  then show False
  proof cases
    case 1
    with nth [of "length w"] kw kwi [of "length w"] have "ascii_lower (bs ! 0) = ascii_lower (kw ! length w)"
      by (simp add: nth_append)
    moreover have "word_char (kw ! length w)" using kw(1) 1 by (simp add: list_all_length)
    ultimately have "word_char (bs ! 0)" using word_char_lower by blast
    moreover have "bs \<noteq> []" using 1 kw(2) len by auto
    ultimately show False using bs by (cases bs) (simp_all add: stop_def)
  next
    case 2
    then have wc: "word_char (w ! length kw)" using w(1) by (simp add: list_all_length)
    from key consider "key = kw" | r where "key = kw @ CHR '' '' # r" by (auto simp: key_of_def)
    then show False
    proof cases
      case 1
      then have "first_byte (drop (length key) (w @ bs)) = Some (w ! length kw)"
        using 2 by (simp add: first_byte_def Cons_nth_drop_Suc [symmetric])
      with bnd word_char_not(7) [OF wc] show False by simp
    next
      case (2 r)
      with nth [of "length kw"] \<open>length kw < length w\<close> have "ascii_lower (w ! length kw) = ascii_lower CHR '' ''"
        by (simp add: nth_append)
      with wc word_char_lower have "word_char CHR '' ''" by blast
      then show False by simp
    qed
  next
    case 3
    have "w = kw \<or> eq_ignore_ascii_case w kw"
      unfolding eq_ignore_ascii_case_def to_ascii_lowercase_def
    proof (intro disjI2 nth_equalityI)
      fix i
      assume "i < length (map ascii_lower w)"
      then show "map ascii_lower w ! i = map ascii_lower kw ! i"
        using nth [of i] 3 kw(2) kwi [of i] by (simp add: nth_append)
    qed (simp add: 3)
    with w(2) show False by (auto simp: eq_ignore_ascii_case_def)
  qed
qed

lemma quote_step_None [simp]:
  "c \<noteq> sq \<Longrightarrow> c \<noteq> dq \<Longrightarrow> quote_step sq dq s d c xs = None"
  "c \<noteq> sq \<Longrightarrow> quote_step sq dq True d c xs = None"
  by (simp_all add: quote_step_def)

lemma keyword_skip:
  assumes "c \<noteq> SQ" "c \<noteq> DQ" "paren_step LPAREN RPAREN False False c depth \<noteq> 0 \<or> \<not> keyword_here key prev (c # bs)"
  shows "keyword_loop key prev False False depth i (c # bs) =
    keyword_loop key (Some c) False False (paren_step LPAREN RPAREN False False c depth) (i + 1) bs"
  using assms by (auto simp: Let_def)

lemma paren_step_word: "word_char c \<Longrightarrow> paren_step LPAREN RPAREN s d c n = n"
  using word_char_not(3,4) [of c] by (simp add: paren_step_def)

lemma keyword_word:
  assumes key: "key_of kw key" and bs: "stop bs"
  shows "list_all word_char w \<Longrightarrow> w \<noteq> [] \<Longrightarrow> depth \<noteq> 0 \<or> \<not> eq_ignore_ascii_case w kw \<or> \<not> is_boundary prev \<Longrightarrow>
    keyword_loop key prev False False depth i (w @ bs) =
      keyword_loop key (Some (last w)) False False depth (i + length w) bs"
proof (induction w arbitrary: prev i)
  case (Cons c w)
  then have c: "word_char c" by simp
  have "depth \<noteq> 0 \<or> \<not> keyword_here key prev ((c # w) @ bs)"
    using Cons.prems keyword_not_here [OF key Cons.prems(1) _ bs, of prev] by (auto simp: keyword_here_def)
  with c have "keyword_loop key prev False False depth i ((c # w) @ bs) =
      keyword_loop key (Some c) False False depth (i + 1) (w @ bs)"
    using word_char_not(1,2) [OF c] by (simp add: keyword_skip paren_step_word del: keyword_loop.simps)
  also have "\<dots> = keyword_loop key (Some (last (c # w))) False False depth (i + length (c # w)) bs"
    using Cons.IH [of "Some c" "i + 1"] Cons.prems(1) word_char_not(7) [OF c] by (cases "w = []") simp_all
  finally show ?case .
qed simp

lemma keyword_inside:
  "\<not> next_is SQ bs \<Longrightarrow> keyword_loop key prev True False depth i (dbl SQ t @ SQ # bs) =
    keyword_loop key (Some SQ) False False depth (i + length (dbl SQ t) + 1) bs"
proof (induction t arbitrary: prev i)
  case Nil
  then show ?case by (simp add: quote_step_def)
next
  case (Cons c t)
  show ?case
  proof (cases "c = SQ")
    case True
    then show ?thesis using Cons by (simp add: quote_step_def next_is_def)
  next
    case False
    then show ?thesis using Cons by (simp add: quote_step_def paren_step_def)
  qed
qed

lemma stop_next: "stop bs \<Longrightarrow> \<not> next_is SQ bs" "stop bs \<Longrightarrow> \<not> next_is DQ bs"
  by (auto simp: stop_def next_is_def split: list.splits)

lemma keyword_quoted:
  assumes "stop bs"
  shows "keyword_loop key prev False False depth i (untok (Q t) @ bs) =
    keyword_loop key (Some SQ) False False depth (i + length (untok (Q t))) bs"
  using keyword_inside [OF stop_next(1) [OF assms]] by (simp add: quote_step_def)

lemma keyword_punct:
  assumes key: "key_of kw key" and c: "punct c"
  shows "keyword_loop key prev False False depth i (c # bs) =
    keyword_loop key (Some c) False False (paren_step LPAREN RPAREN False False c depth) (i + 1) bs"
proof -
  from key obtain k key' where k: "key = k # key'" "word_char k" by (cases kw) (auto simp: key_of_def)
  have "\<not> keyword_here key prev (c # bs)"
  proof
    assume "keyword_here key prev (c # bs)"
    then have "ascii_lower c = ascii_lower k"
      by (simp add: keyword_here_def k eq_ignore_ascii_case_def to_ascii_lowercase_def)
    with k(2) word_char_lower punct_not [OF c] show False by blast
  qed
  with punct_not [OF c] show ?thesis by (intro keyword_skip) simp_all
qed

definition last_or :: "char option \<Rightarrow> tok list \<Rightarrow> char option" where
  "last_or prev ts = (if ts = [] then prev else Some (last (text_of ts)))"

lemma untok_nonempty [simp]: "good_tok t \<Longrightarrow> untok t \<noteq> []"
  by (cases t) auto

lemma text_of_eq_Nil_iff: "good ts \<Longrightarrow> text_of ts = [] \<longleftrightarrow> ts = []"
  by (cases ts) (auto simp: good_def)

lemma last_or_Cons:
  "good ts \<Longrightarrow> good_tok t \<Longrightarrow> last_or prev (t # ts) = last_or (Some (last (untok t))) ts"
  by (simp add: last_or_def text_of_eq_Nil_iff)

lemma of_nat_depth: "n < 2 ^ 32 \<Longrightarrow> of_nat n = (0 :: 32 word) \<longleftrightarrow> n = 0"
  by (auto simp: word_of_nat_eq_0_iff dest: dvd_imp_le)

lemma keyword_tokens:
  assumes key: "key_of kw key" and "good ts" "ends_ok ts bs"
  shows "scan (not_word kw) n ts = Some m \<Longrightarrow> n + length (text_of ts) < 2 ^ 32 \<Longrightarrow>
    keyword_loop key prev False False (of_nat n) i (text_of ts @ bs) =
      keyword_loop key (last_or prev ts) False False (of_nat m) (i + length (text_of ts)) bs"
  using assms(2,3)
proof (induction ts arbitrary: prev n i rule: tokens_induct [where bs = bs])
  case Nil
  then show ?case by (simp add: last_or_def)
next
  case (word w ts)
  from word.prems(1) have n: "n \<noteq> 0 \<or> \<not> eq_ignore_ascii_case w kw" "scan (not_word kw) n ts = Some m"
    by (auto split: if_splits)
  then have "(of_nat n :: 32 word) \<noteq> 0 \<or> \<not> eq_ignore_ascii_case w kw \<or> \<not> is_boundary prev"
    using word.prems(2) of_nat_depth [of n] by auto
  from keyword_word [OF key word.hyps(3,1,2) this] word.IH [OF n(2), of "Some (last w)" "i + length w"] word.prems(2) word.hyps
  show ?case by (simp add: last_or_Cons add.assoc)
next
  case (quoted t ts)
  from quoted.prems(1) have "scan (not_word kw) n ts = Some m" by (auto split: if_splits)
  from quoted.IH [OF this, of "Some SQ" "i + length (untok (Q t))"] quoted.prems(2) quoted.hyps
    keyword_quoted [OF quoted.hyps(2), of key prev "of_nat n" i t]
  show ?case by (simp add: last_or_Cons add.assoc)
next
  case (punct c ts)
  let ?n = "if c = LPAREN then Suc n else if c = RPAREN then n - 1 else n"
  from punct.prems(1) have "scan (not_word kw) ?n ts = Some m" and "c = RPAREN \<Longrightarrow> n \<noteq> 0"
    by (auto split: if_splits nat.splits)
  moreover have "paren_step LPAREN RPAREN False False c (of_nat n) = (of_nat ?n :: 32 word)"
    using \<open>c = RPAREN \<Longrightarrow> n \<noteq> 0\<close> by (auto simp: paren_step_def of_nat_diff)
  moreover have "?n + length (text_of ts) < 2 ^ 32" using punct.prems(2) by auto
  ultimately show ?case
    using punct.IH [of ?n "Some c" "i + 1"] keyword_punct [OF key punct.hyps(1), of prev "of_nat n" i "text_of ts @ bs"] punct.hyps
    by (simp add: last_or_Cons del: keyword_loop.simps)
qed

text \<open>A keyword is not found in flat text without its first word, and is found right after such text.\<close>

lemma find_keyword_none:
  assumes "key_of kw key" "good ts" "flat (not_word kw) ts" "length (text_of ts) < 2 ^ 32"
  shows "find_keyword_outside_quotes (text_of ts) key = None"
  using keyword_tokens [OF assms(1,2), of "[]" 0 0 None 0] assms(3,4) by (simp add: find_keyword_outside_quotes_def)

lemma find_keyword_at:
  assumes key: "key_of kw key" and ts: "good ts" "flat (not_word kw) ts" "length (text_of ts) < 2 ^ 32"
    and last: "ts = [] \<or> last ts = SP" and bs: "is_boundary (first_byte bs)"
  shows "find_keyword_outside_quotes (text_of ts @ key @ bs) key = Some (length (text_of ts))"
proof -
  from key obtain k key' where k: "key = k # key'" "word_char k" by (cases kw) (auto simp: key_of_def)
  have e: "ends_ok ts (key @ bs)" using last by (auto simp: ends_ok_def)
  have "is_boundary (last_or None ts)"
    using last ts(1) by (cases ts rule: rev_cases) (auto simp: last_or_def is_boundary_def is_ascii_whitespace_def byte_def)
  then have "keyword_here key (last_or None ts) (key @ bs)"
    using bs by (simp add: keyword_here_def eq_ignore_ascii_case_def)
  then have "keyword_loop key (last_or None ts) False False 0 (length (text_of ts)) (key @ bs) = Some (length (text_of ts))"
    using word_char_not(1,2) [OF k(2)] paren_step_word [OF k(2)] unfolding k(1) by (simp add: Let_def)
  with keyword_tokens [OF key ts(1) e, of 0 0 None 0] ts(2,3) show ?thesis
    by (simp add: find_keyword_outside_quotes_def)
qed

lemma find_keyword_ge:
  assumes key: "key_of kw key" and ts: "good ts" "ends_ok ts bs" "flat (not_word kw) ts" "length (text_of ts) < 2 ^ 32"
    and found: "find_keyword_outside_quotes (text_of ts @ bs) key = Some i"
  shows "length (text_of ts) \<le> i"
  using keyword_tokens [OF key ts(1,2), of 0 0 None 0] ts(3,4) found
    keyword_loop_bound [of key "last_or None ts" False False 0 "length (text_of ts)" bs i]
  by (simp add: find_keyword_outside_quotes_def)

text \<open>The first of several keywords.\<close>

definition first_word :: "string \<Rightarrow> string" where
  "first_word key = takeWhile (\<lambda>c. c \<noteq> CHR '' '') key"

definition keyword :: "string \<Rightarrow> bool" where
  "keyword key \<longleftrightarrow> key_of (first_word key) key"

definition none_of :: "string list \<Rightarrow> tok \<Rightarrow> bool" where
  "none_of ks t \<longleftrightarrow> list_all (\<lambda>k. not_word (first_word k) t) ks"

lemma first_keyword_fold:
  assumes ge: "\<And>k i. k \<in> set ks \<Longrightarrow> find_keyword_outside_quotes s k = Some i \<Longrightarrow> n \<le> i"
  shows "(\<forall>b. best = Some b \<longrightarrow> n \<le> b) \<Longrightarrow> best = Some n \<or> (\<exists>k \<in> set ks. find_keyword_outside_quotes s k = Some n) \<Longrightarrow>
    fold (\<lambda>kw best. case find_keyword_outside_quotes s kw of None \<Rightarrow> best
      | Some idx \<Rightarrow> (case best of None \<Rightarrow> Some idx | Some b \<Rightarrow> if idx < b then Some idx else best)) ks best = Some n"
  using ge
proof (induction ks arbitrary: best)
  case (Cons k ks)
  let ?best = "case find_keyword_outside_quotes s k of None \<Rightarrow> best
      | Some idx \<Rightarrow> (case best of None \<Rightarrow> Some idx | Some b \<Rightarrow> if idx < b then Some idx else best)"
  have a: "\<forall>b. ?best = Some b \<longrightarrow> n \<le> b"
    using Cons.prems(1,3) by (auto split: option.splits if_splits)
  have b: "?best = Some n \<or> (\<exists>k \<in> set ks. find_keyword_outside_quotes s k = Some n)"
  proof (cases "best = Some n")
    case True
    with Cons.prems(3) [of k] show ?thesis by (auto split: option.splits)
  next
    case False
    with Cons.prems(1,2) show ?thesis by (force split: option.splits)
  qed
  show ?case unfolding fold.simps comp_apply by (rule Cons.IH [OF a b]) (rule Cons.prems(3), simp_all)
qed simp

lemma first_keyword_at:
  assumes ks: "list_all keyword ks" "key \<in> set ks" and ts: "good ts" "flat (none_of ks) ts"
    "length (text_of ts) < 2 ^ 32" "ts = [] \<or> last ts = SP" and bs: "is_boundary (first_byte bs)"
  shows "find_first_keyword (text_of ts @ key @ bs) ks = Some (length (text_of ts))"
proof -
  have key: "key_of (first_word k) k" "flat (not_word (first_word k)) ts" if "k \<in> set ks" for k
  proof -
    show "key_of (first_word k) k" using that ks(1) by (auto simp: keyword_def list_all_iff)
    show "flat (not_word (first_word k)) ts"
      using that by (intro scan_mono [OF ts(2)]) (auto simp: none_of_def list_all_iff)
  qed
  have "ends_ok ts (key @ bs)" using ts(4) by (auto simp: ends_ok_def)
  then have ge: "length (text_of ts) \<le> i"
    if "k \<in> set ks" "find_keyword_outside_quotes (text_of ts @ key @ bs) k = Some i" for k i
    using find_keyword_ge [OF key(1) [OF that(1)] ts(1) _ key(2) [OF that(1)] ts(3) that(2)] by blast
  have "find_keyword_outside_quotes (text_of ts @ key @ bs) key = Some (length (text_of ts))"
    by (rule find_keyword_at [OF key(1) [OF ks(2)] ts(1) key(2) [OF ks(2)] ts(3,4) bs])
  with first_keyword_fold [of ks "text_of ts @ key @ bs" "length (text_of ts)" None] ge ks(2)
  show ?thesis by (auto simp: find_first_keyword_def)
qed

lemma first_keyword_none:
  assumes "list_all keyword ks" "good ts" "flat (none_of ks) ts" "length (text_of ts) < 2 ^ 32"
  shows "find_first_keyword (text_of ts) ks = None"
proof -
  have none: "find_keyword_outside_quotes (text_of ts) k = None" if "k \<in> set ks" for k
  proof (rule find_keyword_none)
    show "key_of (first_word k) k" using that assms(1) by (auto simp: keyword_def list_all_iff)
    show "flat (not_word (first_word k)) ts"
      using that by (intro scan_mono [OF assms(3)]) (auto simp: none_of_def list_all_iff)
  qed (use assms in simp_all)
  have "fold f ks best = best" if "\<And>k b. k \<in> set ks \<Longrightarrow> f k b = b" for f and best :: "nat option"
    using that by (induction ks) auto
  then show ?thesis unfolding find_first_keyword_def by (simp add: none)
qed

section \<open>Splitting at a delimiter\<close>

lemma split_words:
  assumes "\<And>c. c \<in> set w \<Longrightarrow> c \<noteq> SQ \<and> c \<noteq> DQ \<and> c \<noteq> LPAREN \<and> c \<noteq> RPAREN \<and> c \<noteq> d"
  shows "split_loop [d] False False depth cur parts (map (\<lambda>c. [c]) w @ gs) =
    split_loop [d] False False depth (cur @ w) parts gs"
  using assms by (induction w arbitrary: cur) (simp_all add: paren_step_def)

lemma split_inside:
  "\<not> next_is [SQ] rest \<Longrightarrow>
    split_loop [d] True False depth cur parts (concat (map (\<lambda>g. if g = [SQ] then [[SQ], [SQ]] else [g]) gs) @ [SQ] # rest) =
    split_loop [d] False False depth (cur @ concat (concat (map (\<lambda>g. if g = [SQ] then [[SQ], [SQ]] else [g]) gs)) @ [SQ]) parts rest"
proof (induction gs arbitrary: cur)
  case Nil
  then show ?case by (simp add: quote_step_def)
next
  case (Cons g gs)
  show ?case
  proof (cases "g = [SQ]")
    case True
    then show ?thesis using Cons by (simp add: quote_step_def next_is_def)
  next
    case False
    then show ?thesis using Cons by (simp add: paren_step_def)
  qed
qed

lemma chars_Cons_ascii: "byte c < 128 \<Longrightarrow> chars (c # s) = [c] # chars s"
  by (simp add: utf8_extra_def)

lemma utf8_extra_ascii: "byte c < 128 \<Longrightarrow> utf8_extra c = 0"
  by (simp add: utf8_extra_def)

lemma utf8_extra_SQ [simp]: "utf8_extra SQ = 0"
  by (simp add: utf8_extra_def byte_def)

lemma next_is_chars: "stop s \<Longrightarrow> \<not> next_is [SQ] (chars s)"
  by (cases s) (auto simp: stop_def next_is_def)

lemma split_tokens:
  assumes d: "punct d" "d \<noteq> LPAREN" "d \<noteq> RPAREN" and "good ts" "ends_ok ts bs"
  shows "scan (\<lambda>t. t \<noteq> P d) n ts = Some m \<Longrightarrow> n + length (text_of ts) < 2 ^ 32 \<Longrightarrow>
    split_loop [d] False False (of_nat n) cur parts (chars (text_of ts @ bs)) =
      split_loop [d] False False (of_nat m) (cur @ text_of ts) parts (chars bs)"
  using assms(4,5)
proof (induction ts arbitrary: n cur rule: tokens_induct [where bs = bs])
  case Nil
  then show ?case by simp
next
  case (word w ts)
  from word.prems(1) have "scan (\<lambda>t. t \<noteq> P d) n ts = Some m" by (auto split: if_splits)
  note IH = word.IH [OF this, of "cur @ w"]
  have c: "c \<noteq> SQ \<and> c \<noteq> DQ \<and> c \<noteq> LPAREN \<and> c \<noteq> RPAREN \<and> c \<noteq> d \<and> byte c < 128" if "c \<in> set w" for c
  proof -
    have "word_char c" using word.hyps(1) that by (simp add: list_all_iff)
    from word_char_not(1-4,6,8) [OF this] d(1) show ?thesis by blast
  qed
  then have "is_ascii w" by (simp add: is_ascii_def)
  with c split_words [of w d "of_nat n" cur parts "chars (text_of ts @ bs)"] IH word.prems(2)
  show ?case by (simp add: chars_ascii_append)
next
  case (quoted t ts)
  from quoted.prems(1) have "scan (\<lambda>t. t \<noteq> P d) n ts = Some m" by (auto split: if_splits)
  note IH = quoted.IH [OF this, of "cur @ untok (Q t)"]
  have "chars (untok (Q t) @ text_of ts @ bs) = [SQ] # chars (dbl SQ t) @ [SQ] # chars (text_of ts @ bs)"
    using chars_append [OF utf8_dbl [OF quoted.hyps(1)], of "SQ # text_of ts @ bs"] by simp
  with split_inside [OF next_is_chars [OF quoted.hyps(2)], of d "of_nat n" "cur @ [SQ]" parts "chars t"]
    IH quoted.prems(2) concat_chars [of "dbl SQ t"]
  show ?case by (simp add: chars_dbl [OF quoted.hyps(1)] quote_step_def del: concat_chars)
next
  case (punct c ts)
  define n' where "n' = (if c = LPAREN then Suc n else if c = RPAREN then n - 1 else n)"
  from punct.prems(1) d have step: "scan (\<lambda>t. t \<noteq> P d) n' ts = Some m" "c = RPAREN \<Longrightarrow> n \<noteq> 0" "c = d \<Longrightarrow> n \<noteq> 0"
    by (auto simp: n'_def split: if_splits nat.splits)
  have depth: "paren_step [LPAREN] [RPAREN] False False [c] (of_nat n) = (of_nat n' :: 32 word)"
    using step(2) by (auto simp: n'_def paren_step_def of_nat_diff)
  have b: "n' + length (text_of ts) < 2 ^ 32" "n' < 2 ^ 32" using punct.prems(2) by (auto simp: n'_def)
  have "c = d \<Longrightarrow> (of_nat n' :: 32 word) \<noteq> 0" using of_nat_depth [OF b(2)] step(3) d by (auto simp: n'_def)
  then have "split_loop [d] False False (of_nat n) cur parts (chars (c # text_of ts @ bs)) =
      split_loop [d] False False (of_nat n') (cur @ [c]) parts (chars (text_of ts @ bs))"
    using depth punct_not [OF punct.hyps(1)] utf8_extra_ascii [of c] by (auto simp: Let_def)
  with punct.IH [OF step(1) b(1), of "cur @ [c]"] show ?case by simp
qed

section \<open>Trimming and slicing\<close>

definition tight :: "tok list \<Rightarrow> bool" where
  "tight ts \<longleftrightarrow> good ts \<and> ts \<noteq> [] \<and> hd ts \<noteq> SP \<and> last ts \<noteq> SP"

definition solid :: "char \<Rightarrow> bool" where
  "solid c \<longleftrightarrow> byte c < 128 \<and> \<not> is_whitespace [c]"

definition clean :: "string \<Rightarrow> bool" where
  "clean s \<longleftrightarrow> (case s of [] \<Rightarrow> True | c # _ \<Rightarrow> \<not> is_continuation c)"

lemma solid_word: "word_char c \<Longrightarrow> solid c"
  using word_char_not(8,9) by (simp add: solid_def)

lemma solid_punct: "punct c \<Longrightarrow> c \<noteq> CHR '' '' \<Longrightarrow> solid c"
  by (auto simp: solid_def punct_def is_whitespace_def byte_eq_iff byte_def)

lemma solid_SQ [simp]: "solid SQ"
  by (simp add: solid_def is_whitespace_def byte_def)

lemma utf8_untok: "good_tok t \<Longrightarrow> utf8_valid (untok t)"
proof (cases t)
  case (W w)
  then show "good_tok t \<Longrightarrow> utf8_valid (untok t)"
    using word_char_not(8) by (auto intro!: utf8_valid_ascii simp: is_ascii_def list_all_iff)
next
  case (Q s)
  have "utf8_valid [SQ]" by (intro utf8_valid_ascii) (simp add: byte_def)
  then show "good_tok t \<Longrightarrow> utf8_valid (untok t)"
    using Q utf8_append [of "[SQ]" "dbl SQ s @ [SQ]"] by (simp add: utf8_append utf8_dbl)
next
  case (P c)
  then show "good_tok t \<Longrightarrow> utf8_valid (untok t)"
    using punct_not [of c] by (auto intro!: utf8_valid_ascii)
qed

lemma utf8_text: "good ts \<Longrightarrow> utf8_valid (text_of ts)"
proof (induction ts)
  case Nil
  show ?case by (simp add: utf8_valid_def)
next
  case (Cons t ts)
  then have "good ts" "good_tok t" by (cases ts; auto simp: good_def)+
  with Cons.IH utf8_untok show ?case by (simp add: utf8_append)
qed

lemma untok_hd: "good_tok t \<Longrightarrow> t \<noteq> SP \<Longrightarrow> \<exists>c s. untok t = c # s \<and> solid c"
  using solid_punct by (cases t) (auto simp: neq_Nil_conv solid_word)

lemma untok_last: "good_tok t \<Longrightarrow> t \<noteq> SP \<Longrightarrow> \<exists>s c. untok t = s @ [c] \<and> solid c \<and> utf8_valid s"
proof (cases t)
  case (W w)
  assume g: "good_tok t"
  then have "w = butlast w @ [last w]" "word_char (last w)" "is_ascii (butlast w)"
    using W word_char_not(8) by (auto simp: is_ascii_def list_all_iff dest: in_set_butlastD)
  with W show ?thesis by (metis solid_word untok.simps(1) utf8_valid_ascii)
next
  case (Q s)
  assume "good_tok t"
  moreover have "utf8_valid [SQ]" by (intro utf8_valid_ascii) (simp add: byte_def)
  ultimately have "utf8_valid (SQ # dbl SQ s)" using Q utf8_append [of "[SQ]" "dbl SQ s"] by (simp add: utf8_dbl)
  with Q show ?thesis by (intro exI [of _ "SQ # dbl SQ s"] exI [of _ SQ]) simp
next
  case (P c)
  assume "good_tok t" "t \<noteq> SP"
  with P solid_punct [of c] show ?thesis by (intro exI [of _ "[]"] exI [of _ c]) (simp add: utf8_valid_def)
qed

lemma tight_hd: "tight ts \<Longrightarrow> \<exists>c s. text_of ts = c # s \<and> solid c"
  using untok_hd [of "hd ts"] by (cases ts) (auto simp: tight_def good_def)

lemma tight_last:
  assumes "tight ts"
  shows "\<exists>s c. text_of ts = s @ [c] \<and> solid c \<and> utf8_valid s"
proof -
  from assms obtain us t where ts: "ts = us @ [t]" "good us" "good_tok t" "t \<noteq> SP"
    by (cases ts rule: rev_cases) (auto simp: tight_def good_append)
  from untok_last [OF ts(3,4)] obtain s c where "untok t = s @ [c]" "solid c" "utf8_valid s" by blast
  then show ?thesis using ts(1) utf8_text [OF ts(2)] utf8_append [of "text_of us" s]
    by (intro exI [of _ "text_of us @ s"] exI [of _ c]) simp
qed

abbreviation spaces :: "nat \<Rightarrow> string" where
  "spaces n \<equiv> replicate n CHR '' ''"

lemma is_ascii_spaces [simp]: "is_ascii (spaces n)"
  by (auto simp: is_ascii_def byte_def)

lemma dropWhile_spaces: "dropWhile is_whitespace (map (\<lambda>c. [c]) (spaces n) @ gs) = dropWhile is_whitespace gs"
  by (induction n) (auto simp: is_whitespace_def byte_def)

lemma trim_start_text: "tight ts \<Longrightarrow> trim_start (spaces n @ text_of ts @ r) = text_of ts @ r"
proof -
  assume "tight ts"
  from tight_hd [OF this] obtain c s where c: "text_of ts = c # s" "solid c" by blast
  then have "chars (text_of ts @ r) = [c] # chars (s @ r)" by (simp add: solid_def utf8_extra_ascii)
  moreover have "\<not> is_whitespace [c]" using c(2) by (simp add: solid_def)
  ultimately have "concat (dropWhile is_whitespace (chars (text_of ts @ r))) = text_of ts @ r"
    by (metis concat_chars dropWhile.simps(2))
  then show ?thesis unfolding trim_start_def
    by (simp add: chars_ascii_append dropWhile_spaces del: map_replicate)
qed

lemma trim_end_text: "tight ts \<Longrightarrow> trim_end (text_of ts @ spaces n) = text_of ts"
proof -
  assume "tight ts"
  from tight_last [OF this] obtain s c where c: "text_of ts = s @ [c]" "solid c" "utf8_valid s" by blast
  have "chars (text_of ts) = chars s @ [[c]]"
    using chars_append [OF c(3), of "[c]"] c by (simp add: solid_def utf8_extra_ascii)
  moreover have "chars (text_of ts @ spaces n) = chars (text_of ts) @ map (\<lambda>c. [c]) (spaces n)"
    using \<open>tight ts\<close> by (simp add: chars_append utf8_text tight_def chars_ascii)
  ultimately have "rev (chars (text_of ts @ spaces n)) = map (\<lambda>c. [c]) (spaces n) @ [c] # rev (chars s)"
    by (simp add: rev_map)
  then have "dropWhile is_whitespace (rev (chars (text_of ts @ spaces n))) = [c] # rev (chars s)"
    using c(2) by (simp add: dropWhile_spaces solid_def del: map_replicate)
  then show ?thesis by (simp add: trim_end_def c(1))
qed

lemma trim_text: "tight ts \<Longrightarrow> trim (spaces m @ text_of ts @ spaces n) = text_of ts"
  unfolding trim_def by (simp add: trim_start_text trim_end_text)

lemma trim_tight [simp]:
  assumes "tight ts"
  shows "trim (text_of ts) = text_of ts" "trim (CHR '' '' # text_of ts) = text_of ts"
    "trim (text_of ts @ '' '') = text_of ts" "trim (CHR '' '' # text_of ts @ '' '') = text_of ts"
  using trim_text [OF assms, of 0 0] trim_text [OF assms, of 1 0] trim_text [OF assms, of 0 1]
    trim_text [OF assms, of 1 1] by simp_all

lemma clean_simps [simp]: "clean []" "byte c < 128 \<Longrightarrow> clean (c # s)"
  by (simp_all add: clean_def is_continuation_def)

lemma clean_utf8: "utf8_valid s \<Longrightarrow> clean r \<Longrightarrow> clean (s @ r)"
proof (cases s)
  case (Cons c cs)
  assume "utf8_valid s"
  from utf8_Cons(1) [OF this [unfolded Cons]] have "\<not> is_continuation c"
    by (auto simp: utf8_group_ok_def is_continuation_def split: list.splits)
  with Cons show ?thesis by (simp add: clean_def)
qed simp

lemma clean_text: "good ts \<Longrightarrow> clean s \<Longrightarrow> clean (text_of ts @ s)"
  by (rule clean_utf8 [OF utf8_text])

lemma boundary_append: "clean b \<Longrightarrow> is_char_boundary (a @ b) (length a)"
  by (cases b) (auto simp: is_char_boundary_def nth_append clean_def)

lemma slice_append:
  assumes "clean b"
  shows "str_prefix (a @ b) (length a) = Ok a" "str_suffix (a @ b) (length a) = Ok b"
  using boundary_append [OF assms, of a]
  by (simp_all add: str_prefix_def str_suffix_def str_slice_def is_char_boundary_def)

lemma after_append: "clean b \<Longrightarrow> str_after (a @ k @ b) (length a) k = Ok b"
  using slice_append(2) [of b "a @ k"] by (simp add: str_after_def)

lemma slice_middle: "clean (b @ c) \<Longrightarrow> clean c \<Longrightarrow> str_slice (a @ b @ c) (length a) (length a + length b) = Ok b"
  using boundary_append [of "b @ c" a] boundary_append [of c "a @ b"] by (simp add: str_slice_def)

section \<open>Lists\<close>

text \<open>Pieces with a delimiter and a space between them.\<close>

fun separated :: "tok list \<Rightarrow> tok list list \<Rightarrow> tok list" where
  "separated d [] = []"
| "separated d [ts] = ts"
| "separated d (ts # us # tss) = ts @ d @ separated d (us # tss)"

abbreviation "commas \<equiv> separated [P CHR '','', SP]"

lemma good_separated:
  "list_all good tss \<Longrightarrow> good d \<Longrightarrow> d \<noteq> [] \<Longrightarrow> is_P (hd d) \<Longrightarrow> is_P (last d) \<Longrightarrow> good (separated d tss)"
  by (induction d tss rule: separated.induct) (simp_all add: good_append hd_append)

lemma scan_separated:
  "list_all (flat A) tss \<Longrightarrow> flat A d \<Longrightarrow> flat A (separated d tss)"
  by (induction d tss rule: separated.induct) simp_all

lemma add_piece_text: "tight ts \<Longrightarrow> n \<le> 1 \<Longrightarrow> add_piece (spaces n @ text_of ts) parts = parts @ [text_of ts]"
  using trim_text [of ts n 0] tight_hd [of ts] by (auto simp: add_piece_def)

lemma split_separated:
  assumes d: "punct d" "d \<noteq> LPAREN" "d \<noteq> RPAREN" and space: "d \<noteq> CHR '' ''"
  shows "list_all (\<lambda>ts. tight ts \<and> flat (\<lambda>t. t \<noteq> P d) ts) tss \<Longrightarrow> tss \<noteq> [] \<Longrightarrow> n \<le> 1 \<Longrightarrow>
    length (text_of (separated [P d, SP] tss)) < 2 ^ 32 \<Longrightarrow>
    split_loop [d] False False 0 (spaces n) parts (chars (text_of (separated [P d, SP] tss))) =
      Ok (parts @ map text_of tss)"
proof (induction "[P d, SP]" tss arbitrary: n parts rule: separated.induct)
  case (2 ts)
  then have "split_loop [d] False False (of_nat 0) (spaces n) parts (chars (text_of ts @ [])) =
      split_loop [d] False False (of_nat 0) (spaces n @ text_of ts) parts (chars [])"
    by (intro split_tokens [OF d]) (simp_all add: tight_def)
  with 2 show ?case by (simp add: add_piece_text)
next
  case (3 ts us tss)
  let ?rest = "text_of (separated [P d, SP] (us # tss))"
  have "split_loop [d] False False (of_nat 0) (spaces n) parts (chars (text_of ts @ d # '' '' @ ?rest)) =
      split_loop [d] False False (of_nat 0) (spaces n @ text_of ts) parts (chars (d # '' '' @ ?rest))"
    using 3 d(1) by (intro split_tokens [OF d]) (simp_all add: tight_def)
  also have "\<dots> = split_loop [d] False False 0 [] (parts @ [text_of ts]) (chars ('' '' @ ?rest))"
    using 3 d punct_not [OF d(1)] by (simp add: chars_Cons_ascii paren_step_def add_piece_text Let_def del: chars.simps)
  also have "\<dots> = split_loop [d] False False 0 (spaces 1) (parts @ [text_of ts]) (chars ?rest)"
  proof -
    have "byte CHR '' '' < 128" by (simp add: byte_def)
    with space show ?thesis by (simp add: chars_Cons_ascii paren_step_def Let_def del: chars.simps)
  qed
  also have "\<dots> = Ok ((parts @ [text_of ts]) @ map text_of (us # tss))"
    using 3(1) [of 1 "parts @ [text_of ts]"] 3(2-5) by simp
  finally show ?case by simp
qed simp

lemma split_aware_separated:
  assumes "punct d" "d \<noteq> LPAREN" "d \<noteq> RPAREN" "d \<noteq> CHR '' ''"
    and "list_all (\<lambda>ts. tight ts \<and> flat (\<lambda>t. t \<noteq> P d) ts) tss" "tss \<noteq> []"
    and "length (text_of (separated [P d, SP] tss)) < 2 ^ 32"
  shows "split_aware (text_of (separated [P d, SP] tss)) [d] = Ok (map text_of tss)"
  using split_separated [OF assms(1-6), of 0 "[]"] assms(7) by (simp add: split_aware_def)

lemma split_commas:
  assumes "list_all (\<lambda>ts. tight ts \<and> flat (\<lambda>t. t \<noteq> P CHR '','') ts) tss" "tss \<noteq> []"
    and "length (text_of (commas tss)) < 2 ^ 32"
  shows "split_comma_aware (text_of (commas tss)) = Ok (map text_of tss)"
  using split_aware_separated [of "CHR '',''" tss] assms by (simp add: split_comma_aware_def)

text \<open>Pieces with a keyword between them.\<close>

abbreviation "keyed key \<equiv> separated [SP, W key, SP]"

lemma split_keyword_separated:
  assumes key: "key_of key key"
  shows "list_all (\<lambda>ts. tight ts \<and> flat (not_word key) ts) tss \<Longrightarrow> tss \<noteq> [] \<Longrightarrow> n \<le> 1 \<Longrightarrow>
    length (text_of (keyed key tss)) < 2 ^ 31 \<Longrightarrow>
    pre = [] \<and> segs = [] \<and> n = 0 \<or> segs \<noteq> [] \<Longrightarrow>
    split_keyword_loop key (pre @ spaces n @ text_of (keyed key tss)) (length pre) segs = Ok (segs @ map text_of tss)"
proof (induction "[SP, W key, SP]" tss arbitrary: pre n segs rule: separated.induct)
  case (2 ts)
  let ?sp = "if n = 0 then [] else [SP]"
  have sp: "spaces n = text_of ?sp" using 2(3) by (cases n) simp_all
  have t: "tight ts" "flat (not_word key) ts" using 2 by simp_all
  have none: "find_keyword_outside_quotes (spaces n @ text_of ts) key = None"
    using find_keyword_none [OF key, of "?sp @ ts"] t 2(4) by (auto simp: sp tight_def)
  have clean: "clean (spaces n @ text_of ts)" using tight_hd [OF t(1)] by (cases n) (auto simp: solid_def byte_def)
  have "trim (spaces n @ text_of ts) = text_of ts" "text_of ts \<noteq> []"
    using trim_text [OF t(1), of n 0] tight_hd [OF t(1)] by auto
  with none clean 2(5) t show ?case
    by (subst split_keyword_loop.simps) (auto simp: slice_append)
next
  case (3 ts us tss)
  let ?sp = "if n = 0 then [] else [SP]"
  let ?rest = "text_of (keyed key (us # tss))" and ?body = "spaces n @ text_of ts @ '' ''"
  have sp: "spaces n = text_of ?sp" using 3(4) by (cases n) simp_all
  have t: "tight ts" "flat (not_word key) ts" "good (us)" using 3 by (simp_all add: tight_def)
  have body: "?body = text_of (?sp @ ts @ [SP])" by (simp add: sp)
  have found: "find_keyword_outside_quotes (?body @ key @ '' '' @ ?rest) key = Some (length ?body)"
    unfolding body
    by (rule find_keyword_at [OF key])
      (use t 3(5) in \<open>auto simp: tight_def is_boundary_def first_byte_def is_ascii_whitespace_def byte_def\<close>)
  have k: "clean key" "key \<noteq> []" "clean (key @ '' '' @ ?rest)"
    using key word_char_not(8) by (cases key; auto simp: key_of_def)+
  have c: "clean (?body @ key @ '' '' @ ?rest)"
    using tight_hd [OF t(1)] by (cases n) (auto simp: solid_def byte_def)
  have trim: "trim ?body = text_of ts" "text_of ts \<noteq> []"
    using trim_text [OF t(1), of n 1] tight_hd [OF t(1)] by auto
  let ?input = "pre @ ?body @ key @ '' '' @ ?rest"
  have "split_keyword_loop key ?input (length pre) segs =
      split_keyword_loop key ?input (length pre + length ?body + length key) (segs @ [text_of ts])"
    using found trim k(2)
    by (subst split_keyword_loop.simps)
      (simp add: slice_append(2) [OF c, of pre, simplified] slice_middle [OF c k(3), of pre, simplified] Let_def)
  also have "\<dots> = split_keyword_loop key ((pre @ ?body @ key) @ spaces 1 @ ?rest) (length (pre @ ?body @ key)) (segs @ [text_of ts])"
    by (simp add: add.assoc)
  also have "\<dots> = Ok ((segs @ [text_of ts]) @ map text_of (us # tss))"
    using 3(2,5) by (intro 3(1)) simp_all
  finally show ?case by simp
qed simp

lemma split_by_keyword_separated:
  assumes "key_of key key" "list_all (\<lambda>ts. tight ts \<and> flat (not_word key) ts) tss" "tss \<noteq> []"
    and "length (text_of (keyed key tss)) < 2 ^ 31"
  shows "split_by_keyword_aware (text_of (keyed key tss)) key = Ok (map text_of tss)"
  using split_keyword_separated [OF assms(1-3), of 0 "[]" "[]"] assms(4) by (simp add: split_by_keyword_aware_def)

section \<open>Operators\<close>

definition free_of :: "char set \<Rightarrow> string \<Rightarrow> bool" where
  "free_of cs s \<longleftrightarrow> (\<forall>c \<in> set s. byte c < 128 \<and> c \<noteq> SQ \<and> c \<noteq> DQ \<and> c \<notin> cs)"

lemma free_of_append [simp]: "free_of cs (s @ t) \<longleftrightarrow> free_of cs s \<and> free_of cs t"
  "free_of cs []" "free_of cs (c # s) \<longleftrightarrow> byte c < 128 \<and> c \<noteq> SQ \<and> c \<noteq> DQ \<and> c \<notin> cs \<and> free_of cs s"
  by (auto simp: free_of_def)

lemma free_of_word: "list_all word_char w \<Longrightarrow> (\<And>c. c \<in> cs \<Longrightarrow> \<not> word_char c) \<Longrightarrow> free_of cs w"
  using word_char_not by (auto simp: free_of_def list_all_iff)

lemma find_char_skip:
  "free_of {c} s \<Longrightarrow> find_char_loop [c] False False i (map (\<lambda>c. [c]) s @ gs) =
    find_char_loop [c] False False (i + length s) gs"
  by (induction s arbitrary: i) simp_all

lemma find_char_at:
  assumes "free_of {c} s" "byte c < 128" "c \<noteq> SQ" "c \<noteq> DQ"
  shows "find_char_outside_quotes (s @ c # r) [c] = Ok (length s)"
proof -
  have "is_ascii s" using assms(1) by (auto simp: free_of_def is_ascii_def)
  with assms find_char_skip [of c s 0 "chars (c # r)"] show ?thesis
    by (simp add: find_char_outside_quotes_def chars_ascii_append utf8_extra_ascii)
qed

primrec op_text :: "compare_op \<Rightarrow> string" where
  "op_text OpEq = ''=''"
| "op_text OpNotEq = ''!=''"
| "op_text OpGt = ''>''"
| "op_text OpGte = ''>=''"
| "op_text OpLt = ''<''"
| "op_text OpLte = ''<=''"
| "op_text OpLike = ''LIKE''"

abbreviation "op_chars \<equiv> {CHR ''='', CHR ''<'', CHR ''>'', CHR ''!''}"

lemma find_operator_skip:
  "free_of op_chars s \<Longrightarrow> find_operator_loop False False i (map (\<lambda>c. [c]) s @ gs) =
    find_operator_loop False False (i + length s) gs"
  by (induction s arbitrary: i) (simp_all add: operator_at_def)

lemma find_operator_at:
  assumes s: "free_of op_chars s" and op: "op \<noteq> OpLike"
  shows "find_comparison_operator (s @ op_text op @ '' '' @ r) = Ok (length s, length (op_text op), op)"
proof -
  have ascii: "is_ascii s" "is_ascii (op_text op @ '' '')"
    using s by (simp add: free_of_def is_ascii_def) (cases op; simp add: byte_def)
  have "find_operator_loop False False (length s) (map (\<lambda>c. [c]) (op_text op @ '' '') @ chars r) =
      Some (length s, length (op_text op), op)"
    using op by (cases op) (simp_all add: operator_at_def next_is_def)
  with find_operator_skip [OF s, of 0 "chars (op_text op @ '' '' @ r)"] ascii
  show ?thesis using chars_ascii_append [OF ascii(2), of r]
    by (simp add: find_comparison_operator_def chars_ascii_append del: chars.simps)
qed

section \<open>Words\<close>

lemma split_ws_word:
  "\<forall>c \<in> set w. byte c < 128 \<and> \<not> is_whitespace [c] \<Longrightarrow>
    split_ws_aux (map (\<lambda>c. [c]) w @ gs) cur = split_ws_aux gs (cur @ w)"
  by (induction w arbitrary: cur) simp_all

lemma split_whitespace_join:
  assumes "list_all (\<lambda>w. w \<noteq> [] \<and> (\<forall>c \<in> set w. byte c < 128 \<and> \<not> is_whitespace [c])) ws"
  shows "split_whitespace (join_with '' '' ws) = ws"
proof -
  have ascii: "is_ascii (join_with '' '' ws)"
    using assms by (intro is_ascii_join) (auto simp: list_all_iff is_ascii_def byte_def)
  have "split_ws_aux (map (\<lambda>c. [c]) (join_with '' '' ws)) [] = ws"
    using assms
  proof (induction "'' ''" ws rule: join_with.induct)
    case (2 w)
    then show ?case using split_ws_word [of w "[]" "[]"] by simp
  next
    case (3 w v ws)
    then show ?case using split_ws_word [of w "'' '' # map (\<lambda>c. [c]) (join_with '' '' (v # ws))" "[]"]
      by (simp add: is_whitespace_def byte_def)
  qed simp
  with ascii show ?thesis by (simp add: split_whitespace_def chars_ascii)
qed

section \<open>Identifiers and literals\<close>

definition ident :: "string \<Rightarrow> bool" where
  "ident n \<longleftrightarrow> n \<noteq> [] \<and> list_all (\<lambda>c. is_ascii_digit c \<or> (97 \<le> byte c \<and> byte c \<le> 122) \<or> c = CHR ''_'') n"

lemma ident_word: "ident n \<Longrightarrow> list_all word_char n \<and> n \<noteq> []"
  by (auto simp: ident_def list_all_iff word_char_def is_ascii_digit_def byte_def)

lemma ident_tight: "ident n \<Longrightarrow> tight [W n]"
  using ident_word by (simp add: tight_def)

lemma trim_ident: "ident n \<Longrightarrow> trim n = n" "ident n \<Longrightarrow> trim (CHR '' '' # n) = n" "ident n \<Longrightarrow> trim (n @ '' '') = n"
  "ident n \<Longrightarrow> trim (CHR '' '' # n @ '' '') = n"
  using trim_tight [OF ident_tight, of n] by simp_all

lemma normalize_ident [simp]:
  assumes "ident n"
  shows "normalize_identifier n = Ok n"
proof -
  have "DQ \<notin> set n" using ident_word [OF assms] word_char_not(2) by (auto simp: list_all_iff)
  then have "\<not> wrapped DQ n" by (auto simp: wrapped_def str_starts_with_def split: list.splits)
  moreover have "is_ascii n" using ident_word [OF assms] word_char_not(8) by (auto simp: list_all_iff is_ascii_def)
  moreover have "list_all is_ident_char (map (\<lambda>c. [c]) n)"
    using assms by (auto simp: ident_def list_all_iff is_ident_char_def is_ascii_alnum_def)
  moreover have "map ascii_lower n = n"
    using assms by (intro map_idI) (auto simp: ident_def list_all_iff ascii_lower_def is_ascii_digit_def byte_def)
  ultimately show ?thesis using assms
    by (simp add: normalize_identifier_def trim_ident chars_ascii to_ascii_lowercase_def ident_def)
qed

primrec literal :: "value_t \<Rightarrow> tok" where
  "literal VNull = W ''NULL''"
| "literal (VBool b) = W (if b then ''TRUE'' else ''FALSE'')"
| "literal (VInt n) = W (show_i64 n)"
| "literal (VText t) = Q t"

definition printable_value :: "value_t \<Rightarrow> bool" where
  "printable_value v \<longleftrightarrow> (case v of VText t \<Rightarrow> utf8_valid t | _ \<Rightarrow> True)"

lemma show_i64_chars:
  "c \<in> set (show_i64 n) \<Longrightarrow> is_ascii_digit c \<or> c = CHR ''-''" "show_i64 n \<noteq> []"
  using show_nat_digits by (auto simp: show_i64_def show_int_def split: if_splits)

lemma show_i64_word: "list_all word_char (show_i64 n)"
  using show_i64_chars(1) [of _ n] by (fastforce simp: list_all_iff word_char_def is_ascii_digit_def byte_def)

lemma literal_good: "printable_value v \<Longrightarrow> good_tok (literal v)"
  by (cases v) (auto simp: printable_value_def show_i64_word show_i64_chars(2) word_char_def byte_def)

lemma literal_not_space [simp]: "literal v \<noteq> P c"
  by (cases v) simp_all

lemma literal_tight: "printable_value v \<Longrightarrow> tight [literal v]"
  by (simp add: tight_def literal_good)

lemma parse_literal_text:
  assumes "printable_value v"
  shows "parse_literal (untok (literal v)) = Ok v"
proof -
  have trim: "trim (untok (literal v)) = untok (literal v)" using trim_tight(1) [OF literal_tight [OF assms]] by simp
  show ?thesis
  proof (cases v)
    case (VInt n)
    obtain c s where n: "show_i64 n = c # s" "is_ascii_digit c \<or> c = CHR ''-''"
      using show_i64_chars(1) [of _ n] show_i64_chars(2) [of n] by (cases "show_i64 n") auto
    then have "byte c \<le> 57" by (auto simp: is_ascii_digit_def byte_def)
    then have "byte (ascii_lower c) < 97" by (simp add: byte_ascii_lower)
    then have "\<not> eq_ignore_ascii_case (c # s) (d # t)" if "97 \<le> byte (ascii_lower d)" for d t
      using that by (auto simp: eq_ignore_ascii_case_def to_ascii_lowercase_def)
    moreover have "97 \<le> byte (ascii_lower CHR ''N'')" "97 \<le> byte (ascii_lower CHR ''T'')" "97 \<le> byte (ascii_lower CHR ''F'')"
      unfolding byte_ascii_lower by (simp_all add: byte_def)
    ultimately have "\<not> eq_ignore_ascii_case (c # s) ''NULL''" "\<not> eq_ignore_ascii_case (c # s) ''TRUE''"
      "\<not> eq_ignore_ascii_case (c # s) ''FALSE''" by blast+
    with n(1) have "\<not> eq_ignore_ascii_case (show_i64 n) ''NULL''" "\<not> eq_ignore_ascii_case (show_i64 n) ''TRUE''"
      "\<not> eq_ignore_ascii_case (show_i64 n) ''FALSE''" by simp_all
    with VInt trim show ?thesis by (simp add: parse_literal_def Let_def)
  next
    case (VText t)
    let ?s = "SQ # dbl SQ t @ [SQ]"
    have "\<not> eq_ignore_ascii_case ?s ''NULL''" "\<not> eq_ignore_ascii_case ?s ''TRUE''" "\<not> eq_ignore_ascii_case ?s ''FALSE''"
      by (simp_all add: eq_ignore_ascii_case_def to_ascii_lowercase_def ascii_lower_def byte_def)
    moreover have "parse_i64 ?s = None"
      by (simp add: parse_i64_def parse_digits_def is_ascii_digit_def byte_def)
    moreover have "wrapped SQ ?s" by (simp add: wrapped_def str_starts_with_def str_ends_with_def)
    moreover have "str_slice ?s 1 (length ?s - 1) = (Ok (dbl SQ t) :: string result)"
    proof -
      have "utf8_valid (dbl SQ t)" using assms VText by (simp add: printable_value_def utf8_dbl)
      then have "clean (dbl SQ t @ [SQ])" by (rule clean_utf8) (simp add: byte_def)
      then show ?thesis using slice_middle [of "dbl SQ t" "[SQ]" "[SQ]"] by (simp add: byte_def)
    qed
    ultimately show ?thesis using VText trim by (simp add: parse_literal_def Let_def replace_dbl)
  next
    case (VBool b)
    with trim show ?thesis
      by (auto simp: parse_literal_def Let_def eq_ignore_ascii_case_def to_ascii_lowercase_def ascii_lower_def byte_def)
  next
    case VNull
    with trim show ?thesis by (simp add: parse_literal_def Let_def eq_ignore_ascii_case_def)
  qed
qed

end
