(* ===== verification/Printer.thy ===== *)
theory Printer
  imports Scan
begin

text \<open>
  The syntax of FluxDB as a printer: the text of a statement, as a list of tokens with single
  spaces, and the condition \<open>printable\<close> under which the statement has a text. It is the
  specification that the parser is compared with.
\<close>

section \<open>Words\<close>

text \<open>The first words of the keywords the parser searches for. A name that is not one of them is printed bare.\<close>

definition reserved :: "string list" where
  "reserved = [''ADD'', ''AND'', ''DEFAULT'', ''DROP'', ''FROM'', ''GROUP'', ''HAVING'', ''IN'', ''INNER'', ''IS'',
     ''JOIN'', ''LIKE'', ''LIMIT'', ''NOT'', ''OFFSET'', ''ON'', ''OR'', ''ORDER'', ''RENAME'', ''SET'', ''TO'',
     ''VALUES'', ''WHERE'']"

definition name :: "string \<Rightarrow> bool" where
  "name n \<longleftrightarrow> ident n \<and> list_all (\<lambda>k. \<not> eq_ignore_ascii_case n k) reserved"

section \<open>Filters and statements\<close>

definition target_toks :: "aggregate_target \<Rightarrow> tok" where
  "target_toks target = (case target of Star \<Rightarrow> W ''*'' | AggColumn c \<Rightarrow> W c)"

definition aggregate_toks :: "aggregate_func \<Rightarrow> aggregate_target \<Rightarrow> tok list" where
  "aggregate_toks func target = [W (aggregate_name func), P LPAREN, target_toks target, P RPAREN]"

text \<open>The column of a HAVING condition: a name or the label of an aggregate.\<close>

definition label_inner :: "string \<Rightarrow> string" where
  "label_inner c = (case str_find LPAREN c of None \<Rightarrow> [] | Some i \<Rightarrow> take (length c - i - 2) (drop (i + 1) c))"

definition column_toks :: "string \<Rightarrow> tok list" where
  "column_toks c = (case str_find LPAREN c of
     None \<Rightarrow> [W c]
   | Some i \<Rightarrow> [W (take i c), P LPAREN, W (label_inner c), P RPAREN])"

definition op_toks :: "compare_op \<Rightarrow> tok list" where
  "op_toks op = (if op = OpLike then [W ''LIKE''] else map P (op_text op))"

definition in_toks :: "bool \<Rightarrow> tok list" where
  "in_toks negated = (if negated then [SP, W ''NOT'', SP, W ''IN'', SP] else [SP, W ''IN'', SP])"

abbreviation parens :: "tok list \<Rightarrow> tok list" where
  "parens ts \<equiv> P LPAREN # ts @ [P RPAREN]"

definition constraint_toks :: "column_constraint \<Rightarrow> tok list list" where
  "constraint_toks k = (case k of
     CPrimaryKey \<Rightarrow> [[W ''PRIMARY''], [W ''KEY'']]
   | CNotNull \<Rightarrow> [[W ''NOT''], [W ''NULL'']]
   | CUnique \<Rightarrow> [[W ''UNIQUE'']]
   | CReferences t c \<Rightarrow> [[W ''REFERENCES''], W t # parens [W c]])"

definition column_def_toks :: "column_def \<Rightarrow> tok list" where
  "column_def_toks cd = separated [SP]
     ([W (cd_name cd)] # [W (show_data_type (cd_type cd))] # concat (map constraint_toks (cd_constraints cd)))"

definition select_expr_toks :: "select_expr \<Rightarrow> tok list" where
  "select_expr_toks x = (case x of
     Column c \<Rightarrow> [W c] | AllColumns \<Rightarrow> [W ''*''] | Aggregate func target \<Rightarrow> aggregate_toks func target)"

definition qualified_tok :: "string option \<Rightarrow> string \<Rightarrow> tok" where
  "qualified_tok t c = W (case t of None \<Rightarrow> c | Some t \<Rightarrow> t @ ''.'' @ c)"

definition join_toks :: "join_clause \<Rightarrow> tok list" where
  "join_toks j = [W ''JOIN'', SP, W (jc_table j), SP, W ''ON'', SP, qualified_tok (jc_left_table j) (jc_left_column j),
     SP, P CHR ''='', SP, qualified_tok (Some (jc_table j)) (jc_right_column j)]"

definition order_toks :: "order_by_clause \<Rightarrow> tok list" where
  "order_toks ob = [W (ob_column ob), SP, W (case ob_order ob of Asc \<Rightarrow> ''ASC'' | Desc \<Rightarrow> ''DESC'')]"

definition assignment_toks :: "string \<times> value_t \<Rightarrow> tok list" where
  "assignment_toks a = [W (fst a), SP, P CHR ''='', SP, literal (snd a)]"

text \<open>A keyword of one or two words.\<close>

definition keyword_toks :: "string \<Rightarrow> tok list" where
  "keyword_toks k = (case str_find CHR '' '' k of None \<Rightarrow> [W k] | Some i \<Rightarrow> [W (take i k), SP, W (drop (i + 1) k)])"

definition clause_toks :: "(string \<times> tok list) list \<Rightarrow> tok list" where
  "clause_toks cs = separated [SP] (map (\<lambda>(k, b). keyword_toks k @ SP # b) cs)"

definition clause :: "bool \<Rightarrow> string \<Rightarrow> tok list \<Rightarrow> (string \<times> tok list) list" where
  "clause present k b = (if present then [(k, b)] else [])"

text \<open>Text after a space, if there is any.\<close>

definition then_toks :: "tok list \<Rightarrow> tok list" where
  "then_toks ts = (if ts = [] then [] else SP # ts)"

fun filter_toks :: "filter_expr \<Rightarrow> tok list" and statement_toks :: "statement \<Rightarrow> tok list" where
  "filter_toks (Compare c op v) = column_toks c @ SP # op_toks op @ [SP, literal v]"
| "filter_toks (IsNull c) = [W c, SP, W ''IS'', SP, W ''NULL'']"
| "filter_toks (IsNotNull c) = [W c, SP, W ''IS'', SP, W ''NOT'', SP, W ''NULL'']"
| "filter_toks (InList c vs negated) = W c # in_toks negated @ parens (commas (map (\<lambda>v. [literal v]) vs))"
| "filter_toks (InSubquery c q negated) = W c # in_toks negated @ parens (statement_toks q)"
| "filter_toks (FAnd l r) = filter_toks l @ [SP, W ''AND'', SP] @ filter_toks r"
| "filter_toks (FOr l r) = filter_toks l @ [SP, W ''OR'', SP] @ filter_toks r"
| "statement_toks (CreateTable t cols) =
     [W ''CREATE'', SP, W ''TABLE'', SP, W t, SP] @ parens (commas (map column_def_toks cols))"
| "statement_toks (DropTable t) = [W ''DROP'', SP, W ''TABLE'', SP, W t]"
| "statement_toks (CreateIndex i t c) =
     [W ''CREATE'', SP, W ''INDEX'', SP, W i, SP, W ''ON'', SP, W t, SP] @ parens [W c]"
| "statement_toks (DropIndex i) = [W ''DROP'', SP, W ''INDEX'', SP, W i]"
| "statement_toks (AlterTableAddColumn t col dflt) =
     [W ''ALTER'', SP, W ''TABLE'', SP, W t, SP, W ''ADD'', SP, W ''COLUMN'', SP] @ column_def_toks col @
     (case dflt of None \<Rightarrow> [] | Some v \<Rightarrow> [SP, W ''DEFAULT'', SP, literal v])"
| "statement_toks (AlterTableDropColumn t c) =
     [W ''ALTER'', SP, W ''TABLE'', SP, W t, SP, W ''DROP'', SP, W ''COLUMN'', SP, W c]"
| "statement_toks (AlterTableRenameColumn t old new) =
     [W ''ALTER'', SP, W ''TABLE'', SP, W t, SP, W ''RENAME'', SP, W ''COLUMN'', SP, W old, SP, W ''TO'', SP, W new]"
| "statement_toks (Insert t cols vs) =
     [W ''INSERT'', SP, W ''INTO'', SP, W t, SP] @
     (case cols of None \<Rightarrow> [] | Some cs \<Rightarrow> parens (commas (map (\<lambda>c. [W c]) cs)) @ [SP]) @
     [W ''VALUES'', SP] @ parens (commas (map (\<lambda>v. [literal v]) vs))"
| "statement_toks (Update t asg f) =
     [W ''UPDATE'', SP, W t, SP, W ''SET'', SP] @ commas (map assignment_toks asg) @
     (case f of None \<Rightarrow> [] | Some g \<Rightarrow> [SP, W ''WHERE'', SP] @ filter_toks g)"
| "statement_toks (Select t cols joins f group_by having order_by limit offset) =
     [W ''SELECT'', SP] @ commas (map select_expr_toks cols) @ [SP, W ''FROM'', SP] @
     separated [SP] ([W t] # map join_toks joins) @
     then_toks (clause_toks
       ((case f of None \<Rightarrow> [] | Some g \<Rightarrow> [(''WHERE'', filter_toks g)]) @
        clause (group_by \<noteq> []) ''GROUP BY'' (commas (map (\<lambda>c. [W c]) group_by)) @
        (case having of None \<Rightarrow> [] | Some h \<Rightarrow> [(''HAVING'', filter_toks h)]) @
        clause (order_by \<noteq> []) ''ORDER BY'' (commas (map order_toks order_by)) @
        (case limit of None \<Rightarrow> [] | Some n \<Rightarrow> [(''LIMIT'', [W (show_nat n)])]) @
        (case offset of None \<Rightarrow> [] | Some n \<Rightarrow> [(''OFFSET'', [W (show_nat n)])])))"
| "statement_toks (Delete t f) =
     [W ''DELETE'', SP, W ''FROM'', SP, W t] @
     (case f of None \<Rightarrow> [] | Some g \<Rightarrow> [SP, W ''WHERE'', SP] @ filter_toks g)"
| "statement_toks Begin = [W ''BEGIN'']"
| "statement_toks Commit = [W ''COMMIT'']"
| "statement_toks Rollback = [W ''ROLLBACK'']"
| "statement_toks ShowTables = [W ''SHOW'', SP, W ''TABLES'']"
| "statement_toks ShowMigrations = [W ''SHOW'', SP, W ''MIGRATIONS'']"
| "statement_toks (Describe t) = [W ''DESCRIBE'', SP, W t]"

definition statement_text :: "statement \<Rightarrow> string" where
  "statement_text st = text_of (statement_toks st)"

definition script_text :: "statement list \<Rightarrow> string" where
  "script_text sts = text_of (separated [P CHR '';'', SP] (map statement_toks sts))"

section \<open>What can be printed\<close>

definition printable_target :: "aggregate_target \<Rightarrow> bool" where
  "printable_target target = (case target of Star \<Rightarrow> True | AggColumn c \<Rightarrow> name c)"

text \<open>
  The text between the parentheses of IN: the parser looks at its first six bytes as one piece, so
  they must not end inside a character.
\<close>

definition printable_list :: "value_t list \<Rightarrow> bool" where
  "printable_list vs \<longleftrightarrow> vs \<noteq> [] \<and> list_all printable_value vs \<and>
     (let s = text_of (commas (map (\<lambda>v. [literal v]) vs)) in 6 \<le> length s \<longrightarrow> is_char_boundary s 6)"

definition printable_constraint :: "bool \<Rightarrow> column_constraint \<Rightarrow> bool" where
  "printable_constraint pk k = (case k of CPrimaryKey \<Rightarrow> pk | CReferences t c \<Rightarrow> name t \<and> name c | _ \<Rightarrow> True)"

definition printable_column :: "bool \<Rightarrow> column_def \<Rightarrow> bool" where
  "printable_column pk cd \<longleftrightarrow> name (cd_name cd) \<and> list_all (printable_constraint pk) (cd_constraints cd)"

definition printable_join :: "join_clause \<Rightarrow> bool" where
  "printable_join j \<longleftrightarrow> name (jc_table j) \<and> name (jc_left_column j) \<and> name (jc_right_column j) \<and>
     (case jc_left_table j of None \<Rightarrow> True | Some t \<Rightarrow> name t \<and> t \<noteq> jc_table j)"

definition printable_select_expr :: "select_expr \<Rightarrow> bool" where
  "printable_select_expr x = (case x of Column c \<Rightarrow> name c | AllColumns \<Rightarrow> True | Aggregate f t \<Rightarrow> printable_target t)"

definition having_column :: "string \<Rightarrow> bool" where
  "having_column c \<longleftrightarrow> name c \<or>
     list_ex (\<lambda>func. c = aggregate_label func Star \<or>
       c = aggregate_label func (AggColumn (label_inner c)) \<and> name (label_inner c)) [Count, Sum, Min, Max, Avg]"

text \<open>
  There are no parentheses around conditions: a filter is a disjunction of conjunctions of
  conditions, each nested to the left.
\<close>

fun is_leaf :: "filter_expr \<Rightarrow> bool" where
  "is_leaf (FAnd l r) \<longleftrightarrow> False"
| "is_leaf (FOr l r) \<longleftrightarrow> False"
| "is_leaf f \<longleftrightarrow> True"

fun conj_shape :: "filter_expr \<Rightarrow> bool" where
  "conj_shape (FAnd l r) \<longleftrightarrow> conj_shape l \<and> is_leaf r"
| "conj_shape f \<longleftrightarrow> is_leaf f"

fun disj_shape :: "filter_expr \<Rightarrow> bool" where
  "disj_shape (FOr l r) \<longleftrightarrow> disj_shape l \<and> conj_shape r"
| "disj_shape f \<longleftrightarrow> conj_shape f"

fun printable_having :: "filter_expr \<Rightarrow> bool" where
  "printable_having (Compare c op v) \<longleftrightarrow> op \<noteq> OpLike \<and> printable_value v \<and> having_column c"
| "printable_having (FAnd l r) \<longleftrightarrow> printable_having l \<and> printable_having r"
| "printable_having (FOr l r) \<longleftrightarrow> printable_having l \<and> printable_having r"
| "printable_having f \<longleftrightarrow> False"

fun is_select :: "statement \<Rightarrow> bool" where
  "is_select (Select t cols joins f group_by having order_by limit offset) \<longleftrightarrow> True"
| "is_select st \<longleftrightarrow> False"

definition printable_count :: "nat option \<Rightarrow> bool" where
  "printable_count n = (case n of None \<Rightarrow> True | Some n \<Rightarrow> n < 2 ^ 64)"

fun printable_filter :: "filter_expr \<Rightarrow> bool" and printable :: "statement \<Rightarrow> bool" where
  "printable_filter (Compare c op v) \<longleftrightarrow> name c \<and> printable_value v"
| "printable_filter (IsNull c) \<longleftrightarrow> name c"
| "printable_filter (IsNotNull c) \<longleftrightarrow> name c"
| "printable_filter (InList c vs negated) \<longleftrightarrow> name c \<and> printable_list vs"
| "printable_filter (InSubquery c q negated) \<longleftrightarrow> name c \<and> is_select q \<and> printable q"
| "printable_filter (FAnd l r) \<longleftrightarrow> printable_filter l \<and> printable_filter r"
| "printable_filter (FOr l r) \<longleftrightarrow> printable_filter l \<and> printable_filter r"
| "printable (CreateTable t cols) \<longleftrightarrow> name t \<and> cols \<noteq> [] \<and> list_all (printable_column True) cols"
| "printable (DropTable t) \<longleftrightarrow> name t"
| "printable (CreateIndex i t c) \<longleftrightarrow> name i \<and> name t \<and> name c"
| "printable (DropIndex i) \<longleftrightarrow> name i"
| "printable (AlterTableAddColumn t col dflt) \<longleftrightarrow> name t \<and> printable_column False col \<and>
     (case dflt of None \<Rightarrow> True | Some v \<Rightarrow> printable_value v)"
| "printable (AlterTableDropColumn t c) \<longleftrightarrow> name t \<and> name c"
| "printable (AlterTableRenameColumn t old new) \<longleftrightarrow> name t \<and> name old \<and> name new"
| "printable (Insert t cols vs) \<longleftrightarrow> name t \<and> list_all printable_value vs \<and>
     (case cols of None \<Rightarrow> True | Some cs \<Rightarrow> cs \<noteq> [] \<and> list_all name cs)"
| "printable (Update t asg f) \<longleftrightarrow> name t \<and> asg \<noteq> [] \<and> list_all (\<lambda>(c, v). name c \<and> printable_value v) asg \<and>
     (case f of None \<Rightarrow> True | Some g \<Rightarrow> disj_shape g \<and> printable_filter g)"
| "printable (Select t cols joins f group_by having order_by limit offset) \<longleftrightarrow>
     name t \<and> cols \<noteq> [] \<and> list_all printable_select_expr cols \<and> list_all printable_join joins \<and>
     (case f of None \<Rightarrow> True | Some g \<Rightarrow> disj_shape g \<and> printable_filter g) \<and>
     list_all name group_by \<and>
     (case having of None \<Rightarrow> True | Some h \<Rightarrow> group_by \<noteq> [] \<and> disj_shape h \<and> printable_having h) \<and>
     list_all (\<lambda>ob. name (ob_column ob)) order_by \<and> printable_count limit \<and> printable_count offset"
| "printable (Delete t f) \<longleftrightarrow> name t \<and>
     (case f of None \<Rightarrow> True | Some g \<Rightarrow> disj_shape g \<and> printable_filter g)"
| "printable (Describe t) \<longleftrightarrow> name t"
| "printable st \<longleftrightarrow> True"

end
