(* ===== verification/Pieces.thy ===== *)
theory Pieces
  imports Printer
begin

text \<open>
  Pieces of printed text: balanced, without a space at either end, and without certain words
  outside parentheses; the text of every part of a statement is one. Cutting a text at a keyword
  between two pieces gives the two pieces.
\<close>

section \<open>Case-insensitive comparison of upper-case words\<close>

definition upper :: "char \<Rightarrow> bool" where
  "upper c \<longleftrightarrow> c \<in> set ''ABCDEFGHIJKLMNOPQRSTUVWXYZ''"

lemma upper_byte: "upper c \<Longrightarrow> 65 \<le> byte c \<and> byte c \<le> 90"
  by (auto simp: upper_def byte_def)

lemma lower_eq_upper: "upper d \<Longrightarrow> ascii_lower c = ascii_lower d \<Longrightarrow> c = d \<or> (97 \<le> byte c \<and> byte c \<le> 122)"
  using upper_byte [of d] by (auto simp: byte_eq_iff byte_ascii_lower split: if_splits)

definition no_lower :: "string \<Rightarrow> bool" where
  "no_lower w \<longleftrightarrow> (\<forall>c \<in> set w. \<not> (97 \<le> byte c \<and> byte c \<le> 122))"

lemma eq_ignore_upper:
  assumes "list_all upper k" "no_lower w"
  shows "eq_ignore_ascii_case w k \<longleftrightarrow> w = k"
proof
  assume eq: "eq_ignore_ascii_case w k"
  show "w = k"
  proof (rule nth_equalityI)
    show len: "length w = length k" by (rule eq_ignore_length [OF eq])
    fix i
    assume i: "i < length w"
    from eq_ignore_nth [OF eq i] lower_eq_upper [of "k ! i" "w ! i"] assms i len show "w ! i = k ! i"
      by (auto simp: list_all_length no_lower_def)
  qed
qed (simp add: eq_ignore_ascii_case_def)

lemma no_lower_upper: "list_all upper w \<Longrightarrow> no_lower w"
  using upper_byte by (fastforce simp: no_lower_def list_all_iff)

lemma word_neq: "list_all upper k \<Longrightarrow> list_all upper w \<Longrightarrow> eq_ignore_ascii_case w k \<longleftrightarrow> w = k"
  by (rule eq_ignore_upper) (simp_all add: no_lower_upper)

lemma reserved_upper: "k \<in> set reserved \<Longrightarrow> list_all upper k \<and> k \<noteq> []"
  by (auto simp: reserved_def upper_def)

lemma upper_word: "list_all upper k \<Longrightarrow> list_all word_char k"
  using upper_byte by (fastforce simp: list_all_iff word_char_def)

lemma upper_letters [simp]:
  "upper CHR ''A''" "upper CHR ''B''" "upper CHR ''C''" "upper CHR ''D''" "upper CHR ''E''" "upper CHR ''F''" "upper CHR ''G''" "upper CHR ''H''" "upper CHR ''I''" "upper CHR ''J''" "upper CHR ''K''" "upper CHR ''L''" "upper CHR ''M''"
  "upper CHR ''N''" "upper CHR ''O''" "upper CHR ''P''" "upper CHR ''Q''" "upper CHR ''R''" "upper CHR ''S''" "upper CHR ''T''" "upper CHR ''U''" "upper CHR ''V''" "upper CHR ''W''" "upper CHR ''X''" "upper CHR ''Y''" "upper CHR ''Z''"
  by (simp_all add: upper_def)

lemma word_char_upper [simp]:
  "word_char CHR ''A''" "word_char CHR ''B''" "word_char CHR ''C''" "word_char CHR ''D''" "word_char CHR ''E''" "word_char CHR ''F''" "word_char CHR ''G''" "word_char CHR ''H''" "word_char CHR ''I''" "word_char CHR ''J''" "word_char CHR ''K''" "word_char CHR ''L''" "word_char CHR ''M''"
  "word_char CHR ''N''" "word_char CHR ''O''" "word_char CHR ''P''" "word_char CHR ''Q''" "word_char CHR ''R''" "word_char CHR ''S''" "word_char CHR ''T''" "word_char CHR ''U''" "word_char CHR ''V''" "word_char CHR ''W''" "word_char CHR ''X''" "word_char CHR ''Y''" "word_char CHR ''Z''"
  by (simp_all add: word_char_def byte_def)

section \<open>Pieces\<close>

definition avoid :: "string set \<Rightarrow> tok \<Rightarrow> bool" where
  "avoid K t \<longleftrightarrow> (\<forall>k \<in> K. not_word k t)"

definition piece :: "string set \<Rightarrow> tok list \<Rightarrow> bool" where
  "piece K ts \<longleftrightarrow> tight ts \<and> flat (avoid K) ts"

abbreviation "Rsv \<equiv> set reserved"

lemma avoid_simps [simp]: "avoid K (P c)" "avoid K (Q t)" "avoid K (W w) \<longleftrightarrow> (\<forall>k \<in> K. \<not> eq_ignore_ascii_case w k)"
  by (simp_all add: avoid_def)

lemma pieceD: "piece K ts \<Longrightarrow> tight ts" "piece K ts \<Longrightarrow> good ts" "piece K ts \<Longrightarrow> flat (avoid K) ts"
  "piece K ts \<Longrightarrow> balanced ts" "piece K ts \<Longrightarrow> ts \<noteq> []"
  by (auto simp: piece_def tight_def intro: flat_balanced)

lemma piece_mono: "piece K ts \<Longrightarrow> K' \<subseteq> K \<Longrightarrow> piece K' ts"
  using scan_mono [of "avoid K" 0 ts 0 "avoid K'"] by (auto simp: piece_def avoid_def)

lemma piece_W: "list_all word_char w \<Longrightarrow> w \<noteq> [] \<Longrightarrow> (\<forall>k \<in> K. \<not> eq_ignore_ascii_case w k) \<Longrightarrow> piece K [W w]"
  by (simp add: piece_def tight_def)

lemma piece_append:
  assumes "piece K a" "piece K b"
  shows "piece K (a @ SP # b)"
  using assms by (auto simp: piece_def tight_def)

lemma piece_join:
  assumes "piece K a" "piece K b" "good d" "flat (avoid K) d" "d \<noteq> []" "is_P (hd d)" "is_P (last d)"
  shows "piece K (a @ d @ b)"
  using assms by (auto simp: piece_def tight_def good_append hd_append)

lemma piece_parens: "good ts \<Longrightarrow> balanced ts \<Longrightarrow> piece K (parens ts)"
  using scan_parens [of ts "avoid K" "[]"] by (simp add: piece_def tight_def)

lemma piece_call: "piece K a \<Longrightarrow> good ts \<Longrightarrow> balanced ts \<Longrightarrow> piece K (a @ parens ts)"
  using scan_parens [of ts "avoid K" "[]"] by (auto simp: piece_def tight_def)

lemma piece_separated:
  assumes "list_all (piece K) tss" "tss \<noteq> []" and d: "good d" "flat (avoid K) d" "d \<noteq> []" "is_P (hd d)" "is_P (last d)"
  shows "piece K (separated d tss)"
  using assms(1,2)
proof (induction tss rule: induct_list012)
  case (3 ts us tss)
  with piece_join [OF _ _ d, of ts "separated d (us # tss)"] show ?case by simp
qed simp_all

lemma piece_commas: "list_all (piece K) tss \<Longrightarrow> tss \<noteq> [] \<Longrightarrow> piece K (commas tss)"
  by (rule piece_separated) simp_all

lemma piece_spaced: "list_all (piece K) tss \<Longrightarrow> tss \<noteq> [] \<Longrightarrow> piece K (separated [SP] tss)"
  by (rule piece_separated) simp_all

lemma piece_text: "piece K ts \<Longrightarrow> text_of ts \<noteq> []"
  using tight_hd pieceD(1) by fastforce

lemma piece_trim [simp]:
  assumes "piece K ts"
  shows "trim (text_of ts) = text_of ts" "trim (CHR '' '' # text_of ts) = text_of ts"
    "trim (text_of ts @ '' '') = text_of ts" "trim (CHR '' '' # text_of ts @ '' '') = text_of ts"
  using trim_tight [OF pieceD(1) [OF assms]] .

lemma separated_text: "text_of (separated d tss) = join_with (text_of d) (map text_of tss)"
  by (induction d tss rule: separated.induct) simp_all

section \<open>Cutting at a keyword\<close>

definition keyword_of :: "string set \<Rightarrow> string \<Rightarrow> bool" where
  "keyword_of K key \<longleftrightarrow> keyword key \<and> first_word key \<in> K"

lemma piece_not_word: "piece K ts \<Longrightarrow> k \<in> K \<Longrightarrow> flat (not_word k) ts"
  using pieceD(3) by (rule scan_mono) (auto simp: avoid_def)

lemma cut_none:
  "keyword_of K key \<Longrightarrow> piece K ts \<Longrightarrow> length (text_of ts) < 2 ^ 32 \<Longrightarrow>
    find_keyword_outside_quotes (text_of ts) key = None"
  by (rule find_keyword_none) (auto simp: keyword_of_def keyword_def pieceD intro: piece_not_word)

lemma boundary_space [simp]: "is_boundary (first_byte (CHR '' '' # s))" "is_boundary (first_byte [])"
  by (simp_all add: is_boundary_def first_byte_def is_ascii_whitespace_def byte_def)

lemma cut_find:
  assumes "keyword_of K key" "piece K ts" "length (text_of ts) + 1 < 2 ^ 32"
  shows "find_keyword_outside_quotes (text_of ts @ '' '' @ key @ '' '' @ r) key = Some (length (text_of ts) + 1)"
  using find_keyword_at [of "first_word key" key "ts @ [SP]" "'' '' @ r"] assms
  by (auto simp: keyword_of_def keyword_def pieceD piece_not_word)

lemma cut_prefix: "is_ascii key \<Longrightarrow> key \<noteq> [] \<Longrightarrow>
    str_prefix (a @ '' '' @ key @ r) (length a + 1) = (Ok (a @ '' '') :: string result)"
  using slice_append(1) [of "key @ r" "a @ '' ''"] by (cases key) simp_all

lemma cut_after: "clean r \<Longrightarrow> str_after (a @ '' '' @ key @ r) (length a + 1) key = (Ok r :: string result)"
  using after_append [of r "a @ '' ''" key] by simp

lemma keyword_ascii: "keyword_of K key \<Longrightarrow> key \<noteq> []"
  by (auto simp: keyword_of_def keyword_def key_of_def)

section \<open>The parts of a statement\<close>

lemma name_piece: "name n \<Longrightarrow> piece Rsv [W n]"
  by (rule piece_W) (auto simp: name_def list_all_iff dest: ident_word)

lemma name_ident: "name n \<Longrightarrow> ident n"
  by (simp add: name_def)

lemma show_no_lower: "no_lower (show_nat n)" "no_lower (show_i64 i)"
  using show_nat_digits [of _ n] show_i64_chars(1) [of _ i]
  by (fastforce simp: no_lower_def is_ascii_digit_def byte_def)+

lemma digits_piece:
  assumes "\<forall>c \<in> set w. is_ascii_digit c \<or> c = CHR ''-''" "w \<noteq> []" "\<forall>k \<in> K. list_all upper k"
  shows "piece K [W w]"
proof (rule piece_W)
  have c: "byte c < 65 \<and> word_char c" if "c \<in> set w" for c
    using assms(1) that by (auto simp: word_char_def is_ascii_digit_def byte_def)
  then show "list_all word_char w" by (simp add: list_all_iff)
  have "no_lower w" using c by (fastforce simp: no_lower_def)
  moreover have "w \<noteq> k" if "list_all upper k" for k
    using c assms(2) that upper_byte by (cases w) (fastforce simp: list_all_iff)+
  ultimately show "\<forall>k \<in> K. \<not> eq_ignore_ascii_case w k" using assms(3) by (simp add: eq_ignore_upper)
qed (rule assms(2))

lemma literal_piece: "printable_value v \<Longrightarrow> piece Rsv [literal v]"
proof (cases v)
  case (VInt n)
  have "piece Rsv [W (show_i64 n)]"
    using show_i64_chars(1) [of _ n] show_i64_chars(2) [of n] reserved_upper by (intro digits_piece) auto
  with VInt show ?thesis by simp
next
  case (VText t)
  then show "printable_value v \<Longrightarrow> piece Rsv [literal v]"
    by (simp add: piece_def tight_def printable_value_def)
qed (auto intro!: piece_W upper_word simp: reserved_def word_neq upper_def)

lemma count_piece: "piece Rsv [W (show_nat n)]"
  using show_nat_digits [of _ n] reserved_upper by (intro digits_piece) auto

lemma keyword_piece:
  "list_all upper w \<Longrightarrow> w \<noteq> [] \<Longrightarrow> w \<notin> K \<Longrightarrow> K \<subseteq> Rsv \<Longrightarrow> piece K [W w]"
  using reserved_upper by (intro piece_W upper_word) (auto simp: word_neq)

lemma dotted_piece:
  assumes "name a" "name b"
  shows "piece Rsv [W (a @ ''.'' @ b)]"
proof (rule piece_W)
  show "list_all word_char (a @ ''.'' @ b)"
    using assms ident_word by (simp add: name_ident word_char_def byte_def)
  have "\<not> eq_ignore_ascii_case (a @ ''.'' @ b) k" if "list_all upper k" for k
  proof
    assume eq: "eq_ignore_ascii_case (a @ ''.'' @ b) k"
    from eq_ignore_nth [OF this, of "length a"] eq_ignore_length [OF eq] that
    have "ascii_lower CHR ''.'' = ascii_lower (k ! length a)" "upper (k ! length a)"
      by (simp_all add: list_all_length)
    from lower_eq_upper [OF this(2,1)] this(2) show False by (auto simp: upper_def byte_def)
  qed
  then show "\<forall>k \<in> Rsv. \<not> eq_ignore_ascii_case (a @ ''.'' @ b) k" using reserved_upper by blast
qed simp

lemma star_piece: "piece Rsv [W ''*'']"
proof (rule piece_W)
  have "no_lower ''*''" by (simp add: no_lower_def byte_def)
  then show "\<forall>k \<in> Rsv. \<not> eq_ignore_ascii_case ''*'' k"
    using reserved_upper by (auto simp: eq_ignore_upper) (simp add: reserved_def)
qed (simp_all add: word_char_def byte_def)

lemma op_piece: "op \<noteq> OpLike \<Longrightarrow> piece Rsv (op_toks op)"
  by (cases op) (simp_all add: op_toks_def piece_def tight_def)

lemma op_toks_text: "text_of (op_toks op) = op_text op"
  by (cases op) (simp_all add: op_toks_def)

text \<open>The words of the conditions of a WHERE clause, and the words between conditions.\<close>

abbreviation "Leaf \<equiv> Rsv - {''IS'', ''NOT'', ''IN'', ''LIKE''}"
abbreviation "Tree \<equiv> Rsv - {''IS'', ''NOT'', ''IN'', ''LIKE'', ''AND'', ''OR''}"

lemma leaf_names: "name c \<Longrightarrow> piece Leaf [W c]" "printable_value v \<Longrightarrow> piece Leaf [literal v]"
  by (rule piece_mono [OF name_piece] piece_mono [OF literal_piece]; simp)+

lemma leaf_words:
  "piece Leaf [W ''IS'']" "piece Leaf [W ''NOT'']" "piece Leaf [W ''IN'']" "piece Leaf [W ''LIKE'']" "piece Leaf [W ''NULL'']"
  by (rule keyword_piece; simp add: reserved_def upper_def)+

lemma tree_words: "piece Tree [W ''AND'']" "piece Tree [W ''OR'']"
  by (rule keyword_piece; simp add: reserved_def upper_def)+

lemma values_piece:
  "list_all printable_value vs \<Longrightarrow> vs \<noteq> [] \<Longrightarrow> piece Rsv (commas (map (\<lambda>v. [literal v]) vs))"
  by (rule piece_commas) (auto simp: list_all_iff literal_piece)

lemma names_piece: "list_all name cs \<Longrightarrow> cs \<noteq> [] \<Longrightarrow> piece Rsv (commas (map (\<lambda>c. [W c]) cs))"
  by (rule piece_commas) (auto simp: list_all_iff name_piece)

lemma aggregate_piece:
  assumes "printable_target target"
  shows "piece Rsv (aggregate_toks func target)"
proof -
  have "piece Rsv [W (aggregate_name func)]"
    by (cases func; simp; rule keyword_piece; simp add: reserved_def upper_def)
  moreover have "good [target_toks target]" "balanced [target_toks target]"
    using assms name_piece star_piece pieceD(2,4)
    by (fastforce simp: printable_target_def target_toks_def split: aggregate_target.splits)+
  ultimately show ?thesis
    using piece_call [of Rsv "[W (aggregate_name func)]" "[target_toks target]"] by (simp add: aggregate_toks_def)
qed

section \<open>Columns of conditions\<close>

lemma str_find_append: "c \<notin> set a \<Longrightarrow> str_find c (a @ c # b) = Some (length a)"
  by (induction a) auto

lemma str_find_none: "c \<notin> set a \<Longrightarrow> str_find c a = None"
  by (induction a) auto

lemma str_rfind_append: "c \<notin> set b \<Longrightarrow> str_rfind c (a @ c # b) = Some (length a)"
  using str_find_append [of c "rev b" "rev a"] by (simp add: str_rfind_def)

lemma name_chars: "name n \<Longrightarrow> c \<in> set n \<Longrightarrow> word_char c"
  using ident_word by (auto simp: name_def list_all_iff)

lemma aggregate_name_chars [simp]: "LPAREN \<notin> set (aggregate_name func)" "RPAREN \<notin> set (aggregate_name func)"
  "aggregate_name func \<noteq> []"
  by (cases func; simp)+

lemma column_toks_name: "name c \<Longrightarrow> column_toks c = [W c]"
proof -
  assume "name c"
  then have "LPAREN \<notin> set c" using name_chars word_char_not(3) by blast
  then show ?thesis by (simp add: column_toks_def str_find_none)
qed

lemma column_toks_label: "column_toks (aggregate_label func target) = aggregate_toks func target"
  by (cases target)
    (simp_all add: column_toks_def label_inner_def aggregate_toks_def target_toks_def str_find_append)

lemma having_column_cases:
  assumes "having_column c"
  obtains "name c" | func target where "c = aggregate_label func target" "printable_target target"
proof -
  from assms consider "name c" | func where "c = aggregate_label func Star"
    | func where "c = aggregate_label func (AggColumn (label_inner c))" "name (label_inner c)"
    unfolding having_column_def list_ex_iff by blast
  then show ?thesis
  proof cases
    case (2 func)
    then show ?thesis using that(2) [of func Star] by (simp add: printable_target_def)
  next
    case (3 func)
    then show ?thesis using that(2) [of func "AggColumn (label_inner c)"] by (simp add: printable_target_def)
  qed (rule that(1))
qed

lemma aggregate_text: "text_of (aggregate_toks func target) = aggregate_label func target"
  by (cases target) (simp_all add: aggregate_toks_def target_toks_def)

lemma having_column_piece:
  assumes "having_column c"
  shows "piece Rsv (column_toks c)" "text_of (column_toks c) = c"
proof -
  from assms have "piece Rsv (column_toks c) \<and> text_of (column_toks c) = c"
  proof (cases rule: having_column_cases)
    case 1
    then show ?thesis by (simp add: column_toks_name name_piece)
  next
    case (2 func target)
    then show ?thesis by (simp only: column_toks_label aggregate_piece aggregate_text simp_thms)
  qed
  then show "piece Rsv (column_toks c)" "text_of (column_toks c) = c" by simp_all
qed

lemma name_having_column: "name c \<Longrightarrow> having_column c"
  by (simp add: having_column_def)

section \<open>Every printed text is a piece\<close>

lemma piece_words: "piece K a \<Longrightarrow> piece K (b @ c) \<Longrightarrow> piece K (a @ SP # b @ c)"
  using piece_append [of K a "b @ c"] by simp

lemma piece_pair: "piece K [t] \<Longrightarrow> piece K b \<Longrightarrow> piece K (t # SP # b)"
  using piece_append [of K "[t]" b] by simp

lemma constraint_pieces:
  assumes "printable_constraint pk k" "ts \<in> set (constraint_toks k)"
  shows "piece {''DEFAULT''} ts \<and> P CHR '','' \<notin> set ts \<and> P CHR '';'' \<notin> set ts"
proof -
  let ?K = "{''DEFAULT''}"
  have K: "?K \<subseteq> Rsv" by (simp add: reserved_def)
  have w: "piece ?K [W w]" if "list_all upper w" "w \<noteq> []" "w \<noteq> ''DEFAULT''" for w
    using that K by (intro keyword_piece) simp_all
  have r: "piece ?K (W t # parens [W c])" if "name t" "name c" for t c
  proof -
    have "piece ?K [W t]" "good [W c]" "balanced [W c]"
      using piece_mono [OF name_piece [OF that(1)] K] pieceD(2,4) [OF name_piece [OF that(2)]] by simp_all
    from piece_call [OF this] show ?thesis by simp
  qed
  show ?thesis using assms
    by (cases k) (auto simp: constraint_toks_def printable_constraint_def upper_def intro!: w r [simplified])
qed

lemma column_def_piece:
  assumes "printable_column pk cd"
  shows "piece {} (column_def_toks cd)" "P CHR '','' \<notin> set (column_def_toks cd)" "P CHR '';'' \<notin> set (column_def_toks cd)"
    "piece {''DEFAULT''} (column_def_toks cd)"
proof -
  let ?K = "{''DEFAULT''}"
  let ?tss = "[W (cd_name cd)] # [W (show_data_type (cd_type cd))] # concat (map constraint_toks (cd_constraints cd))"
  have K: "?K \<subseteq> Rsv" by (simp add: reserved_def)
  have t: "piece ?K [W (show_data_type ty)]" for ty
    using K by (cases ty; simp; intro keyword_piece) simp_all
  have p: "piece ?K ts \<and> P CHR '','' \<notin> set ts \<and> P CHR '';'' \<notin> set ts" if "ts \<in> set ?tss" for ts
    using that assms constraint_pieces [of pk _ ts] piece_mono [OF name_piece K, of "cd_name cd"] t
    by (auto simp: printable_column_def list_all_iff)
  show k: "piece ?K (column_def_toks cd)"
    unfolding column_def_toks_def by (rule piece_spaced) (use p in \<open>auto simp: list_all_iff\<close>)
  then show "piece {} (column_def_toks cd)" by (rule piece_mono) simp
  have sep: "set (separated [SP] tss) \<subseteq> insert SP (\<Union> (set ` set tss))" for tss
    by (induction "[SP]" tss rule: separated.induct) auto
  have "P c \<notin> set (column_def_toks cd)" if "c \<in> {CHR '','', CHR '';''}" for c
    using subsetD [OF sep, of "P c" ?tss] p that unfolding column_def_toks_def by blast
  then show "P CHR '','' \<notin> set (column_def_toks cd)" "P CHR '';'' \<notin> set (column_def_toks cd)" by simp_all
qed

lemma join_piece:
  assumes "printable_join j"
  shows "piece (Rsv - {''JOIN'', ''ON''}) (join_toks j)"
proof -
  let ?K = "Rsv - {''JOIN'', ''ON''}"
  have q: "piece ?K [qualified_tok t c]" if "name c" "\<forall>x. t = Some x \<longrightarrow> name x" for t c
    using that name_piece [of c] dotted_piece
    by (cases t) (auto simp: qualified_tok_def intro!: piece_mono [of Rsv _ ?K])
  have w: "piece ?K [W ''JOIN'']" "piece ?K [W ''ON'']"
    by (rule keyword_piece; simp add: reserved_def upper_def)+
  have n: "piece ?K [W (jc_table j)]" using assms name_piece by (auto simp: printable_join_def intro!: piece_mono [of Rsv _ ?K])
  have e: "piece ?K [P CHR ''='']" by (simp add: piece_def tight_def)
  show ?thesis unfolding join_toks_def
    using assms by (intro piece_pair w n e q) (auto simp: printable_join_def split: option.splits)
qed

lemma order_piece: "name (ob_column ob) \<Longrightarrow> piece Rsv (order_toks ob)"
proof -
  have "piece Rsv [W ''ASC'']" "piece Rsv [W ''DESC'']" by (rule keyword_piece; simp add: reserved_def upper_def)+
  then show "name (ob_column ob) \<Longrightarrow> piece Rsv (order_toks ob)"
    unfolding order_toks_def by (cases "ob_order ob") (auto intro!: piece_pair name_piece)
qed

lemma assignment_piece: "name (fst a) \<Longrightarrow> printable_value (snd a) \<Longrightarrow> piece Rsv (assignment_toks a)"
  unfolding assignment_toks_def
  by (intro piece_pair name_piece literal_piece) (simp_all add: piece_def tight_def)

lemma select_expr_piece: "printable_select_expr x \<Longrightarrow> piece Rsv (select_expr_toks x)"
  by (cases x) (simp_all add: select_expr_toks_def printable_select_expr_def name_piece star_piece aggregate_piece)

lemma op_leaf_piece: "piece Leaf (op_toks op)"
proof (cases "op = OpLike")
  case True
  then show ?thesis by (simp add: op_toks_def leaf_words)
next
  case False
  from piece_mono [OF op_piece [OF this], of Leaf] show ?thesis by simp
qed

lemma in_piece: "good ts \<Longrightarrow> balanced ts \<Longrightarrow> name c \<Longrightarrow> piece Leaf (W c # in_toks negated @ parens ts)"
  using piece_append [OF leaf_names(1) [of c], of "[W ''NOT''] @ SP # [W ''IN''] @ SP # parens ts"]
    piece_append [OF leaf_names(1) [of c], of "[W ''IN''] @ SP # parens ts"]
    piece_append [OF leaf_words(3), of "parens ts"] piece_append [OF leaf_words(2), of "[W ''IN''] @ SP # parens ts"]
    piece_parens [of ts Leaf]
  by (simp add: in_toks_def)

lemma having_leaf_piece:
  assumes "having_column c" "printable_value v" "op \<noteq> OpLike"
  shows "piece Rsv (column_toks c @ SP # op_toks op @ [SP, literal v])"
  using piece_append [OF having_column_piece(1) [OF assms(1)] piece_append [OF op_piece [OF assms(3)] literal_piece [OF assms(2)]]]
  by simp

definition statement_piece :: "tok list \<Rightarrow> bool" where
  "statement_piece ts \<longleftrightarrow> piece {} ts \<and> P CHR '';'' \<notin> set ts"

lemma clause_toks_simps [simp]:
  "clause_toks [] = []" "clause_toks [(k, b)] = keyword_toks k @ SP # b"
  "clause_toks ((k, b) # c # cs) = keyword_toks k @ SP # b @ SP # clause_toks (c # cs)"
  by (cases c; simp add: clause_toks_def)+

text \<open>The clauses of a SELECT and the words that start them.\<close>

abbreviation "Clause \<equiv> {''WHERE'', ''GROUP'', ''HAVING'', ''ORDER'', ''LIMIT'', ''OFFSET''}"

definition select_clauses :: "filter_expr option \<Rightarrow> string list \<Rightarrow> filter_expr option \<Rightarrow> order_by_clause list \<Rightarrow>
    nat option \<Rightarrow> nat option \<Rightarrow> (string \<times> tok list) list" where
  "select_clauses f group_by having order_by limit offset =
     (case f of None \<Rightarrow> [] | Some g \<Rightarrow> [(''WHERE'', filter_toks g)]) @
     clause (group_by \<noteq> []) ''GROUP BY'' (commas (map (\<lambda>c. [W c]) group_by)) @
     (case having of None \<Rightarrow> [] | Some h \<Rightarrow> [(''HAVING'', filter_toks h)]) @
     clause (order_by \<noteq> []) ''ORDER BY'' (commas (map order_toks order_by)) @
     (case limit of None \<Rightarrow> [] | Some n \<Rightarrow> [(''LIMIT'', [W (show_nat n)])]) @
     (case offset of None \<Rightarrow> [] | Some n \<Rightarrow> [(''OFFSET'', [W (show_nat n)])])"

lemma statement_toks_Select [simp]:
  "statement_toks (Select t cols joins f group_by having order_by limit offset) =
     W ''SELECT'' # SP # commas (map select_expr_toks cols) @ SP # W ''FROM'' # SP #
     separated [SP] ([W t] # map join_toks joins) @
     then_toks (clause_toks (select_clauses f group_by having order_by limit offset))"
  by (simp add: select_clauses_def)

declare statement_toks.simps(10) [simp del]

lemma having_tree_piece: "printable_having h \<Longrightarrow> piece (Rsv - {''AND'', ''OR''}) (filter_toks h)"
proof (induction h)
  case (Compare c op v)
  with having_leaf_piece [of c v op] show ?case by (auto intro!: piece_mono [of Rsv])
next
  case (FAnd l r)
  have "piece (Rsv - {''AND'', ''OR''}) [W ''AND'']" by (rule keyword_piece) (simp_all add: reserved_def upper_def)
  with FAnd piece_append [OF _ piece_append] show ?case by fastforce
next
  case (FOr l r)
  have "piece (Rsv - {''AND'', ''OR''}) [W ''OR'']" by (rule keyword_piece) (simp_all add: reserved_def upper_def)
  with FOr piece_append [OF _ piece_append] show ?case by fastforce
qed simp_all

lemma clause_words:
  "piece {} (keyword_toks ''WHERE'')" "piece {} (keyword_toks ''GROUP BY'')" "piece {} (keyword_toks ''HAVING'')"
  "piece {} (keyword_toks ''ORDER BY'')" "piece {} (keyword_toks ''LIMIT'')" "piece {} (keyword_toks ''OFFSET'')"
  by (simp_all add: keyword_toks_def piece_def tight_def upper_word upper_def)

lemma clauses_piece:
  "\<forall>(k, b) \<in> set cs. piece {} (keyword_toks k) \<and> piece {} b \<Longrightarrow> cs \<noteq> [] \<Longrightarrow> piece {} (clause_toks cs)"
  unfolding clause_toks_def by (rule piece_spaced) (auto simp: list_all_iff intro: piece_append)

lemma tok_separated: "t \<notin> set d \<Longrightarrow> \<forall>ts \<in> set tss. t \<notin> set ts \<Longrightarrow> t \<notin> set (separated d tss)"
  by (induction d tss rule: separated.induct) auto

lemma semi_parts [simp]:
  "P CHR '';'' \<notin> set (column_toks c)" "P CHR '';'' \<notin> set (op_toks op)" "P CHR '';'' \<notin> set (in_toks b)"
  "P CHR '';'' \<notin> set (select_expr_toks x)" "P CHR '';'' \<notin> set (join_toks j)" "P CHR '';'' \<notin> set (order_toks ob)"
  "P CHR '';'' \<notin> set (assignment_toks a)" "P CHR '';'' \<notin> set (keyword_toks k)"
  by (auto simp: column_toks_def op_toks_def in_toks_def select_expr_toks_def aggregate_toks_def target_toks_def
      join_toks_def qualified_tok_def order_toks_def assignment_toks_def keyword_toks_def
      literal_not_space [symmetric]
      split: option.splits select_expr.splits aggregate_target.splits)
    (cases op; simp)

lemma semi_clauses:
  assumes "\<forall>(k, b) \<in> set cs. P CHR '';'' \<notin> set b"
  shows "P CHR '';'' \<notin> set (clause_toks cs)"
  unfolding clause_toks_def using assms by (intro tok_separated) auto

lemma select_clauses_ok:
  assumes "printable (Select t cols joins f group_by having order_by limit offset)"
    and f: "\<And>g. f = Some g \<Longrightarrow> piece Tree (filter_toks g) \<and> P CHR '';'' \<notin> set (filter_toks g)"
    and h: "\<And>h. having = Some h \<Longrightarrow> P CHR '';'' \<notin> set (filter_toks h)"
    and kb: "(k, b) \<in> set (select_clauses f group_by having order_by limit offset)"
  shows "k \<in> {''WHERE'', ''GROUP BY'', ''HAVING'', ''ORDER BY'', ''LIMIT'', ''OFFSET''}" "piece Tree b"
    "P CHR '';'' \<notin> set b"
proof -
  have "piece Tree (commas (map order_toks order_by))" if "order_by \<noteq> []"
    using assms(1) that by (intro piece_mono [OF piece_commas [of Rsv]]) (auto simp: list_all_iff order_piece)
  moreover have "piece Tree (commas (map (\<lambda>c. [W c]) group_by))" if "group_by \<noteq> []"
    using assms(1) that by (intro piece_mono [OF names_piece]) auto
  moreover have "piece Tree (filter_toks h)" if "having = Some h" for h
    using assms(1) that by (intro piece_mono [OF having_tree_piece]) auto
  moreover have "piece Tree [W (show_nat n)]" for n by (rule piece_mono [OF count_piece]) auto
  ultimately show "k \<in> {''WHERE'', ''GROUP BY'', ''HAVING'', ''ORDER BY'', ''LIMIT'', ''OFFSET''}" "piece Tree b"
    using kb f by (auto simp: select_clauses_def clause_def split: option.splits if_splits)
  show "P CHR '';'' \<notin> set b"
    using kb f h by (auto simp: select_clauses_def clause_def tok_separated split: option.splits if_splits)
qed

lemma select_piece:
  assumes p: "printable (Select t cols joins f group_by having order_by limit offset)"
    and f: "\<And>g. f = Some g \<Longrightarrow> piece Tree (filter_toks g) \<and> P CHR '';'' \<notin> set (filter_toks g)"
    and h: "\<And>h. having = Some h \<Longrightarrow> P CHR '';'' \<notin> set (filter_toks h)"
  shows "statement_piece (statement_toks (Select t cols joins f group_by having order_by limit offset))"
proof -
  let ?cs = "select_clauses f group_by having order_by limit offset"
  note ok = select_clauses_ok [OF p f h]
  have w: "piece {} [W ''SELECT'']" "piece {} [W ''FROM'']" by (rule keyword_piece; simp add: upper_def)+
  have cols: "piece {} (commas (map select_expr_toks cols))"
    using p by (intro piece_mono [OF piece_commas [of Rsv]]) (auto simp: list_all_iff select_expr_piece)
  have j: "piece {} ts" if "ts \<in> set ([W t] # map join_toks joins)" for ts
    using p that piece_mono [OF name_piece, of t "{}"] piece_mono [OF join_piece, of _ "{}"]
    by (auto simp: list_all_iff)
  then have tables: "piece {} (separated [SP] ([W t] # map join_toks joins))" by (intro piece_spaced) (auto simp: list_all_iff)
  have cs: "piece {} (clause_toks ?cs)" if "?cs \<noteq> []"
  proof (rule clauses_piece [OF _ that], clarify)
    fix k b
    assume "(k, b) \<in> set ?cs"
    from ok [OF _ _ this] show "piece {} (keyword_toks k) \<and> piece {} b"
      using clause_words piece_mono [of Tree b "{}"] f h by auto
  qed
  have none: "?cs = [] \<Longrightarrow> clause_toks ?cs = []" by simp
  have "piece {} (separated [SP] ([W t] # map join_toks joins) @ then_toks (clause_toks ?cs))"
  proof (cases "?cs = []")
    case False
    then show ?thesis using piece_append [OF tables cs [OF False]] pieceD(5) [OF cs [OF False]] by (simp add: then_toks_def)
  qed (use tables none in \<open>simp add: then_toks_def\<close>)
  then have "piece {} (statement_toks (Select t cols joins f group_by having order_by limit offset))"
    using piece_append [OF w(1) piece_append [OF cols piece_append [OF w(2)]]] by simp
  moreover have "P CHR '';'' \<notin> set (clause_toks ?cs)" using ok(3) f h by (intro semi_clauses) auto
  ultimately show ?thesis by (auto simp: statement_piece_def then_toks_def tok_separated)
qed

lemma semi_having: "printable_having h \<Longrightarrow> P CHR '';'' \<notin> set (filter_toks h)"
  by (induction h) (auto simp: literal_not_space [symmetric])

lemma subquery_piece: "piece {} ts \<Longrightarrow> name c \<Longrightarrow> piece Leaf (W c # in_toks negated @ parens ts)"
  using in_piece pieceD(2,4) by blast

lemma words_piece: "list_all (\<lambda>w. list_all upper w \<and> w \<noteq> []) ws \<Longrightarrow> ws \<noteq> [] \<Longrightarrow>
    piece {} (separated [SP] (map W' ws))" if "\<And>w. W' w = [W w]"
  by (rule piece_spaced) (auto simp: list_all_iff that intro!: keyword_piece)

lemma head_piece:
  assumes "list_all upper a" "a \<noteq> []" "piece {} ts"
  shows "piece {} (W a # SP # ts)"
  using piece_pair [OF keyword_piece [of a "{}"] assms(3)] assms(1,2) by simp

lemma name_pair: "name n \<Longrightarrow> piece {} ts \<Longrightarrow> piece {} (W n # SP # ts)"
  using piece_pair [OF piece_mono [OF name_piece, of n "{}"]] by simp

lemma name_piece0: "name n \<Longrightarrow> piece {} [W n]"
  using piece_mono [OF name_piece, of n "{}"] by simp

lemma lead_piece: "name w \<or> list_all upper w \<and> w \<noteq> [] \<Longrightarrow> piece {} ts \<Longrightarrow> piece {} (W w # SP # ts)"
  "name w \<or> list_all upper w \<and> w \<noteq> [] \<Longrightarrow> piece {} [W w]"
  using name_pair head_piece name_piece0 keyword_piece [of w "{}"] by auto

lemma values_parens_piece:
  assumes "list_all printable_value vs"
  shows "piece {} (parens (commas (map (\<lambda>v. [literal v]) vs)))"
proof (cases "vs = []")
  case True
  then show ?thesis by (simp add: piece_def tight_def)
next
  case False
  from values_piece [OF assms this] show ?thesis by (intro piece_parens pieceD)
qed

lemma where_piece:
  assumes "piece {} a" "\<And>g. f = Some g \<Longrightarrow> piece Tree (filter_toks g)"
  shows "piece {} (a @ (case f of None \<Rightarrow> [] | Some g \<Rightarrow> [SP, W ''WHERE'', SP] @ filter_toks g))"
proof (cases f)
  case (Some g)
  have "piece {} (W ''WHERE'' # SP # filter_toks g)"
    by (rule head_piece) (use assms(2) Some in \<open>auto simp: upper_def intro: piece_mono\<close>)
  from piece_append [OF assms(1) this] Some show ?thesis by simp
qed (simp add: assms(1))

lemma filter_statement_piece:
  "printable_filter f \<Longrightarrow> piece Tree (filter_toks f) \<and> (is_leaf f \<longrightarrow> piece Leaf (filter_toks f)) \<and>
    P CHR '';'' \<notin> set (filter_toks f)"
  "printable st \<Longrightarrow> statement_piece (statement_toks st)"
proof (induction f and st rule: filter_toks_statement_toks.induct)
  case (1 c op v)
  then have "piece Leaf (filter_toks (Compare c op v))"
    using piece_append [OF leaf_names(1) piece_append [OF op_leaf_piece leaf_names(2)]]
    by (simp add: column_toks_name)
  then show ?case by (auto simp: literal_not_space [symmetric] intro: piece_mono)
next
  case (2 c)
  then have "piece Leaf (filter_toks (IsNull c))"
    using piece_pair [OF leaf_names(1) piece_pair [OF leaf_words(1) leaf_words(5)]] by simp
  then show ?case by (auto intro: piece_mono)
next
  case (3 c)
  then have "piece Leaf (filter_toks (IsNotNull c))"
    using piece_pair [OF leaf_names(1) piece_pair [OF leaf_words(1) piece_pair [OF leaf_words(2) leaf_words(5)]]] by simp
  then show ?case by (auto intro: piece_mono)
next
  case (4 c vs negated)
  then have "piece Leaf (filter_toks (InList c vs negated))"
    using subquery_piece [OF piece_mono [OF values_piece]] by (simp add: printable_list_def)
  then show ?case by (auto simp: literal_not_space [symmetric] tok_separated intro: piece_mono)
next
  case (5 c q negated)
  then have "piece Leaf (filter_toks (InSubquery c q negated))"
    using subquery_piece [of "statement_toks q" c negated] by (simp add: statement_piece_def)
  then show ?case using 5 by (auto simp: statement_piece_def intro: piece_mono)
next
  case (6 l r)
  then show ?case using piece_append [of Tree "filter_toks l"] piece_pair [OF tree_words(1)] by simp
next
  case (7 l r)
  then show ?case using piece_append [of Tree "filter_toks l"] piece_pair [OF tree_words(2)] by simp
next
  case (8 t cols)
  then have "piece {} (commas (map column_def_toks cols))"
    using column_def_piece(1) [of True] by (auto simp: list_all_iff intro!: piece_commas)
  moreover have semi: "P CHR '';'' \<notin> set (commas (map column_def_toks cols))"
    using column_def_piece(3) [of True] 8 by (intro tok_separated) (auto simp: list_all_iff)
  ultimately have "piece {} (parens (commas (map column_def_toks cols)))" by (intro piece_parens pieceD)
  with 8 semi show ?case by (auto simp: statement_piece_def intro!: lead_piece)
next
  case (10 i t c)
  have "piece {} (parens [W c])" using 10 pieceD(2,4) [OF name_piece0 [of c]] by (intro piece_parens) simp_all
  with 10 show ?case by (auto simp: statement_piece_def intro!: lead_piece)
next
  case (12 t col dflt)
  have "piece {} (column_def_toks col @ (case dflt of None \<Rightarrow> [] | Some v \<Rightarrow> [SP, W ''DEFAULT'', SP, literal v]))"
  proof (cases dflt)
    case (Some v)
    with 12 have "piece {} (W ''DEFAULT'' # SP # [literal v])"
      by (intro head_piece piece_mono [OF literal_piece]) simp_all
    with Some 12 piece_append [OF column_def_piece(1)] show ?thesis by fastforce
  qed (use 12 column_def_piece in auto)
  with 12 column_def_piece(3) [of False col] show ?case
    by (auto simp: statement_piece_def literal_not_space [symmetric] intro!: lead_piece split: option.splits)
next
  case (15 t cols vs)
  have "piece {} (W ''VALUES'' # SP # parens (commas (map (\<lambda>v. [literal v]) vs)))"
    using 15 by (intro head_piece values_parens_piece) simp_all
  moreover have "piece {} (parens (commas (map (\<lambda>c. [W c]) cs)))" if "cols = Some cs" for cs
    using 15 that by (intro piece_parens pieceD [OF names_piece]) auto
  ultimately have "piece {} ((case cols of None \<Rightarrow> [] | Some cs \<Rightarrow> parens (commas (map (\<lambda>c. [W c]) cs)) @ [SP]) @
      [W ''VALUES'', SP] @ parens (commas (map (\<lambda>v. [literal v]) vs)))"
    using piece_append by (fastforce split: option.splits)
  with 15 show ?case
    by (auto simp: statement_piece_def literal_not_space [symmetric] tok_separated intro!: lead_piece
        split: option.splits)
next
  case (16 t asg f)
  have "piece {} (commas (map assignment_toks asg))"
    using 16(2) by (intro piece_mono [OF piece_commas [of Rsv]]) (auto simp: list_all_iff intro!: assignment_piece)
  then have "piece {} (commas (map assignment_toks asg) @ (case f of None \<Rightarrow> [] | Some g \<Rightarrow> [SP, W ''WHERE'', SP] @ filter_toks g))"
    using 16 by (intro where_piece) auto
  with 16 show ?case
    by (auto simp: statement_piece_def tok_separated intro!: lead_piece split: option.splits)
next
  case (17 t cols joins f group_by having order_by limit offset)
  show ?case
  proof (rule select_piece)
    show "printable (Select t cols joins f group_by having order_by limit offset)" by (rule 17(3))
    fix g
    assume "f = Some g"
    with 17 show "piece Tree (filter_toks g) \<and> P CHR '';'' \<notin> set (filter_toks g)" by simp
  next
    fix h
    assume "having = Some h"
    with 17(3) show "P CHR '';'' \<notin> set (filter_toks h)" by (simp add: semi_having)
  qed
next
  case (18 t f)
  have "piece {} ([W ''DELETE'', SP, W ''FROM'', SP, W t] @ (case f of None \<Rightarrow> [] | Some g \<Rightarrow> [SP, W ''WHERE'', SP] @ filter_toks g))"
    using 18 by (intro where_piece) (auto intro!: lead_piece)
  with 18 show ?case by (auto simp: statement_piece_def split: option.splits)
qed (auto simp: statement_piece_def intro!: lead_piece)

end
