(* ===== verification/Filter_Text.thy ===== *)
theory Filter_Text
  imports Pieces
begin

text \<open>
  Parsing the text of a condition gives the condition back: names and comparisons first, then
  conjunctions and disjunctions over any parser of single conditions (the locale \<open>leaf_parser\<close>, with the
  instances for WHERE and HAVING).
\<close>

section \<open>Names and keywords\<close>

lemma name_simps [simp]:
  assumes "name n"
  shows "normalize_identifier n = Ok n" "trim n = n" "trim (CHR '' '' # n) = n" "trim (n @ '' '') = n"
    "trim (CHR '' '' # n @ '' '') = n" "n \<noteq> []"
  using assms by (auto simp: name_ident trim_ident) (auto simp: name_def ident_def)

lemma keyword_of_keys [simp]:
  "keyword_of K key \<longleftrightarrow> first_word key \<in> K" if "key \<in> {''IS NOT NULL'', ''IS NULL'', ''NOT IN'', ''IN'', ''LIKE'',
    ''WHERE'', ''GROUP BY'', ''HAVING'', ''ORDER BY'', ''LIMIT'', ''OFFSET'', ''FROM'', ''JOIN'', ''INNER'', ''ON'',
    ''VALUES'', ''SET'', ''ADD COLUMN'', ''DROP COLUMN'', ''RENAME COLUMN'', ''TO'', ''DEFAULT'', ''AND'', ''OR''}"
  using that by (auto simp: keyword_of_def keyword_def key_of_def first_word_def)

lemma first_words [simp]:
  "first_word ''IS NOT NULL'' = ''IS''" "first_word ''IS NULL'' = ''IS''" "first_word ''NOT IN'' = ''NOT''"
  "first_word ''GROUP BY'' = ''GROUP''" "first_word ''ORDER BY'' = ''ORDER''" "first_word ''ADD COLUMN'' = ''ADD''"
  "first_word ''DROP COLUMN'' = ''DROP''" "first_word ''RENAME COLUMN'' = ''RENAME''"
  by (simp_all add: first_word_def)

lemma first_word_same [simp]: "CHR '' '' \<notin> set k \<Longrightarrow> first_word k = k"
  by (auto simp: first_word_def takeWhile_eq_all_conv)

lemma free_name: "name n \<Longrightarrow> (\<forall>c \<in> cs. punct c) \<Longrightarrow> free_of cs n"
  using ident_word [of n] punct_not by (intro free_of_word) (auto simp: name_def)

lemma keyword_loop_short: "length bs < length key \<Longrightarrow> keyword_loop key prev s d depth i bs = None"
  using keyword_loop_bound [of key prev s d depth i bs] by (cases "keyword_loop key prev s d depth i bs") auto

lemma trim_Nil [simp]: "trim [] = []"
  using length_trim [of "[]"] by simp

lemma starts_ends_parens [simp]:
  "str_starts_with c (c # s)" "str_ends_with c (s @ [c])" "str_ends_with c (d # s @ [c])"
  by (simp_all add: str_starts_with_def str_ends_with_def)

lemma slice_parens: "clean (s @ [d]) \<Longrightarrow> byte d < 128 \<Longrightarrow> byte c < 128 \<Longrightarrow>
    str_slice (c # s @ [d]) 1 (length (c # s @ [d]) - 1) = (Ok s :: string result)"
  using slice_middle [of s "[d]" "[c]"] by simp

section \<open>Conditions\<close>

lemma comparison_text:
  assumes c: "having_column c" and v: "printable_value v" and op: "op \<noteq> OpLike"
  defines "s \<equiv> text_of (column_toks c @ SP # op_toks op @ [SP, literal v])"
  shows "find_comparison_operator s = Ok (length c + 1, length (op_text op), op)"
    "str_prefix s (length c + 1) = (Ok (c @ '' '') :: string result)"
    "str_suffix s (length c + 1 + length (op_text op)) = (Ok (CHR '' '' # untok (literal v)) :: string result)"
proof -
  have s: "s = (c @ '' '') @ op_text op @ '' '' @ untok (literal v)"
    using having_column_piece(2) [OF c] by (simp add: s_def op_toks_text)
  have name_free: "free_of op_chars n" if "name n" for n using that by (rule free_name) auto
  have free: "free_of op_chars (c @ '' '')"
    using c
  proof (cases rule: having_column_cases)
    case 1
    then show ?thesis using name_free by (simp add: byte_def)
  next
    case (2 func target)
    have "free_of op_chars (aggregate_name func)" by (cases func) (simp_all add: byte_def)
    with 2 name_free show ?thesis by (cases target) (simp_all add: printable_target_def byte_def)
  qed
  from find_operator_at [OF free op] show "find_comparison_operator s = Ok (length c + 1, length (op_text op), op)"
    by (simp add: s)
  have "clean (op_text op @ '' '' @ untok (literal v))" using op by (cases op) (simp_all add: byte_def)
  from slice_append(1) [OF this, of "c @ '' ''"] show "str_prefix s (length c + 1) = (Ok (c @ '' '') :: string result)"
    by (simp add: s)
  have "clean ('' '' @ untok (literal v))" by (simp add: byte_def)
  from slice_append(2) [OF this, of "(c @ '' '') @ op_text op"]
  show "str_suffix s (length c + 1 + length (op_text op)) = (Ok (CHR '' '' # untok (literal v)) :: string result)"
    by (simp add: s)
qed

lemma literal_trim [simp]:
  "printable_value v \<Longrightarrow> trim (CHR '' '' # untok (literal v)) = untok (literal v)"
  "printable_value v \<Longrightarrow> trim (untok (literal v)) = untok (literal v)"
  using trim_tight(1,2) [OF literal_tight] by simp_all

lemma parse_compare:
  assumes "name c" "printable_value v" "op \<noteq> OpLike" and "length (text_of (filter_toks (Compare c op v))) < 2 ^ 31"
  shows "parse_comparison_expr q (text_of (filter_toks (Compare c op v))) = Ok (Compare c op v)"
proof -
  let ?ts = "column_toks c @ SP # op_toks op @ [SP, literal v]"
  note c = name_having_column [OF assms(1)]
  note p = having_leaf_piece [OF c assms(2,3)]
  have none: "find_keyword_outside_quotes (text_of ?ts) key = None" if "keyword_of Rsv key" for key
    using that p assms(4) by (intro cut_none [OF that p]) simp
  show ?thesis
    using comparison_text [OF c assms(2,3)] assms(1,2) piece_text [OF p] piece_trim(1) [OF p]
    by (simp add: parse_comparison_expr_def none reserved_def parse_literal_text Let_def del: text_of_simps)
qed

text \<open>Where a keyword stands after a piece, and what is before and after it.\<close>

lemma cut:
  assumes "keyword_of K key" "piece K a" "length (text_of a) < 2 ^ 31" "is_boundary (first_byte bs)" "clean bs"
  shows "find_keyword_outside_quotes (text_of a @ CHR '' '' # key @ bs) key = Some (Suc (length (text_of a)))"
    "str_prefix (text_of a @ CHR '' '' # key @ bs) (Suc (length (text_of a))) = (Ok (text_of a @ '' '') :: string result)"
    "str_after (text_of a @ CHR '' '' # key @ bs) (Suc (length (text_of a))) key = (Ok bs :: string result)"
proof -
  have k: "key_of (first_word key) key" using assms(1) by (simp add: keyword_of_def keyword_def)
  then have "clean (key @ bs)" using word_char_not(8) by (auto simp: key_of_def neq_Nil_conv)
  from slice_append(1) [OF this, of "text_of a @ '' ''"]
  show "str_prefix (text_of a @ CHR '' '' # key @ bs) (Suc (length (text_of a))) = (Ok (text_of a @ '' '') :: string result)"
    by simp
  from after_append [OF assms(5), of "text_of a @ '' ''" key]
  show "str_after (text_of a @ CHR '' '' # key @ bs) (Suc (length (text_of a))) key = (Ok bs :: string result)" by simp
  from find_keyword_at [OF k, of "a @ [SP]" bs] assms
  show "find_keyword_outside_quotes (text_of a @ CHR '' '' # key @ bs) key = Some (Suc (length (text_of a)))"
    by (simp add: pieceD piece_not_word keyword_of_def)
qed

lemma miss: "keyword_of K key \<Longrightarrow> piece K ts \<Longrightarrow> length (text_of ts) < 2 ^ 31 \<Longrightarrow>
    find_keyword_outside_quotes (text_of ts) key = None"
  by (rule cut_none) simp_all

lemma filter_trim:
  assumes "printable_filter f"
  shows "trim (text_of (filter_toks f)) = text_of (filter_toks f)" "text_of (filter_toks f) \<noteq> []"
  using filter_statement_piece(1) [OF assms] piece_trim(1) piece_text by blast+

lemma parse_is_null:
  assumes c: "name c" and len: "length (text_of (filter_toks (IsNull c))) < 2 ^ 31"
  shows "parse_comparison_expr q (text_of (filter_toks (IsNull c))) = Ok (IsNull c)"
proof -
  have "find_keyword_outside_quotes (c @ '' IS NULL'') ''IS NOT NULL'' = None"
  proof -
    have k: "key_of ''IS'' ''IS NOT NULL''" by (simp add: key_of_def)
    have "\<not> eq_ignore_ascii_case c ''IS''" using c by (auto simp: name_def reserved_def list_all_iff)
    moreover have "ends_ok [W c, SP] ''IS NULL''" by (simp add: ends_ok_def)
    ultimately show ?thesis
      using keyword_tokens [OF k, of "[W c, SP]" "''IS NULL''" 0 0 None 0] c len ident_word [of c]
      by (simp add: find_keyword_outside_quotes_def keyword_loop_short name_def del: keyword_loop.simps)
  qed
  moreover note cut [of Rsv "''IS NULL''" "[W c]" "[]"]
  ultimately show ?thesis
    using c len name_piece [OF c] filter_trim [of "IsNull c"]
    by (simp add: parse_comparison_expr_def parse_null_test_def reserved_def Let_def)
qed

lemma parse_is_not_null:
  assumes c: "name c" and len: "length (text_of (filter_toks (IsNotNull c))) < 2 ^ 31"
  shows "parse_comparison_expr q (text_of (filter_toks (IsNotNull c))) = Ok (IsNotNull c)"
  using c len name_piece [OF c] filter_trim [of "IsNotNull c"] cut [of Rsv "''IS NOT NULL''" "[W c]" "[]"]
  by (simp add: parse_comparison_expr_def parse_null_test_def reserved_def Let_def)

lemma like_piece: "name c \<Longrightarrow> printable_value v \<Longrightarrow> piece (Rsv - {''LIKE''}) (filter_toks (Compare c OpLike v))"
  using piece_pair [OF piece_mono [OF name_piece] piece_pair [OF keyword_piece piece_mono [OF literal_piece]],
      of c "Rsv - {''LIKE''}" "''LIKE''" v]
  by (simp add: column_toks_name op_toks_def)

lemma parse_like:
  assumes c: "name c" "printable_value v" and len: "length (text_of (filter_toks (Compare c OpLike v))) < 2 ^ 31"
  shows "parse_comparison_expr q (text_of (filter_toks (Compare c OpLike v))) = Ok (Compare c OpLike v)"
proof -
  note p = like_piece [OF c]
  have none: "find_keyword_outside_quotes (text_of (filter_toks (Compare c OpLike v))) key = None"
    if "keyword_of (Rsv - {''LIKE''}) key" for key
    using miss [OF that p len] .
  have "clean ('' '' @ untok (literal v))" by (simp add: byte_def)
  with cut [of Rsv "''LIKE''" "[W c]" "'' '' @ untok (literal v)"] none [simplified] c len
    name_piece [OF c(1)] filter_trim [of "Compare c OpLike v"]
  show ?thesis
    by (simp add: parse_comparison_expr_def reserved_def column_toks_name op_toks_def parse_literal_text Let_def)
qed

lemma in_piece_avoid:
  assumes "name c" "good ts" "balanced ts" "K \<subseteq> Rsv" "''IN'' \<notin> K" "negated \<longrightarrow> ''NOT'' \<notin> K"
  shows "piece K (W c # in_toks negated @ parens ts)"
proof -
  have "piece K (parens ts)" by (rule piece_parens [OF assms(2,3)])
  from piece_pair [OF keyword_piece [of "''IN''" K] this] assms(4,5) have i: "piece K (W ''IN'' # SP # parens ts)" by simp
  have n: "piece K [W c]" using name_piece [OF assms(1)] assms(4) by (rule piece_mono)
  show ?thesis
  proof (cases negated)
    case True
    have "piece K [W ''NOT'']" using assms(4,6) True by (intro keyword_piece) simp_all
    from piece_pair [OF n piece_pair [OF this i]] True show ?thesis by (simp add: in_toks_def)
  next
    case False
    with piece_pair [OF n i] show ?thesis by (simp add: in_toks_def)
  qed
qed

lemma parens_text:
  assumes "piece K ts"
  shows "trim (CHR '' '' # LPAREN # text_of ts @ [RPAREN]) = LPAREN # text_of ts @ [RPAREN]"
    "str_slice (LPAREN # text_of ts @ [RPAREN]) (Suc 0) (Suc (length (text_of ts))) = (Ok (text_of ts) :: string result)"
proof -
  have "piece {} (parens ts)" using pieceD(2,4) [OF assms] by (rule piece_parens)
  from piece_trim(2) [OF this]
  show "trim (CHR '' '' # LPAREN # text_of ts @ [RPAREN]) = LPAREN # text_of ts @ [RPAREN]" by simp
  have "clean (text_of ts @ [RPAREN])" using clean_text [OF pieceD(2) [OF assms], of "[RPAREN]"] by (simp add: byte_def)
  from slice_parens [OF this, of LPAREN]
  show "str_slice (LPAREN # text_of ts @ [RPAREN]) (Suc 0) (Suc (length (text_of ts))) = (Ok (text_of ts) :: string result)"
    by (simp add: byte_def)
qed

text \<open>The part of an IN condition from the keyword on.\<close>

lemma in_text:
  assumes c: "name c" and ts: "piece K ts" and len: "length (text_of (W c # in_toks negated @ parens ts)) < 2 ^ 31"
    and inner: "(if r \<noteq> None then tryq (q (text_of ts)) (\<lambda>q. Ok (InSubquery c q negated))
       else tryq (split_comma_aware (text_of ts)) (\<lambda>tokens.
         tryq (map_res parse_literal tokens) (\<lambda>vs.
         if vs = [] then syntax_error ''IN requires at least one value''
         else Ok (InList c vs negated)))) = Ok f"
    and prefix: "strip_prefix_ci (text_of ts) ''SELECT'' = Ok r"
  shows "parse_comparison_expr q (text_of (W c # in_toks negated @ parens ts)) = Ok f"
proof -
  let ?ts = "W c # in_toks negated @ parens ts" and ?r = "'' '' @ untok (P LPAREN) @ text_of ts @ untok (P RPAREN)"
  have p: "piece (Rsv - {''IN'', ''NOT''}) ?ts" "\<not> negated \<Longrightarrow> piece (Rsv - {''IN''}) ?ts"
    using c pieceD(2,4) [OF ts] by (auto intro!: in_piece_avoid)
  have t: "trim (text_of ?ts) = text_of ?ts" "text_of ?ts \<noteq> []"
    using piece_trim(1) [OF p(1)] piece_text [OF p(1)] by blast+
  have n: "find_keyword_outside_quotes (text_of ?ts) key = None" if "keyword_of (Rsv - {''IN'', ''NOT''}) key" for key
    using miss [OF that p(1) len] .
  have n': "\<not> negated \<Longrightarrow> find_keyword_outside_quotes (text_of ?ts) ''NOT IN'' = None"
    using miss [OF _ p(2) len, of "''NOT IN''"] by (simp add: reserved_def)
  have "clean ?r" by (simp add: byte_def)
  then have found: "keyword_of Rsv key \<Longrightarrow>
      find_keyword_outside_quotes (c @ CHR '' '' # key @ ?r) key = Some (Suc (length c)) \<and>
      str_prefix (c @ CHR '' '' # key @ ?r) (Suc (length c)) = (Ok (c @ '' '') :: string result) \<and>
      str_after (c @ CHR '' '' # key @ ?r) (Suc (length c)) key = (Ok ?r :: string result)" for key
    using cut [of Rsv key "[W c]" ?r] len name_piece [OF c] by simp
  have run: "parse_in q (text_of ?ts) (Suc (length c)) key negated = Ok f"
    if "text_of ?ts = c @ CHR '' '' # key @ ?r" "keyword_of Rsv key" for key
    unfolding that(1) parse_in_def
    using found [OF that(2)] c parens_text [OF ts] inner prefix piece_trim(1) [OF ts]
    by (cases r) (simp_all add: Let_def)
  show ?thesis
  proof (cases negated)
    case True
    then have e: "text_of ?ts = c @ CHR '' '' # ''NOT IN'' @ ?r" by (simp add: in_toks_def)
    have k: "keyword_of Rsv ''NOT IN''" by (simp add: reserved_def)
    from run [OF e k] found [OF k] n [of "''IS NOT NULL''"] n [of "''IS NULL''"] t True show ?thesis
      unfolding e [symmetric] by (simp add: parse_comparison_expr_def Let_def reserved_def del: text_of_simps)
  next
    case False
    then have e: "text_of ?ts = c @ CHR '' '' # ''IN'' @ ?r" by (simp add: in_toks_def)
    have k: "keyword_of Rsv ''IN''" by (simp add: reserved_def)
    from run [OF e k] found [OF k] n [of "''IS NOT NULL''"] n [of "''IS NULL''"] n' t False show ?thesis
      unfolding e [symmetric] by (simp add: parse_comparison_expr_def Let_def reserved_def del: text_of_simps)
  qed
qed

lemma strip_prefix_same: "is_ascii k \<Longrightarrow> clean r \<Longrightarrow> strip_prefix_ci (k @ r) k = Ok (Some r)"
  by (simp add: strip_prefix_ci_def eq_ignore_ascii_case_def slice_append)

lemma lower_s: "ascii_lower c = CHR ''s'' \<longleftrightarrow> byte c = 83 \<or> byte c = 115"
proof -
  have "byte CHR ''s'' = 115" by (simp add: byte_def)
  then show ?thesis unfolding byte_eq_iff [of "ascii_lower c"] byte_ascii_lower by auto
qed

lemma strip_prefix_other:
  assumes "6 \<le> length (c # s) \<longrightarrow> is_char_boundary (c # s) 6" "ascii_lower c \<noteq> CHR ''s''"
  shows "strip_prefix_ci (c # s) ''SELECT'' = Ok None"
proof -
  have "\<not> eq_ignore_ascii_case (take 6 (c # s)) ''SELECT''"
  proof
    assume "eq_ignore_ascii_case (take 6 (c # s)) ''SELECT''"
    from eq_ignore_nth [OF this, of 0] have "ascii_lower c = ascii_lower CHR ''S''" by simp
    moreover have "ascii_lower CHR ''S'' = CHR ''s''" unfolding lower_s by (simp add: byte_def)
    ultimately show False using assms(2) by simp
  qed
  moreover have "str_prefix (c # s) 6 = (Ok (take 6 (c # s)) :: string result)" if "6 \<le> length (c # s)"
    using assms(1) that unfolding str_prefix_def str_slice_def by (simp add: is_char_boundary_def [of _ 0])
  moreover have "length ''SELECT'' = 6" by simp
  ultimately show ?thesis unfolding strip_prefix_ci_def by (auto simp del: list.size)
qed

lemma values_first:
  assumes "list_all printable_value vs" "vs \<noteq> []"
  obtains c s where "text_of (commas (map (\<lambda>v. [literal v]) vs)) = c # s" "ascii_lower c \<noteq> CHR ''s''"
proof -
  obtain v ws where vs: "vs = v # ws" using assms(2) by (cases vs) simp_all
  obtain c s where c: "untok (literal v) = c # s" "ascii_lower c \<noteq> CHR ''s''"
  proof (cases v)
    case (VInt n)
    with show_i64_chars(1) [of _ n] show_i64_chars(2) [of n] obtain c s where "show_i64 n = c # s"
      "is_ascii_digit c \<or> c = CHR ''-''" by (cases "show_i64 n") auto
    moreover from this(2) have "ascii_lower c \<noteq> CHR ''s''"
      by (auto simp: lower_s is_ascii_digit_def byte_def)
    ultimately show thesis using that VInt by simp
  next
    case (VBool b)
    then show thesis using that by (cases b) (simp_all add: lower_s byte_def)
  qed (use that in \<open>simp_all add: lower_s byte_def\<close>)
  then show thesis using that vs by (cases ws) auto
qed

lemma map_res_Ok: "(\<And>x. x \<in> set xs \<Longrightarrow> f (g x) = Ok x) \<Longrightarrow> map_res f (map g xs) = Ok xs"
  by (induction xs) simp_all

lemma scan_absent: "P c \<notin> set ts \<Longrightarrow> scan (\<lambda>_. True) n ts = Some m \<Longrightarrow> scan (\<lambda>t. t \<noteq> P c) n ts = Some m"
  by (erule scan_mono) auto

lemma split_list:
  assumes "list_all (\<lambda>x. piece K (g x) \<and> flat (\<lambda>t. t \<noteq> P CHR '','') (g x)) xs" "xs \<noteq> []"
    and "length (text_of (commas (map g xs))) < 2 ^ 31"
  shows "split_comma_aware (text_of (commas (map g xs))) = Ok (map (\<lambda>x. text_of (g x)) xs)"
  using split_commas [of "map g xs"] assms pieceD(1) by (fastforce simp: list_all_iff comp_def)

lemma split_values:
  assumes "list_all printable_value vs" "vs \<noteq> []" "length (text_of (commas (map (\<lambda>v. [literal v]) vs))) < 2 ^ 31"
  shows "split_comma_aware (text_of (commas (map (\<lambda>v. [literal v]) vs))) = Ok (map (\<lambda>v. untok (literal v)) vs)"
  using split_list [of Rsv "\<lambda>v. [literal v]" vs] assms literal_piece by (auto simp: list_all_iff)

lemma parse_values: "list_all printable_value vs \<Longrightarrow> map_res parse_literal (map (\<lambda>v. untok (literal v)) vs) = Ok vs"
  by (rule map_res_Ok) (auto simp: list_all_iff parse_literal_text)

lemma parse_in_list:
  assumes c: "name c" and vs: "printable_list vs" and len: "length (text_of (filter_toks (InList c vs negated))) < 2 ^ 31"
  shows "parse_comparison_expr q (text_of (filter_toks (InList c vs negated))) = Ok (InList c vs negated)"
proof -
  let ?ts = "commas (map (\<lambda>v. [literal v]) vs)"
  have v: "list_all printable_value vs" "vs \<noteq> []" "6 \<le> length (text_of ?ts) \<longrightarrow> is_char_boundary (text_of ?ts) 6"
    using vs by (simp_all add: printable_list_def Let_def)
  have none: "strip_prefix_ci (text_of ?ts) ''SELECT'' = Ok None"
    using values_first [OF v(1,2)] strip_prefix_other v(3) by metis
  have l: "length (text_of ?ts) < 2 ^ 31" using len by simp
  have "parse_comparison_expr q (text_of (W c # in_toks negated @ parens ?ts)) = Ok (InList c vs negated)"
  proof (rule in_text [OF c _ _ _ none])
    show "piece Rsv ?ts" using v(1,2) by (rule values_piece)
    show "length (text_of (W c # in_toks negated @ parens ?ts)) < 2 ^ 31" using len by simp
  qed (simp add: split_values [OF v(1,2) l] parse_values [OF v(1)] v(2))
  then show ?thesis by (simp only: filter_toks.simps)
qed

lemma parse_in_subquery:
  assumes c: "name c" and p: "printable q'" and sel: "is_select q'"
    and q: "q (statement_text q') = Ok q'" and len: "length (text_of (filter_toks (InSubquery c q' negated))) < 2 ^ 31"
  shows "parse_comparison_expr q (text_of (filter_toks (InSubquery c q' negated))) = Ok (InSubquery c q' negated)"
proof -
  let ?ts = "statement_toks q'"
  have piece: "piece {} ?ts" using filter_statement_piece(2) [OF p] by (simp add: statement_piece_def)
  obtain r where r: "text_of ?ts = ''SELECT'' @ '' '' @ r" using sel by (cases q') simp_all
  then have s: "strip_prefix_ci (text_of ?ts) ''SELECT'' = Ok (Some ('' '' @ r))"
    by (simp only: r) (rule strip_prefix_same, simp_all add: byte_def)
  have "parse_comparison_expr q (text_of (W c # in_toks negated @ parens ?ts)) = Ok (InSubquery c q' negated)"
  proof (rule in_text [OF c piece _ _ s])
    show "length (text_of (W c # in_toks negated @ parens ?ts)) < 2 ^ 31" using len by simp
  qed (use q in \<open>simp add: statement_text_def\<close>)
  then show ?thesis by (simp only: filter_toks.simps)
qed

section \<open>Conjunctions and disjunctions\<close>

lemma separated_snoc: "tss \<noteq> [] \<Longrightarrow> separated d (tss @ [ts]) = separated d tss @ d @ ts"
  by (induction d tss rule: separated.induct) simp_all

lemma separated_bound: "ts \<in> set tss \<Longrightarrow> length (text_of ts) \<le> length (text_of (separated d tss))"
  by (induction d tss rule: separated.induct) auto

text \<open>A chain of parts with a keyword between them, folded to the left.\<close>

lemma parse_chain:
  assumes key: "key_of key key" and parts: "parts \<noteq> []"
    and part: "\<And>x. x \<in> set parts \<Longrightarrow> piece {key} (filter_toks x) \<and> sub (text_of (filter_toks x)) = Ok x"
    and len: "length (text_of (keyed key (map filter_toks parts))) < 2 ^ 31"
  shows "tryq (split_by_keyword_aware (text_of (keyed key (map filter_toks parts))) key) (\<lambda>ps.
     if length ps \<le> 1 then sub (text_of (keyed key (map filter_toks parts)))
     else tryq (sub (hd ps)) (\<lambda>first. fold_res (\<lambda>part expr. tryq (sub part) (\<lambda>r. Ok (C expr r))) (tl ps) first)) =
   Ok (foldl C (hd parts) (tl parts))"
proof -
  have "tight (filter_toks x) \<and> flat (not_word key) (filter_toks x)" if "x \<in> set parts" for x
    using part [OF that] pieceD(1) piece_not_word by blast
  then have split: "split_by_keyword_aware (text_of (keyed key (map filter_toks parts))) key =
      Ok (map (\<lambda>x. text_of (filter_toks x)) parts)"
    using split_by_keyword_separated [OF key, of "map filter_toks parts"] parts len
    by (simp add: list_all_iff comp_def)
  have fold: "fold_res (\<lambda>part expr. tryq (sub part) (\<lambda>r. Ok (C expr r))) (map (\<lambda>x. text_of (filter_toks x)) xs) e =
      Ok (foldl C e xs)" if "set xs \<subseteq> set parts" for xs e
    using that by (induction xs arbitrary: e) (simp_all add: part)
  obtain x xs where xs: "parts = x # xs" using parts by (cases parts) simp_all
  show ?thesis
  proof (cases xs)
    case Nil
    then show ?thesis using split part xs by simp
  next
    case (Cons y ys)
    have "set xs \<subseteq> set parts" using xs by auto
    with Cons show ?thesis using split part [of x] fold [of xs x] xs by simp
  qed
qed

fun and_parts :: "filter_expr \<Rightarrow> filter_expr list" where
  "and_parts (FAnd l r) = and_parts l @ [r]"
| "and_parts f = [f]"

fun or_parts :: "filter_expr \<Rightarrow> filter_expr list" where
  "or_parts (FOr l r) = or_parts l @ [r]"
| "or_parts f = [f]"

lemma and_parts:
  "and_parts f \<noteq> []" "filter_toks f = keyed ''AND'' (map filter_toks (and_parts f))"
  "foldl FAnd (hd (and_parts f)) (tl (and_parts f)) = f"
  by (induction f rule: and_parts.induct) (simp_all add: separated_snoc)

lemma or_parts:
  "or_parts f \<noteq> []" "filter_toks f = keyed ''OR'' (map filter_toks (or_parts f))"
  "foldl FOr (hd (or_parts f)) (tl (or_parts f)) = f"
  by (induction f rule: or_parts.induct) (simp_all add: separated_snoc)

lemma leaf_conj: "is_leaf f \<Longrightarrow> conj_shape f" "conj_shape f \<Longrightarrow> x \<in> set (and_parts f) \<Longrightarrow> is_leaf x"
  "disj_shape f \<Longrightarrow> x \<in> set (or_parts f) \<Longrightarrow> conj_shape x"
  by (cases f; simp) (induction f; auto)+

text \<open>A parser of conditions: what it gives on the text of a condition that it accepts.\<close>

locale leaf_parser =
  fixes leaf :: "string \<Rightarrow> filter_expr result" and ok :: "filter_expr \<Rightarrow> bool"
  assumes leaf_text: "is_leaf f \<Longrightarrow> ok f \<Longrightarrow> length (text_of (filter_toks f)) < 2 ^ 31 \<Longrightarrow>
      leaf (text_of (filter_toks f)) = Ok f"
    and leaf_piece: "is_leaf f \<Longrightarrow> ok f \<Longrightarrow> piece {''AND'', ''OR''} (filter_toks f)"
    and ok_parts: "ok (FAnd l r) \<Longrightarrow> ok l \<and> ok r" "ok (FOr l r) \<Longrightarrow> ok l \<and> ok r"
begin

lemma ok_and: "ok f \<Longrightarrow> x \<in> set (and_parts f) \<Longrightarrow> ok x"
  by (induction f) (auto dest: ok_parts)

lemma ok_or: "ok f \<Longrightarrow> x \<in> set (or_parts f) \<Longrightarrow> ok x"
  by (induction f) (auto dest: ok_parts)

lemma leaf_or: "is_leaf f \<Longrightarrow> ok f \<Longrightarrow> piece {''OR''} (filter_toks f)"
  by (rule piece_mono [OF leaf_piece]) simp_all

lemma conj_piece: "conj_shape f \<Longrightarrow> ok f \<Longrightarrow> piece {''OR''} (filter_toks f)"
proof (induction f)
  case (FAnd l r)
  have "piece {''OR''} [W ''AND'']" by (rule keyword_piece) (simp_all add: reserved_def)
  moreover have "piece {''OR''} (filter_toks r)"
    using FAnd.prems ok_parts(1) [of l r] by (intro leaf_or) simp_all
  moreover have "piece {''OR''} (filter_toks l)" using FAnd ok_parts(1) [of l r] by simp
  ultimately show ?case using piece_append [OF _ piece_pair] by simp
qed (simp_all add: leaf_or del: filter_toks.simps)

lemma and_text:
  assumes "conj_shape f" "ok f" "length (text_of (filter_toks f)) < 2 ^ 31"
  shows "parse_and_expr leaf (text_of (filter_toks f)) = Ok f"
proof -
  have "piece {''AND''} (filter_toks x) \<and> leaf (text_of (filter_toks x)) = Ok x" if "x \<in> set (and_parts f)" for x
    using separated_bound [of "filter_toks x" "map filter_toks (and_parts f)" "[SP, W ''AND'', SP]"] that
      leaf_conj(2) [OF assms(1) that] ok_and [OF assms(2) that] assms(3) piece_mono [OF leaf_piece, of x "{''AND''}"]
    by (auto simp: and_parts(2) [of f, symmetric] intro!: leaf_text)
  with parse_chain [of "''AND''" "and_parts f" leaf FAnd] and_parts [of f] assms(3) show ?thesis
    by (simp add: parse_and_expr_def key_of_def)
qed

lemma or_text:
  assumes "disj_shape f" "ok f" "length (text_of (filter_toks f)) < 2 ^ 31"
  shows "parse_or_expr leaf (text_of (filter_toks f)) = Ok f"
proof -
  have "piece {''OR''} (filter_toks x) \<and> parse_and_expr leaf (text_of (filter_toks x)) = Ok x" if "x \<in> set (or_parts f)" for x
    using separated_bound [of "filter_toks x" "map filter_toks (or_parts f)" "[SP, W ''OR'', SP]"] that
      leaf_conj(3) [OF assms(1) that] ok_or [OF assms(2) that] assms(3) conj_piece [of x]
    by (auto simp: or_parts(2) [of f, symmetric] intro!: and_text)
  with parse_chain [of "''OR''" "or_parts f" "parse_and_expr leaf" FOr] or_parts [of f] assms(3) show ?thesis
    by (simp add: parse_or_expr_def key_of_def)
qed

end

section \<open>WHERE and HAVING\<close>

text \<open>The subqueries of a condition are parsed by \<open>q\<close>.\<close>

fun subqueries_ok :: "(string \<Rightarrow> statement result) \<Rightarrow> filter_expr \<Rightarrow> bool" where
  "subqueries_ok q (FAnd l r) \<longleftrightarrow> subqueries_ok q l \<and> subqueries_ok q r"
| "subqueries_ok q (FOr l r) \<longleftrightarrow> subqueries_ok q l \<and> subqueries_ok q r"
| "subqueries_ok q (InSubquery c s negated) \<longleftrightarrow> q (statement_text s) = Ok s"
| "subqueries_ok q f \<longleftrightarrow> True"

lemma leaf_piece_and_or: "is_leaf f \<Longrightarrow> printable_filter f \<Longrightarrow> piece {''AND'', ''OR''} (filter_toks f)"
proof -
  assume "is_leaf f" "printable_filter f"
  with filter_statement_piece(1) [of f] have "piece Leaf (filter_toks f)" by blast
  then show ?thesis by (rule piece_mono) (simp add: reserved_def)
qed

interpretation where_leaf: leaf_parser "parse_comparison_expr q" "\<lambda>f. printable_filter f \<and> subqueries_ok q f" for q
proof
  fix f
  assume f: "is_leaf f" "printable_filter f \<and> subqueries_ok q f" "length (text_of (filter_toks f)) < 2 ^ 31"
  show "parse_comparison_expr q (text_of (filter_toks f)) = Ok f"
  proof (cases f)
    case (Compare c op v)
    with f parse_compare [of c v op q] parse_like [of c v q] show ?thesis by (cases "op = OpLike") simp_all
  next
    case (IsNull c)
    with f parse_is_null [of c q] show ?thesis by (simp del: filter_toks.simps)
  next
    case (IsNotNull c)
    with f parse_is_not_null [of c q] show ?thesis by (simp del: filter_toks.simps)
  next
    case (InList c vs negated)
    with f parse_in_list [of c vs negated q] show ?thesis by (simp del: filter_toks.simps)
  next
    case (InSubquery c s negated)
    with f parse_in_subquery [of c s q negated] show ?thesis by (simp del: filter_toks.simps)
  qed (use f(1) in simp_all)
qed (simp_all add: leaf_piece_and_or)

lemma parse_where_text:
  assumes "disj_shape f" "printable_filter f" "subqueries_ok q f" "length (text_of (filter_toks f)) < 2 ^ 31"
  shows "parse_filter q (text_of (filter_toks f)) = Ok f"
  using where_leaf.or_text [of f q] assms filter_trim(1) [of f] by (simp add: parse_filter_def)

lemma aggregate_parts:
  "text_of (aggregate_toks func target) = aggregate_name func @ LPAREN # untok (target_toks target) @ [RPAREN]"
  by (simp add: aggregate_toks_def)

lemma aggregate_func_name: "aggregate_func_parse (trim (aggregate_name func)) = Some func"
proof -
  have "piece {} [W (aggregate_name func)]" by (cases func; simp; rule keyword_piece; simp)
  from piece_trim(1) [OF this] have "trim (aggregate_name func) = aggregate_name func" by simp
  then show ?thesis by (cases func) (simp_all add: aggregate_func_parse_def to_ascii_uppercase_def ascii_upper_def byte_def)
qed

lemma try_aggregate_label:
  assumes t: "printable_target target"
  shows "try_parse_aggregate (aggregate_label func target) = Ok (Some (Aggregate func target))"
proof -
  let ?n = "aggregate_name func" and ?s = "text_of (aggregate_toks func target)" and ?i = "untok (target_toks target)"
  have tr: "trim ?s = ?s" using aggregate_piece [OF t] by (rule piece_trim(1))
  have p: "piece {} [target_toks target]"
    using t name_piece0 piece_mono [OF star_piece, of "{}"]
    by (cases target) (simp_all add: printable_target_def target_toks_def)
  have "str_prefix (?n @ LPAREN # ?i @ [RPAREN]) (length ?n) = (Ok ?n :: string result)"
    by (rule slice_append(1)) (simp add: byte_def)
  moreover have "str_slice (?n @ LPAREN # ?i @ [RPAREN]) (Suc (length ?n)) (Suc (length ?n + length ?i)) = (Ok ?i :: string result)"
    using slice_middle [of ?i "[RPAREN]" "?n @ [LPAREN]"] clean_text [OF pieceD(2) [OF p], of "[RPAREN]"]
    by (simp add: byte_def)
  moreover have "trim ?i = ?i" using piece_trim(1) [OF p] by simp
  moreover have "str_ends_with RPAREN (?n @ LPAREN # ?i @ [RPAREN])" by (simp add: str_ends_with_def)
  moreover have "str_find LPAREN (?n @ LPAREN # ?i @ [RPAREN]) = Some (length ?n)" by (simp add: str_find_append)
  ultimately have "try_parse_aggregate ?s = Ok (Some (Aggregate func target))"
    using tr aggregate_func_name [of func] t name_chars word_char_not
    unfolding aggregate_parts
    by (cases target) (auto simp: try_parse_aggregate_def target_toks_def printable_target_def name_def ident_def Let_def
        is_ascii_digit_def byte_def)
  then show ?thesis by (simp only: aggregate_text)
qed

lemma try_aggregate_name: "name c \<Longrightarrow> try_parse_aggregate c = Ok None"
proof -
  assume c: "name c"
  then have "LPAREN \<notin> set c" using name_chars word_char_not(3) by blast
  with c show ?thesis by (simp add: try_parse_aggregate_def str_find_none)
qed

lemma parse_having_leaf:
  assumes c: "having_column c" and v: "printable_value v" and op: "op \<noteq> OpLike"
  shows "parse_having_comparison (text_of (filter_toks (Compare c op v))) = Ok (Compare c op v)"
proof -
  let ?s = "text_of (filter_toks (Compare c op v))"
  have t: "trim ?s = ?s" using piece_trim(1) [OF having_leaf_piece [OF assms]] by simp
  have c': "trim c = c" "trim (c @ '' '') = c"
    using piece_trim(1,3) [OF having_column_piece(1) [OF c]] by (simp_all add: having_column_piece(2) [OF c])
  obtain a where a: "try_parse_aggregate c = Ok a" "(case a of Some (Aggregate func target) \<Rightarrow> Ok (aggregate_label func target)
      | _ \<Rightarrow> normalize_identifier (trim (c @ '' ''))) = Ok c"
    using c by (cases rule: having_column_cases) (simp_all add: c' try_aggregate_name try_aggregate_label)
  then show ?thesis
    using comparison_text [OF assms] t c' v
    by (simp add: parse_having_comparison_def Let_def parse_literal_text del: text_of_simps)
qed

interpretation having_leaf: leaf_parser parse_having_comparison printable_having
proof
  fix f
  assume f: "is_leaf f" "printable_having f"
  show "piece {''AND'', ''OR''} (filter_toks f)"
  proof (cases f)
    case (Compare c op v)
    with f have "piece Rsv (filter_toks f)" by (simp add: having_leaf_piece)
    then show ?thesis by (rule piece_mono) (simp add: reserved_def)
  qed (use f in simp_all)
  show "parse_having_comparison (text_of (filter_toks f)) = Ok f"
    using f parse_having_leaf by (cases f) (auto simp del: filter_toks.simps)
qed simp_all

lemma parse_having_text:
  assumes "disj_shape h" "printable_having h" "length (text_of (filter_toks h)) < 2 ^ 31"
  shows "parse_having (text_of (filter_toks h)) = Ok h"
  using having_leaf.or_text [of h] assms piece_trim(1) [OF having_tree_piece, of h] by (simp add: parse_having_def)

end
