(* ===== verification/Statement_Text.thy ===== *)
theory Statement_Text
  imports Filter_Text
begin

text \<open>
  Parsing the text of each statement gives the statement back.
\<close>

section \<open>The first words\<close>

lemma split_whitespace_Cons:
  assumes "list_all upper w" "w \<noteq> []"
  shows "split_whitespace (w @ CHR '' '' # r) = w # split_whitespace r"
proof -
  have "\<forall>c \<in> set w. byte c < 128 \<and> \<not> is_whitespace [c]"
    using upper_word [OF assms(1)] word_char_not by (auto simp: list_all_iff)
  moreover from this have "is_ascii w" by (simp add: is_ascii_def)
  ultimately show ?thesis
    using split_ws_word [of w "chars (CHR '' '' # r)" "[]"] assms(2)
    by (simp add: split_whitespace_def chars_ascii_append utf8_extra_def is_whitespace_def byte_def)
qed

lemma not_exact: "list_all upper w \<Longrightarrow> w \<noteq> [] \<Longrightarrow> list_all upper k \<Longrightarrow> w \<noteq> k \<Longrightarrow>
    \<not> is_exact_keywords (w @ CHR '' '' # r) (k # ks)"
  by (simp add: is_exact_keywords_def split_whitespace_Cons word_neq Let_def)

text \<open>Whether a text starts with a keyword, in any case.\<close>

definition leads :: "string \<Rightarrow> string \<Rightarrow> bool" where
  "leads k s \<longleftrightarrow> length k \<le> length s \<and> eq_ignore_ascii_case (take (length k) s) k"

lemma strip_prefix_leads:
  assumes "is_ascii h" "length k < length h \<or> r = []"
  shows "strip_prefix_ci (h @ r) k = Ok (if leads k (h @ r) then Some (drop (length k) (h @ r)) else None)"
proof (cases "length k \<le> length (h @ r)")
  case True
  let ?s = "h @ r"
  have "byte (h ! i) < 128" if "i < length h" for i
    using assms(1) nth_mem [OF that] by (simp only: is_ascii_def list_all_iff)
  then have "\<not> is_continuation (?s ! length k)" if "length k < length ?s"
    using assms(2) that by (fastforce simp: nth_append is_continuation_def)
  with True have b: "is_char_boundary ?s (length k)" "is_char_boundary ?s 0" "is_char_boundary ?s (length ?s)"
    by (auto simp: is_char_boundary_def)
  have "str_prefix ?s (length k) = (Ok (take (length k) ?s) :: string result)"
    "str_suffix ?s (length k) = (Ok (drop (length k) ?s) :: string result)"
    unfolding str_prefix_def str_suffix_def str_slice_def using b True by simp_all
  with True show ?thesis by (simp add: strip_prefix_ci_def leads_def)
qed (simp add: strip_prefix_ci_def leads_def)

lemma dispatch_skip:
  assumes "is_ascii h" "length k < length h \<or> r = []"
  shows "dispatch (h @ r) ((k, p) # table) = (if leads k (h @ r) then p (h @ r) else dispatch (h @ r) table)"
  using strip_prefix_leads [OF assms] by simp

lemma leads_simps [simp]:
  "leads (k # ks) (c # s) \<longleftrightarrow> ascii_lower c = ascii_lower k \<and> leads ks s" "leads [] s" "\<not> leads (k # ks) []"
  by (auto simp: leads_def eq_ignore_ascii_case_def to_ascii_lowercase_def)

lemma leads_self [simp]: "leads k (k @ r)"
  by (simp add: leads_def eq_ignore_ascii_case_def)

lemma lower_upper: "upper c \<Longrightarrow> upper d \<Longrightarrow> ascii_lower c = ascii_lower d \<longleftrightarrow> c = d"
  using lower_eq_upper [of d c] upper_byte [of c] by auto

lemma lower_space [simp]: "ascii_lower CHR '' '' = CHR '' ''"
  by (simp add: ascii_lower_def byte_def)

section \<open>Trimmed texts\<close>

lemma statement_trim:
  assumes "printable st"
  shows "trim (statement_text st) = statement_text st" "statement_text st \<noteq> []"
  using filter_statement_piece(2) [OF assms] piece_trim(1) piece_text
  by (auto simp: statement_piece_def statement_text_def)

lemma statement_rest_text:
  assumes "trim s = s" "s = key @ CHR '' '' # text_of ts" "is_ascii key" "piece {} ts"
  shows "statement_rest s key = Ok (text_of ts)"
  using assms strip_prefix_same [OF assms(3), of "CHR '' '' # text_of ts"] piece_trim(2) [OF assms(4)]
  by (simp add: statement_rest_def byte_def)

text \<open>A statement whose first word is not that of a statement without arguments goes to the table.\<close>

abbreviation "table \<equiv> [(''DESCRIBE'', parse_describe), (''CREATE TABLE'', parse_create_table),
        (''CREATE INDEX'', parse_create_index), (''DROP TABLE'', parse_drop_table),
        (''DROP INDEX'', parse_drop_index), (''INSERT INTO'', parse_insert), (''UPDATE'', parse_update),
        (''ALTER TABLE'', parse_alter_table), (''SELECT'', parse_select), (''DELETE FROM'', parse_delete)]"

lemma parse_statement_table:
  assumes "trim s = s" "s = w @ CHR '' '' # r" "list_all upper w" "w \<noteq> []"
    "w \<notin> {''SHOW'', ''BEGIN'', ''COMMIT'', ''ROLLBACK''}"
  shows "parse_statement s = dispatch s table"
  using assms not_exact [OF assms(3,4)] by (simp add: parse_statement_def Let_def)

lemma dispatch_table:
  assumes "is_ascii h" "12 < length h \<or> r = []"
  shows "dispatch (h @ r) table = (let s = h @ r in
     if leads ''DESCRIBE'' s then parse_describe s else if leads ''CREATE TABLE'' s then parse_create_table s
     else if leads ''CREATE INDEX'' s then parse_create_index s else if leads ''DROP TABLE'' s then parse_drop_table s
     else if leads ''DROP INDEX'' s then parse_drop_index s else if leads ''INSERT INTO'' s then parse_insert s
     else if leads ''UPDATE'' s then parse_update s else if leads ''ALTER TABLE'' s then parse_alter_table s
     else if leads ''SELECT'' s then parse_select s else if leads ''DELETE FROM'' s then parse_delete s
     else dispatch s [])"
proof -
  have "length k < length h \<or> r = []" if "length k \<le> 12" for k :: string using assms(2) that by auto
  note skip = dispatch_skip [OF assms(1) this]
  show ?thesis by (simp add: skip Let_def del: dispatch.simps)
qed

lemma name_ascii: "name n \<Longrightarrow> is_ascii n"
  using name_chars word_char_not(8) by (auto simp: is_ascii_def)

section \<open>Tables and indexes\<close>

lemma parse_describe_text: "printable (Describe t) \<Longrightarrow> parse_statement (statement_text (Describe t)) = Ok (Describe t)"
proof -
  assume p: "printable (Describe t)"
  then have t: "name t" "is_ascii t" using name_chars word_char_not(8) by (auto simp: is_ascii_def)
  let ?s = "''DESCRIBE '' @ t"
  have "strip_prefix_ci (?s @ []) ''DESCRIBE'' = Ok (Some (CHR '' '' # t))"
    using t by (subst strip_prefix_leads) (simp_all add: byte_def)
  moreover have "parse_statement ?s = dispatch ?s table"
    using statement_trim [OF p] by (intro parse_statement_table [where w = "''DESCRIBE''"]) (simp_all add: statement_text_def)
  ultimately show ?thesis using t by (simp add: statement_text_def parse_describe_def)
qed

lemma parse_drop_text:
  assumes "name t"
  shows "parse_statement (statement_text (DropTable t)) = Ok (DropTable t)"
    "parse_statement (statement_text (DropIndex t)) = Ok (DropIndex t)"
proof -
  have p: "printable (DropTable t)" "printable (DropIndex t)" using assms by simp_all
  let ?s = "statement_text (DropTable t)" and ?i = "statement_text (DropIndex t)"
  note trim = statement_trim [OF p(1)] statement_trim [OF p(2)]
  have "parse_statement ?s = dispatch ?s table" "parse_statement ?i = dispatch ?i table"
    using trim by (intro parse_statement_table [where w = "''DROP''"]; simp add: statement_text_def)+
  moreover have "statement_rest ?s ''DROP TABLE'' = Ok t" "statement_rest ?i ''DROP INDEX'' = Ok t"
    using trim name_piece0 [OF assms] statement_rest_text [of ?s "''DROP TABLE''" "[W t]"]
      statement_rest_text [of ?i "''DROP INDEX''" "[W t]"] by (simp_all add: statement_text_def byte_def)
  ultimately show "parse_statement ?s = Ok (DropTable t)" "parse_statement ?i = Ok (DropIndex t)"
    using dispatch_table [of "''DROP TABLE '' @ t" "[]"] dispatch_table [of "''DROP INDEX '' @ t" "[]"] assms
    by (simp_all add: statement_text_def name_ascii lower_upper byte_def parse_drop_table_def parse_drop_index_def Let_def)
qed

text \<open>A text up to its last closing parenthesis.\<close>

lemma close_text:
  assumes "LPAREN \<notin> set a" "clean (b @ [RPAREN])"
  shows "str_find LPAREN (a @ LPAREN # b @ [RPAREN]) = Some (length a)"
    "str_rfind RPAREN (a @ LPAREN # b @ [RPAREN]) = Some (length a + 1 + length b)"
    "str_prefix (a @ LPAREN # b @ [RPAREN]) (length a) = (Ok a :: string result)"
    "str_slice (a @ LPAREN # b @ [RPAREN]) (length a + 1) (length a + 1 + length b) = (Ok b :: string result)"
    "str_suffix (a @ LPAREN # b @ [RPAREN]) (length a + 1 + length b + 1) = (Ok [] :: string result)"
proof -
  show "str_find LPAREN (a @ LPAREN # b @ [RPAREN]) = Some (length a)" using assms(1) by (rule str_find_append)
  show "str_rfind RPAREN (a @ LPAREN # b @ [RPAREN]) = Some (length a + 1 + length b)"
    using str_rfind_append [of RPAREN "[]" "a @ LPAREN # b"] by simp
  have "clean (LPAREN # b @ [RPAREN])" by (simp add: byte_def)
  then show "str_prefix (a @ LPAREN # b @ [RPAREN]) (length a) = (Ok a :: string result)" by (rule slice_append(1))
  have "clean [RPAREN]" by (simp add: byte_def)
  from slice_middle [OF assms(2) this, of "a @ [LPAREN]"]
  show "str_slice (a @ LPAREN # b @ [RPAREN]) (length a + 1) (length a + 1 + length b) = (Ok b :: string result)" by simp
  from slice_append(2) [of "[]" "a @ LPAREN # b @ [RPAREN]"]
  show "str_suffix (a @ LPAREN # b @ [RPAREN]) (length a + 1 + length b + 1) = (Ok [] :: string result)" by simp
qed

lemma parse_create_index_text:
  assumes p: "printable (CreateIndex i t c)" and len: "length (statement_text (CreateIndex i t c)) < 2 ^ 31"
  shows "parse_statement (statement_text (CreateIndex i t c)) = Ok (CreateIndex i t c)"
proof -
  let ?s = "statement_text (CreateIndex i t c)"
  have n: "name i" "name t" "name c" using p by simp_all
  note trim = statement_trim [OF p]
  have "piece {} (parens [W c])" using pieceD(2,4) [OF name_piece0 [OF n(3)]] by (intro piece_parens)
  then have w: "piece {} [W t, SP, P LPAREN, W c, P RPAREN]" using name_pair [OF n(2)] by simp
  have "piece {} (W i # SP # W ''ON'' # SP # [W t, SP, P LPAREN, W c, P RPAREN])"
    using n(1) lead_piece(1) [OF _ lead_piece(1) [OF _ w], of i "''ON''"] by simp
  then have rest: "statement_rest ?s ''CREATE INDEX'' = Ok (i @ '' ON '' @ t @ '' ('' @ c @ '')'')"
    using trim statement_rest_text [of ?s "''CREATE INDEX''" "W i # SP # W ''ON'' # SP # [W t, SP, P LPAREN, W c, P RPAREN]"]
    by (simp add: statement_text_def byte_def)
  have "clean ('' '' @ t @ '' ('' @ c @ '')'')" by (simp add: byte_def)
  note on = cut [of Rsv "''ON''" "[W i]" "'' '' @ t @ '' ('' @ c @ '')''", OF _ name_piece [OF n(1)] _ _ this]
  have tr: "trim ('' '' @ t @ '' ('' @ c @ '')'') = t @ '' ('' @ c @ '')''" using piece_trim(2) [OF w] by simp
  have a: "LPAREN \<notin> set (t @ '' '')" using name_chars [OF n(2)] word_char_not(3) by auto
  have b: "clean (c @ [RPAREN])" using clean_text [of "[W c]" "[RPAREN]"] pieceD(2) [OF name_piece [OF n(3)]] by (simp add: byte_def)
  note cl = close_text [OF a b]
  have "parse_statement ?s = dispatch ?s table"
    using trim by (intro parse_statement_table [where w = "''CREATE''"]; simp add: statement_text_def)
  then show ?thesis
    using dispatch_table [of "''CREATE INDEX ''" "i @ '' ON '' @ t @ '' ('' @ c @ '')''"] rest on tr cl n len
    by (simp add: statement_text_def lower_upper byte_def parse_create_index_def reserved_def Let_def)
qed

section \<open>Column definitions\<close>

lemma parse_data_type [simp]: "data_type_parse (show_data_type ty) = Some ty"
  by (induct ty; code_simp)

lemma parse_reference:
  assumes "name t" "name c"
  shows "parse_references_spec ((t @ LPAREN # c @ [RPAREN]) # tokens) = Ok (CReferences t c, 1)"
proof -
  have a: "LPAREN \<notin> set t" using name_chars [OF assms(1)] word_char_not(3) by auto
  have b: "clean (c @ [RPAREN])"
    using clean_text [of "[W c]" "[RPAREN]"] pieceD(2) [OF name_piece [OF assms(2)]] by (simp add: byte_def)
  from close_text [OF a b] assms show ?thesis by (simp add: parse_references_spec_def Let_def)
qed

lemma parse_constraints:
  assumes "list_all (printable_constraint pk) ks"
  shows "column_constraints pk place (map text_of (concat (map constraint_toks ks))) out = Ok (out @ ks)"
  using assms
proof (induction ks arbitrary: out)
  case (Cons k ks)
  show ?case
  proof (cases k)
    case (CReferences t c)
    with Cons parse_reference [of t c] show ?thesis
      by (simp add: constraint_toks_def printable_constraint_def word_neq)
  qed (use Cons in \<open>simp_all add: constraint_toks_def printable_constraint_def word_neq\<close>)
qed simp

abbreviation spaceless :: "string \<Rightarrow> bool" where
  "spaceless w \<equiv> w \<noteq> [] \<and> (\<forall>c \<in> set w. byte c < 128 \<and> \<not> is_whitespace [c])"

lemma word_spaceless: "list_all word_char w \<Longrightarrow> w \<noteq> [] \<Longrightarrow> spaceless w"
  using word_char_not(8,9) by (auto simp: list_all_iff)

lemma constraint_words:
  assumes "list_all (printable_constraint pk) ks" "w \<in> set (map text_of (concat (map constraint_toks ks)))"
  shows "spaceless w"
proof -
  from assms obtain k where k: "printable_constraint pk k" "w \<in> set (map text_of (constraint_toks k))"
    by (auto simp: list_all_iff)
  have p: "byte LPAREN < 128 \<and> \<not> is_whitespace ''(''" "byte RPAREN < 128 \<and> \<not> is_whitespace '')''"
    by (simp_all add: is_whitespace_def byte_def)
  show ?thesis
  proof (cases k)
    case (CReferences t c)
    with k have "name t" "name c" "w = ''REFERENCES'' \<or> w = t @ LPAREN # c @ [RPAREN]"
      by (auto simp: constraint_toks_def printable_constraint_def)
    with p show ?thesis using name_chars word_char_not(8,9) word_char_upper by auto
  qed (use k word_char_not(8,9) word_char_upper in \<open>auto simp: constraint_toks_def\<close>)
qed

lemma column_words:
  assumes "printable_column pk cd"
  shows "split_whitespace (text_of (column_def_toks cd)) =
    cd_name cd # show_data_type (cd_type cd) # map text_of (concat (map constraint_toks (cd_constraints cd)))"
proof -
  have "spaceless (cd_name cd)"
    using assms ident_word [of "cd_name cd"] by (intro word_spaceless) (simp_all add: printable_column_def name_def)
  moreover have "spaceless (show_data_type ty)" for ty by (rule word_spaceless; cases ty; simp)
  moreover have "list_all spaceless (map text_of (concat (map constraint_toks (cd_constraints cd))))"
    using constraint_words [of pk "cd_constraints cd"] assms unfolding list_all_iff by (auto simp: printable_column_def list_all_iff)
  ultimately show ?thesis
    using split_whitespace_join [of "cd_name cd # show_data_type (cd_type cd) #
        map text_of (concat (map constraint_toks (cd_constraints cd)))"]
    unfolding column_def_toks_def separated_text by simp
qed

lemma parse_column_text:
  assumes "printable_column True cd"
  shows "parse_column_def (text_of (column_def_toks cd)) = Ok cd"
  using assms parse_constraints [of True "cd_constraints cd" "''column definition''" "[]"]
  by (simp add: parse_column_def_def column_words [OF assms] printable_column_def)

lemma split_columns:
  assumes "list_all (printable_column pk) cols" "cols \<noteq> []" "length (text_of (commas (map column_def_toks cols))) < 2 ^ 31"
  shows "split_comma_aware (text_of (commas (map column_def_toks cols))) = Ok (map (\<lambda>cd. text_of (column_def_toks cd)) cols)"
proof (rule split_list [where K = "{}"])
  have "flat (\<lambda>t. t \<noteq> P CHR '','') (column_def_toks cd)" if "printable_column pk cd" for cd
    using column_def_piece(2) [OF that] pieceD(4) [OF column_def_piece(1) [OF that]] by (rule scan_absent)
  then show "list_all (\<lambda>cd. piece {} (column_def_toks cd) \<and> flat (\<lambda>t. t \<noteq> P CHR '','') (column_def_toks cd)) cols"
    using assms(1) column_def_piece(1) by (fastforce simp: list_all_iff)
qed (use assms in simp_all)

lemma columns_piece:
  "list_all (printable_column pk) cols \<Longrightarrow> cols \<noteq> [] \<Longrightarrow> piece {} (commas (map column_def_toks cols))"
  using column_def_piece(1) [of pk] by (intro piece_commas) (auto simp: list_all_iff)

lemma parse_create_table_text:
  assumes p: "printable (CreateTable t cols)" and len: "length (statement_text (CreateTable t cols)) < 2 ^ 31"
  shows "parse_statement (statement_text (CreateTable t cols)) = Ok (CreateTable t cols)"
proof -
  let ?s = "statement_text (CreateTable t cols)" and ?ts = "commas (map column_def_toks cols)"
  let ?r = "t @ '' '' @ LPAREN # text_of ?ts @ [RPAREN]"
  have c: "name t" "list_all (printable_column True) cols" "cols \<noteq> []" using p by simp_all
  note trim = statement_trim [OF p]
  note cols = columns_piece [OF c(2,3)]
  have "piece {} (parens ?ts)" using pieceD(2,4) [OF cols] by (rule piece_parens)
  from name_pair [OF c(1) this] have "statement_rest ?s ''CREATE TABLE'' = Ok ?r"
    using trim statement_rest_text [of ?s "''CREATE TABLE''" "W t # SP # parens ?ts"] by (simp add: statement_text_def byte_def)
  moreover have "split_comma_aware (text_of ?ts) = Ok (map (\<lambda>cd. text_of (column_def_toks cd)) cols)"
    using len by (intro split_columns [OF c(2,3)]) (simp add: statement_text_def)
  moreover have "map_res parse_column_def (map (\<lambda>cd. text_of (column_def_toks cd)) cols) = Ok cols"
    using c(2) by (intro map_res_Ok parse_column_text) (simp add: list_all_iff)
  moreover have a: "LPAREN \<notin> set (t @ '' '')" using name_chars [OF c(1)] word_char_not(3) by auto
  have b: "clean (text_of ?ts @ [RPAREN])" using clean_text [OF pieceD(2) [OF cols]] by (simp add: byte_def)
  note close_text [OF a b]
  moreover have "parse_statement ?s = dispatch ?s table"
    using trim by (intro parse_statement_table [where w = "''CREATE''"]; simp add: statement_text_def)
  ultimately show ?thesis
    using dispatch_table [of "''CREATE TABLE ''" ?r] c
    by (simp add: statement_text_def lower_upper byte_def parse_create_table_def Let_def)
qed

section \<open>ALTER TABLE\<close>

text \<open>The statement up to the operation, whose words are \<open>a\<close> and COLUMN.\<close>

lemma alter_text:
  assumes p: "printable st" and st: "statement_toks st =
      W ''ALTER'' # SP # W ''TABLE'' # SP # W t # SP # W a # SP # W ''COLUMN'' # SP # ts"
    and t: "name t" and a: "list_all upper a" "a \<noteq> []" "a \<in> Rsv" and ts: "piece {} ts" and len: "length (statement_text st) < 2 ^ 31"
    and K: "keyword_of Rsv (a @ '' COLUMN'')"
  defines "rest \<equiv> t @ CHR '' '' # (a @ '' COLUMN'') @ '' '' @ text_of ts"
  shows "parse_statement (statement_text st) = parse_alter_table (statement_text st)"
    "statement_rest (statement_text st) ''ALTER TABLE'' = Ok rest"
    "find_keyword_outside_quotes rest (a @ '' COLUMN'') = Some (Suc (length t))"
    "str_prefix rest (Suc (length t)) = (Ok (t @ '' '') :: string result)"
    "str_after rest (Suc (length t)) (a @ '' COLUMN'') = (Ok ('' '' @ text_of ts) :: string result)"
    "trim (CHR '' '' # text_of ts) = text_of ts"
    "piece J ts \<Longrightarrow> J \<subseteq> Rsv - {a} \<Longrightarrow> keyword_of J key \<Longrightarrow> find_keyword_outside_quotes rest key = None"
proof -
  let ?s = "statement_text st"
  have s: "?s = ''ALTER TABLE '' @ rest" by (simp add: statement_text_def st rest_def)
  note trim = statement_trim [OF p]
  have "piece {} (W t # SP # W a # SP # W ''COLUMN'' # SP # ts)"
    using t a lead_piece(1) [OF _ lead_piece(1) [OF _ lead_piece(1) [OF _ ts]], of t a "''COLUMN''"] by simp
  then show rest: "statement_rest ?s ''ALTER TABLE'' = Ok rest"
    using trim statement_rest_text [of ?s "''ALTER TABLE''" "W t # SP # W a # SP # W ''COLUMN'' # SP # ts"]
    by (simp add: s rest_def byte_def)
  have "parse_statement ?s = dispatch ?s table"
    using trim by (intro parse_statement_table [where w = "''ALTER''"]; simp add: s)
  moreover have "length t \<noteq> 0" using t by simp
  ultimately show "parse_statement ?s = parse_alter_table ?s"
    using dispatch_table [of "''ALTER TABLE '' @ t" "CHR '' '' # (a @ '' COLUMN'') @ '' '' @ text_of ts"] name_ascii [OF t]
    by (simp add: s rest_def lower_upper byte_def Let_def)
  have "clean ('' '' @ text_of ts)" by (simp add: byte_def)
  with cut [OF K, of "[W t]" "'' '' @ text_of ts"] name_piece [OF t] len
  show "find_keyword_outside_quotes rest (a @ '' COLUMN'') = Some (Suc (length t))"
    "str_prefix rest (Suc (length t)) = (Ok (t @ '' '') :: string result)"
    "str_after rest (Suc (length t)) (a @ '' COLUMN'') = (Ok ('' '' @ text_of ts) :: string result)"
    by (simp_all add: s rest_def)
  show "trim (CHR '' '' # text_of ts) = text_of ts" using ts by (rule piece_trim(2))
  assume ts': "piece J ts" and J: "J \<subseteq> Rsv - {a}" and key: "keyword_of J key"
  have "''COLUMN'' \<notin> J" using J by (auto simp: reserved_def)
  then have w: "piece J [W ''COLUMN'']" "piece J [W a]" using a J by (auto intro: keyword_piece)
  have n: "piece J [W t]" using J by (intro piece_mono [OF name_piece [OF t]]) auto
  have "piece J (W t # SP # W a # SP # W ''COLUMN'' # SP # ts)" using n w ts' by (intro piece_pair)
  from miss [OF key this] len show "find_keyword_outside_quotes rest key = None" by (simp add: s rest_def)
qed

lemma parse_alter_drop_text:
  assumes p: "printable (AlterTableDropColumn t c)" and len: "length (statement_text (AlterTableDropColumn t c)) < 2 ^ 31"
  shows "parse_statement (statement_text (AlterTableDropColumn t c)) = Ok (AlterTableDropColumn t c)"
proof -
  have n: "name t" "name c" using p by simp_all
  have K: "keyword_of Rsv (''DROP'' @ '' COLUMN'')" by (simp add: reserved_def)
  have c: "piece (Rsv - {''DROP''}) [W c]" by (rule piece_mono [OF name_piece [OF n(2)]]) auto
  note alter = alter_text [OF p _ n(1) _ _ _ name_piece0 [OF n(2)] len K]
  show ?thesis using alter(1-6) alter(7) [OF _ _ _ _ c, of "''ADD COLUMN''"] n
    by (simp add: reserved_def parse_alter_table_def)
qed

lemma parse_alter_rename_text:
  assumes p: "printable (AlterTableRenameColumn t old new)"
    and len: "length (statement_text (AlterTableRenameColumn t old new)) < 2 ^ 31"
  shows "parse_statement (statement_text (AlterTableRenameColumn t old new)) = Ok (AlterTableRenameColumn t old new)"
proof -
  have n: "name t" "name old" "name new" using p by simp_all
  let ?ts = "[W old, SP, W ''TO'', SP, W new]"
  have K: "keyword_of Rsv (''RENAME'' @ '' COLUMN'')" by (simp add: reserved_def)
  have ts: "piece (Rsv - {''TO''}) ?ts"
    using n piece_mono [OF name_piece, of _ "Rsv - {''TO''}"] keyword_piece [of "''TO''" "Rsv - {''TO''}"]
    by (intro piece_pair) simp_all
  have "clean (CHR '' '' # new)" by (simp add: byte_def)
  with cut [of Rsv "''TO''" "[W old]" "CHR '' '' # new"] name_piece [OF n(2)] len
  have to: "find_keyword_outside_quotes (old @ '' TO '' @ new) ''TO'' = Some (Suc (length old))"
    "str_prefix (old @ '' TO '' @ new) (Suc (length old)) = (Ok (old @ '' '') :: string result)"
    "str_after (old @ '' TO '' @ new) (Suc (length old)) ''TO'' = (Ok (CHR '' '' # new) :: string result)"
    by (simp_all add: reserved_def statement_text_def)
  have ts0: "piece {} ?ts" using ts by (rule piece_mono) simp
  have ts1: "piece (Rsv - {''TO'', ''RENAME''}) ?ts" using ts by (rule piece_mono) auto
  note alter = alter_text [OF p _ n(1) _ _ _ ts0 len K]
  have J: "Rsv - {''TO'', ''RENAME''} \<subseteq> Rsv - {''RENAME''}" by auto
  show ?thesis using alter(1-6) alter(7) [OF _ _ _ _ ts1 J, of "''ADD COLUMN''"] alter(7) [OF _ _ _ _ ts1 J, of "''DROP COLUMN''"] to n
    by (simp add: reserved_def parse_alter_table_def Let_def)
qed

lemma split_default_text:
  assumes c: "printable_column pk col" and v: "\<And>v. dflt = Some v \<Longrightarrow> printable_value v"
    and len: "length (text_of (column_def_toks col)) < 2 ^ 31"
  shows "split_default (text_of (column_def_toks col @ (case dflt of None \<Rightarrow> [] | Some v \<Rightarrow> [SP, W ''DEFAULT'', SP, literal v]))) =
    Ok (text_of (column_def_toks col), map_option (\<lambda>v. untok (literal v)) dflt)"
proof (cases dflt)
  case None
  have "keyword_of {''DEFAULT''} ''DEFAULT''" by simp
  from miss [OF this column_def_piece(4) [OF c] len] None show ?thesis by (simp add: split_default_def)
next
  case (Some v)
  have "clean ('' '' @ untok (literal v))" by (simp add: byte_def)
  with cut [of "{''DEFAULT''}" "''DEFAULT''" "column_def_toks col" "'' '' @ untok (literal v)", OF _ column_def_piece(4) [OF c] len]
    piece_trim(3) [OF column_def_piece(1) [OF c]] assms(2) [OF Some] Some
  show ?thesis by (simp add: split_default_def)
qed

lemma parse_alter_add_text:
  assumes p: "printable (AlterTableAddColumn t col dflt)"
    and len: "length (statement_text (AlterTableAddColumn t col dflt)) < 2 ^ 31"
  shows "parse_statement (statement_text (AlterTableAddColumn t col dflt)) = Ok (AlterTableAddColumn t col dflt)"
proof -
  have n: "name t" "printable_column False col" and v: "\<And>v. dflt = Some v \<Longrightarrow> printable_value v" using p by simp_all
  let ?d = "case dflt of None \<Rightarrow> [] | Some v \<Rightarrow> [SP, W ''DEFAULT'', SP, literal v]"
  have K: "keyword_of Rsv (''ADD'' @ '' COLUMN'')" by (simp add: reserved_def)
  have ts: "piece {} (column_def_toks col @ ?d)"
  proof (cases dflt)
    case (Some v')
    have "piece {} [literal v']" using v [OF Some] by (intro piece_mono [OF literal_piece]) simp_all
    with piece_append [OF column_def_piece(1) [OF n(2)] lead_piece(1), of "''DEFAULT''" "[literal v']"] Some
    show ?thesis by simp
  qed (simp add: column_def_piece(1) [OF n(2)])
  note alter = alter_text [OF p _ n(1) _ _ _ ts len K]
  have "length (text_of (column_def_toks col)) < 2 ^ 31" using len by (simp add: statement_text_def)
  from split_default_text [OF n(2) v this]
  have d: "split_default (text_of (column_def_toks col @ ?d)) =
    Ok (text_of (column_def_toks col), map_option (\<lambda>v. untok (literal v)) dflt)" .
  have "column_constraints False ''ADD COLUMN'' (map text_of (concat (map constraint_toks (cd_constraints col)))) [] =
      Ok (cd_constraints col)"
    using parse_constraints [of False "cd_constraints col"] n(2) by (simp add: printable_column_def)
  moreover have "text_of (column_def_toks col @ ?d) \<noteq> []" using ts by (rule piece_text)
  moreover have "untok (literal v) \<noteq> []" if "printable_value v" for v
    using piece_text [OF literal_piece [OF that]] by simp
  ultimately have "parse_alter_add_column t (text_of (column_def_toks col @ ?d)) = Ok (AlterTableAddColumn t col dflt)"
    using n(2) v unfolding parse_alter_add_column_def d
    by (cases dflt) (simp_all add: column_words [OF n(2)] printable_column_def parse_literal_text)
  with alter(1-6) n show ?thesis
    by (simp add: reserved_def parse_alter_table_def del: text_of_simps)
qed

section \<open>Data statements\<close>

abbreviation where_toks :: "filter_expr option \<Rightarrow> tok list" where
  "where_toks f \<equiv> (case f of None \<Rightarrow> [] | Some g \<Rightarrow> [SP, W ''WHERE'', SP] @ filter_toks g)"

text \<open>The filters of a statement that the parser gives back.\<close>

definition filter_ok :: "filter_expr option \<Rightarrow> bool" where
  "filter_ok f = (case f of None \<Rightarrow> True
     | Some g \<Rightarrow> disj_shape g \<and> printable_filter g \<and> subqueries_ok parse_select g)"

lemma split_where_text:
  assumes a: "piece Rsv a" and f: "filter_ok f" and len: "length (text_of (a @ where_toks f)) < 2 ^ 31"
  shows "split_where (text_of (a @ where_toks f)) = Ok (text_of a, map_option (\<lambda>g. text_of (filter_toks g)) f)"
proof (cases f)
  case None
  have "keyword_of Rsv ''WHERE''" by (simp add: reserved_def)
  from miss [OF this a] len None show ?thesis by (simp add: split_where_def)
next
  case (Some g)
  then have "piece Tree (filter_toks g)" using f filter_statement_piece(1) [of g] by (simp add: filter_ok_def)
  then have "trim (CHR '' '' # text_of (filter_toks g)) = text_of (filter_toks g)" by (rule piece_trim(2))
  moreover have "clean ('' '' @ text_of (filter_toks g))" by (simp add: byte_def)
  ultimately show ?thesis
    using cut [of Rsv "''WHERE''" a "'' '' @ text_of (filter_toks g)", OF _ a] piece_trim(3) [OF a] len Some
    by (simp add: split_where_def reserved_def)
qed

lemma parse_where_option:
  assumes "filter_ok f" "length (text_of (where_toks f)) < 2 ^ 31"
  shows "parse_where (map_option (\<lambda>g. text_of (filter_toks g)) f) = Ok f"
  using assms parse_where_text by (cases f) (simp_all add: parse_where_def filter_ok_def)

lemma parse_delete_text:
  assumes p: "printable (Delete t f)" and f: "filter_ok f" and len: "length (statement_text (Delete t f)) < 2 ^ 31"
  shows "parse_statement (statement_text (Delete t f)) = Ok (Delete t f)"
proof -
  let ?s = "statement_text (Delete t f)" and ?ts = "[W t] @ where_toks f"
  have t: "name t" using p by simp
  note trim = statement_trim [OF p]
  have g: "piece Tree (filter_toks g)" if "f = Some g" for g
    using f filter_statement_piece(1) [of g] that by (simp add: filter_ok_def)
  have ts: "piece {} ?ts" using name_piece0 [OF t] g by (rule where_piece)
  then have "statement_rest ?s ''DELETE FROM'' = Ok (text_of ?ts)"
    using trim statement_rest_text [of ?s "''DELETE FROM''" ?ts] by (simp add: statement_text_def byte_def)
  moreover have "split_where (text_of ?ts) = Ok (t, map_option (\<lambda>g. text_of (filter_toks g)) f)"
    using split_where_text [OF name_piece [OF t] f] len by (simp add: statement_text_def)
  moreover have "parse_where (map_option (\<lambda>g. text_of (filter_toks g)) f) = Ok f"
    using len by (intro parse_where_option [OF f]) (simp add: statement_text_def)
  moreover have "parse_statement ?s = dispatch ?s table"
    using trim by (intro parse_statement_table [where w = "''DELETE''"]; simp add: statement_text_def)
  moreover have "length t \<noteq> 0" using t by simp
  ultimately show ?thesis
    using dispatch_table [of "''DELETE FROM '' @ t" "text_of (where_toks f)"] t name_ascii [OF t] piece_text [OF ts]
    by (simp add: statement_text_def lower_upper byte_def parse_delete_def Let_def)
qed

lemma parse_assignment_text:
  assumes "name c" "printable_value v"
  shows "parse_assignment (text_of (assignment_toks (c, v))) = Ok (c, v)"
proof -
  let ?s = "(c @ '' '') @ CHR ''='' # '' '' @ untok (literal v)"
  have "free_of {CHR ''=''} (c @ '' '')" using free_name [OF assms(1), of "{CHR ''=''}"] by (simp add: byte_def)
  from find_char_at [OF this, of "'' '' @ untok (literal v)"]
  have "find_char_outside_quotes ?s ''='' = Ok (Suc (length c))" by (simp add: byte_def)
  moreover have "str_prefix ?s (Suc (length c)) = (Ok (c @ '' '') :: string result)"
    using slice_append(1) [of "CHR ''='' # '' '' @ untok (literal v)" "c @ '' ''"] by (simp add: byte_def)
  moreover have "str_suffix ?s (Suc (Suc (length c))) = (Ok ('' '' @ untok (literal v)) :: string result)"
    using slice_append(2) [of "'' '' @ untok (literal v)" "c @ '' =''"] by (simp add: byte_def)
  ultimately show ?thesis using assms by (simp add: parse_assignment_def assignment_toks_def parse_literal_text)
qed

lemma split_assignments:
  assumes "list_all (\<lambda>(c, v). name c \<and> printable_value v) asg" "asg \<noteq> []"
    "length (text_of (commas (map assignment_toks asg))) < 2 ^ 31"
  shows "split_comma_aware (text_of (commas (map assignment_toks asg))) = Ok (map (\<lambda>a. text_of (assignment_toks a)) asg)"
    "map_res parse_assignment (map (\<lambda>a. text_of (assignment_toks a)) asg) = Ok asg"
    "piece Rsv (commas (map assignment_toks asg))"
proof -
  have a: "piece Rsv (assignment_toks a) \<and> flat (\<lambda>t. t \<noteq> P CHR '','') (assignment_toks a)" if "a \<in> set asg" for a
  proof -
    have n: "name (fst a)" "printable_value (snd a)" using assms(1) that by (auto simp: list_all_iff)
    have "P CHR '','' \<notin> set (assignment_toks a)" by (auto simp: assignment_toks_def literal_not_space [symmetric])
    with assignment_piece [OF n] pieceD(4) scan_absent show ?thesis by blast
  qed
  with assms show "split_comma_aware (text_of (commas (map assignment_toks asg))) = Ok (map (\<lambda>a. text_of (assignment_toks a)) asg)"
    by (intro split_list [where K = Rsv]) (simp_all add: list_all_iff)
  show "map_res parse_assignment (map (\<lambda>a. text_of (assignment_toks a)) asg) = Ok asg"
    using assms(1) parse_assignment_text by (intro map_res_Ok) (auto simp: list_all_iff)
  show "piece Rsv (commas (map assignment_toks asg))" using a assms(2) by (intro piece_commas) (simp_all add: list_all_iff)
qed

lemma parse_update_text:
  assumes p: "printable (Update t asg f)" and f: "filter_ok f" and len: "length (statement_text (Update t asg f)) < 2 ^ 31"
  shows "parse_statement (statement_text (Update t asg f)) = Ok (Update t asg f)"
proof -
  let ?s = "statement_text (Update t asg f)" and ?a = "commas (map assignment_toks asg)"
  let ?ts = "?a @ where_toks f"
  have t: "name t" and asg: "list_all (\<lambda>(c, v). name c \<and> printable_value v) asg" "asg \<noteq> []" using p by simp_all
  note trim = statement_trim [OF p]
  have len': "length (text_of ?ts) < 2 ^ 31" "length (text_of ?a) < 2 ^ 31" "length (text_of (where_toks f)) < 2 ^ 31"
    using len by (simp_all add: statement_text_def)
  note a = split_assignments [OF asg len'(2)]
  have g: "piece Tree (filter_toks g)" if "f = Some g" for g
    using f filter_statement_piece(1) [of g] that by (simp add: filter_ok_def)
  have ts: "piece {} ?ts" using piece_mono [OF a(3)] g by (intro where_piece) simp_all
  from lead_piece(1) [OF _ lead_piece(1) [OF _ ts], of t "''SET''"] t
  have rest: "statement_rest ?s ''UPDATE'' = Ok (t @ CHR '' '' # ''SET'' @ '' '' @ text_of ?ts)"
    using trim statement_rest_text [of ?s "''UPDATE''" "W t # SP # W ''SET'' # SP # ?ts"]
    by (simp add: statement_text_def byte_def)
  have "clean ('' '' @ text_of ?ts)" by (simp add: byte_def)
  with cut [of Rsv "''SET''" "[W t]" "'' '' @ text_of ?ts"] name_piece [OF t] len
  have set: "find_keyword_outside_quotes (t @ CHR '' '' # ''SET'' @ '' '' @ text_of ?ts) ''SET'' = Some (Suc (length t))"
    "str_prefix (t @ CHR '' '' # ''SET'' @ '' '' @ text_of ?ts) (Suc (length t)) = (Ok (t @ '' '') :: string result)"
    "str_after (t @ CHR '' '' # ''SET'' @ '' '' @ text_of ?ts) (Suc (length t)) ''SET'' = (Ok ('' '' @ text_of ?ts) :: string result)"
    by (simp_all add: reserved_def statement_text_def)
  have "parse_statement ?s = dispatch ?s table"
    using trim by (intro parse_statement_table [where w = "''UPDATE''"]; simp add: statement_text_def)
  moreover have "length t \<noteq> 0" using t by simp
  ultimately have "parse_statement ?s = parse_update ?s"
    using dispatch_table [of "''UPDATE '' @ t @ '' SET ''" "text_of ?ts"] name_ascii [OF t]
    by (simp add: statement_text_def lower_upper byte_def Let_def)
  with rest set piece_trim(2) [OF ts] piece_text [OF ts] split_where_text [OF a(3) f len'(1)] a t asg(2)
    parse_where_option [OF f len'(3)]
  show ?thesis by (simp add: parse_update_def Let_def del: text_of_simps)
qed

lemma split_names:
  assumes "list_all name cs" "cs \<noteq> []" "length (text_of (commas (map (\<lambda>c. [W c]) cs))) < 2 ^ 31"
  shows "split_comma_aware (text_of (commas (map (\<lambda>c. [W c]) cs))) = Ok cs" "map_res normalize_identifier cs = Ok cs"
proof -
  have "split_comma_aware (text_of (commas (map (\<lambda>c. [W c]) cs))) = Ok (map (\<lambda>c. text_of [W c]) cs)"
    using assms name_piece by (intro split_list [where K = Rsv]) (simp_all add: list_all_iff)
  then show "split_comma_aware (text_of (commas (map (\<lambda>c. [W c]) cs))) = Ok cs" by simp
  show "map_res normalize_identifier cs = Ok cs"
    using assms(1) map_res_Ok [of cs normalize_identifier "\<lambda>c. c"] by (simp add: list_all_iff)
qed

definition insert_columns :: "string list option \<Rightarrow> tok list" where
  "insert_columns cols = (case cols of None \<Rightarrow> [] | Some cs \<Rightarrow> SP # parens (commas (map (\<lambda>c. [W c]) cs)))"

text \<open>What stands before VALUES: the table and its columns.\<close>

lemma insert_head:
  assumes t: "name t" and cols: "\<And>cs. cols = Some cs \<Longrightarrow> cs \<noteq> [] \<and> list_all name cs"
    and len: "length (text_of (W t # insert_columns cols)) < 2 ^ 31"
  shows "piece Rsv (W t # insert_columns cols)"
    "parse_insert_target (text_of (W t # insert_columns cols)) = Ok (t, cols)"
proof (atomize (full), cases cols)
  case None
  have "LPAREN \<notin> set t" using name_chars [OF t] word_char_not(3) by auto
  with None t show "piece Rsv (W t # insert_columns cols) \<and>
      parse_insert_target (text_of (W t # insert_columns cols)) = Ok (t, cols)"
    by (simp add: parse_insert_target_def insert_columns_def str_find_none name_piece)
next
  case (Some cs)
  let ?ts = "commas (map (\<lambda>c. [W c]) cs)"
  have cs: "cs \<noteq> []" "list_all name cs" using cols Some by simp_all
  have "piece Rsv (parens ?ts)" using pieceD(2,4) [OF names_piece [OF cs(2,1)]] by (rule piece_parens)
  from piece_pair [OF name_piece [OF t] this] have p: "piece Rsv (W t # insert_columns cols)"
    by (simp add: insert_columns_def Some)
  have a: "LPAREN \<notin> set (t @ '' '')" using name_chars [OF t] word_char_not(3) by auto
  have b: "clean (text_of ?ts @ [RPAREN])"
    using clean_text [OF pieceD(2) [OF names_piece [OF cs(2,1)]]] by (simp add: byte_def)
  have l: "length (text_of ?ts) < 2 ^ 31" using len by (simp add: insert_columns_def Some)
  have s: "text_of (W t # insert_columns cols) = (t @ '' '') @ LPAREN # text_of ?ts @ [RPAREN]"
    by (simp add: insert_columns_def Some)
  from p show "piece Rsv (W t # insert_columns cols) \<and>
      parse_insert_target (text_of (W t # insert_columns cols)) = Ok (t, cols)"
    using close_text [OF a b] split_names [OF cs(2,1) l] t cs Some unfolding s
    by (simp add: parse_insert_target_def del: append_assoc)
qed

lemma parse_insert_text:
  assumes p: "printable (Insert t cols vs)" and len: "length (statement_text (Insert t cols vs)) < 2 ^ 31"
  shows "parse_statement (statement_text (Insert t cols vs)) = Ok (Insert t cols vs)"
proof -
  let ?s = "statement_text (Insert t cols vs)" and ?h = "W t # insert_columns cols"
  let ?vs = "commas (map (\<lambda>v. [literal v]) vs)"
  let ?r = "'' '' @ text_of (parens ?vs)"
  have t: "name t" and v: "list_all printable_value vs" and cols: "\<And>cs. cols = Some cs \<Longrightarrow> cs \<noteq> [] \<and> list_all name cs"
    using p by simp_all
  note trim = statement_trim [OF p]
  have toks: "statement_toks (Insert t cols vs) =
      [W ''INSERT'', SP, W ''INTO'', SP] @ ?h @ SP # W ''VALUES'' # SP # parens ?vs"
    by (simp add: insert_columns_def split: option.split)
  have s: "?s = ''INSERT INTO '' @ text_of ?h @ CHR '' '' # ''VALUES'' @ ?r" by (simp add: statement_text_def toks del: statement_toks.simps)
  have len': "length (text_of ?h) < 2 ^ 31" using len by (simp add: s)
  have vp: "piece {} (parens ?vs)" using v by (rule values_parens_piece)
  have "piece {} (?h @ SP # W ''VALUES'' # SP # parens ?vs)"
    using piece_mono [OF insert_head(1) [OF t cols len'], of "{}"] head_piece [OF _ _ vp, of "''VALUES''"]
    by (intro piece_append) simp_all
  then have rest: "statement_rest ?s ''INSERT INTO'' = Ok (text_of ?h @ CHR '' '' # ''VALUES'' @ ?r)"
    using trim statement_rest_text [of ?s "''INSERT INTO''" "?h @ SP # W ''VALUES'' # SP # parens ?vs"]
    by (simp add: s byte_def)
  have "clean ?r" by (simp add: byte_def)
  note val = cut [of Rsv "''VALUES''" ?h ?r, OF _ insert_head(1) [OF t cols len'] len' _ this]
  have inner: "str_slice (LPAREN # text_of ?vs @ [RPAREN]) (Suc 0) (Suc (length (text_of ?vs))) = (Ok (text_of ?vs) :: string result)"
    "(if trim (text_of ?vs) = [] then Ok [] else tryq (split_comma_aware (text_of ?vs)) (map_res parse_literal)) = Ok vs"
  proof -
    have "piece Rsv ?vs \<and> length (text_of ?vs) < 2 ^ 31" if "vs \<noteq> []" using values_piece [OF v that] len by (simp add: s)
    then have ne: "vs \<noteq> [] \<Longrightarrow> trim (text_of ?vs) \<noteq> [] \<and> split_comma_aware (text_of ?vs) = Ok (map (\<lambda>v. untok (literal v)) vs)"
      using piece_trim(1) [of Rsv ?vs] piece_text [of Rsv ?vs] split_values [OF v] by simp
    then show "(if trim (text_of ?vs) = [] then Ok [] else tryq (split_comma_aware (text_of ?vs)) (map_res parse_literal)) = Ok vs"
      using parse_values [OF v] by (cases "vs = []") simp_all
    have "good ?vs" using v literal_good by (intro good_separated) (auto simp: list_all_iff)
    from clean_text [OF this, of "[RPAREN]"] slice_parens [of "text_of ?vs" RPAREN LPAREN]
    show "str_slice (LPAREN # text_of ?vs @ [RPAREN]) (Suc 0) (Suc (length (text_of ?vs))) = (Ok (text_of ?vs) :: string result)"
      by (simp add: byte_def)
  qed
  have "parse_statement ?s = dispatch ?s table"
    using trim by (intro parse_statement_table [where w = "''INSERT''"]; simp add: s)
  moreover have "length t \<noteq> 0" using t by simp
  ultimately have "parse_statement ?s = parse_insert ?s"
    using dispatch_table [of "''INSERT INTO '' @ t" "text_of (insert_columns cols) @ CHR '' '' # ''VALUES'' @ ?r"] name_ascii [OF t]
    by (simp add: s lower_upper byte_def Let_def)
  moreover have "trim (CHR '' '' # LPAREN # text_of ?vs @ [RPAREN]) = LPAREN # text_of ?vs @ [RPAREN]"
    using piece_trim(2) [OF vp] by simp
  moreover have "trim (text_of ?h @ '' '') = text_of ?h" by (rule piece_trim(3) [OF insert_head(1) [OF t cols len']])
  ultimately show ?thesis
    using rest val inner insert_head(2) [OF t cols len'] by (simp add: parse_insert_def reserved_def Let_def)
qed

end
