(* ===== verification/Select_Text.thy ===== *)
theory Select_Text
  imports Statement_Text
begin

text \<open>
  Parsing the text of a SELECT gives the statement back: the column list, the joined tables, and
  the clauses, each of which is cut off at the keyword of the next.
\<close>

section \<open>The column list\<close>

lemma select_expr_text:
  assumes "printable_select_expr x"
  shows "trim (text_of (select_expr_toks x)) = text_of (select_expr_toks x)"
    "x \<noteq> AllColumns \<Longrightarrow> text_of (select_expr_toks x) \<noteq> ''*''"
    "x \<noteq> AllColumns \<Longrightarrow> tryq (try_parse_aggregate (text_of (select_expr_toks x))) (\<lambda>agg. case agg of
       Some a \<Rightarrow> Ok a
     | None \<Rightarrow> tryq (normalize_identifier (text_of (select_expr_toks x))) (\<lambda>c. Ok (Column c))) = Ok x"
proof -
  show "trim (text_of (select_expr_toks x)) = text_of (select_expr_toks x)"
    using select_expr_piece [OF assms] by (rule piece_trim(1))
  assume x: "x \<noteq> AllColumns"
  have "\<not> name ''*''" by (simp add: name_def ident_def is_ascii_digit_def byte_def)
  with x assms show "text_of (select_expr_toks x) \<noteq> ''*''"
    by (cases x) (auto simp: select_expr_toks_def printable_select_expr_def aggregate_toks_def append_eq_Cons_conv)
  show "tryq (try_parse_aggregate (text_of (select_expr_toks x))) (\<lambda>agg. case agg of
       Some a \<Rightarrow> Ok a
     | None \<Rightarrow> tryq (normalize_identifier (text_of (select_expr_toks x))) (\<lambda>c. Ok (Column c))) = Ok x"
    using x assms
    by (cases x) (simp_all add: select_expr_toks_def printable_select_expr_def try_aggregate_name aggregate_text
        try_aggregate_label)
qed

lemma select_expr_commas: "P CHR '','' \<notin> set (select_expr_toks x)"
  by (auto simp: select_expr_toks_def aggregate_toks_def target_toks_def split: select_expr.splits aggregate_target.splits)

lemma parse_columns_text:
  assumes cols: "list_all printable_select_expr cols" "cols \<noteq> []" and len: "length (text_of (commas (map select_expr_toks cols))) < 2 ^ 31"
  shows "parse_select_columns (text_of (commas (map select_expr_toks cols))) = Ok cols"
proof (cases "cols = [AllColumns]")
  case True
  have "trim ''*'' = ''*''" using piece_trim(1) [OF star_piece] by simp
  with True show ?thesis by (simp add: parse_select_columns_def select_expr_toks_def)
next
  case False
  have p: "piece Rsv (commas (map select_expr_toks cols))"
    using cols select_expr_piece by (intro piece_commas) (auto simp: list_all_iff)
  have "text_of (commas (map select_expr_toks cols)) \<noteq> ''*''"
  proof (cases cols)
    case (Cons x xs)
    show ?thesis
    proof (cases xs)
      case Nil
      then show ?thesis using False cols select_expr_text(2) [of x] Cons by simp
    next
      case (Cons y ys)
      then have "Suc 0 < length (text_of (commas (map select_expr_toks cols)))" using \<open>cols = x # xs\<close> by simp
      then show ?thesis by auto
    qed
  qed (simp add: cols)
  moreover have "split_comma_aware (text_of (commas (map select_expr_toks cols))) = Ok (map (\<lambda>x. text_of (select_expr_toks x)) cols)"
  proof (rule split_list [where K = Rsv])
    show "list_all (\<lambda>x. piece Rsv (select_expr_toks x) \<and> flat (\<lambda>t. t \<noteq> P CHR '','') (select_expr_toks x)) cols"
      using cols(1) select_expr_piece pieceD(4) scan_absent [OF select_expr_commas] by (fastforce simp: list_all_iff)
  qed (use cols len in simp_all)
  moreover have "map_res (\<lambda>part. let p = trim part in
         if p = ''*'' then Ok AllColumns
         else tryq (try_parse_aggregate p) (\<lambda>agg. case agg of
             Some a \<Rightarrow> Ok a
           | None \<Rightarrow> tryq (normalize_identifier p) (\<lambda>c. Ok (Column c)))) (map (\<lambda>x. text_of (select_expr_toks x)) cols) = Ok cols"
  proof (rule map_res_Ok)
    fix x
    assume "x \<in> set cols"
    then have x: "printable_select_expr x" using cols(1) by (simp add: list_all_iff)
    show "(let p = trim (text_of (select_expr_toks x)) in
         if p = ''*'' then Ok AllColumns
         else tryq (try_parse_aggregate p) (\<lambda>agg. case agg of
             Some a \<Rightarrow> Ok a
           | None \<Rightarrow> tryq (normalize_identifier p) (\<lambda>c. Ok (Column c)))) = Ok x"
      using select_expr_text [OF x] by (cases "x = AllColumns") (simp_all add: Let_def select_expr_toks_def [of AllColumns])
  qed
  ultimately show ?thesis using piece_trim(1) [OF p] cols(2) by (simp add: parse_select_columns_def Let_def)
qed

section \<open>Joins\<close>

abbreviation "join_segment j \<equiv> [W (jc_table j), SP, W ''ON'', SP, qualified_tok (jc_left_table j) (jc_left_column j),
     SP, P CHR ''='', SP, qualified_tok (Some (jc_table j)) (jc_right_column j)]"

lemma dot_not_in: "name n \<Longrightarrow> CHR ''.'' \<notin> set n"
  by (auto simp: name_def ident_def list_all_iff is_ascii_digit_def byte_def)

lemma parse_qualified_text:
  assumes "name c" "\<And>x. t = Some x \<Longrightarrow> name x"
  shows "parse_qualified_column (untok (qualified_tok t c)) = Ok (t, c)"
    "piece Rsv [qualified_tok t c]"
proof -
  show p: "piece Rsv [qualified_tok t c]" using assms name_piece dotted_piece by (cases t) (simp_all add: qualified_tok_def)
  show "parse_qualified_column (untok (qualified_tok t c)) = Ok (t, c)"
  proof (cases t)
    case None
    then show ?thesis using assms(1) dot_not_in [OF assms(1)]
      by (simp add: parse_qualified_column_def qualified_tok_def str_find_none)
  next
    case (Some x)
    have "str_prefix (x @ CHR ''.'' # c) (length x) = (Ok x :: string result)"
      by (rule slice_append(1)) (simp add: byte_def)
    moreover have "str_suffix (x @ CHR ''.'' # c) (Suc (length x)) = (Ok c :: string result)"
      using slice_append(2) [of c "x @ ''.''"] clean_text [of "[W c]" "[]"] pieceD(2) [OF name_piece [OF assms(1)]] by simp
    moreover have "trim (x @ CHR ''.'' # c) = x @ CHR ''.'' # c" using piece_trim(1) [OF p] Some by (simp add: qualified_tok_def)
    ultimately show ?thesis using assms Some dot_not_in [of x]
      by (simp add: parse_qualified_column_def qualified_tok_def str_find_append Let_def)
  qed
qed

lemma segment_piece: "printable_join j \<Longrightarrow> piece (Rsv - {''ON''}) (join_segment j)"
proof -
  assume j: "printable_join j"
  have q: "piece (Rsv - {''ON''}) [qualified_tok t c]" if "name c" "\<And>x. t = Some x \<Longrightarrow> name x" for t c
    using parse_qualified_text(2) [OF that] by (rule piece_mono) auto
  have n: "piece (Rsv - {''ON''}) [W (jc_table j)]"
    using j by (intro piece_mono [OF name_piece]) (auto simp: printable_join_def)
  have o: "piece (Rsv - {''ON''}) [W ''ON'']" by (rule keyword_piece) (simp_all add: reserved_def)
  have e: "piece (Rsv - {''ON''}) [P CHR ''='']" by (simp add: piece_def tight_def)
  show ?thesis using j
    by (intro piece_pair n o e q) (auto simp: printable_join_def split: option.splits)
qed

lemma parse_segment_text:
  assumes j: "printable_join j" and len: "length (text_of (join_segment j)) < 2 ^ 31"
  shows "parse_join_segment (text_of (join_segment j)) = Ok j"
proof -
  let ?l = "untok (qualified_tok (jc_left_table j) (jc_left_column j))"
  let ?r = "untok (qualified_tok (Some (jc_table j)) (jc_right_column j))"
  let ?cond = "?l @ '' = '' @ ?r"
  have t: "name (jc_table j)" using j by (simp add: printable_join_def)
  have l: "name (jc_left_column j)" "\<And>x. jc_left_table j = Some x \<Longrightarrow> name x"
    and r: "name (jc_right_column j)" using j by (auto simp: printable_join_def)
  note lp = parse_qualified_text [OF l] and rp = parse_qualified_text [OF r, of "Some (jc_table j)"]
  have "clean ('' '' @ ?cond)" by (simp add: byte_def)
  with cut [of Rsv "''ON''" "[W (jc_table j)]" "'' '' @ ?cond"] name_piece [OF t] len
  have on: "find_keyword_outside_quotes (jc_table j @ CHR '' '' # ''ON'' @ '' '' @ ?cond) ''ON'' = Some (Suc (length (jc_table j)))"
    "str_prefix (jc_table j @ CHR '' '' # ''ON'' @ '' '' @ ?cond) (Suc (length (jc_table j))) = (Ok (jc_table j @ '' '') :: string result)"
    "str_after (jc_table j @ CHR '' '' # ''ON'' @ '' '' @ ?cond) (Suc (length (jc_table j))) ''ON'' = (Ok ('' '' @ ?cond) :: string result)"
    by (simp_all add: reserved_def)
  have e: "piece Rsv [P CHR ''='']" by (simp add: piece_def tight_def)
  have "trim (CHR '' '' # ?cond) = ?cond"
    using piece_trim(2) [OF piece_pair [OF lp(2) piece_pair [OF e rp(2)]]] t by simp
  moreover have "free_of {CHR ''=''} (?l @ '' '')"
    using l free_name [of _ "{CHR ''=''}"]
    by (cases "jc_left_table j") (simp_all add: qualified_tok_def byte_def)
  note find_char_at [OF this, of "'' '' @ ?r"]
  moreover have "str_prefix ?cond (Suc (length ?l)) = (Ok (?l @ '' '') :: string result)"
    using slice_append(1) [of "CHR ''='' # '' '' @ ?r" "?l @ '' ''"] by (simp add: byte_def)
  moreover have "str_suffix ?cond (Suc (Suc (length ?l))) = (Ok ('' '' @ ?r) :: string result)"
    using slice_append(2) [of "'' '' @ ?r" "?l @ '' =''"] by (simp add: byte_def)
  moreover have "trim ?l = ?l" "trim (?l @ '' '') = ?l" "trim (CHR '' '' # ?r) = ?r" "trim ?r = ?r"
    using piece_trim(1,3) [OF lp(2)] piece_trim(1,2) [OF rp(2)] t by simp_all
  moreover have "jc_left_table j \<noteq> Some (jc_table j)" using j by (auto simp: printable_join_def)
  ultimately show ?thesis
    using on lp(1) rp(1) t by (simp add: parse_join_segment_def byte_def Let_def)
qed

text \<open>The joins after a table.\<close>

primrec after_join :: "join_clause list \<Rightarrow> tok list" where
  "after_join [] = []"
| "after_join (j # js) = SP # W ''JOIN'' # SP # join_segment j @ after_join js"

lemma joins_toks: "separated [SP] (ts # map join_toks js) = ts @ after_join js"
  by (induction js arbitrary: ts) (simp_all add: join_toks_def)

lemmas after_join_Cons = after_join.simps(2)
declare after_join.simps(2) [simp del]

lemma trim_start_tight: "tight ts \<Longrightarrow> trim_start (text_of ts @ r) = text_of ts @ r"
  "tight ts \<Longrightarrow> trim_start (CHR '' '' # text_of ts @ r) = text_of ts @ r"
  using trim_start_text [of ts 0 r] trim_start_text [of ts 1 r] by simp_all

lemma trim_start_Nil [simp]: "trim_start [] = []"
  using length_trim_start [of "[]"] by simp

lemma next_join_text:
  assumes "printable_join j"
  shows "next_join (text_of (W ''JOIN'' # SP # join_segment j) @ r) = Ok (Some (text_of (join_segment j) @ r))"
proof -
  note t = pieceD(1) [OF segment_piece [OF assms]]
  have n: "name (jc_table j)" "is_ascii (jc_table j)" using assms name_ascii by (auto simp: printable_join_def)
  have j: "tight [W ''JOIN'']" by (simp add: tight_def)
  let ?h = "''JOIN '' @ jc_table j @ '' ''" and ?r = "text_of (tl (tl (join_segment j))) @ r"
  have s: "text_of (W ''JOIN'' # SP # join_segment j) @ r = ?h @ ?r" by simp
  have "length (jc_table j) \<noteq> 0" using n by simp
  then have strip: "strip_prefix_ci (?h @ ?r) ''INNER'' = Ok None"
    "strip_prefix_ci (?h @ ?r) ''JOIN'' = Ok (Some (CHR '' '' # text_of (join_segment j) @ r))"
    using n strip_prefix_leads [of ?h "''INNER''" ?r] strip_prefix_leads [of ?h "''JOIN''" ?r]
    by (simp_all add: lower_upper byte_def)
  have "trim_start (?h @ ?r) = ?h @ ?r" using trim_start_tight(1) [OF j, of "'' '' @ text_of (join_segment j) @ r"] by simp
  moreover have "trim_start (CHR '' '' # text_of (join_segment j) @ r) = text_of (join_segment j) @ r"
    by (rule trim_start_tight(2) [OF t])
  ultimately show ?thesis unfolding s next_join_def Let_def using strip by simp
qed

lemma piece_none_of:
  assumes "piece K ts" "\<And>k. k \<in> set ks \<Longrightarrow> first_word k \<in> K"
  shows "flat (none_of ks) ts" "flat (none_of ks) (ts @ [SP])"
proof -
  show "flat (none_of ks) ts"
    using pieceD(3) [OF assms(1)] by (rule scan_mono) (auto simp: none_of_def avoid_def list_all_iff assms(2))
  then show "flat (none_of ks) (ts @ [SP])" by (simp add: none_of_def list_all_iff)
qed

lemma parse_joins_text:
  assumes "list_all printable_join (j # js)" "length (text_of (join_segment j @ after_join js)) < 2 ^ 31"
  shows "parse_joins (text_of (join_segment j @ after_join js)) out = Ok (out @ j # js)"
  using assms
proof (induction js arbitrary: j out)
  case Nil
  have p: "piece (Rsv - {''ON''}) (join_segment j)" using Nil by (intro segment_piece) simp
  have "flat (none_of [''INNER'', ''JOIN'']) (join_segment j)"
    using p by (rule piece_none_of) (auto simp: reserved_def)
  then have "find_first_keyword (text_of (join_segment j)) [''INNER'', ''JOIN''] = None"
    using pieceD(2) [OF p] Nil by (intro first_keyword_none) (simp_all add: keyword_def key_of_def)
  moreover have "parse_join_segment (text_of (join_segment j)) = Ok j" using Nil by (intro parse_segment_text) simp_all
  moreover have "str_prefix s (length s) = (Ok s :: string result)" "str_suffix s (length s) = (Ok [] :: string result)" for s
    using slice_append [of "[]" s] by simp_all
  ultimately show ?case using piece_trim(1) [OF p]
    by (subst parse_joins.simps) (simp add: end_or_def next_join_def del: text_of_simps)
next
  case (Cons k js)
  let ?rest = "text_of (W ''JOIN'' # SP # join_segment k @ after_join js)"
  have p: "piece (Rsv - {''ON''}) (join_segment j)" using Cons by (intro segment_piece) simp
  have s: "text_of (join_segment j @ after_join (k # js)) = text_of (join_segment j @ [SP]) @ ''JOIN'' @ CHR '' '' # text_of (join_segment k @ after_join js)"
    unfolding after_join_Cons by simp
  have s': "text_of (join_segment j @ after_join (k # js)) = (text_of (join_segment j) @ '' '') @ text_of (W ''JOIN'' # SP # join_segment k) @ text_of (after_join js)"
    unfolding after_join_Cons by simp
  have "flat (none_of [''INNER'', ''JOIN'']) (join_segment j @ [SP])"
    using p by (rule piece_none_of) (auto simp: reserved_def)
  then have first: "find_first_keyword (text_of (join_segment j @ after_join (k # js))) [''INNER'', ''JOIN''] =
      Some (length (text_of (join_segment j) @ '' ''))"
    unfolding s using pieceD(2) [OF p] Cons.prems(2)
    by (subst first_keyword_at) (simp_all add: keyword_def key_of_def good_append)
  let ?a = "text_of (join_segment j) @ '' ''" and ?b = "text_of (W ''JOIN'' # SP # join_segment k) @ text_of (after_join js)"
  have "clean ?b" by (simp add: byte_def)
  then have sl: "str_prefix (?a @ ?b) (length ?a) = (Ok ?a :: string result)" "str_suffix (?a @ ?b) (length ?a) = (Ok ?b :: string result)"
    by (rule slice_append)+
  have "parse_join_segment (text_of (join_segment j)) = Ok j" using Cons.prems by (intro parse_segment_text) simp_all
  moreover have "parse_joins (text_of (join_segment k) @ text_of (after_join js)) (out @ [j]) = Ok (out @ j # k # js)"
    using Cons.IH [of k "out @ [j]"] Cons.prems unfolding after_join_Cons by simp
  moreover have "printable_join k" using Cons.prems by simp
  ultimately show ?case
    using first sl piece_trim(3) [OF p] next_join_text [of k "text_of (after_join js)"]
    unfolding s' by (subst parse_joins.simps) (simp add: end_or_def Let_def del: text_of_simps(2))
qed

lemma parse_from_text:
  assumes t: "name t" and js: "list_all printable_join js" and len: "length (text_of (W t # after_join js)) < 2 ^ 31"
  shows "parse_from (text_of (W t # after_join js)) = Ok (t, js)"
proof (cases js)
  case Nil
  have "keyword_of Rsv ''JOIN''" by (simp add: reserved_def)
  from miss [OF this name_piece [OF t]] len Nil t show ?thesis by (simp add: parse_from_def)
next
  case (Cons j js')
  let ?s = "text_of (join_segment j @ after_join js')"
  have s: "text_of (W t # after_join js) = t @ CHR '' '' # ''JOIN'' @ '' '' @ ?s"
    unfolding Cons after_join_Cons by simp
  have "clean ('' '' @ ?s)" by (simp add: byte_def)
  with cut [of Rsv "''JOIN''" "[W t]" "'' '' @ ?s"] name_piece [OF t] len
  have join: "find_keyword_outside_quotes (t @ CHR '' '' # ''JOIN'' @ '' '' @ ?s) ''JOIN'' = Some (Suc (length t))"
    "str_prefix (t @ CHR '' '' # ''JOIN'' @ '' '' @ ?s) (Suc (length t)) = (Ok (t @ '' '') :: string result)"
    "str_after (t @ CHR '' '' # ''JOIN'' @ '' '' @ ?s) (Suc (length t)) ''JOIN'' = (Ok ('' '' @ ?s) :: string result)"
    unfolding s by (simp_all add: reserved_def)
  have "find_keyword_outside_quotes (t @ '' '') ''INNER'' = None"
    using find_keyword_none [of "''INNER''" "''INNER''" "[W t, SP]"] pieceD(2) [OF name_piece [OF t]] t len
    by (simp add: key_of_def name_def reserved_def)
  moreover have "str_prefix (t @ '' '') (Suc (length t)) = (Ok (t @ '' '') :: string result)"
    using slice_append(1) [of "[]" "t @ '' ''"] by simp
  moreover have "tight (join_segment j @ after_join js')"
  proof (cases js')
    case Nil
    then show ?thesis using segment_piece [of j] js Cons pieceD(1) by simp
  next
    case (Cons k js'')
    have "piece {} (join_segment j @ SP # separated [SP] (map join_toks js'))"
    proof (rule piece_append)
      show "piece {} (join_segment j)" using js \<open>js = j # js'\<close> by (intro piece_mono [OF segment_piece]) simp_all
      show "piece {} (separated [SP] (map join_toks js'))"
        using js \<open>js = j # js'\<close> Cons by (intro piece_spaced) (auto simp: list_all_iff intro!: piece_mono [OF join_piece])
    qed
    then show ?thesis using pieceD(1) Cons joins_toks [of "join_toks k" js''] by (simp add: after_join_Cons join_toks_def)
  qed
  then have "trim (CHR '' '' # ?s) = ?s" by (rule trim_tight(2))
  moreover have "parse_joins ?s [] = Ok js"
    using parse_joins_text [of j js' "[]"] js len Cons s by simp
  ultimately show ?thesis
    using join t unfolding s by (simp add: parse_from_def end_or_def del: text_of_simps)
qed

section \<open>Clauses\<close>

text \<open>The clauses of a SELECT from some point on: their keywords and bodies.\<close>

definition clause_keys :: "string set" where
  "clause_keys = {''WHERE'', ''GROUP BY'', ''HAVING'', ''ORDER BY'', ''LIMIT'', ''OFFSET''}"

definition clauses_ok :: "(string \<times> tok list) list \<Rightarrow> bool" where
  "clauses_ok cs \<longleftrightarrow> (\<forall>(k, b) \<in> set cs. k \<in> clause_keys \<and> piece Tree b)"

lemma clauses_ok_simps [simp]:
  "clauses_ok []" "clauses_ok ((k, b) # cs) \<longleftrightarrow> k \<in> clause_keys \<and> piece Tree b \<and> clauses_ok cs"
  "clauses_ok (cs @ ds) \<longleftrightarrow> clauses_ok cs \<and> clauses_ok ds"
  unfolding clauses_ok_def by (simp, simp, simp only: set_append, blast)

lemma clauses_okD: "clauses_ok cs \<Longrightarrow> (k, b) \<in> set cs \<Longrightarrow> k \<in> clause_keys \<and> piece Tree b"
  unfolding clauses_ok_def by blast

lemma clause_key:
  assumes "k \<in> clause_keys"
  shows "text_of (keyword_toks k) = k" "keyword k" "first_word k \<in> Clause" "clean (k @ s)" "is_ascii k" "k \<noteq> []"
    "keyword_of Rsv k" "w \<in> Clause \<Longrightarrow> w \<noteq> first_word k \<Longrightarrow> piece {w} (keyword_toks k)"
proof -
  show "text_of (keyword_toks k) = k" "keyword k" "first_word k \<in> Clause" "clean (k @ s)" "is_ascii k" "k \<noteq> []"
    "keyword_of Rsv k"
    using assms by (auto simp: clause_keys_def keyword_toks_def keyword_def key_of_def byte_def reserved_def)
  assume w: "w \<in> Clause" "w \<noteq> first_word k"
  have K: "{w} \<subseteq> Rsv" using w(1) by (auto simp: reserved_def)
  have u: "list_all upper (first_word k)" "first_word k \<noteq> []" using assms by (auto simp: clause_keys_def)
  have b: "''BY'' \<notin> {w}" using w(1) by auto
  have f: "piece {w} [W (first_word k)]" using u w(2) K by (intro keyword_piece) simp_all
  have "piece {w} [W ''BY'']" using b K by (intro keyword_piece) simp_all
  from piece_pair [OF f this] f
  have "piece {w} [W (first_word k)] \<and> piece {w} [W (first_word k), SP, W ''BY'']" by simp
  moreover have "keyword_toks k \<in> {[W (first_word k)], [W (first_word k), SP, W ''BY'']}"
    using assms by (auto simp: clause_keys_def keyword_toks_def)
  ultimately show "piece {w} (keyword_toks k)" by auto
qed

lemma clause_toks_Cons: "clause_toks ((k, b) # cs) = keyword_toks k @ SP # b @ then_toks (clause_toks cs)"
  if "cs \<noteq> [] \<longrightarrow> clause_toks cs \<noteq> []"
  using that by (cases cs) (auto simp: then_toks_def)

lemma clauses_piece_avoid:
  assumes "clauses_ok cs" "cs \<noteq> []" "w \<in> Clause" "\<forall>(k, b) \<in> set cs. first_word k \<noteq> w"
  shows "piece {w} (clause_toks cs)"
  unfolding clause_toks_def
proof (rule piece_spaced)
  have part: "piece {w} (keyword_toks k @ SP # b)" if "(k, b) \<in> set cs" for k b
  proof (rule piece_append)
    have k: "k \<in> clause_keys" "piece Tree b" using clauses_okD [OF assms(1) that] by simp_all
    have "w \<noteq> first_word k" using assms(4) that by blast
    with k(1) assms(3) show "piece {w} (keyword_toks k)" by (rule clause_key(8))
    note k(2)
    moreover have "{w} \<subseteq> Tree" using assms(3) by (auto simp: reserved_def)
    ultimately show "piece {w} b" by (rule piece_mono)
  qed
  show "list_all (piece {w}) (map (\<lambda>(k, b). keyword_toks k @ SP # b) cs)"
  proof (unfold list_all_iff set_map, clarify)
    fix k b
    assume "(k, b) \<in> set cs"
    then show "piece {w} (keyword_toks k @ SP # b)" by (rule part)
  qed
qed (use assms in simp)

lemma clauses_piece0: "clauses_ok cs \<Longrightarrow> cs \<noteq> [] \<Longrightarrow> piece {} (clause_toks cs)"
proof (rule clauses_piece)
  assume cs: "clauses_ok cs"
  have "piece {} (keyword_toks k) \<and> piece {} b" if "(k, b) \<in> set cs" for k b
  proof
    have k: "k \<in> clause_keys" "piece Tree b" using clauses_okD [OF cs that] by simp_all
    from k(1) show "piece {} (keyword_toks k)" using clause_words unfolding clause_keys_def by blast
    from k(2) show "piece {} b" by (rule piece_mono) simp
  qed
  then show "\<forall>(k, b) \<in> set cs. piece {} (keyword_toks k) \<and> piece {} b" by blast
qed

lemma clauses_trim: "clauses_ok cs \<Longrightarrow> trim (text_of (clause_toks cs)) = text_of (clause_toks cs)"
  using piece_trim(1) [OF clauses_piece0] by (cases "cs = []") simp_all

text \<open>The text of a part up to the first of the keywords that may follow it.\<close>

lemma cut_first:
  assumes b: "piece K b" "\<And>k. k \<in> set enders \<Longrightarrow> first_word k \<in> K \<and> keyword k" and cs: "clauses_ok cs"
    and hd: "cs \<noteq> [] \<longrightarrow> fst (hd cs) \<in> set enders" and len: "length (text_of (b @ then_toks (clause_toks cs))) < 2 ^ 31"
  defines "s \<equiv> text_of (b @ then_toks (clause_toks cs))"
  shows "\<exists>x y. str_prefix s (end_or s (find_first_keyword s enders)) = (Ok x :: string result) \<and>
    str_suffix s (end_or s (find_first_keyword s enders)) = (Ok y :: string result) \<and>
    trim x = text_of b \<and> trim y = text_of (clause_toks cs)"
proof (cases cs)
  case Nil
  have "find_first_keyword (text_of b) enders = None"
    using b piece_none_of(1) [OF b(1)] pieceD(2) [OF b(1)] len Nil
    by (intro first_keyword_none) (auto simp: list_all_iff then_toks_def)
  moreover have "str_prefix (text_of b) (length (text_of b)) = (Ok (text_of b) :: string result)"
    "str_suffix (text_of b) (length (text_of b)) = (Ok [] :: string result)"
    using slice_append [of "[]" "text_of b"] by simp_all
  ultimately show ?thesis using piece_trim(1) [OF b(1)] Nil
    by (simp add: s_def then_toks_def end_or_def)
next
  case (Cons c cs')
  obtain k b' where c: "c = (k, b')" by (cases c)
  have k: "k \<in> clause_keys" "k \<in> set enders" using cs hd by (simp_all add: Cons c)
  note kk = clause_key [OF k(1)]
  note p = clauses_piece0 [OF cs]
  obtain r where r: "text_of (clause_toks cs) = k @ CHR '' '' # r"
    by (cases cs') (auto simp: Cons c kk(1))
  have ne: "clause_toks cs \<noteq> []" using p Cons pieceD(5) by blast
  have s: "s = text_of (b @ [SP]) @ k @ CHR '' '' # r" by (simp add: s_def then_toks_def ne r)
  have "find_first_keyword s enders = Some (length (text_of (b @ [SP])))"
    unfolding s using b piece_none_of(2) [OF b(1)] pieceD(2) [OF b(1)] k(2) len
    by (intro first_keyword_at) (auto simp: list_all_iff good_append then_toks_def ne)
  moreover have "str_prefix s (length (text_of (b @ [SP]))) = (Ok (text_of (b @ [SP])) :: string result)"
    "str_suffix s (length (text_of (b @ [SP]))) = (Ok (text_of (clause_toks cs)) :: string result)"
    unfolding s r by (rule slice_append [OF kk(4)])+
  ultimately show ?thesis using piece_trim(3) [OF b(1)] clauses_trim [OF cs] by (simp add: end_or_def)
qed

lemma take_clause_hit:
  assumes k: "k \<in> clause_keys" and b: "piece Tree b" and cs: "clauses_ok cs"
    and enders: "\<And>e. e \<in> set enders \<Longrightarrow> e \<in> clause_keys" and hd: "cs \<noteq> [] \<longrightarrow> fst (hd cs) \<in> set enders"
    and len: "length (text_of (clause_toks ((k, b) # cs))) < 2 ^ 31"
  shows "take_clause (text_of (clause_toks ((k, b) # cs))) k enders = Ok (Some (text_of b), text_of (clause_toks cs))"
proof -
  let ?b = "b @ then_toks (clause_toks cs)"
  note kk = clause_key [OF k]
  have "cs \<noteq> [] \<longrightarrow> clause_toks cs \<noteq> []" using clauses_piece0 [OF cs] pieceD(5) by blast
  from clause_toks_Cons [OF this]
  have s: "text_of (clause_toks ((k, b) # cs)) = k @ '' '' @ text_of ?b" by (simp add: kk(1))
  have "find_keyword_outside_quotes (k @ '' '' @ text_of ?b) k = Some 0"
    using find_keyword_at [of "first_word k" k "[]" "'' '' @ text_of ?b"] kk(2) by (simp add: keyword_def)
  moreover have "str_after (k @ '' '' @ text_of ?b) 0 k = (Ok ('' '' @ text_of ?b) :: string result)"
    using after_append [of "'' '' @ text_of ?b" "[]" k] by (simp add: byte_def)
  moreover have "piece {} ?b"
    using piece_append [OF piece_mono [OF b, of "{}"] clauses_piece0 [OF cs]] piece_mono [OF b, of "{}"]
    by (cases "cs = []") (auto simp: then_toks_def)
  from piece_trim(2) [OF this] have "trim (CHR '' '' # text_of ?b) = text_of ?b" .
  moreover obtain x y where "str_prefix (text_of ?b) (end_or (text_of ?b) (find_first_keyword (text_of ?b) enders)) = (Ok x :: string result)"
    "str_suffix (text_of ?b) (end_or (text_of ?b) (find_first_keyword (text_of ?b) enders)) = (Ok y :: string result)"
    "trim x = text_of b" "trim y = text_of (clause_toks cs)"
  proof -
    have e: "first_word e \<in> Tree \<and> keyword e" if "e \<in> set enders" for e
    proof -
      have "first_word e \<in> Clause" "keyword e" using clause_key(2,3) [OF enders [OF that]] by simp_all
      then show ?thesis by (auto simp: reserved_def)
    qed
    have "length (text_of ?b) < 2 ^ 31" using len unfolding s by simp
    from cut_first [OF b e cs hd this] that show thesis by blast
  qed
  ultimately show ?thesis unfolding s take_clause_def by (simp add: Let_def del: text_of_simps)
qed

lemma take_clause_miss:
  assumes k: "k \<in> clause_keys" and cs: "clauses_ok cs" "\<forall>(k', b) \<in> set cs. first_word k' \<noteq> first_word k"
    and len: "length (text_of (clause_toks cs)) < 2 ^ 31"
  shows "take_clause (text_of (clause_toks cs)) k enders = Ok (None, text_of (clause_toks cs))"
    "find_keyword_outside_quotes (text_of (clause_toks cs)) k = None"
proof -
  note kk = clause_key [OF k]
  show f: "find_keyword_outside_quotes (text_of (clause_toks cs)) k = None"
  proof (cases "cs = []")
    case True
    then show ?thesis by (simp add: find_keyword_outside_quotes_def)
  next
    case False
    have "keyword_of {first_word k} k" using kk(2) by (simp add: keyword_of_def)
    from miss [OF this clauses_piece_avoid [OF cs(1) False kk(3) cs(2)] len] show ?thesis .
  qed
  then show "take_clause (text_of (clause_toks cs)) k enders = Ok (None, text_of (clause_toks cs))"
    by (simp add: take_clause_def)
qed

lemma take_clause_stage:
  assumes k: "k \<in> clause_keys" and b: "present \<Longrightarrow> piece Tree b" and cs: "clauses_ok cs"
    and enders: "set enders \<subseteq> clause_keys" and hd: "present \<Longrightarrow> cs \<noteq> [] \<longrightarrow> fst (hd cs) \<in> set enders"
    and other: "\<forall>(k', b) \<in> set cs. first_word k' \<noteq> first_word k"
    and len: "length (text_of (clause_toks (clause present k b @ cs))) < 2 ^ 31"
  shows "take_clause (text_of (clause_toks (clause present k b @ cs))) k enders =
    Ok (if present then Some (text_of b) else None, text_of (clause_toks cs))"
proof (cases present)
  case True
  with take_clause_hit [OF k b [OF True] cs, of enders] enders hd len show ?thesis by (auto simp: clause_def)
next
  case False
  with take_clause_miss(1) [OF k cs other, of enders] len show ?thesis by (simp add: clause_def)
qed

definition offset_part :: "nat option \<Rightarrow> (string \<times> tok list) list" where
  "offset_part offset = clause (offset \<noteq> None) ''OFFSET'' [W (show_nat (the offset))]"

definition limit_part :: "nat option \<Rightarrow> nat option \<Rightarrow> (string \<times> tok list) list" where
  "limit_part limit offset = clause (limit \<noteq> None) ''LIMIT'' [W (show_nat (the limit))] @ offset_part offset"

definition order_part :: "order_by_clause list \<Rightarrow> nat option \<Rightarrow> nat option \<Rightarrow> (string \<times> tok list) list" where
  "order_part order_by limit offset =
     clause (order_by \<noteq> []) ''ORDER BY'' (commas (map order_toks order_by)) @ limit_part limit offset"

definition having_part :: "filter_expr option \<Rightarrow> order_by_clause list \<Rightarrow> nat option \<Rightarrow> nat option \<Rightarrow>
    (string \<times> tok list) list" where
  "having_part having order_by limit offset =
     clause (having \<noteq> None) ''HAVING'' (filter_toks (the having)) @ order_part order_by limit offset"

definition group_part :: "string list \<Rightarrow> filter_expr option \<Rightarrow> order_by_clause list \<Rightarrow> nat option \<Rightarrow> nat option \<Rightarrow>
    (string \<times> tok list) list" where
  "group_part group_by having order_by limit offset =
     clause (group_by \<noteq> []) ''GROUP BY'' (commas (map (\<lambda>c. [W c]) group_by)) @ having_part having order_by limit offset"

lemma select_clauses_parts:
  "select_clauses f group_by having order_by limit offset =
     clause (f \<noteq> None) ''WHERE'' (filter_toks (the f)) @ group_part group_by having order_by limit offset"
  by (simp add: select_clauses_def group_part_def having_part_def order_part_def limit_part_def offset_part_def clause_def
      split: option.split)

lemmas part_defs = group_part_def having_part_def order_part_def limit_part_def offset_part_def

lemma clause_set: "x \<in> set (clause p k b) \<Longrightarrow> fst x = k"
  by (simp add: clause_def split: if_splits)

lemma hd_clause: "clause p k b @ cs \<noteq> [] \<Longrightarrow> (p \<Longrightarrow> k \<in> K) \<Longrightarrow> (cs \<noteq> [] \<Longrightarrow> fst (hd cs) \<in> K) \<Longrightarrow> fst (hd (clause p k b @ cs)) \<in> K"
  by (simp add: clause_def split: if_splits)

lemma part_keys:
  "\<forall>(k, b) \<in> set (offset_part offset). k \<in> {''OFFSET''}"
  "\<forall>(k, b) \<in> set (limit_part limit offset). k \<in> {''LIMIT'', ''OFFSET''}"
  "\<forall>(k, b) \<in> set (order_part order_by limit offset). k \<in> {''ORDER BY'', ''LIMIT'', ''OFFSET''}"
  "\<forall>(k, b) \<in> set (having_part having order_by limit offset). k \<in> {''HAVING'', ''ORDER BY'', ''LIMIT'', ''OFFSET''}"
  "\<forall>(k, b) \<in> set (group_part group_by having order_by limit offset).
     k \<in> {''GROUP BY'', ''HAVING'', ''ORDER BY'', ''LIMIT'', ''OFFSET''}"
  by (fastforce simp: part_defs dest: clause_set)+

lemma part_first:
  assumes "\<forall>(k, b) \<in> set cs. k \<in> K" "\<forall>k \<in> K. first_word k \<noteq> w"
  shows "\<forall>(k, b) \<in> set cs. first_word k \<noteq> w"
  using assms by blast

lemma part_hd: "\<forall>(k, b) \<in> set cs. k \<in> K \<Longrightarrow> K \<subseteq> K' \<Longrightarrow> cs \<noteq> [] \<longrightarrow> fst (hd cs) \<in> K'"
  by (cases cs) auto

lemma parse_count: "n < 2 ^ 64 \<Longrightarrow> parse_usize (show_nat n) = Some n"
proof -
  assume n: "n < 2 ^ 64"
  obtain c s where c: "show_nat n = c # s" by (meson neq_Nil_conv show_nat_nonempty)
  then have "c \<noteq> CHR ''+''" using show_nat_digits [of c n] by (auto simp: is_ascii_digit_def byte_def)
  with c n parse_digits_show_nat [of n] show ?thesis by (simp add: parse_usize_def)
qed

lemma count_text: "trim (show_nat n) = show_nat n" "trim (CHR '' '' # show_nat n) = show_nat n" "piece Tree [W (show_nat n)]"
  using piece_trim(1,2) [OF count_piece] piece_mono [OF count_piece] by auto

lemma part_ok:
  assumes "list_all name group_by" "\<And>h. having = Some h \<Longrightarrow> printable_having h" "list_all (\<lambda>ob. name (ob_column ob)) order_by"
  shows "clauses_ok (offset_part offset)" "clauses_ok (limit_part limit offset)" "clauses_ok (order_part order_by limit offset)"
    "clauses_ok (having_part having order_by limit offset)" "clauses_ok (group_part group_by having order_by limit offset)"
    "group_by \<noteq> [] \<Longrightarrow> piece Tree (commas (map (\<lambda>c. [W c]) group_by))"
    "order_by \<noteq> [] \<Longrightarrow> piece Tree (commas (map order_toks order_by))"
    "having \<noteq> None \<Longrightarrow> piece Tree (filter_toks (the having))"
proof -
  have one: "clauses_ok (clause p k b)" if "k \<in> clause_keys" "p \<Longrightarrow> piece Tree b" for p k b
    using that by (simp add: clause_def)
  have keys: "''GROUP BY'' \<in> clause_keys" "''HAVING'' \<in> clause_keys" "''ORDER BY'' \<in> clause_keys" "''LIMIT'' \<in> clause_keys"
    "''OFFSET'' \<in> clause_keys" by (simp_all add: clause_keys_def)
  show g: "group_by \<noteq> [] \<Longrightarrow> piece Tree (commas (map (\<lambda>c. [W c]) group_by))"
    using names_piece [OF assms(1)] by (rule piece_mono) auto
  show o: "piece Tree (commas (map order_toks order_by))" if "order_by \<noteq> []"
  proof (rule piece_mono)
    show "piece Rsv (commas (map order_toks order_by))"
      using assms(3) that order_piece by (intro piece_commas) (simp_all add: list_all_iff)
  qed auto
  show h: "piece Tree (filter_toks (the having))" if "having \<noteq> None"
  proof (rule piece_mono)
    show "piece (Rsv - {''AND'', ''OR''}) (filter_toks (the having))" using assms(2) that by (intro having_tree_piece) auto
  qed auto
  show c: "clauses_ok (offset_part offset)" unfolding offset_part_def by (rule one [OF keys(5) count_text(3)])
  show "clauses_ok (limit_part limit offset)" using c one [OF keys(4) count_text(3)] by (simp add: limit_part_def)
  then show "clauses_ok (order_part order_by limit offset)" using one [OF keys(3) o] by (simp add: order_part_def)
  then show "clauses_ok (having_part having order_by limit offset)" using one [OF keys(2) h] by (simp add: having_part_def)
  then show "clauses_ok (group_part group_by having order_by limit offset)" using one [OF keys(1) g] by (simp add: group_part_def)
qed

section \<open>The clauses, one after the other\<close>

abbreviation "clauses_text cs \<equiv> text_of (clause_toks cs)"

lemma clause_len: "clause_toks cs = [] \<longleftrightarrow> cs = []" if "clauses_ok cs"
  using clauses_piece0 [OF that] pieceD(5) by fastforce

lemma tail_len: "length (clauses_text cs) \<le> length (clauses_text (ds @ cs))"
proof (induction ds)
  case (Cons d ds)
  then show ?case by (cases d, cases "ds @ cs") auto
qed simp

lemmas tail_bound = le_less_trans [OF tail_len]

lemma body_len: "length (text_of b) \<le> length (clauses_text (clause True k b @ cs))"
  by (cases cs) (simp_all add: clause_def)

lemma parse_offset_text:
  assumes "printable_count offset" "length (clauses_text (offset_part offset)) < 2 ^ 31"
  shows "parse_offset_clause (clauses_text (offset_part offset)) = Ok offset"
proof (cases offset)
  case None
  then show ?thesis by (simp add: offset_part_def clause_def parse_offset_clause_def find_keyword_outside_quotes_def)
next
  case (Some n)
  let ?r = "'' '' @ show_nat n"
  have "find_keyword_outside_quotes (''OFFSET'' @ ?r) ''OFFSET'' = Some 0"
    using find_keyword_at [of "''OFFSET''" "''OFFSET''" "[]" ?r] by (simp add: key_of_def)
  moreover have "str_after (''OFFSET'' @ ?r) 0 ''OFFSET'' = (Ok ?r :: string result)"
    using after_append [of ?r "[]" "''OFFSET''"] by (simp add: byte_def)
  ultimately show ?thesis using Some assms(1)
    by (simp add: offset_part_def clause_def parse_offset_clause_def keyword_toks_def count_text parse_count printable_count_def)
qed

lemma enders_ok:
  "set [''GROUP BY'', ''ORDER BY'', ''LIMIT'', ''OFFSET''] \<subseteq> clause_keys"
  "set [''HAVING'', ''ORDER BY'', ''LIMIT'', ''OFFSET''] \<subseteq> clause_keys"
  "set [''ORDER BY'', ''LIMIT'', ''OFFSET''] \<subseteq> clause_keys" "set [''LIMIT'', ''OFFSET''] \<subseteq> clause_keys"
  "set [''OFFSET''] \<subseteq> clause_keys"
  "''WHERE'' \<in> clause_keys" "''GROUP BY'' \<in> clause_keys" "''HAVING'' \<in> clause_keys" "''ORDER BY'' \<in> clause_keys"
  "''LIMIT'' \<in> clause_keys"
  by (simp_all add: clause_keys_def)

lemma parse_limit_text:
  assumes "printable_count limit" and len: "length (clauses_text (limit_part limit offset)) < 2 ^ 31"
  shows "parse_limit_clause (clauses_text (limit_part limit offset)) = Ok (limit, clauses_text (offset_part offset))"
proof -
  note ok = part_ok [of "[]" None "[]", simplified]
  have "take_clause (clauses_text (limit_part limit offset)) ''LIMIT'' [''OFFSET''] =
      Ok (if limit \<noteq> None then Some (text_of [W (show_nat (the limit))]) else None, clauses_text (offset_part offset))"
    unfolding limit_part_def
  proof (rule take_clause_stage [OF enders_ok(10) count_text(3) ok(1) enders_ok(5)])
    show "offset_part offset \<noteq> [] \<longrightarrow> fst (hd (offset_part offset)) \<in> set [''OFFSET'']"
      using part_keys(1) by (rule part_hd) simp
    show "\<forall>(k', b) \<in> set (offset_part offset). first_word k' \<noteq> first_word ''LIMIT''"
      using part_keys(1) by (rule part_first) simp
  qed (use len in \<open>simp add: limit_part_def\<close>)
  then show ?thesis using assms(1)
    by (cases limit) (simp_all add: parse_limit_clause_def parse_count printable_count_def)
qed

lemma parse_order_clause_text:
  assumes "name (ob_column ob)"
  shows "parse_order_clause (text_of (order_toks ob)) = Ok ob"
proof -
  let ?o = "case ob_order ob of Asc \<Rightarrow> ''ASC'' | Desc \<Rightarrow> ''DESC''"
  have u: "list_all upper ?o" by (cases "ob_order ob") simp_all
  have w: "spaceless ?o" by (rule word_spaceless [OF upper_word [OF u]]) (cases "ob_order ob"; simp)
  have n: "spaceless (ob_column ob)" using assms ident_word by (intro word_spaceless) (simp_all add: name_def)
  from split_whitespace_join [of "[ob_column ob, ?o]"] w n
  have "split_whitespace (text_of (order_toks ob)) = [ob_column ob, ?o]" by (simp add: order_toks_def)
  with assms show ?thesis
    by (cases "ob_order ob") (simp_all add: parse_order_clause_def to_ascii_uppercase_def ascii_upper_def byte_def Let_def)
qed

lemma parse_order_text:
  assumes ob: "list_all (\<lambda>ob. name (ob_column ob)) order_by"
    and len: "length (clauses_text (order_part order_by limit offset)) < 2 ^ 31"
  shows "parse_order_clauses (clauses_text (order_part order_by limit offset)) =
    Ok (order_by, clauses_text (limit_part limit offset))"
proof -
  let ?b = "commas (map order_toks order_by)"
  have ok: "clauses_ok (limit_part limit offset)" using part_ok(2) [of "[]" None "[]"] by simp
  have b: "order_by \<noteq> [] \<Longrightarrow> piece Tree ?b" using part_ok(7) [OF _ _ ob, of "[]" None] by simp
  have take: "take_clause (clauses_text (order_part order_by limit offset)) ''ORDER BY'' [''LIMIT'', ''OFFSET''] =
      Ok (if order_by \<noteq> [] then Some (text_of ?b) else None, clauses_text (limit_part limit offset))"
    unfolding order_part_def
  proof (rule take_clause_stage [OF enders_ok(9) b ok enders_ok(4)])
    show "limit_part limit offset \<noteq> [] \<longrightarrow> fst (hd (limit_part limit offset)) \<in> set [''LIMIT'', ''OFFSET'']"
      using part_keys(2) by (rule part_hd) simp
    show "\<forall>(k', b) \<in> set (limit_part limit offset). first_word k' \<noteq> first_word ''ORDER BY''"
      using part_keys(2) by (rule part_first) simp
  qed (use len in \<open>simp_all add: order_part_def\<close>)
  have "parse_order_by (text_of ?b) = Ok order_by" if "order_by \<noteq> []"
  proof -
    have "length (text_of ?b) < 2 ^ 31"
      using len body_len [of ?b "''ORDER BY''" "limit_part limit offset"] that by (simp add: order_part_def)
    moreover have "P CHR '','' \<notin> set (order_toks x)" for x by (simp add: order_toks_def)
    then have "list_all (\<lambda>x. piece Rsv (order_toks x) \<and> flat (\<lambda>t. t \<noteq> P CHR '','') (order_toks x)) order_by"
      using ob order_piece pieceD(4) scan_absent unfolding list_all_iff by blast
    ultimately have "split_comma_aware (text_of ?b) = Ok (map (\<lambda>x. text_of (order_toks x)) order_by)"
      using that by (intro split_list)
    moreover have "map_res parse_order_clause (map (\<lambda>x. text_of (order_toks x)) order_by) = Ok order_by"
      using ob by (intro map_res_Ok parse_order_clause_text) (simp add: list_all_iff)
    ultimately show ?thesis by (simp add: parse_order_by_def)
  qed
  with take show ?thesis by (simp add: parse_order_clauses_def)
qed

lemma parse_having_clause_text:
  assumes h: "\<And>h. having = Some h \<Longrightarrow> disj_shape h \<and> printable_having h \<and> group_by \<noteq> []"
    and ob: "list_all (\<lambda>ob. name (ob_column ob)) order_by"
    and len: "length (clauses_text (having_part having order_by limit offset)) < 2 ^ 31"
  shows "parse_having_clause group_by (clauses_text (having_part having order_by limit offset)) =
    Ok (having, clauses_text (order_part order_by limit offset))"
proof -
  have ok: "clauses_ok (order_part order_by limit offset)" using part_ok(3) [of "[]" None, OF _ _ ob] by simp
  have b: "having \<noteq> None \<Longrightarrow> piece Tree (filter_toks (the having))" using part_ok(8) [of "[]" having, OF _ _ ob] h by auto
  have take: "take_clause (clauses_text (having_part having order_by limit offset)) ''HAVING'' [''ORDER BY'', ''LIMIT'', ''OFFSET''] =
      Ok (if having \<noteq> None then Some (text_of (filter_toks (the having))) else None, clauses_text (order_part order_by limit offset))"
    unfolding having_part_def
  proof (rule take_clause_stage [OF enders_ok(8) b ok enders_ok(3)])
    show "order_part order_by limit offset \<noteq> [] \<longrightarrow>
        fst (hd (order_part order_by limit offset)) \<in> set [''ORDER BY'', ''LIMIT'', ''OFFSET'']"
      using part_keys(3) by (rule part_hd) simp
    show "\<forall>(k', b) \<in> set (order_part order_by limit offset). first_word k' \<noteq> first_word ''HAVING''"
      using part_keys(3) by (rule part_first) simp
  qed (use len in \<open>simp_all add: having_part_def\<close>)
  have "parse_having (text_of (filter_toks x)) = Ok x" if "having = Some x" for x
    using h [OF that] len body_len [of "filter_toks x" "''HAVING''" "order_part order_by limit offset"] that
    by (intro parse_having_text) (simp_all add: having_part_def)
  with take h show ?thesis by (cases having) (simp_all add: parse_having_clause_def)
qed

lemma parse_group_text:
  assumes g: "list_all name group_by" and h: "\<And>h. having = Some h \<Longrightarrow> printable_having h"
    and ob: "list_all (\<lambda>ob. name (ob_column ob)) order_by"
    and len: "length (clauses_text (group_part group_by having order_by limit offset)) < 2 ^ 31"
  shows "parse_group_clause (clauses_text (group_part group_by having order_by limit offset)) =
    Ok (group_by, clauses_text (having_part having order_by limit offset))"
proof -
  let ?b = "commas (map (\<lambda>c. [W c]) group_by)"
  note ok = part_ok(4) [OF g h ob] and b = part_ok(6) [OF g h ob]
  have take: "take_clause (clauses_text (group_part group_by having order_by limit offset)) ''GROUP BY''
        [''HAVING'', ''ORDER BY'', ''LIMIT'', ''OFFSET''] =
      Ok (if group_by \<noteq> [] then Some (text_of ?b) else None, clauses_text (having_part having order_by limit offset))"
    unfolding group_part_def
  proof (rule take_clause_stage [OF enders_ok(7) b ok enders_ok(2)])
    show "having_part having order_by limit offset \<noteq> [] \<longrightarrow>
        fst (hd (having_part having order_by limit offset)) \<in> set [''HAVING'', ''ORDER BY'', ''LIMIT'', ''OFFSET'']"
      using part_keys(4) by (rule part_hd) simp
    show "\<forall>(k', b) \<in> set (having_part having order_by limit offset). first_word k' \<noteq> first_word ''GROUP BY''"
      using part_keys(4) by (rule part_first) simp
  qed (use len in \<open>simp_all add: group_part_def\<close>)
  have "length (text_of ?b) < 2 ^ 31" if "group_by \<noteq> []"
    using len body_len [of ?b "''GROUP BY''" "having_part having order_by limit offset"] that by (simp add: group_part_def)
  with take split_names [OF g] show ?thesis by (simp add: parse_group_clause_def)
qed

lemma parse_where_clause_text:
  assumes f: "filter_ok f" and g: "list_all name group_by" and h: "\<And>h. having = Some h \<Longrightarrow> printable_having h \<and> group_by \<noteq> []"
    and ob: "list_all (\<lambda>ob. name (ob_column ob)) order_by"
    and len: "length (clauses_text (select_clauses f group_by having order_by limit offset)) < 2 ^ 31"
  shows "parse_where_clause parse_select (clauses_text (select_clauses f group_by having order_by limit offset)) =
    Ok (f, clauses_text (group_part group_by having order_by limit offset))"
proof -
  have h': "\<And>h. having = Some h \<Longrightarrow> printable_having h" using h by blast
  note ok = part_ok(5) [OF g h' ob]
  have b: "f \<noteq> None \<Longrightarrow> piece Tree (filter_toks (the f))"
    using f filter_statement_piece(1) by (auto simp: filter_ok_def)
  have take: "take_clause (clauses_text (select_clauses f group_by having order_by limit offset)) ''WHERE''
        [''GROUP BY'', ''ORDER BY'', ''LIMIT'', ''OFFSET''] =
      Ok (if f \<noteq> None then Some (text_of (filter_toks (the f))) else None, clauses_text (group_part group_by having order_by limit offset))"
    unfolding select_clauses_parts
  proof (rule take_clause_stage [OF enders_ok(6) b ok enders_ok(1)])
    show "group_part group_by having order_by limit offset \<noteq> [] \<longrightarrow>
        fst (hd (group_part group_by having order_by limit offset)) \<in> set [''GROUP BY'', ''ORDER BY'', ''LIMIT'', ''OFFSET'']"
    proof (cases "having = None")
      case True
      have "order_part order_by limit offset \<noteq> [] \<longrightarrow>
          fst (hd (order_part order_by limit offset)) \<in> set [''GROUP BY'', ''ORDER BY'', ''LIMIT'', ''OFFSET'']"
        using part_keys(3) by (rule part_hd) simp
      with True show ?thesis by (simp add: group_part_def having_part_def clause_def)
    qed (use h in \<open>auto simp: group_part_def clause_def\<close>)
    show "\<forall>(k', b) \<in> set (group_part group_by having order_by limit offset). first_word k' \<noteq> first_word ''WHERE''"
      using part_keys(5) by (rule part_first) simp
  qed (use len in \<open>simp_all add: select_clauses_parts\<close>)
  have "parse_filter parse_select (text_of (filter_toks x)) = Ok x" if "f = Some x" for x
    using f len body_len [of "filter_toks x" "''WHERE''" "group_part group_by having order_by limit offset"] that
    by (intro parse_where_text) (simp_all add: select_clauses_parts filter_ok_def)
  with take show ?thesis by (cases f) (simp_all add: parse_where_clause_def)
qed

section \<open>The statement\<close>

lemma from_piece:
  assumes t: "name t" and js: "list_all printable_join js"
  shows "piece {''WHERE'', ''GROUP'', ''ORDER'', ''LIMIT'', ''OFFSET''} (W t # after_join js)"
proof -
  let ?K = "{''WHERE'', ''GROUP'', ''ORDER'', ''LIMIT'', ''OFFSET''}"
  have "piece ?K (separated [SP] ([W t] # map join_toks js))"
  proof (rule piece_spaced)
    have "piece ?K [W t]" by (rule piece_mono [OF name_piece [OF t]]) (simp add: reserved_def)
    moreover have "piece ?K (join_toks j)" if "printable_join j" for j
      by (rule piece_mono [OF join_piece [OF that]]) (simp add: reserved_def)
    ultimately show "list_all (piece ?K) ([W t] # map join_toks js)" using js by (simp add: list_all_iff)
  qed simp
  then show ?thesis by (simp only: joins_toks) simp
qed

lemma select_clauses_ok_all:
  assumes f: "filter_ok f" and g: "list_all name group_by" and h: "\<And>h. having = Some h \<Longrightarrow> printable_having h"
    and ob: "list_all (\<lambda>ob. name (ob_column ob)) order_by"
  shows "clauses_ok (select_clauses f group_by having order_by limit offset)"
proof -
  have "piece Tree (filter_toks g)" if "f = Some g" for g
    using f that filter_statement_piece(1) [of g] by (simp add: filter_ok_def)
  with part_ok(5) [OF g h ob] show ?thesis
    by (cases f) (simp_all add: select_clauses_parts clause_def clause_keys_def)
qed

lemma parse_select_text:
  assumes p: "printable (Select t cols joins f group_by having order_by limit offset)" and f: "filter_ok f"
    and len: "length (statement_text (Select t cols joins f group_by having order_by limit offset)) < 2 ^ 31"
  defines "st \<equiv> Select t cols joins f group_by having order_by limit offset"
  shows "parse_select (statement_text st) = Ok st"
proof -
  let ?cs = "select_clauses f group_by having order_by limit offset"
  let ?cols = "commas (map select_expr_toks cols)" and ?t = "W t # after_join joins"
  let ?ts = "?t @ then_toks (clause_toks ?cs)"
  let ?enders = "[''WHERE'', ''GROUP BY'', ''ORDER BY'', ''LIMIT'', ''OFFSET'']"
  have t: "name t" and cols: "list_all printable_select_expr cols" "cols \<noteq> []" and js: "list_all printable_join joins"
    and g: "list_all name group_by"
    and h: "\<And>h. having = Some h \<Longrightarrow> disj_shape h \<and> printable_having h \<and> group_by \<noteq> []"
    and ob: "list_all (\<lambda>ob. name (ob_column ob)) order_by" and n: "printable_count limit" "printable_count offset"
    using p by auto
  have h': "\<And>h. having = Some h \<Longrightarrow> printable_having h" "\<And>h. having = Some h \<Longrightarrow> printable_having h \<and> group_by \<noteq> []"
    using h by blast+
  note cs = select_clauses_ok_all [OF f g h'(1) ob]
  have toks: "statement_toks st = W ''SELECT'' # SP # ?cols @ SP # W ''FROM'' # SP # ?ts"
    unfolding st_def statement_toks_Select joins_toks by simp
  have s: "statement_text st = ''SELECT '' @ text_of ?cols @ CHR '' '' # ''FROM'' @ '' '' @ text_of ?ts"
    by (simp add: statement_text_def toks)
  have lens: "length (text_of ?cols) < 2 ^ 31" "length (text_of ?ts) < 2 ^ 31" "length (text_of ?t) < 2 ^ 31"
    "length (clauses_text ?cs) < 2 ^ 31"
    using len unfolding st_def [symmetric] s by (auto simp: then_toks_def split: if_splits)
  have pst: "printable st" using p by (simp only: st_def)
  have pc: "piece Rsv ?cols" using cols select_expr_piece by (intro piece_commas) (auto simp: list_all_iff)
  note pt = from_piece [OF t js]
  have pts: "piece {} ?ts"
    using piece_append [OF piece_mono [OF pt, of "{}"] clauses_piece0 [OF cs]] piece_mono [OF pt, of "{}"]
    by (cases "?cs = []") (simp_all add: then_toks_def)
  have "piece {} [W ''FROM'']" by (rule keyword_piece) simp_all
  from piece_append [OF piece_mono [OF pc, of "{}"] piece_pair [OF this pts]]
  have rest: "statement_rest (statement_text st) ''SELECT'' = Ok (text_of ?cols @ CHR '' '' # ''FROM'' @ '' '' @ text_of ?ts)"
    using statement_trim(1) [OF pst] statement_rest_text [of "statement_text st" "''SELECT''" "?cols @ SP # W ''FROM'' # SP # ?ts"]
    by (simp add: s byte_def)
  have "clean ('' '' @ text_of ?ts)" by (simp add: byte_def)
  with cut [of Rsv "''FROM''" ?cols "'' '' @ text_of ?ts", OF _ pc lens(1)]
  have fro: "find_keyword_outside_quotes (text_of ?cols @ CHR '' '' # ''FROM'' @ '' '' @ text_of ?ts) ''FROM'' = Some (Suc (length (text_of ?cols)))"
    "str_prefix (text_of ?cols @ CHR '' '' # ''FROM'' @ '' '' @ text_of ?ts) (Suc (length (text_of ?cols))) = (Ok (text_of ?cols @ '' '') :: string result)"
    "str_after (text_of ?cols @ CHR '' '' # ''FROM'' @ '' '' @ text_of ?ts) (Suc (length (text_of ?cols))) ''FROM'' = (Ok ('' '' @ text_of ?ts) :: string result)"
    by (simp_all add: reserved_def)
  obtain x y where xy: "str_prefix (text_of ?ts) (end_or (text_of ?ts) (find_first_keyword (text_of ?ts) ?enders)) = (Ok x :: string result)"
    "str_suffix (text_of ?ts) (end_or (text_of ?ts) (find_first_keyword (text_of ?ts) ?enders)) = (Ok y :: string result)"
    "trim x = text_of ?t" "trim y = clauses_text ?cs"
  proof -
    have hd: "?cs \<noteq> [] \<longrightarrow> fst (hd ?cs) \<in> set ?enders"
    proof (cases "having = None")
      case True
      have "order_part order_by limit offset \<noteq> [] \<longrightarrow> fst (hd (order_part order_by limit offset)) \<in> set ?enders"
        using part_keys(3) by (rule part_hd) simp
      with True show ?thesis by (simp add: select_clauses_parts group_part_def having_part_def clause_def)
    qed (use h in \<open>auto simp: select_clauses_parts group_part_def clause_def\<close>)
    have "first_word k \<in> {''WHERE'', ''GROUP'', ''ORDER'', ''LIMIT'', ''OFFSET''} \<and> keyword k" if "k \<in> set ?enders" for k
      using that by (auto simp: keyword_def key_of_def)
    from cut_first [OF pt this cs hd lens(2)] that show thesis by blast
  qed
  have "trim (CHR '' '' # text_of ?ts) = text_of ?ts" "text_of ?ts \<noteq> []" using pts piece_trim(2) piece_text by blast+
  moreover from lens(4) [unfolded select_clauses_parts]
  have l: "length (clauses_text (group_part group_by having order_by limit offset)) < 2 ^ 31" by (rule tail_bound)
  moreover from l [unfolded group_part_def]
  have l: "length (clauses_text (having_part having order_by limit offset)) < 2 ^ 31" by (rule tail_bound)
  moreover from l [unfolded having_part_def]
  have l: "length (clauses_text (order_part order_by limit offset)) < 2 ^ 31" by (rule tail_bound)
  moreover from l [unfolded order_part_def]
  have l: "length (clauses_text (limit_part limit offset)) < 2 ^ 31" by (rule tail_bound)
  moreover from l [unfolded limit_part_def]
  have "length (clauses_text (offset_part offset)) < 2 ^ 31" by (rule tail_bound)
  ultimately have "parse_select_with parse_select (statement_text st) = Ok st"
    using rest fro xy parse_from_text [OF t js lens(3)] parse_where_clause_text [OF f g h'(2) ob lens(4)]
      parse_group_text [OF g h'(1) ob] parse_having_clause_text [OF h ob] parse_order_text [OF ob] parse_limit_text [OF n(1)]
      parse_offset_text [OF n(2)] parse_columns_text [OF cols lens(1)] piece_trim(1,3) [OF pc] clauses_trim [OF cs]
    unfolding parse_select_with_def Let_def by (simp add: st_def del: text_of_simps)
  then show ?thesis by (simp only: parse_select_unfold)
qed

end
