(* ===== verification/Roundtrip.thy ===== *)
theory Roundtrip
  imports Select_Text Script
begin

text \<open>
  The parser inverts the printer: every printable statement, with the subqueries in it, and every
  script of printable statements is parsed back from its text.
\<close>

section \<open>Statements\<close>

lemma separated_ascii: "is_ascii (text_of d) \<Longrightarrow> \<forall>ts \<in> set tss. is_ascii (text_of ts) \<Longrightarrow> is_ascii (text_of (separated d tss))"
  by (induction d tss rule: separated.induct) simp_all

lemma select_expr_ascii: "printable_select_expr x \<Longrightarrow> is_ascii (text_of (select_expr_toks x))"
proof -
  have "is_ascii (aggregate_name func)" for func by (cases func) (simp_all add: byte_def)
  then show "printable_select_expr x \<Longrightarrow> is_ascii (text_of (select_expr_toks x))"
    by (cases x) (auto simp: select_expr_toks_def printable_select_expr_def printable_target_def aggregate_toks_def
        target_toks_def name_ascii byte_def split: aggregate_target.splits)
qed

lemma parse_statement_select:
  assumes "printable (Select t cols joins f group_by having order_by limit offset)"
  defines "st \<equiv> Select t cols joins f group_by having order_by limit offset"
  shows "parse_statement (statement_text st) = parse_select (statement_text st)"
proof -
  let ?cols = "text_of (commas (map select_expr_toks cols))"
  have p: "printable st" and cols: "list_all printable_select_expr cols" "cols \<noteq> []" using assms by simp_all
  have pc: "piece Rsv (commas (map select_expr_toks cols))"
    using cols select_expr_piece by (intro piece_commas) (auto simp: list_all_iff)
  have a: "is_ascii ?cols" using cols(1) select_expr_ascii by (intro separated_ascii) (auto simp: list_all_iff byte_def)
  obtain r where s: "statement_text st = (''SELECT '' @ ?cols @ '' FROM '') @ r"
    unfolding st_def statement_text_def statement_toks_Select by simp
  have "parse_statement (statement_text st) = dispatch (statement_text st) table"
    using statement_trim [OF p] by (intro parse_statement_table [where w = "''SELECT''"]; simp add: s)
  moreover have "length ?cols \<noteq> 0" using piece_text [OF pc] by simp
  ultimately show ?thesis
    using dispatch_table [of "''SELECT '' @ ?cols @ '' FROM ''" r] a
    by (simp add: s lower_upper byte_def Let_def)
qed

lemma parse_exact:
  "parse_statement ''BEGIN'' = Ok Begin" "parse_statement ''COMMIT'' = Ok Commit" "parse_statement ''ROLLBACK'' = Ok Rollback"
  "parse_statement ''SHOW TABLES'' = Ok ShowTables" "parse_statement ''SHOW MIGRATIONS'' = Ok ShowMigrations"
  by code_simp+

lemma filter_ok_option:
  assumes "case f of None \<Rightarrow> True | Some g \<Rightarrow> disj_shape g \<and> printable_filter g" "\<And>g. f = Some g \<Longrightarrow> subqueries_ok parse_select g"
  shows "filter_ok f"
  using assms by (cases f) (simp_all add: filter_ok_def)

lemma parse_print:
  "printable_filter f \<Longrightarrow> length (text_of (filter_toks f)) < 2 ^ 31 \<Longrightarrow> subqueries_ok parse_select f"
  "printable st \<Longrightarrow> length (statement_text st) < 2 ^ 31 \<Longrightarrow> parse_statement (statement_text st) = Ok st"
proof (induction f and st rule: filter_toks_statement_toks.induct)
  case (5 c q negated)
  then obtain t cols joins f group_by having order_by limit offset
    where q: "q = Select t cols joins f group_by having order_by limit offset" by (cases q) simp_all
  have "length (statement_text q) < 2 ^ 31" using 5(3) by (simp add: statement_text_def)
  with 5 have "parse_statement (statement_text q) = Ok q" by simp
  with parse_statement_select [of t cols joins f group_by having order_by limit offset] 5(2) q show ?case by simp
next
  case (8 t cols)
  then show ?case by (rule parse_create_table_text)
next
  case (9 t)
  then show ?case using parse_drop_text by simp
next
  case (10 i t c)
  then show ?case by (rule parse_create_index_text)
next
  case (11 i)
  then show ?case using parse_drop_text by simp
next
  case (12 t col dflt)
  then show ?case by (rule parse_alter_add_text)
next
  case (13 t c)
  then show ?case by (rule parse_alter_drop_text)
next
  case (14 t old new)
  then show ?case by (rule parse_alter_rename_text)
next
  case (15 t cols vs)
  then show ?case by (rule parse_insert_text)
next
  case (16 t asg f)
  have "filter_ok f"
    using 16 by (intro filter_ok_option) (auto simp: statement_text_def split: option.splits)
  with 16(2,3) show ?case by (intro parse_update_text)
next
  case (17 t cols joins f group_by having order_by limit offset)
  let ?st = "Select t cols joins f group_by having order_by limit offset"
  have "filter_ok f"
  proof (rule filter_ok_option)
    fix g
    assume g: "f = Some g"
    then have "length (text_of (filter_toks g)) \<le> length (clauses_text (select_clauses f group_by having order_by limit offset))"
      using body_len [of "filter_toks g" "''WHERE''"] by (simp add: select_clauses_parts)
    then have "length (text_of (filter_toks g)) < 2 ^ 31"
      using 17(4) unfolding statement_text_def statement_toks_Select by (auto simp: then_toks_def split: if_splits)
    then show "subqueries_ok parse_select g" using 17 g by simp
  qed (use 17 in simp)
  with parse_select_text [OF 17(3) _ 17(4)] parse_statement_select [OF 17(3)] show ?case by simp
next
  case (18 t f)
  have "filter_ok f"
    using 18 by (intro filter_ok_option) (auto simp: statement_text_def split: option.splits)
  with 18(2,3) show ?case by (intro parse_delete_text)
next
  case (24 t)
  then show ?case using parse_describe_text by blast
qed (simp_all add: statement_text_def parse_exact)

section \<open>The properties\<close>

text \<open>
  C5: parsing is a left inverse of printing: every printable statement (any kind of statement, with
  joins, nested subqueries, grouping, string literals with quotes and non-ASCII text) is what the
  parser makes of its text, when that is shorter than \<open>2 ^ 31\<close> bytes. Printable means that names are
  bare lower-case names that are not keywords, that conditions are disjunctions of conjunctions (the
  syntax has no parentheses), that LIMIT and OFFSET fit 64 bits, and that in the list of an IN no
  character lies across the sixth byte, where the parser panics (\<open>in_list_panics\<close>).
\<close>
theorem parse_print_statement:
  assumes "printable st" "length (statement_text st) < 2 ^ 31"
  shows "parse_statement (statement_text st) = Ok st"
  using assms by (rule parse_print(2))

definition sample_select :: statement where
  "sample_select = Select ''users'' [Column ''name'', Aggregate Count Star]
     [\<lparr>jc_table = ''orders'', jc_left_table = Some ''users'', jc_left_column = ''id'', jc_right_column = ''user_id''\<rparr>]
     (Some (FOr (FAnd (Compare ''age'' OpGte (VInt 18)) (Compare ''name'' OpLike (VText ''O%'')))
       (InSubquery ''id'' (Select ''vip'' [Column ''user_id''] [] (Some (IsNotNull ''since'')) [] None [] None None) True)))
     [''name''] (Some (Compare ''COUNT(*)'' OpGt (VInt 1)))
     [\<lparr>ob_column = ''name'', ob_order = Desc\<rparr>] (Some 10) None"

definition sample_text :: string where
  "sample_text = ''SELECT name, COUNT(*) FROM users JOIN orders ON users.id = orders.user_id '' @
     ''WHERE age >= 18 AND name LIKE '' @ [SQ] @ ''O%'' @ [SQ] @
     '' OR id NOT IN (SELECT user_id FROM vip WHERE since IS NOT NULL) '' @
     ''GROUP BY name HAVING COUNT(*) > 1 ORDER BY name DESC LIMIT 10''"

lemma sample_names: "name ''users''" "name ''name''" "name ''orders''" "name ''id''" "name ''user_id''" "name ''age''"
  "name ''vip''" "name ''since''"
  by (simp_all add: name_def reserved_def ident_def is_ascii_digit_def eq_ignore_ascii_case_def to_ascii_lowercase_def
      ascii_lower_def byte_def char_of_def)

lemma sample_printable: "printable sample_select"
  by (simp add: sample_select_def sample_names printable_select_expr_def printable_join_def printable_value_def
      printable_target_def having_column_def printable_count_def utf8_valid_ascii byte_def)

lemma sample_select_text: "statement_text sample_select = sample_text"
  by code_simp

lemma parse_print_statement_witness: "parse_statement sample_text = Ok sample_select"
proof -
  have "length (statement_text sample_select) < 2 ^ 31" by (simp add: sample_select_text sample_text_def)
  from parse_print_statement [OF sample_printable this] show ?thesis by (simp add: sample_select_text)
qed

lemma split_script_text:
  assumes "list_all printable sts" "length (script_text sts) < 2 ^ 31"
  shows "split_statements (script_text sts) = Ok (map statement_text sts)"
proof (cases "sts = []")
  case True
  then show ?thesis by (simp add: script_text_def split_statements_def split_aware_def add_piece_def)
next
  case False
  have "tight (statement_toks st) \<and> flat (\<lambda>t. t \<noteq> P CHR '';'') (statement_toks st)" if "st \<in> set sts" for st
  proof -
    from assms(1) that have "statement_piece (statement_toks st)" by (simp add: list_all_iff filter_statement_piece(2))
    then have "piece {} (statement_toks st)" "P CHR '';'' \<notin> set (statement_toks st)" by (simp_all add: statement_piece_def)
    then show ?thesis using pieceD(1,4) scan_absent by blast
  qed
  then have "split_aware (text_of (separated [P CHR '';'', SP] (map statement_toks sts))) '';'' =
      Ok (map text_of (map statement_toks sts))"
    using assms(2) False by (intro split_aware_separated) (simp_all add: list_all_iff script_text_def)
  then show ?thesis by (simp add: split_statements_def script_text_def statement_text_def comp_def)
qed

text \<open>
  C34: a script of printable statements shorter than \<open>2 ^ 31\<close> bytes is parsed back from its text,
  and running the text is running the statements.
\<close>
theorem parse_print_script:
  assumes "list_all printable sts" "length (script_text sts) < 2 ^ 31"
  shows "parse_script (script_text sts) = Ok sts \<and> execute_script D (script_text sts) = execute_all D sts"
proof -
  have "length (statement_text st) < 2 ^ 31" if "st \<in> set sts" for st
    using separated_bound [of "statement_toks st" "map statement_toks sts" "[P CHR '';'', SP]"] assms(2) that
    by (simp add: script_text_def statement_text_def)
  then have "map_res parse_statement (map statement_text sts) = Ok sts"
    using assms(1) by (intro map_res_Ok parse_print(2)) (simp_all add: list_all_iff)
  then have p: "parse_script (script_text sts) = Ok sts" by (simp add: parse_script_def split_script_text [OF assms])
  moreover have "execute_script D (script_text sts) = execute_all D sts"
    by (rule ext) (simp add: execute_script_def p op_bind_def op_lift_def)
  ultimately show ?thesis by simp
qed

lemma parse_print_script_witness:
  "parse_script (''DROP TABLE users; '' @ sample_text) = Ok [DropTable ''users'', sample_select] \<and>
   execute_script sample_deps (''DROP TABLE users; '' @ sample_text) =
     execute_all sample_deps [DropTable ''users'', sample_select]"
proof -
  let ?sts = "[DropTable ''users'', sample_select]"
  have t: "script_text ?sts = ''DROP TABLE users; '' @ sample_text"
    using sample_select_text by (simp add: script_text_def statement_text_def)
  have p: "list_all printable ?sts" by (simp add: sample_printable sample_names)
  have l: "length (script_text ?sts) < 2 ^ 31" by (simp add: t sample_text_def)
  from parse_print_script [OF p l, of sample_deps] show ?thesis by (simp only: t)
qed

end
