(* ===== verification/Shell.thy ===== *)
theory Shell
  imports Script Auth
begin

text \<open>
  \<open>src/main.rs\<close>: the command line. The state \<open>shell\<close> is what a process shares with the world: the
  rest of standard input, the output so far, the data directory with its user store and audit log.
  An error is an exit status; \<open>host\<close> answers what the process asks the operating system.
\<close>

section \<open>The process\<close>

datatype written = Out string | ErrOut string

record shell =
  sh_in :: string
  sh_out :: "written list"
  sh_users :: "string \<rightharpoonup> string"
  sh_rng :: nat
  sh_disk :: disk
  sh_audit :: string

type_synonym 'a shell_op = "(shell, nat, 'a) op"

text \<open>
  Environment variables that are valid Unicode; the answer to a password prompt on the terminal (each
  prompt of the program has its own text) and the text of a file, or the message of the error.
\<close>

record host =
  h_env :: "string \<rightharpoonup> string"
  h_prompt :: "string \<Rightarrow> string + string"
  h_read_file :: "string \<Rightarrow> string + string"

record cli =
  cli_master_key_env :: string
  cli_keygen :: bool
  cli_user :: "string option"
  cli_password_env :: string
  cli_password_stdin :: bool
  cli_bootstrap_admin :: "string option"
  cli_add_user :: "string option"
  cli_add_role :: string
  cli_new_user_password_env :: string
  cli_new_user_password_stdin :: bool
  cli_execute :: "string option"
  cli_file :: "string option"

definition emit :: "written list \<Rightarrow> shell \<Rightarrow> shell" where
  "emit out sh = sh\<lparr>sh_out := sh_out sh @ out\<rparr>"

definition println :: "string \<Rightarrow> (shell, 'e, unit) op" where
  "println line = op_mod (emit [Out (line @ [NL])])"

definition eprintln :: "string \<Rightarrow> (shell, 'e, unit) op" where
  "eprintln line = op_mod (emit [ErrOut (line @ [NL])])"

definition die :: "string \<Rightarrow> 'a shell_op" where
  "die line = op_seq (eprintln line) (op_err 1)"

text \<open>A \<open>match\<close> whose error arm prints its lines and leaves with status 1.\<close>

definition attempt :: "('e \<Rightarrow> string list) \<Rightarrow> (shell, 'e, 'a) op \<Rightarrow> 'a shell_op" where
  "attempt msg m = (\<lambda>sh. case m sh of
     (Ok x, sh') \<Rightarrow> (Ok x, sh')
   | (Err e, sh') \<Rightarrow> op_seq (op_each eprintln (msg e)) (op_err 1) sh'
   | (Panic p, sh') \<Rightarrow> (Panic p, sh'))"

section \<open>Result tables\<close>

definition pad :: "string \<Rightarrow> nat \<Rightarrow> string" where
  "pad cell width = cell @ replicate (width - length (chars cell)) CHR '' ''"

definition separator_line :: "nat list \<Rightarrow> string" where
  "separator_line widths = ''+'' @ join_with ''+'' (map (\<lambda>w. replicate (w + 2) CHR ''-'') widths) @ ''+''"

definition cells_line :: "string list \<Rightarrow> nat list \<Rightarrow> string" where
  "cells_line cells widths = ''|'' @ concat (map (\<lambda>(cell, w). '' '' @ pad cell w @ '' |'') (zip cells widths))"

text \<open>\<open>widths[i] = widths[i].max(cell.len())\<close> for the cells of a row, from position \<open>i\<close>.\<close>

fun widen :: "nat \<Rightarrow> string list \<Rightarrow> nat list \<Rightarrow> ('e, nat list) res" where
  "widen i [] widths = Ok widths"
| "widen i (cell # cells) widths =
     (if i < length widths then widen (i + 1) cells (widths[i := max (widths ! i) (length cell)])
      else Panic ''index out of bounds'')"

definition row_lines :: "string list \<Rightarrow> value_t list list \<Rightarrow> ('e, string list) res" where
  "row_lines columns rows =
     (let printable = map (map show_value) rows in
      tryq (fold_res (widen 0) printable (map length columns)) (\<lambda>widths.
      Ok ([separator_line widths, cells_line columns widths, separator_line widths] @
          map (\<lambda>cells. cells_line cells widths) printable @
          [separator_line widths, show_nat (length rows) @ '' row(s)''])))"

definition result_lines :: "query_result \<Rightarrow> ('e, string list) res" where
  "result_lines result = (case result of Message m \<Rightarrow> Ok [m] | Rows columns rows \<Rightarrow> row_lines columns rows)"

definition print_result :: "query_result \<Rightarrow> (shell, 'e, unit) op" where
  "print_result result = op_bind (op_lift (result_lines result)) (op_each println)"

section \<open>Scripts\<close>

text \<open>The error is the text of the engine's error.\<close>

definition run_script :: "deps \<Rightarrow> string \<Rightarrow> (engine \<times> shell, string, unit) op" where
  "run_script D script = (\<lambda>(e, sh). case execute_script D script e of
     (Ok results, e') \<Rightarrow> (case op_each print_result results sh of (r, sh') \<Rightarrow> (r, (e', sh')))
   | (Err err, e') \<Rightarrow> (Err (show_error err), (e', sh))
   | (Panic p, e') \<Rightarrow> (Panic p, (e', sh)))"

definition matches_quit_command :: "string \<Rightarrow> bool" where
  "matches_quit_command input \<longleftrightarrow> eq_ignore_ascii_case input ''exit'' \<or> eq_ignore_ascii_case input ''quit'' \<or>
     eq_ignore_ascii_case input [CHR 92, CHR ''q'']"

text \<open>The lines of standard input, each with its newline.\<close>

fun input_lines :: "string \<Rightarrow> string list" where
  "input_lines [] = []"
| "input_lines (c # s) =
     (if c = NL then [c] # input_lines s
      else (case input_lines s of [] \<Rightarrow> [[c]] | line # lines \<Rightarrow> (c # line) # lines))"

fun repl_loop :: "deps \<Rightarrow> string \<Rightarrow> string list \<Rightarrow> (engine \<times> shell, string, unit) op" where
  "repl_loop D buffer lines (e, sh) =
     (let sh = emit [Out (if buffer = [] then ''fluxdb> '' else ''   ...> '')] sh in
      case lines of
        [] \<Rightarrow> (Ok (), (e, sh))
      | line # rest \<Rightarrow>
          if \<not> utf8_valid line
          then (Ok (), (e, emit [ErrOut (''Input error: stream did not contain valid UTF-8'' @ [NL])] sh))
          else if buffer = [] \<and> matches_quit_command (trim line) then (Ok (), (e, sh))
          else if trim line = [] \<and> buffer = [] then repl_loop D [] rest (e, sh)
          else if \<not> str_ends_with CHR '';'' (trim line) then repl_loop D (buffer @ line) rest (e, sh)
          else (case run_script D (buffer @ line) (e, sh) of
              (Ok _, e', sh') \<Rightarrow> repl_loop D [] rest (e', sh')
            | (Err err, e', sh') \<Rightarrow> repl_loop D [] rest (e', emit [ErrOut (''Error: '' @ err @ [NL])] sh')
            | (Panic p, st) \<Rightarrow> (Panic p, st)))"

declare repl_loop.simps [simp del]

definition run_repl :: "deps \<Rightarrow> (engine \<times> shell, string, unit) op" where
  "run_repl D = (\<lambda>(e, sh). repl_loop D [] (input_lines (sh_in sh)) (e,
     emit [Out (''FluxDB shell'' @ [NL]),
       Out (''Type SQL statements ending with '' @ quoted '';'' @ ''. Use '' @ quoted ''exit'' @ '' or '' @
         quoted [CHR 92, CHR ''q''] @ '' to quit.'' @ [NL])] sh))"

section \<open>Passwords and accounts\<close>

definition trim_end_newlines :: "string \<Rightarrow> string" where
  "trim_end_newlines s = rev (dropWhile (\<lambda>c. c = CHR 13 \<or> c = NL) (rev s))"

definition read_password :: "host \<Rightarrow> string \<Rightarrow> bool \<Rightarrow> string \<Rightarrow> (shell, string, string) op" where
  "read_password H env_name read_from_stdin prompt =
     (if read_from_stdin then (\<lambda>sh.
        let input = sh_in sh; sh' = sh\<lparr>sh_in := []\<rparr> in
        if \<not> utf8_valid input
        then (Err ''Failed to read password from stdin: stream did not contain valid UTF-8'', sh')
        else let password = trim_end_newlines input in
          if password = [] then (Err ''Password from stdin is empty'', sh') else (Ok password, sh'))
      else op_lift
        (let ask = (case h_prompt H prompt of Inl e \<Rightarrow> Err (''Password read failed: '' @ e) | Inr password \<Rightarrow> Ok password)
         in case h_env H env_name of
              Some password \<Rightarrow> if trim password \<noteq> [] then Ok password else ask
            | None \<Rightarrow> ask))"

text \<open>An operation of the user store, which also writes its file.\<close>

definition on_users :: "auth_manager \<Rightarrow> 'a auth_op \<Rightarrow> (shell, flux_error, auth_manager) op" where
  "on_users m f = (\<lambda>sh. case f m of (r, m') \<Rightarrow>
     (tryq r (\<lambda>_. Ok m'), sh\<lparr>sh_users := am_files m', sh_rng := am_rng m'\<rparr>))"

definition login_password :: "host \<Rightarrow> cli \<Rightarrow> string \<Rightarrow> string shell_op" where
  "login_password H cli prompt =
     attempt (\<lambda>e. [e]) (read_password H (cli_password_env cli) (cli_password_stdin cli) prompt)"

definition bootstrap :: "deps \<Rightarrow> host \<Rightarrow> cli \<Rightarrow> auth_manager \<Rightarrow> string \<Rightarrow> auth_manager shell_op" where
  "bootstrap D H cli m admin =
     op_bind (login_password H cli ''Bootstrap admin password: '') (\<lambda>password.
     op_bind (attempt (\<lambda>e. [''Failed to bootstrap admin user: '' @ show_error e])
       (on_users m (create_user D admin password Admin))) (\<lambda>m'.
     op_seq (println (''Admin user '' @ quoted admin @ '' created.'')) (op_ret m')))"

definition open_accounts :: "deps \<Rightarrow> host \<Rightarrow> cli \<Rightarrow> u8 list \<Rightarrow> auth_manager shell_op" where
  "open_accounts D H cli key =
     op_bind (attempt (\<lambda>e. [''Failed to open auth store: '' @ show_error e])
       (op_read (\<lambda>sh. auth_open D key (sh_users sh) (sh_rng sh)))) (\<lambda>m.
     if has_users m then op_ret m
     else case cli_bootstrap_admin cli of
       None \<Rightarrow> die ''No users exist. Provide --bootstrap-admin <username> to initialize auth.''
     | Some admin \<Rightarrow> bootstrap D H cli m admin)"

definition log_in :: "deps \<Rightarrow> host \<Rightarrow> cli \<Rightarrow> auth_manager \<Rightarrow> identity shell_op" where
  "log_in D H cli m = (case cli_user cli of
     None \<Rightarrow> die ''Provide --user <username>.''
   | Some user \<Rightarrow>
       op_bind (login_password H cli ''Password: '') (\<lambda>password.
       attempt (\<lambda>e. [''Authentication failed: '' @ show_error e]) (op_lift (authenticate D m user password))))"

definition add_user :: "deps \<Rightarrow> host \<Rightarrow> cli \<Rightarrow> auth_manager \<Rightarrow> identity \<Rightarrow> string \<Rightarrow> unit shell_op" where
  "add_user D H cli m who new_user =
     (if id_role who \<noteq> Admin then die ''Only admin user can execute --add-user.''
      else op_bind (attempt (\<lambda>e. [show_error e]) (op_lift (role_parse (cli_add_role cli)))) (\<lambda>r.
        op_bind (attempt (\<lambda>e. [e]) (read_password H (cli_new_user_password_env cli)
          (cli_new_user_password_stdin cli) ''New user password: '')) (\<lambda>password.
        op_bind (attempt (\<lambda>e. [''Failed to create user '' @ quoted new_user @ '': '' @ show_error e])
          (on_users m (create_user D new_user password r))) (\<lambda>_.
        println (''User '' @ quoted new_user @ '' created with role '' @ quoted (show_role r) @ ''.'')))))"

section \<open>The program\<close>

text \<open>
  The engine is dropped when \<open>main\<close> returns or unwinds, which flushes the indexes; \<open>exit\<close> leaves the
  files as they are.
\<close>

definition engine_gone :: "(engine \<Rightarrow> disk) \<Rightarrow> engine \<times> shell \<Rightarrow> shell" where
  "engine_gone f = (\<lambda>(e, sh). sh\<lparr>sh_disk := f e, sh_audit := en_audit e\<rparr>)"

definition dropped :: "deps \<Rightarrow> engine \<times> shell \<Rightarrow> shell" where
  "dropped D = engine_gone (\<lambda>e. storage_close D (en_storage e))"

definition abandoned :: "engine \<times> shell \<Rightarrow> shell" where
  "abandoned = engine_gone (\<lambda>e. disk.truncate (en_storage e))"

definition script_exit :: "deps \<Rightarrow> (string, unit) res \<times> engine \<times> shell \<Rightarrow> (nat, unit) res \<times> shell" where
  "script_exit D = (\<lambda>(r, st). case r of
     Ok _ \<Rightarrow> (Ok (), dropped D st)
   | Err e \<Rightarrow> die e (abandoned st)
   | Panic p \<Rightarrow> (Panic p, dropped D st))"

text \<open>The engine runs the script of the command line, that of a file, or the interactive loop.\<close>

definition use_engine :: "deps \<Rightarrow> host \<Rightarrow> cli \<Rightarrow> engine \<Rightarrow> unit shell_op" where
  "use_engine D H cli e = (\<lambda>sh. case cli_execute cli of
     Some script \<Rightarrow> script_exit D (run_script D script (e, sh))
   | None \<Rightarrow>
   (case cli_file cli of
     Some path \<Rightarrow>
       (case h_read_file H path of
          Inl err \<Rightarrow> die (''Failed to read SQL file '' @ quoted path @ '': '' @ err) (abandoned (e, sh))
        | Inr script \<Rightarrow> script_exit D (run_script D script (e, sh)))
   | None \<Rightarrow> script_exit D (run_repl D (e, sh))))"

definition run_engine :: "deps \<Rightarrow> host \<Rightarrow> cli \<Rightarrow> u8 list \<Rightarrow> identity \<Rightarrow> unit shell_op" where
  "run_engine D H cli key who =
     op_bind (attempt (\<lambda>e. [''Failed to initialize database: '' @ show_error e])
       (op_read (\<lambda>sh. engine_open D key (sh_disk sh) who (sh_audit sh)))) (use_engine D H cli)"

text \<open>With an identity the program either adds a user or runs statements.\<close>

definition logged_in :: "deps \<Rightarrow> host \<Rightarrow> cli \<Rightarrow> u8 list \<Rightarrow> auth_manager \<Rightarrow> identity \<Rightarrow> unit shell_op" where
  "logged_in D H cli key m who = (case cli_add_user cli of
     Some new_user \<Rightarrow> add_user D H cli m who new_user
   | None \<Rightarrow> run_engine D H cli key who)"

definition print_key :: "deps \<Rightarrow> unit shell_op" where
  "print_key D = (\<lambda>sh. case generate_base64_key D (sh_rng sh) of (r, g) \<Rightarrow>
     attempt (\<lambda>e. [show_error e]) (op_bind (op_lift r) println) (sh\<lparr>sh_rng := g\<rparr>))"

definition master_key :: "deps \<Rightarrow> host \<Rightarrow> cli \<Rightarrow> u8 list shell_op" where
  "master_key D H cli =
     attempt (\<lambda>e. [''Security initialization error: '' @ show_error e,
         ''Tip: run `fluxdb --keygen` and set '' @ cli_master_key_env cli @ ''.''])
       (op_lift (from_env D (h_env H) (cli_master_key_env cli)))"

definition shell_main :: "deps \<Rightarrow> host \<Rightarrow> cli \<Rightarrow> unit shell_op" where
  "shell_main D H cli =
     (if cli_keygen cli then print_key D
      else if cli_execute cli \<noteq> None \<and> cli_file cli \<noteq> None
      then op_seq (eprintln ''Use either --execute or --file, not both.'') (op_err 2)
      else
        op_bind (master_key D H cli) (\<lambda>key.
        op_bind (open_accounts D H cli key) (\<lambda>m.
        op_bind (log_in D H cli m) (logged_in D H cli key m))))"

end
