(* ===== verification/Shell_Tables.thy ===== *)
theory Shell_Tables
  imports Shell Query_Correct
begin

text \<open>
  What the command line prints: the tables of results are aligned, and every answer of the engine can be
  printed, so that running a script unwinds only where the parser does or where a sort does.
\<close>

section \<open>Characters\<close>

lemma length_chars_ascii: "is_ascii s \<Longrightarrow> length (chars s) = length s"
  by (simp add: chars_ascii)

lemma is_ascii_replicate: "is_ascii (replicate n c) \<longleftrightarrow> n = 0 \<or> byte c < 128"
  by (induction n) auto

lemma pad_chars:
  assumes "utf8_valid cell" "length cell \<le> w"
  shows "length (chars (pad cell w)) = w" "utf8_valid (pad cell w)"
proof -
  have "is_ascii (replicate n CHR '' '')" for n by (simp add: is_ascii_replicate byte_def)
  then show "length (chars (pad cell w)) = w" "utf8_valid (pad cell w)"
    using assms order_trans [OF length_chars, of cell w]
    by (simp_all add: pad_def chars_append length_chars_ascii utf8_append utf8_valid_ascii)
qed

section \<open>Result tables\<close>

lemma widen_app:
  "length cells \<le> length ws \<Longrightarrow>
   widen (length pre) cells (pre @ ws) = Ok (pre @ map2 max ws (map length cells) @ drop (length cells) ws)"
proof (induction cells arbitrary: pre ws)
  case (Cons cell cells)
  then obtain w ws' where ws: "ws = w # ws'" by (cases ws) auto
  with Cons.prems Cons.IH [of ws' "pre @ [max w (length cell)]"] show ?case by simp
qed simp

lemma widen_ok: "length cells = length ws \<Longrightarrow> widen 0 cells ws = Ok (map2 max ws (map length cells))"
  using widen_app [of cells ws "[]"] by simp

definition fits :: "string list \<Rightarrow> nat list \<Rightarrow> bool" where
  "fits cells ws \<longleftrightarrow> list_all2 (\<lambda>cell w. length cell \<le> w) cells ws"

lemma fits_le: "fits cells ws \<Longrightarrow> list_all2 (\<le>) ws vs \<Longrightarrow> fits cells vs"
  unfolding fits_def by (rule list_all2_trans [where ?P1.0 = "\<lambda>cell w. length cell \<le> w"]) auto

lemma fold_widen:
  "\<forall>row \<in> set rows. length row = length ws \<Longrightarrow>
   \<exists>vs. fold_res (widen 0) rows ws = (Ok vs :: ('e, nat list) res) \<and> list_all2 (\<le>) ws vs \<and> (\<forall>row \<in> set rows. fits row vs)"
proof (induction rows arbitrary: ws)
  case (Cons row rows)
  let ?w = "map2 max ws (map length row)"
  have len: "length row = length ws" "length ?w = length ws" using Cons.prems by simp_all
  then obtain vs where vs: "fold_res (widen 0) rows ?w = (Ok vs :: ('e, nat list) res)"
    "list_all2 (\<le>) ?w vs" "\<forall>row \<in> set rows. fits row vs"
    using Cons.prems Cons.IH [of ?w] by (simp del: length_map) blast
  have "list_all2 (\<le>) ws ?w" "fits row ?w" using len(1) by (auto simp: fits_def list_all2_conv_all_nth)
  then have "list_all2 (\<le>) ws vs" "fits row vs"
    using vs(2) by (auto intro: fits_le list_all2_trans [of "(\<le>)" "(\<le>)" "(\<le>)", OF order_trans])
  with vs len(1) show ?case by (simp add: widen_ok)
qed (simp add: list_all2_refl)

text \<open>The number of characters of a line over columns of these widths.\<close>

definition table_width :: "nat list \<Rightarrow> nat" where
  "table_width ws = 1 + sum_list (map (\<lambda>w. w + 3) ws)"

lemma cells_line_Cons [simp]:
  "cells_line [] [] = ''|''"
  "cells_line (cell # cells) (w # ws) = ''|'' @ '' '' @ pad cell w @ '' '' @ cells_line cells ws"
  by (simp_all add: cells_line_def)

lemma cells_line_width:
  "fits cells ws \<Longrightarrow> \<forall>cell \<in> set cells. utf8_valid cell \<Longrightarrow> length (chars (cells_line cells ws)) = table_width ws"
  unfolding fits_def
proof (induction rule: list_all2_induct)
  case Nil
  then show ?case by (simp add: table_width_def)
next
  case (Cons cell cells w ws)
  then have p: "length (chars (pad cell w)) = w" "utf8_valid (pad cell w)" by (simp_all add: pad_chars)
  have "is_ascii ''| ''" "is_ascii '' ''" by (simp_all add: byte_def)
  note a = utf8_valid_ascii [OF this(1)] length_chars_ascii [OF this(1)]
    utf8_valid_ascii [OF this(2)] length_chars_ascii [OF this(2)]
  have "chars (''| '' @ pad cell w @ '' '' @ cells_line cells ws) =
      chars ''| '' @ chars (pad cell w) @ chars '' '' @ chars (cells_line cells ws)"
    by (simp only: chars_append [OF a(1)] chars_append [OF p(2)] chars_append [OF a(3)])
  then have "length (chars (cells_line (cell # cells) (w # ws))) = w + 3 + length (chars (cells_line cells ws))"
    using p(1) a(2,4) by simp
  with Cons show ?case by (simp add: table_width_def)
qed

lemma separator_line_width: "ws \<noteq> [] \<Longrightarrow> length (chars (separator_line ws)) = table_width ws"
proof -
  have j: "is_ascii (join_with ''+'' (map (\<lambda>w. replicate (w + 2) CHR ''-'') ws)) \<and>
    length (join_with ''+'' (map (\<lambda>w. replicate (w + 2) CHR ''-'') ws)) + 1 = sum_list (map (\<lambda>w. w + 3) ws)"
    if "ws \<noteq> []" for ws
    using that
  proof (induction ws rule: list_nonempty_induct)
    case (single w)
    then show ?case by (simp add: is_ascii_replicate byte_def)
  next
    case (cons w ws)
    then show ?case by (cases ws) (auto simp: is_ascii_replicate byte_def)
  qed
  assume "ws \<noteq> []"
  from j [OF this] show ?thesis
    by (simp add: separator_line_def length_chars_ascii table_width_def byte_def del: chars.simps)
qed

text \<open>
  C33: a result table is drawn for rows that have a value for every column, and it is aligned: all its
  lines, the separators, the header and one line per row, have the same number of characters; below it
  stands the number of rows. The widths are taken in bytes and the padding in characters, so a column is
  wide enough for every cell, in any script.
\<close>
theorem print_rows_aligned:
  assumes "columns \<noteq> []" and "\<forall>row \<in> set rows. length row = length columns"
    and "\<forall>c \<in> set columns. utf8_valid c" and "\<forall>row \<in> set rows. \<forall>v \<in> set row. utf8_valid (show_value v)"
  shows "\<exists>lines width. row_lines columns rows = (Ok (lines @ [show_nat (length rows) @ '' row(s)'']) :: ('e, string list) res) \<and>
    length lines = length rows + 4 \<and> (\<forall>line \<in> set lines. length (chars line) = width)"
proof -
  let ?p = "map (map show_value) rows"
  have "\<forall>row \<in> set ?p. length row = length (map length columns)" using assms(2) by simp
  from fold_widen [OF this] obtain ws where ws:
    "fold_res (widen 0) ?p (map length columns) = (Ok ws :: ('e, nat list) res)"
    "list_all2 (\<le>) (map length columns) ws" "\<forall>row \<in> set ?p. fits row ws" by blast
  have "fits columns ws" using ws(2) by (simp add: fits_def list_all2_map1)
  then have h: "length (chars (cells_line columns ws)) = table_width ws" using assms(3) by (rule cells_line_width)
  have "ws \<noteq> []" using ws(2) assms(1) by auto
  then have s: "length (chars (separator_line ws)) = table_width ws" by (rule separator_line_width)
  have r: "\<forall>row \<in> set ?p. length (chars (cells_line row ws)) = table_width ws"
    using ws(3) assms(4) by (auto intro!: cells_line_width)
  let ?lines = "[separator_line ws, cells_line columns ws, separator_line ws] @
    map (\<lambda>cells. cells_line cells ws) ?p @ [separator_line ws]"
  have "row_lines columns rows = (Ok (?lines @ [show_nat (length rows) @ '' row(s)'']) :: ('e, string list) res)"
    using ws(1) by (simp add: row_lines_def Let_def)
  moreover have "length ?lines = length rows + 4" by simp
  moreover have "\<forall>line \<in> set ?lines. length (chars line) = table_width ws"
    using h s r by (simp del: chars.simps)
  ultimately show ?thesis by blast
qed

lemma print_rows_aligned_witness:
  "\<exists>lines width. row_lines [''id'', ''name''] [[VInt 1, VText [CHR 195, CHR 169]]] =
      (Ok (lines @ [show_nat 1 @ '' row(s)'']) :: (string, string list) res) \<and>
    length lines = 5 \<and> (\<forall>line \<in> set lines. length (chars line) = width)"
  using print_rows_aligned [of "[''id'', ''name'']" "[[VInt 1, VText [CHR 195, CHR 169]]]"]
  by (simp add: utf8_valid_def utf8_group_ok_def utf8_extra_def byte_def show_i64_def show_int_def show_nat.simps digit_char_def)

section \<open>Printing the answers of the engine\<close>

lemma print_lines: "op_each println lines sh = (Ok (), emit (map (\<lambda>line. Out (line @ [NL])) lines) sh)"
  by (induction lines arbitrary: sh) (simp_all add: op_seq_def op_bind_def op_apply println_def emit_def)

lemma print_result_ok:
  "result_lines q = (Ok lines :: ('e, string list) res) \<Longrightarrow>
    print_result q sh = (Ok () :: ('e, unit) res, emit (map (\<lambda>line. Out (line @ [NL])) lines) sh)"
  by (simp add: print_result_def print_lines)

definition printable_result :: "query_result \<Rightarrow> bool" where
  "printable_result q \<longleftrightarrow> (case q of Message _ \<Rightarrow> True
     | Rows columns rows \<Rightarrow> \<forall>row \<in> set rows. length row = length columns)"

lemma printable_result_simps [simp]:
  "printable_result (Message m)"
  "printable_result (Rows columns rows) \<longleftrightarrow> (\<forall>row \<in> set rows. length row = length columns)"
  by (simp_all add: printable_result_def)

lemma result_lines_ok:
  assumes "printable_result q"
  shows "\<exists>lines. result_lines q = (Ok lines :: ('e, string list) res)"
proof (cases q)
  case (Rows columns rows)
  with assms have "\<forall>row \<in> set (map (map show_value) rows). length row = length (map length columns)" by simp
  from fold_widen [OF this] obtain ws where
    "fold_res (widen 0) (map (map show_value) rows) (map length columns) = (Ok ws :: ('e, nat list) res)" by blast
  then show ?thesis by (simp add: Rows result_lines_def row_lines_def Let_def)
qed (simp add: result_lines_def)

text \<open>Every value of an operation satisfies a predicate.\<close>

definition op_gives :: "('a \<Rightarrow> bool) \<Rightarrow> ('s, 'e, 'a) op \<Rightarrow> bool" where
  "op_gives P m \<longleftrightarrow> (\<forall>s x t. m s = (Ok x, t) \<longrightarrow> P x)"

named_theorems gives_intros \<open>introduction rules for the values of operations\<close>

lemma op_gives_intros [gives_intros]:
  "P x \<Longrightarrow> op_gives P (op_ret x)" "op_gives P (op_err e)" "op_gives P n \<Longrightarrow> op_gives P (op_seq k n)"
  "(\<And>x. op_gives P (f x)) \<Longrightarrow> op_gives P (op_bind m f)"
  "(\<And>s x. g s = Ok x \<Longrightarrow> P x) \<Longrightarrow> op_gives P (op_read g)"
  by (auto simp: op_gives_def res_simps op_seq_Ok_iff)

lemma op_gives_cases [gives_intros]:
  "(b \<Longrightarrow> op_gives P m) \<Longrightarrow> (\<not> b \<Longrightarrow> op_gives P n) \<Longrightarrow> op_gives P (if b then m else n)"
  "op_gives P m \<Longrightarrow> (\<And>x. op_gives P (f x)) \<Longrightarrow> op_gives P (case z of None \<Rightarrow> m | Some x \<Rightarrow> f x)"
  "(\<And>x y. op_gives P (h x y)) \<Longrightarrow> op_gives P (case p of (x, y) \<Rightarrow> h x y)"
  by (auto split: option.splits prod.splits)

lemma execute_unchecked_printable:
  assumes "sort_ok D"
  shows "op_gives printable_result (execute_statement_unchecked D st)"
proof (cases st)
  case (Select t exprs joins f gb having ob lim off)
  have "printable_result q" if sel: "select D s t exprs joins f gb having ob lim off = Ok q" for s q
  proof (cases q)
    case (Rows columns rows)
    with sel select_rows_have_all_columns [OF assms, of s t exprs joins f gb having ob lim off columns rows]
    show ?thesis by (simp add: list_all_iff)
  qed simp
  then show ?thesis by (simp add: Select) (intro gives_intros)
next
  case (Describe t)
  then show ?thesis by (auto simp: describe_def op_gives_def op_apply res_simps)
qed (auto simp: create_table_def drop_table_def create_index_def drop_index_def alter_table_add_column_def
    alter_table_drop_column_def alter_table_rename_column_def insert_row_def update_rows_def delete_rows_def
    show_tables_def show_migrations_def intro!: gives_intros)

lemma execute_statement_printable:
  assumes "sort_ok D"
  shows "op_gives printable_result (execute_statement D st)"
proof -
  have "printable_result q" if run: "execute_statement D st e = (Ok q, e')" for e q e'
  proof -
    obtain r s where m: "execute_statement_unchecked D st (en_storage e) = (r, s)" by fastforce
    with run have "r = Ok q"
      by (cases r) (auto simp: execute_statement_def Let_def op_seq_Ok_iff op_apply on_storage_def split: if_splits)
    with m execute_unchecked_printable [OF assms, of st] show ?thesis unfolding op_gives_def by blast
  qed
  then show ?thesis unfolding op_gives_def by blast
qed

lemma execute_all_printable:
  assumes "sort_ok D" and "execute_all D sts e = (Ok qs, e')" and "q \<in> set qs"
  shows "printable_result q"
  using assms(2,3) unfolding execute_all_def
proof (induction sts arbitrary: e qs)
  case (Cons st sts)
  from Cons.prems(1) obtain q0 qs0 e1 where q0: "execute_statement D st e = (Ok q0, e1)"
    "op_map (execute_statement D) sts e1 = (Ok qs0, e')" "qs = q0 # qs0"
    by (auto simp: res_simps)
  from execute_statement_printable [OF assms(1)] q0(1) have "printable_result q0" unfolding op_gives_def by blast
  with Cons.IH [OF q0(2)] Cons.prems(2) q0(3) show ?case by auto
qed (simp add: op_apply)

text \<open>What a run of a script does: to the engine, to the process, and its outcome.\<close>

lemma print_results_ok:
  "\<forall>q \<in> set qs. printable_result q \<Longrightarrow> \<exists>out. op_each print_result qs sh = (Ok () :: ('e, unit) res, emit out sh)"
proof (induction qs arbitrary: sh)
  case Nil
  then show ?case by (intro exI [of _ "[]"]) (simp add: op_apply emit_def)
next
  case (Cons q qs)
  then obtain lines where "result_lines q = (Ok lines :: ('e, string list) res)"
    using result_lines_ok [where ?'e = 'e, of q] by auto
  note q = print_result_ok [OF this, of sh]
  from Cons obtain out where "op_each print_result qs (emit (map (\<lambda>line. Out (line @ [NL])) lines) sh) =
      (Ok () :: ('e, unit) res, emit out (emit (map (\<lambda>line. Out (line @ [NL])) lines) sh))" by fastforce
  with q have "op_each print_result (q # qs) sh = (Ok () :: ('e, unit) res, emit (map (\<lambda>line. Out (line @ [NL])) lines @ out) sh)"
    by (simp add: op_seq_step emit_def)
  then show ?case by blast
qed

lemma print_result_emits: "print_result q sh = (r, sh') \<Longrightarrow> \<exists>out. sh' = emit out sh"
proof -
  have none: "sh = emit [] sh" by (simp add: emit_def)
  assume "print_result q sh = (r, sh')"
  then show ?thesis
    using none by (cases "result_lines q :: ('a, string list) res") (auto simp: print_result_def op_bind_def op_apply print_lines)
qed

lemma print_results_emit: "op_each print_result qs sh = (r :: ('e, unit) res, sh') \<Longrightarrow> \<exists>out. sh' = emit out sh"
proof (induction qs arbitrary: sh)
  case Nil
  then show ?case by (intro exI [of _ "[]"]) (simp add: op_apply emit_def)
next
  case (Cons q qs)
  obtain x sh1 where x: "print_result q sh = (x :: ('e, unit) res, sh1)" by fastforce
  obtain out where out: "sh1 = emit out sh" using print_result_emits [OF x] by blast
  show ?case
  proof (cases x)
    case (Ok u)
    with Cons.prems x have "op_each print_result qs sh1 = (r, sh')" by (simp add: op_seq_step)
    from Cons.IH [OF this] obtain out' where "sh' = emit out' sh1" by blast
    then show ?thesis by (intro exI [of _ "out @ out'"]) (simp add: out emit_def)
  qed (use Cons.prems x out in \<open>auto simp: op_seq_def op_bind_def\<close>)
qed

text \<open>How a script can make the program unwind: it does not parse, or it sorts.\<close>

definition script_panics :: "deps \<Rightarrow> string \<Rightarrow> string \<Rightarrow> bool" where
  "script_panics D script p \<longleftrightarrow> parse_script script = Panic p \<or>
     (\<exists>sts. parse_script script = Ok sts \<and> (\<exists>st \<in> set sts. sorts st) \<and> sort_panic D p)"

lemma run_script_cases:
  assumes "run_script D script (e, sh) = (r, e', sh')"
  shows "\<exists>sts out. e' = run_all D sts e \<and> sh' = emit out sh"
proof -
  have none: "sh = emit [] sh" by (simp add: emit_def)
  obtain x e1 where x: "execute_script D script e = (x, e1)" by fastforce
  with assms have e1: "e' = e1"
    by (cases x) (auto simp: run_script_def split: prod.splits)
  obtain sts where sts: "e1 = run_all D sts e"
  proof (cases "parse_script script")
    case (Ok sts)
    with x have "execute_all D sts e = (x, e1)" by (simp add: execute_script_def)
    from execute_all_cases [OF this] that show thesis by (auto simp: stops_at_def)
  qed (use x that [of "[]"] in \<open>simp_all add: execute_script_def\<close>)
  have "\<exists>out. sh' = emit out sh"
  proof (cases x)
    case (Ok qs)
    obtain y sh1 where y: "op_each print_result qs sh = (y :: (string, unit) res, sh1)" by fastforce
    with Ok x assms print_results_emit [OF y] show ?thesis by (simp add: run_script_def)
  qed (use x assms none in \<open>auto simp: run_script_def\<close>)
  with sts e1 show ?thesis by blast
qed

lemma run_script_panics:
  assumes ok: "sort_ok D" and run: "run_script D script (e, sh) = (Panic p, st)"
  shows "script_panics D script p"
proof (cases "parse_script script")
  case (Ok sts)
  obtain x e1 where x: "execute_all D sts e = (x, e1)" by fastforce
  with Ok have ex: "execute_script D script e = (x, e1)" by (simp add: execute_script_def)
  show ?thesis
  proof (cases x)
    case (Ok qs)
    obtain out where "op_each print_result qs sh = (Ok () :: (string, unit) res, emit out sh)"
      using print_results_ok execute_all_printable [OF ok] x Ok by metis
    with run ex Ok show ?thesis by (simp add: run_script_def)
  next
    case (Err err)
    with run ex show ?thesis by (simp add: run_script_def)
  next
    case (Panic q)
    with run ex have "q = p" by (simp add: run_script_def)
    moreover from execute_all_cases [OF x] Panic obtain k where "answer_at D sts e k = Panic q" "k < length sts"
      by (auto simp: stops_at_def)
    ultimately show ?thesis
      using answer_at_panic [of D sts e k p] Ok nth_mem [of k sts] unfolding script_panics_def by blast
  qed
qed (use run in \<open>simp_all add: run_script_def execute_script_def script_panics_def\<close>)

end
