(* ===== verification/Shell_Runs.thy ===== *)
theory Shell_Runs
  imports Shell_Tables
begin

text \<open>
  What the stages of the command line do to the accounts, the database and the audit log: the stages that
  change nothing, the bootstrap, the creation of a user, a session with the engine, and the cases of a run.
\<close>

section \<open>The stages of the program\<close>

text \<open>What a run leaves behind: the accounts, the database and the audit log.\<close>

definition world :: "shell \<Rightarrow> (string \<rightharpoonup> string) \<times> disk \<times> string" where
  "world sh = (sh_users sh, sh_disk sh, sh_audit sh)"

lemma world_simps [simp]:
  "world (emit out sh) = world sh" "world (sh\<lparr>sh_in := i\<rparr>) = world sh" "world (sh\<lparr>sh_rng := g\<rparr>) = world sh"
  by (simp_all add: world_def emit_def)

definition keeps_world :: "(shell, 'e, 'a) op \<Rightarrow> bool" where
  "keeps_world m \<longleftrightarrow> (\<forall>sh. world (snd (m sh)) = world sh)"

named_theorems world_intros \<open>introduction rules for stages that change nothing that lasts\<close>

lemma keeps_worldD: "keeps_world m \<Longrightarrow> m sh = (r, sh') \<Longrightarrow> world sh' = world sh"
  unfolding keeps_world_def by (metis snd_conv)

lemma keeps_worldI: "(\<And>sh r sh'. m sh = (r, sh') \<Longrightarrow> world sh' = world sh) \<Longrightarrow> keeps_world m"
  unfolding keeps_world_def by (metis prod.collapse)

lemma keeps_world_bind [world_intros]:
  "keeps_world m \<Longrightarrow> (\<And>x. keeps_world (f x)) \<Longrightarrow> keeps_world (op_bind m f)"
  by (auto simp: keeps_world_def op_bind_def split: prod.splits res.splits) (metis snd_conv)+

lemma keeps_world_prim [world_intros]:
  "keeps_world (op_ret x)" "keeps_world (op_err e)" "keeps_world (op_lift r)" "keeps_world (op_read g)"
  "keeps_world (println line)" "keeps_world (eprintln line)"
  by (simp_all add: keeps_world_def op_apply println_def eprintln_def)

lemma keeps_world_seq [world_intros]: "keeps_world k \<Longrightarrow> keeps_world n \<Longrightarrow> keeps_world (op_seq k n)"
  unfolding op_seq_def by (rule keeps_world_bind)

lemma keeps_world_die [world_intros]: "keeps_world (die line)"
  unfolding die_def by (intro world_intros)

lemma attempt_emit:
  "attempt msg m sh = (case m sh of (Ok x, s) \<Rightarrow> (Ok x, s)
    | (Err e, s) \<Rightarrow> (Err 1, emit (map (\<lambda>line. ErrOut (line @ [NL])) (msg e)) s) | (Panic p, s) \<Rightarrow> (Panic p, s))"
proof -
  have "op_each eprintln ls s = (Ok () :: (nat, unit) res, emit (map (\<lambda>line. ErrOut (line @ [NL])) ls) s)" for ls s
    by (induction ls arbitrary: s) (simp_all add: op_seq_def op_bind_def op_apply eprintln_def emit_def)
  then show ?thesis by (simp add: attempt_def op_seq_step op_apply split: prod.split res.split)
qed

lemma attempt_cases:
  assumes "attempt msg m sh = (r, sh')"
  shows "(\<exists>x. r = Ok x \<and> m sh = (Ok x, sh')) \<or>
    (\<exists>e sh1. m sh = (Err e, sh1) \<and> r = Err 1 \<and> world sh' = world sh1) \<or> (\<exists>p. r = Panic p \<and> m sh = (Panic p, sh'))"
  using assms by (cases "m sh"; cases "fst (m sh)") (auto simp: attempt_emit)

lemma keeps_world_attempt [world_intros]:
  assumes "keeps_world m"
  shows "keeps_world (attempt msg m)"
proof (rule keeps_worldI)
  fix sh r sh' assume "attempt msg m sh = (r, sh')"
  from attempt_cases [OF this] show "world sh' = world sh" using keeps_worldD [OF assms] by metis
qed

lemma keeps_world_read_password [world_intros]: "keeps_world (read_password H name stdin prompt)"
  by (simp add: read_password_def keeps_world_def op_apply Let_def)

lemma keeps_world_login_password [world_intros]: "keeps_world (login_password H cli prompt)"
  unfolding login_password_def by (intro world_intros)

lemma keeps_world_log_in [world_intros]: "keeps_world (log_in D H cli m)"
  unfolding log_in_def by (auto split: option.splits intro!: world_intros)

lemma op_bind_cases:
  assumes "op_bind m f s = (r, t)"
  shows "(\<exists>x s'. m s = (Ok x, s') \<and> f x s' = (r, t)) \<or> (\<exists>e. m s = (Err e, t) \<and> r = Err e) \<or>
    (\<exists>p. m s = (Panic p, t) \<and> r = Panic p)"
  using assms by (auto simp: op_bind_def split: prod.splits res.splits)

text \<open>Creating an account changes the file only if it succeeds.\<close>

lemma auth_save_files:
  "auth_save D m = (r, m') \<Longrightarrow> r = Ok () \<or> am_files m' = am_files m"
  by (auto simp: auth_save_def split: prod.splits res.splits)

lemma create_user_files:
  assumes "create_user D u p r m = (x, m')"
  shows "x = Ok () \<or> am_files m' = am_files m"
proof -
  let ?m = "m\<lparr>am_rng := Suc (am_rng m), am_store := fmupd u rec (am_store m)\<rparr>"
  have "x = Ok () \<or> am_files m' = am_files m" if "auth_save D (m\<lparr>am_rng := g, am_store := s\<rparr>) = (x, m')" for g s
    using auth_save_files [OF that] by simp
  with assms show ?thesis
    by (auto simp: create_user_def op_apply Let_def validate_username_def split: if_splits)
qed

text \<open>A new account: the call that made it, on the store before.\<close>

definition created :: "deps \<Rightarrow> auth_manager \<Rightarrow> string \<Rightarrow> role \<Rightarrow> auth_manager \<Rightarrow> bool" where
  "created D m u r m' \<longleftrightarrow> (\<exists>password. create_user D u password r m = (Ok (), m'))"

lemma on_users_cases:
  assumes "attempt msg (on_users m (create_user D u p r)) sh = (x, sh')" and "am_files m = sh_users sh"
  shows "sh_disk sh' = sh_disk sh \<and> sh_audit sh' = sh_audit sh \<and>
    (case x of Ok m' \<Rightarrow> created D m u r m' \<and> sh_users sh' = am_files m' | _ \<Rightarrow> sh_users sh' = sh_users sh)"
proof -
  obtain y m' where y: "create_user D u p r m = (y, m')" by fastforce
  let ?sh = "sh\<lparr>sh_users := am_files m', sh_rng := am_rng m'\<rparr>"
  have o: "on_users m (create_user D u p r) sh = (tryq y (\<lambda>_. Ok m'), ?sh)"
    using y by (simp add: on_users_def)
  have w: "world ?sh = (am_files m', sh_disk sh, sh_audit sh)" by (simp add: world_def)
  show ?thesis
  proof (cases y)
    case (Ok v)
    with attempt_cases [OF assms(1)] o have "x = Ok m'" "sh' = ?sh" by auto
    with y Ok show ?thesis by (auto simp: created_def)
  next
    case (Err e)
    with create_user_files [OF y] assms(2) have "am_files m' = sh_users sh" by simp
    with attempt_cases [OF assms(1)] o Err w have "x = Err 1" "world sh' = world sh" by (auto simp: world_def)
    then show ?thesis by (simp add: world_def)
  next
    case (Panic p)
    with create_user_files [OF y] assms(2) have "am_files m' = sh_users sh" by simp
    with attempt_cases [OF assms(1)] o Panic have "\<exists>p. x = Panic p" "sh' = ?sh" by auto
    with \<open>am_files m' = sh_users sh\<close> show ?thesis by auto
  qed
qed

lemma auth_open_files: "auth_open D key files g = Ok m \<Longrightarrow> am_files m = files \<and> am_key m = key"
  by (auto simp: auth_open_def res_simps)

lemma attempt_pure:
  assumes "attempt msg (op_lift x) sh = (r, sh')"
  shows "world sh' = world sh \<and> (\<forall>y. r = Ok y \<longrightarrow> x = Ok y \<and> sh' = sh) \<and> (\<forall>p. r = Panic p \<longrightarrow> x = Panic p)"
  using attempt_cases [OF assms] by (auto simp: op_apply)

lemma attempt_read:
  assumes "attempt msg (op_read g) sh = (r, sh')"
  shows "world sh' = world sh \<and> (\<forall>y. r = Ok y \<longrightarrow> g sh = Ok y \<and> sh' = sh) \<and> (\<forall>p. r = Panic p \<longrightarrow> g sh = Panic p)"
  using attempt_cases [OF assms] by (auto simp: op_apply)

lemma keeps_world_cases:
  assumes "op_bind m f sh = (r, sh')" "keeps_world m"
  obtains "world sh' = world sh" "\<forall>x. r \<noteq> Ok x" "\<And>p. r = Panic p \<Longrightarrow> fst (m sh) = Panic p"
    | x sh1 where "m sh = (Ok x, sh1)" "world sh1 = world sh" "f x sh1 = (r, sh')"
  using op_bind_cases [OF assms(1)] keeps_worldD [OF assms(2)] by fastforce

text \<open>The first account of an empty store is the administrator named on the command line.\<close>

definition bootstrapped :: "deps \<Rightarrow> cli \<Rightarrow> u8 list \<Rightarrow> shell \<Rightarrow> auth_manager \<Rightarrow> bool" where
  "bootstrapped D cli key sh m \<longleftrightarrow> (\<exists>m0 admin. auth_open D key (sh_users sh) (sh_rng sh) = Ok m0 \<and>
     \<not> has_users m0 \<and> cli_bootstrap_admin cli = Some admin \<and> created D m0 admin Admin m)"

lemma world_eq [simp]:
  "world sh = (u, d, a) \<longleftrightarrow> sh_users sh = u \<and> sh_disk sh = d \<and> sh_audit sh = a"
  "world sh = world sh' \<longleftrightarrow> sh_users sh = sh_users sh' \<and> sh_disk sh = sh_disk sh' \<and> sh_audit sh = sh_audit sh'"
  by (simp_all add: world_def)

lemma bootstrap_cases:
  assumes "bootstrap D H cli m0 admin sh = (r, sh')" and m0: "am_files m0 = sh_users sh"
  shows "sh_disk sh' = sh_disk sh \<and> sh_audit sh' = sh_audit sh \<and>
    (case r of Ok m \<Rightarrow> created D m0 admin Admin m \<and> sh_users sh' = am_files m | _ \<Rightarrow> sh_users sh' = sh_users sh)"
  using assms(1) [unfolded bootstrap_def]
proof (rule keeps_world_cases [OF _ keeps_world_login_password])
  fix password sh1
  let ?create = "attempt (\<lambda>e. [''Failed to bootstrap admin user: '' @ show_error e])
    (on_users m0 (create_user D admin password Admin))"
  assume p: "world sh1 = world sh" and c: "op_bind ?create (\<lambda>m'.
    op_seq (println (''Admin user '' @ quoted admin @ '' created.'')) (op_ret m')) sh1 = (r, sh')"
  obtain x sh2 where x: "?create sh1 = (x, sh2)" by fastforce
  have "am_files m0 = sh_users sh1" using m0 p by simp
  from on_users_cases [OF x this] p have w: "sh_disk sh2 = sh_disk sh" "sh_audit sh2 = sh_audit sh"
    "case x of Ok m' \<Rightarrow> created D m0 admin Admin m' \<and> sh_users sh2 = am_files m' | _ \<Rightarrow> sh_users sh2 = sh_users sh"
    by (auto split: res.splits)
  show ?thesis
  proof (cases x)
    case (Ok m)
    with c x have "r = Ok m" "world sh' = world sh2"
      by (auto simp: op_bind_def op_seq_def op_apply println_def simp del: world_eq)
    with w Ok show ?thesis by simp
  qed (use c x w in \<open>auto simp: op_bind_def\<close>)
qed (auto split: res.splits)

lemma open_accounts_cases:
  assumes "open_accounts D H cli key sh = (r, sh')"
  shows "sh_disk sh' = sh_disk sh \<and> sh_audit sh' = sh_audit sh \<and>
    (sh_users sh' = sh_users sh \<or> (\<exists>m. r = Ok m \<and> bootstrapped D cli key sh m)) \<and>
    (\<forall>m. r = Ok m \<longrightarrow> am_files m = sh_users sh')"
  using assms [unfolded open_accounts_def]
proof (rule keeps_world_cases, goal_cases)
  case 1
  show ?case by (intro world_intros)
next
  case 2
  then show ?case by simp
next
  case (3 m0 sh0)
  from attempt_read [OF 3(1)] have open0: "auth_open D key (sh_users sh) (sh_rng sh) = Ok m0" "sh0 = sh" by auto
  then have files: "am_files m0 = sh_users sh" by (simp add: auth_open_files)
  show ?case
  proof (cases "has_users m0 \<or> cli_bootstrap_admin cli = None")
    case True
    with 3(3) open0(2) files show ?thesis
      by (auto simp: op_apply die_def eprintln_def emit_def split: if_splits)
  next
    case False
    then obtain admin where admin: "\<not> has_users m0" "cli_bootstrap_admin cli = Some admin" by auto
    with 3(3) open0(2) have "bootstrap D H cli m0 admin sh = (r, sh')" by simp
    from bootstrap_cases [OF this files] show ?thesis
      using admin open0(1) by (cases r) (auto simp: bootstrapped_def)
  qed
qed

text \<open>
  The password a run is given: with \<open>--password-stdin\<close> the whole of standard input without its final line
  breaks; otherwise the environment variable, if it is set to more than white space; otherwise the answer to
  the prompt. Standard input is used up by the first of the three only.
\<close>

definition given_password :: "host \<Rightarrow> cli \<Rightarrow> string \<Rightarrow> string \<Rightarrow> string \<Rightarrow> bool" where
  "given_password H cli input prompt password \<longleftrightarrow>
     (if cli_password_stdin cli then utf8_valid input \<and> trim_end_newlines input \<noteq> [] \<and> password = trim_end_newlines input
      else if \<exists>w. h_env H (cli_password_env cli) = Some w \<and> trim w \<noteq> []
      then h_env H (cli_password_env cli) = Some password
      else h_prompt H prompt = Inr password)"

definition consumed :: "cli \<Rightarrow> shell \<Rightarrow> shell" where
  "consumed cli sh = (if cli_password_stdin cli then sh\<lparr>sh_in := []\<rparr> else sh)"

lemma world_consumed [simp]: "world (consumed cli sh) = world sh"
  by (simp add: consumed_def del: world_eq)

lemma consumed_simps [simp]:
  "sh_users (consumed cli sh) = sh_users sh" "sh_disk (consumed cli sh) = sh_disk sh"
  "sh_audit (consumed cli sh) = sh_audit sh" "sh_rng (consumed cli sh) = sh_rng sh"
  by (simp_all add: consumed_def)

lemma read_password_given:
  "read_password H (cli_password_env cli) (cli_password_stdin cli) prompt sh = (Ok password, sh') \<longleftrightarrow>
   given_password H cli (sh_in sh) prompt password \<and> sh' = consumed cli sh"
  by (auto simp: read_password_def given_password_def consumed_def op_apply Let_def split: option.splits sum.splits)

lemma login_password_Ok:
  "login_password H cli prompt sh = (Ok password, sh') \<longleftrightarrow>
   given_password H cli (sh_in sh) prompt password \<and> sh' = consumed cli sh"
  unfolding login_password_def attempt_emit read_password_given [symmetric]
  by (auto split: prod.splits res.splits)

lemma sh_in_simps [simp]:
  "sh_in (emit out sh) = sh_in sh" "sh_in (consumed cli sh) = (if cli_password_stdin cli then [] else sh_in sh)"
  by (simp_all add: emit_def consumed_def)

lemma open_accounts_input:
  assumes "open_accounts D H cli key sh = (Ok m, sh')"
  shows "sh_in sh' = sh_in sh \<or> sh_in sh' = []"
proof -
  have boot: "sh_in s = sh_in sh \<or> sh_in s = []" if run: "bootstrap D H cli m0 admin sh = (Ok m, s)" for m0 admin s
  proof -
    obtain password s1 where p: "login_password H cli ''Bootstrap admin password: '' sh = (Ok password, s1)"
      and rest: "op_bind (attempt (\<lambda>e. [''Failed to bootstrap admin user: '' @ show_error e])
        (on_users m0 (create_user D admin password Admin))) (\<lambda>m'.
        op_seq (println (''Admin user '' @ quoted admin @ '' created.'')) (op_ret m')) s1 = (Ok m, s)"
      using run unfolding bootstrap_def by (auto simp: op_bind_Ok_iff)
    have "sh_in s = sh_in s1" using rest
      by (auto simp: op_bind_Ok_iff attempt_emit on_users_def op_seq_Ok_iff op_apply println_def split: prod.splits res.splits)
    with p show ?thesis by (auto simp: login_password_Ok)
  qed
  from assms show ?thesis unfolding open_accounts_def
    by (auto simp: op_bind_Ok_iff attempt_emit op_apply die_def op_seq_Ok_iff split: if_splits option.splits prod.splits res.splits
        dest: boot)
qed

lemma log_in_cases:
  assumes "log_in D H cli m sh = (r, sh')"
  shows "world sh' = world sh \<and>
    (\<forall>who. r = Ok who \<longrightarrow> (\<exists>user password. cli_user cli = Some user \<and>
       given_password H cli (sh_in sh) ''Password: '' password \<and> authenticate D m user password = Ok who \<and> sh' = consumed cli sh))"
proof -
  have "\<exists>user password. cli_user cli = Some user \<and> given_password H cli (sh_in sh) ''Password: '' password \<and>
      authenticate D m user password = Ok who \<and> sh' = consumed cli sh" if "r = Ok who" for who
  proof (cases "cli_user cli")
    case (Some user)
    with assms that obtain password sh1 where p: "login_password H cli ''Password: '' sh = (Ok password, sh1)"
      "attempt (\<lambda>e. [''Authentication failed: '' @ show_error e]) (op_lift (authenticate D m user password)) sh1 = (Ok who, sh')"
      by (auto simp: log_in_def op_bind_Ok_iff)
    from attempt_pure [OF p(2)] p(1) Some show ?thesis by (auto simp: login_password_Ok)
  qed (use assms that in \<open>simp add: log_in_def die_def op_seq_def op_bind_def op_apply eprintln_def\<close>)
  with keeps_worldD [OF keeps_world_log_in assms] show ?thesis by blast
qed

lemma add_user_cases:
  assumes "add_user D H cli m who new_user sh = (r, sh')" and m: "am_files m = sh_users sh"
  shows "sh_disk sh' = sh_disk sh \<and> sh_audit sh' = sh_audit sh \<and>
    (sh_users sh' = sh_users sh \<or>
     (id_role who = Admin \<and> (\<exists>rl m'. role_parse (cli_add_role cli) = Ok rl \<and> created D m new_user rl m' \<and> sh_users sh' = am_files m')))"
proof (cases "id_role who = Admin")
  case True
  let ?role = "attempt (\<lambda>e. [show_error e]) (op_lift (role_parse (cli_add_role cli)))"
  let ?pw = "attempt (\<lambda>e. [e]) (read_password H (cli_new_user_password_env cli) (cli_new_user_password_stdin cli)
    ''New user password: '')"
  let ?create = "\<lambda>rl password. attempt (\<lambda>e. [''Failed to create user '' @ quoted new_user @ '': '' @ show_error e])
    (on_users m (create_user D new_user password rl))"
  let ?done = "\<lambda>rl. println (''User '' @ quoted new_user @ '' created with role '' @ quoted (show_role rl) @ ''.'')"
  have k: "keeps_world ?role" "keeps_world ?pw" by (intro world_intros)+
  from True assms(1) have a: "op_bind ?role (\<lambda>rl. op_bind ?pw (\<lambda>password. op_bind (?create rl password) (\<lambda>_. ?done rl))) sh = (r, sh')"
    by (simp add: add_user_def)
  show ?thesis
  proof (rule keeps_world_cases [OF a k(1)], simp)
    fix rl sh1 assume rl: "?role sh = (Ok rl, sh1)" and w1: "world sh1 = world sh"
      and b: "op_bind ?pw (\<lambda>password. op_bind (?create rl password) (\<lambda>_. ?done rl)) sh1 = (r, sh')"
    from attempt_pure [OF rl] have parsed: "role_parse (cli_add_role cli) = Ok rl" by blast
    show ?thesis
    proof (rule keeps_world_cases [OF b k(2)], use w1 in simp)
      fix password sh2 assume w2: "world sh2 = world sh1" and c: "op_bind (?create rl password) (\<lambda>_. ?done rl) sh2 = (r, sh')"
      obtain x sh3 where x: "?create rl password sh2 = (x, sh3)" by fastforce
      have "am_files m = sh_users sh2" using m w1 w2 by simp
      from on_users_cases [OF x this] w1 w2 have w: "sh_disk sh3 = sh_disk sh" "sh_audit sh3 = sh_audit sh"
        "case x of Ok m' \<Rightarrow> created D m new_user rl m' \<and> sh_users sh3 = am_files m' | _ \<Rightarrow> sh_users sh3 = sh_users sh"
        by (auto split: res.splits)
      have "world sh' = world sh3" using c x
        by (cases x) (auto simp: op_bind_def op_apply println_def simp del: world_eq)
      with w True parsed show ?thesis by (cases x) auto
    qed
  qed
next
  case False
  with assms(1) show ?thesis by (auto simp: add_user_def die_def op_seq_def op_bind_def op_apply eprintln_def emit_def)
qed

section \<open>Sessions with the engine\<close>

lemma run_all_append: "run_all D (xs @ ys) e = run_all D ys (run_all D xs e)"
  by (induction xs arbitrary: e) simp_all

lemma emit_emit [simp]: "emit b (emit a sh) = emit (a @ b) sh"
  by (simp add: emit_def)

lemma repl_loop_cases:
  "repl_loop D buffer lines (e, sh) = (r, e', sh') \<Longrightarrow> \<exists>sts out. e' = run_all D sts e \<and> sh' = emit out sh"
proof (induction lines arbitrary: buffer e sh)
  case Nil
  then have "e' = run_all D [] e" "\<exists>out. sh' = emit out sh" by (auto simp: repl_loop.simps [of _ _ "[]"] Let_def)
  then show ?case by blast
next
  case (Cons line rest)
  let ?prompt = "[Out (if buffer = [] then ''fluxdb> '' else ''   ...> '')]"
  note step = Cons.prems [unfolded repl_loop.simps [of _ _ "line # rest"] Let_def list.case]
  show ?case
  proof (cases "\<not> utf8_valid line \<or> buffer = [] \<and> matches_quit_command (trim line)")
    case True
    with step have "e' = run_all D [] e" "\<exists>out. sh' = emit out sh"
      by (auto split: if_splits)
    then show ?thesis by blast
  next
    case run: False
    show ?thesis
    proof (cases "trim line = [] \<and> buffer = [] \<or> \<not> str_ends_with CHR '';'' (trim line)")
      case True
      with run step obtain b where "repl_loop D b rest (e, emit ?prompt sh) = (r, e', sh')"
        by (auto split: if_splits)
      from Cons.IH [OF this] show ?thesis by auto
    next
      case False
      obtain x e1 sh1 where x: "run_script D (buffer @ line) (e, emit ?prompt sh) = (x, e1, sh1)" by (metis prod.exhaust)
      from run_script_cases [OF x] obtain sts out where e1: "e1 = run_all D sts e" "sh1 = emit out sh" by auto
      from step run False x have step: "(case x of Ok _ \<Rightarrow> repl_loop D [] rest (e1, sh1)
          | Err err \<Rightarrow> repl_loop D [] rest (e1, emit [ErrOut (''Error: '' @ err @ [NL])] sh1)
          | Panic p \<Rightarrow> (Panic p, e1, sh1)) = (r, e', sh')"
        by (cases x) (simp_all split: if_splits)
      show ?thesis
      proof (cases x)
        case (Panic p)
        with step e1 show ?thesis by auto
      qed (use step Cons.IH e1 in \<open>force simp: run_all_append [symmetric]\<close>)+
    qed
  qed
qed

text \<open>A script of the interactive loop is a run of consecutive lines.\<close>

definition lines_of :: "string list \<Rightarrow> string \<Rightarrow> bool" where
  "lines_of lines script \<longleftrightarrow> (\<exists>pre part post. lines = pre @ part @ post \<and> script = concat part)"

lemma lines_of_empty [simp]: "lines_of lines []"
  unfolding lines_of_def by (rule exI [of _ "[]"], rule exI [of _ "[]"]) simp

lemma lines_of_Cons: "lines_of lines script \<Longrightarrow> lines_of (line # lines) script"
  unfolding lines_of_def by (metis append_Cons)

lemma repl_loop_panics:
  assumes ok: "sort_ok D"
  shows "repl_loop D buffer lines (e, sh) = (Panic p, st) \<Longrightarrow>
    \<exists>script. script_panics D script p \<and>
      ((\<exists>part post. lines = part @ post \<and> script = buffer @ concat part) \<or> lines_of lines script)"
proof (induction lines arbitrary: buffer e sh)
  case Nil
  then show ?case by (simp add: repl_loop.simps [of _ _ "[]"] Let_def)
next
  case (Cons line rest)
  let ?prompt = "[Out (if buffer = [] then ''fluxdb> '' else ''   ...> '')]"
  note step = Cons.prems [unfolded repl_loop.simps [of _ _ "line # rest"] Let_def list.case]
  have later: ?case if "repl_loop D [] rest (e1, sh1) = (Panic p, st)" for e1 sh1
  proof -
    from Cons.IH [OF that] obtain script where s: "script_panics D script p"
      "(\<exists>part post. rest = part @ post \<and> script = concat part) \<or> lines_of rest script" by auto
    then have "lines_of rest script" unfolding lines_of_def by (metis append_Nil)
    with s(1) lines_of_Cons show ?thesis by blast
  qed
  from step have "utf8_valid line" "\<not> (buffer = [] \<and> matches_quit_command (trim line))"
    by (auto split: if_splits)
  note run = this
  show ?case
  proof (cases "trim line = [] \<and> buffer = []")
    case True
    with run step have "repl_loop D [] rest (e, emit ?prompt sh) = (Panic p, st)" by (auto split: if_splits)
    then show ?thesis by (rule later)
  next
    case more: False
    show ?thesis
    proof (cases "str_ends_with CHR '';'' (trim line)")
      case False
      with run more step have "repl_loop D (buffer @ line) rest (e, emit ?prompt sh) = (Panic p, st)"
        by (auto split: if_splits)
      from Cons.IH [OF this] obtain script where s: "script_panics D script p"
        "(\<exists>part post. rest = part @ post \<and> script = (buffer @ line) @ concat part) \<or> lines_of rest script" by blast
      from s(2) show ?thesis
      proof (elim disjE exE conjE)
        fix part post assume "rest = part @ post" "script = (buffer @ line) @ concat part"
        then have "line # rest = (line # part) @ post \<and> script = buffer @ concat (line # part)" by simp
        with s(1) show ?thesis by blast
      qed (use s(1) lines_of_Cons in blast)
    next
      case True
      obtain x e1 sh1 where x: "run_script D (buffer @ line) (e, emit ?prompt sh) = (x, e1, sh1)" by (metis prod.exhaust)
      from step run more True x have step: "(case x of Ok _ \<Rightarrow> repl_loop D [] rest (e1, sh1)
          | Err err \<Rightarrow> repl_loop D [] rest (e1, emit [ErrOut (''Error: '' @ err @ [NL])] sh1)
          | Panic q \<Rightarrow> (Panic q, e1, sh1)) = (Panic p, st)"
        by (cases x) (simp_all split: if_splits)
      show ?thesis
      proof (cases x)
        case (Panic q)
        with step x run_script_panics [OF ok, of "buffer @ line" e _ q "(e1, sh1)"]
        have "script_panics D (buffer @ line) p" by simp
        moreover have "line # rest = [line] @ rest \<and> buffer @ line = buffer @ concat [line]" by simp
        ultimately show ?thesis by blast
      qed (use step later in simp_all)
    qed
  qed
qed

text \<open>A session leaves the database and the audit log of its engine behind; a clean exit flushes the indexes.\<close>

definition left_by :: "deps \<Rightarrow> engine \<Rightarrow> shell \<Rightarrow> bool" where
  "left_by D e sh \<longleftrightarrow> sh_audit sh = en_audit e \<and>
     (sh_disk sh = disk.truncate (en_storage e) \<or> sh_disk sh = storage_close D (en_storage e))"

lemma gone_simps [simp]:
  "sh_users (dropped D (e, sh)) = sh_users sh" "sh_users (abandoned (e, sh)) = sh_users sh"
  "left_by D e (dropped D (e, sh))" "left_by D e (abandoned (e, sh))" "left_by D e (emit out sh) = left_by D e sh"
  by (simp_all add: dropped_def abandoned_def engine_gone_def left_by_def emit_def)

lemma die_emit: "die line sh = (Err 1, emit [ErrOut (line @ [NL])] sh)"
  by (simp add: die_def eprintln_def op_seq_def op_bind_def op_apply)

lemma sh_users_emit [simp]: "sh_users (emit out sh) = sh_users sh"
  by (simp add: emit_def)

lemma script_exit_cases:
  assumes "script_exit D (x, e, sh) = (r, sh')"
  shows "sh_users sh' = sh_users sh \<and> left_by D e sh' \<and> (\<forall>p. r = Panic p \<longrightarrow> x = Panic p)"
  using assms by (cases x) (auto simp: script_exit_def die_emit)

text \<open>
  What \<open>main\<close> relies on of a program it hands the engine to, a script or the interactive loop: it runs
  statements and prints, and unwinds only on one of its scripts, which does not parse or sorts.
\<close>

locale engine_program =
  fixes D :: deps and prog :: "(engine \<times> shell, string, unit) op" and scripts :: "string \<Rightarrow> string \<Rightarrow> bool"
  assumes runs: "prog (e, sh) = (r, e', sh') \<Longrightarrow> \<exists>sts out. e' = run_all D sts e \<and> sh' = emit out sh"
    and unwinds: "sort_ok D \<Longrightarrow> prog (e, sh) = (Panic p, st) \<Longrightarrow>
      \<exists>script. scripts (sh_in sh) script \<and> script_panics D script p"
begin

lemma exit_cases:
  assumes "script_exit D (prog (e, sh)) = (r, sh')"
  shows "sh_users sh' = sh_users sh \<and> (\<exists>sts. left_by D (run_all D sts e) sh')"
proof -
  obtain x e1 sh1 where x: "prog (e, sh) = (x, e1, sh1)" by (metis prod.exhaust)
  with runs [OF x] script_exit_cases [of D x e1 sh1 r sh'] assms show ?thesis by fastforce
qed

lemma exit_panics:
  assumes "sort_ok D" "script_exit D (prog (e, sh)) = (Panic p, sh')"
  shows "\<exists>script. scripts (sh_in sh) script \<and> script_panics D script p"
proof -
  obtain x e1 sh1 where x: "prog (e, sh) = (x, e1, sh1)" by (metis prod.exhaust)
  with script_exit_cases [of D x e1 sh1 "Panic p" sh'] assms(2) have "prog (e, sh) = (Panic p, e1, sh1)" by simp
  with assms(1) show ?thesis by (rule unwinds)
qed

end

interpretation script_program: engine_program D "run_script D script" "\<lambda>input s. s = script" for D script
proof
  show "\<exists>sts out. e' = run_all D sts e \<and> sh' = emit out sh" if "run_script D script (e, sh) = (r, e', sh')" for e sh r e' sh'
    using run_script_cases [OF that] .
  show "\<exists>s. s = script \<and> script_panics D s p" if "sort_ok D" "run_script D script (e, sh) = (Panic p, st)" for e sh p st
    using run_script_panics [OF that] by blast
qed

interpretation repl_program: engine_program D "run_repl D" "\<lambda>input. lines_of (input_lines input)" for D
proof
  show "\<exists>sts out. e' = run_all D sts e \<and> sh' = emit out sh" if "run_repl D (e, sh) = (r, e', sh')" for e sh r e' sh'
    using repl_loop_cases [OF that [unfolded run_repl_def split]] by auto
  show "\<exists>script. lines_of (input_lines (sh_in sh)) script \<and> script_panics D script p"
    if "sort_ok D" "run_repl D (e, sh) = (Panic p, st)" for e sh p st
    using repl_loop_panics [OF that(1) that(2) [unfolded run_repl_def split]]
    unfolding lines_of_def by (metis append_Nil)
qed

text \<open>
  The scripts a run of the program is given: the one of \<open>--execute\<close>, the contents of the file of
  \<open>--file\<close>, or the runs of consecutive lines of standard input.
\<close>

definition given_script :: "host \<Rightarrow> cli \<Rightarrow> string \<Rightarrow> string \<Rightarrow> bool" where
  "given_script H cli input script \<longleftrightarrow> (case cli_execute cli of
     Some s \<Rightarrow> script = s
   | None \<Rightarrow> (case cli_file cli of
       Some path \<Rightarrow> h_read_file H path = Inr script
     | None \<Rightarrow> lines_of (input_lines input) script))"

lemma use_engine_cases:
  assumes "use_engine D H cli e sh = (r, sh')"
  shows "sh_users sh' = sh_users sh \<and> (\<exists>sts. left_by D (run_all D sts e) sh')"
proof -
  have missing: ?thesis if "die line (abandoned (e, sh)) = (r, sh')" for line
    using that by (auto simp: die_emit intro: exI [of _ "[]"])
  from assms script_program.exit_cases repl_program.exit_cases missing show ?thesis
    by (auto simp: use_engine_def split: option.splits sum.splits)
qed

lemma use_engine_panics:
  assumes "sort_ok D" "use_engine D H cli e sh = (Panic p, sh')"
  shows "\<exists>script. given_script H cli (sh_in sh) script \<and> script_panics D script p"
  using assms(2) script_program.exit_panics [OF assms(1)] repl_program.exit_panics [OF assms(1)]
  by (auto simp: use_engine_def given_script_def die_emit split: option.splits sum.splits)

lemma run_engine_cases:
  assumes "run_engine D H cli key who sh = (r, sh')"
  shows "sh_users sh' = sh_users sh \<and>
    (world sh' = world sh \<or> (\<exists>e sts. engine_open D key (sh_disk sh) who (sh_audit sh) = Ok e \<and> left_by D (run_all D sts e) sh'))"
  using assms [unfolded run_engine_def]
proof (rule keeps_world_cases, goal_cases)
  case 1
  show ?case by (intro world_intros)
next
  case 2
  then show ?case by simp
next
  case (3 e sh1)
  with attempt_read [OF 3(1)] use_engine_cases [OF 3(3)] show ?case by auto
qed

text \<open>The stages of the program: the key, the accounts, the login, then one of two tasks.\<close>

lemma keeps_world_print_key: "keeps_world (print_key D)"
proof (rule keeps_worldI)
  fix sh r sh' assume run: "print_key D sh = (r, sh')"
  obtain x g where x: "generate_base64_key D (sh_rng sh) = (x, g)" by fastforce
  have "keeps_world (attempt (\<lambda>e. [show_error e]) (op_bind (op_lift x) println))" by (intro world_intros)
  from keeps_worldD [OF this] run x have "world sh' = world (sh\<lparr>sh_rng := g\<rparr>)"
    by (simp add: print_key_def del: world_eq)
  then show "world sh' = world sh" by simp
qed

lemma keeps_world_master_key: "keeps_world (master_key D H cli)"
  unfolding master_key_def by (intro world_intros)

lemma master_key_Ok: "master_key D H cli sh = (Ok key, sh') \<Longrightarrow> from_env D (h_env H) (cli_master_key_env cli) = Ok key \<and> sh' = sh"
  unfolding master_key_def by (drule attempt_pure) simp

lemma shell_main_cases:
  assumes "shell_main D H cli sh = (r, sh')"
  obtains "world sh' = world sh"
  | key m0 sh1 where "from_env D (h_env H) (cli_master_key_env cli) = Ok key"
      "open_accounts D H cli key sh = (m0, sh1)" "world sh' = world sh1"
  | key m who user password sh1 sh2 where "from_env D (h_env H) (cli_master_key_env cli) = Ok key"
      "open_accounts D H cli key sh = (Ok m, sh1)" "sh2 = consumed cli sh1"
      "cli_user cli = Some user" "authenticate D m user password = Ok who"
      "logged_in D H cli key m who sh2 = (r, sh')" "given_password H cli (sh_in sh1) ''Password: '' password"
proof (cases "cli_keygen cli \<or> cli_execute cli \<noteq> None \<and> cli_file cli \<noteq> None")
  case True
  have "keeps_world (op_seq (eprintln l) (op_err 2) :: unit shell_op)" for l by (intro world_intros)
  with True assms keeps_world_print_key have "world sh' = world sh"
    by (auto simp: shell_main_def simp del: world_eq split: if_splits dest: keeps_worldD)
  then show thesis by (rule that)
next
  case False
  with assms have main: "op_bind (master_key D H cli) (\<lambda>key. op_bind (open_accounts D H cli key) (\<lambda>m.
      op_bind (log_in D H cli m) (logged_in D H cli key m))) sh = (r, sh')"
    by (auto simp: shell_main_def)
  show thesis
  proof (rule keeps_world_cases [OF main keeps_world_master_key])
    fix key sh0
    assume "master_key D H cli sh = (Ok key, sh0)" and rest: "op_bind (open_accounts D H cli key) (\<lambda>m.
      op_bind (log_in D H cli m) (logged_in D H cli key m)) sh0 = (r, sh')"
    then have key: "from_env D (h_env H) (cli_master_key_env cli) = Ok key" "sh0 = sh" using master_key_Ok by blast+
    obtain m0 sh1 where m0: "open_accounts D H cli key sh = (m0, sh1)" by fastforce
    show thesis
    proof (cases m0)
      case (Ok m)
      with rest key(2) m0 have "op_bind (log_in D H cli m) (logged_in D H cli key m) sh1 = (r, sh')"
        by (simp add: op_bind_def)
      then show thesis
      proof (rule keeps_world_cases [OF _ keeps_world_log_in])
        assume "world sh' = world sh1"
        with key(1) m0 show thesis by (rule that(2))
      next
        fix who sh2
        assume who: "log_in D H cli m sh1 = (Ok who, sh2)" and s2: "world sh2 = world sh1"
          "logged_in D H cli key m who sh2 = (r, sh')"
        from log_in_cases [OF who] obtain user password where
          "cli_user cli = Some user" "given_password H cli (sh_in sh1) ''Password: '' password"
          "authenticate D m user password = Ok who" "sh2 = consumed cli sh1" by blast
        with key(1) m0 [unfolded Ok] s2(2) show thesis by (intro that(3))
      qed
    qed (use rest key m0 in \<open>auto simp: op_bind_def intro: that(2)\<close>)
  qed (rule that(1))
qed

end
