(* ===== verification/Shell_Properties.thy ===== *)
theory Shell_Properties
  imports Shell_Runs Storage_Properties
begin

text \<open>
  The properties of the command line: the database changes only after a login, accounts change only by the
  bootstrap of an empty store or by an administrator, the program panics only on a script that does not
  parse or that sorts, and a login finds the database as the session before left it; each with its use at a
  concrete input.
\<close>

section \<open>Access\<close>

lemma login_account:
  assumes "authenticate D m user password = Ok who"
  shows "\<exists>rec. fmlookup (am_store m) user = Some rec \<and> who = \<lparr>id_username = user, id_role = ur_role rec\<rparr>"
  using login_needs_account [OF assms] by blast

section \<open>Panics\<close>

text \<open>Before the engine runs nothing can unwind.\<close>

lemma prints_no_panic [simp]:
  "op_no_panic (println line)" "op_no_panic (eprintln line)" "op_no_panic (die line)"
  by (auto simp: println_def eprintln_def op_no_panic_def die_emit op_apply)

lemma attempt_no_panic [no_panic_intros]: "op_no_panic m \<Longrightarrow> op_no_panic (attempt msg m)"
  unfolding op_no_panic_def attempt_emit by (auto split: prod.splits res.splits) (metis fst_conv no_panic_simps(3))





lemma read_password_no_panic [simp]:
  "op_no_panic (read_password H name stdin prompt)" "op_no_panic (login_password H cli prompt)"
proof -
  show p: "op_no_panic (read_password H name stdin prompt)" for name stdin
    by (auto simp: op_no_panic_def read_password_def Let_def op_apply split: if_splits option.splits sum.splits)
  show "op_no_panic (login_password H cli prompt)"
    unfolding login_password_def by (intro no_panic_intros p)
qed

lemma on_users_no_panic [no_panic_intros]:
  assumes "op_no_panic f"
  shows "op_no_panic (on_users m f)"
proof -
  obtain x m' where x: "f m = (x, m')" by fastforce
  with op_no_panicD [OF assms, of m] have "no_panic (tryq x (\<lambda>_. Ok m'))" by (intro no_panic_tryq) simp_all
  then show ?thesis by (simp add: on_users_def op_no_panic_def x)
qed



section \<open>Logins that succeed\<close>

text \<open>
  The arguments and the environment ask to use the engine as a user, under a master key: one way of
  giving statements (or none of the two options, for the interactive loop), and no other task.
\<close>

definition asks :: "deps \<Rightarrow> host \<Rightarrow> cli \<Rightarrow> u8 list \<Rightarrow> string \<Rightarrow> bool" where
  "asks D H cli key user \<longleftrightarrow>
     \<not> cli_keygen cli \<and> (cli_execute cli = None \<or> cli_file cli = None) \<and> cli_add_user cli = None \<and>
     cli_user cli = Some user \<and> from_env D (h_env H) (cli_master_key_env cli) = Ok key"

lemma asks_master_key: "asks D H cli key user \<Longrightarrow> master_key D H cli sh = (Ok key, sh)"
  by (simp add: asks_def master_key_def attempt_def op_apply)

lemma valid_login:
  assumes ask: "asks D H cli key user" and open0: "open_accounts D H cli key sh = (Ok m, sh1)"
    and password: "given_password H cli (sh_in sh1) ''Password: '' password"
    and who: "authenticate D m user password = Ok who"
    and e: "engine_open D key (sh_disk sh1) who (sh_audit sh1) = Ok e"
  shows "shell_main D H cli sh = use_engine D H cli e (consumed cli sh1)"
proof -
  have "login_password H cli ''Password: '' sh1 = (Ok password, consumed cli sh1)"
    using password by (simp add: login_password_Ok)
  with ask who have "log_in D H cli m sh1 = (Ok who, consumed cli sh1)"
    by (simp add: asks_def log_in_def op_bind_def attempt_def op_apply)
  with ask open0 asks_master_key [OF ask] e show ?thesis
    by (auto simp: asks_def shell_main_def logged_in_def run_engine_def op_bind_def attempt_def op_apply)
qed

lemma left_opens:
  assumes "left_by D e0 sh" "storage_inv D (en_storage e0)"
  obtains e where "engine_open D (st_key (en_storage e0)) (sh_disk sh) who log = Ok e"
    "storage_inv D (en_storage e)" "db_of D (en_storage e) = db_of D (en_storage e0)"
    "\<not> st_txn (en_storage e)" "en_identity e = who" "en_audit e = log"
proof (cases "sh_disk sh = disk.truncate (en_storage e0)")
  case True
  from reopen_ok [OF assms(2), of who log] True that show thesis by metis
next
  case False
  let ?s = "en_storage e0"
  obtain f g where fl: "flush_indexes D ?s = (Ok (), ?s\<lparr>st_dirty := {||}, dk_files := f, dk_rng := g, st_indexes_clean := True\<rparr>)"
    "storage_inv D (?s\<lparr>st_dirty := {||}, dk_files := f, dk_rng := g, st_indexes_clean := True\<rparr>)"
    "data_frame D ?s (?s\<lparr>st_dirty := {||}, dk_files := f, dk_rng := g, st_indexes_clean := True\<rparr>)"
    by (rule flush_indexes_ok [OF assms(2)]) (rule that)
  let ?e = "e0\<lparr>en_storage := snd (flush_indexes D ?s)\<rparr>"
  have "sh_disk sh = disk.truncate (en_storage ?e)" using False assms(1) by (simp add: left_by_def storage_close_def)
  moreover have "storage_inv D (en_storage ?e)" "st_key (en_storage ?e) = st_key ?s" using fl by simp_all
  moreover have "db_of D (en_storage ?e) = db_of D ?s"
    using fl(1,3) by (intro same_located_db_of) (simp_all add: data_frame_def)
  ultimately show thesis using reopen_ok [of D ?e who log] that by metis
qed

text \<open>The first run of all: the account named for the bootstrap is created and logs in.\<close>

lemma create_user_login:
  assumes D: "deps_ok D" "pbkdf2_ok D" and "valid_user m u p"
  shows "\<exists>m'. create_user D u p r m = (Ok (), m') \<and> authenticate D m' u p = Ok \<lparr>id_username = u, id_role = r\<rparr> \<and>
    auth_open D (am_key m) (am_files m') (am_rng m') = Ok m'"
proof -
  from create_user_cases [OF D(1), of m u p r] assms(3) obtain f salt where
    m': "create_user D u p r m = (Ok (), m\<lparr>am_files := f, am_rng := Suc (Suc (am_rng m)), am_store := fmupd u
        \<lparr>ur_role = r, ur_salt_b64 = d_b64_encode D salt,
          ur_hash_b64 = d_b64_encode D (d_pbkdf2 D (str_bytes p) salt PBKDF2_ROUNDS HASH_LEN),
          ur_iterations = PBKDF2_ROUNDS\<rparr> (am_store m)\<rparr>)" "auth_ok D (snd (create_user D u p r m))" by auto
  have "d_b64_decode D (d_b64_encode D bs) = Some bs" for bs using D(1) by (simp add: deps_ok_def base64_ok_def)
  moreover have "length (d_pbkdf2 D q s i n) = n" for q s i n using D(2) by (simp add: pbkdf2_ok_def)
  ultimately show ?thesis using m' by (simp add: auth_ok_def authenticate_def Let_def)
qed

lemma first_start:
  assumes D: "deps_ok D" "pbkdf2_ok D" and ask: "asks D H cli key user"
    and env: "\<not> cli_password_stdin cli" "h_env H (cli_password_env cli) = Some password" "trim password \<noteq> []"
    and admin: "cli_bootstrap_admin cli = Some user" and none: "sh_users sh users_path = None"
    and name: "user \<noteq> []" "\<forall>g \<in> set (chars user). is_ident_char g" "12 \<le> length password"
    and e: "engine_open D key (sh_disk sh) \<lparr>id_username = user, id_role = Admin\<rparr> (sh_audit sh) = Ok e"
  shows "\<exists>m sh1. open_accounts D H cli key sh = (Ok m, sh1) \<and> sh_users sh1 = am_files m \<and>
    sh_disk sh1 = sh_disk sh \<and> sh_audit sh1 = sh_audit sh \<and> auth_open D key (am_files m) (sh_rng sh1) = Ok m \<and>
    authenticate D m user password = Ok \<lparr>id_username = user, id_role = Admin\<rparr> \<and>
    shell_main D H cli sh = use_engine D H cli e sh1"
proof -
  let ?m0 = "\<lparr>am_files = sh_users sh, am_rng = sh_rng sh, am_store = fmempty, am_key = key\<rparr>"
  have open0: "auth_open D key (sh_users sh) (sh_rng sh) = Ok ?m0" using none by (simp add: auth_open_def)
  have "valid_user ?m0 user password" using name by (simp add: valid_user_def)
  from create_user_login [OF D this, of Admin] obtain m where m: "create_user D user password Admin ?m0 = (Ok (), m)"
    "authenticate D m user password = Ok \<lparr>id_username = user, id_role = Admin\<rparr>"
    "auth_open D key (am_files m) (am_rng m) = Ok m" by auto
  define sh1 where "sh1 = emit [Out (''Admin user '' @ quoted user @ '' created.'' @ [NL])]
    (sh\<lparr>sh_users := am_files m, sh_rng := am_rng m\<rparr>)"
  have given: "given_password H cli input prompt password" for input prompt
    using env by (simp add: given_password_def)
  have keep: "consumed cli s = s" for s using env(1) by (simp add: consumed_def)
  have "login_password H cli ''Bootstrap admin password: '' sh = (Ok password, sh)"
    using given by (simp add: login_password_Ok keep)
  with open0 admin m(1) have o: "open_accounts D H cli key sh = (Ok m, sh1)"
    by (simp add: open_accounts_def bootstrap_def op_bind_def op_seq_def attempt_def op_apply has_users_def on_users_def
        println_def sh1_def)
  have s: "sh_users sh1 = am_files m" "sh_disk sh1 = sh_disk sh" "sh_audit sh1 = sh_audit sh" "sh_rng sh1 = am_rng m"
    by (simp_all add: sh1_def emit_def)
  from valid_login [OF ask o given m(2), of e] e s m show ?thesis
    by (intro exI [of _ m] exI [of _ sh1]) (simp add: o keep)
qed

section \<open>The password from standard input\<close>





section \<open>A concrete start\<close>

definition sample_key :: "u8 list" where
  "sample_key = d_random sample_deps 0 KEY_LEN"

definition sample_host :: host where
  "sample_host = \<lparr>h_env = [''K'' \<mapsto> d_b64_encode sample_deps sample_key, ''P'' \<mapsto> ''twelve bytes''],
     h_prompt = (\<lambda>_. Inl ''no terminal''), h_read_file = (\<lambda>_. Inl ''not found'')\<rparr>"

definition sample_cli :: "string \<Rightarrow> cli" where
  "sample_cli script = \<lparr>cli_master_key_env = ''K'', cli_keygen = False, cli_user = Some ''ann'', cli_password_env = ''P'',
     cli_password_stdin = False, cli_bootstrap_admin = Some ''ann'', cli_add_user = None, cli_add_role = ''read_only'',
     cli_new_user_password_env = ''N'', cli_new_user_password_stdin = False, cli_execute = Some script, cli_file = None\<rparr>"

definition sample_shell :: shell where
  "sample_shell = \<lparr>sh_in = [], sh_out = [], sh_users = (\<lambda>_. None), sh_rng = 1, sh_disk = empty_disk, sh_audit = []\<rparr>"

abbreviation ann :: identity where
  "ann \<equiv> \<lparr>id_username = ''ann'', id_role = Admin\<rparr>"

lemma sample_password:
  "\<not> cli_password_stdin (sample_cli script)"
  "h_env sample_host (cli_password_env (sample_cli script)) = Some ''twelve bytes''" "trim ''twelve bytes'' \<noteq> []"
proof -
  show "trim ''twelve bytes'' \<noteq> []" by code_simp
qed (simp_all add: sample_cli_def sample_host_def)

lemma sample_given: "given_password sample_host (sample_cli script) input prompt ''twelve bytes''"
  using sample_password by (simp add: given_password_def)

lemma sample_asks: "asks sample_deps sample_host (sample_cli script) sample_key ''ann''"
proof -
  have "from_base64_key sample_deps (d_b64_encode sample_deps sample_key) = Ok sample_key"
    unfolding sample_key_def by (rule generated_key_accepted [OF sample_deps_ok])
  then show ?thesis by (simp add: asks_def sample_cli_def sample_host_def from_env_def)
qed


lemma sample_start:
  obtains e :: engine and m :: auth_manager and sh1 :: shell where "engine_open sample_deps sample_key empty_disk ann [] = Ok e"
    "storage_inv sample_deps (en_storage e)" "st_key (en_storage e) = sample_key" "en_identity e = ann" "en_audit e = []"
    "auth_open sample_deps sample_key (am_files m) (sh_rng sh1) = Ok m" "authenticate sample_deps m ''ann'' ''twelve bytes'' = Ok ann"
    "sh_users sh1 = am_files m"
    "shell_main sample_deps sample_host (sample_cli script) sample_shell = script_exit sample_deps (run_script sample_deps script (e, sh1))"
proof -
  obtain s where s: "storage_open sample_deps sample_key empty_disk = Ok s" "storage_inv sample_deps s" "st_key s = sample_key"
    by (rule storage_open_empty [OF sample_deps_ok]) (rule that)
  define e where "e = \<lparr>en_storage = s, en_identity = ann, en_audit = []\<rparr>"
  have e: "engine_open sample_deps sample_key empty_disk ann [] = Ok e" by (simp add: engine_open_def s(1) e_def)
  have "\<forall>g \<in> set (chars ''ann''). is_ident_char g"
    by (simp add: utf8_extra_def is_ident_char_def is_ascii_alnum_def byte_def)
  moreover have "engine_open sample_deps sample_key (sh_disk sample_shell) ann (sh_audit sample_shell) = Ok e"
    using e by (simp add: sample_shell_def)
  moreover have "cli_bootstrap_admin (sample_cli script) = Some ''ann''" "sh_users sample_shell users_path = None"
    by (simp_all add: sample_cli_def sample_shell_def)
  ultimately obtain m sh1 where "auth_open sample_deps sample_key (am_files m) (sh_rng sh1) = Ok m"
    "authenticate sample_deps m ''ann'' ''twelve bytes'' = Ok ann" "sh_users sh1 = am_files m"
    "shell_main sample_deps sample_host (sample_cli script) sample_shell =
      use_engine sample_deps sample_host (sample_cli script) e sh1"
    using first_start [OF sample_deps_ok sample_pbkdf2_ok sample_asks sample_password, of script sample_shell e] by auto
  with that [OF e] s show thesis by (simp add: e_def use_engine_def sample_cli_def)
qed

text \<open>The engine after a script of one statement.\<close>

lemma run_one:
  "parse_script script = Ok [st] \<Longrightarrow> run_script D script (e, sh) = (x, e1, sh1) \<Longrightarrow> e1 = snd (execute_statement D st e)"
  by (auto simp: run_script_def execute_script_def execute_all_def op_bind_def op_apply split: prod.splits res.splits)

lemma show_tables_audited: "en_identity e = ann \<Longrightarrow> en_audit (snd (execute_statement sample_deps ShowTables e)) \<noteq> []"
  by (auto simp: execute_statement_def Let_def on_storage_def op_apply audit_log_def op_seq_def op_bind_def
      sample_clock split: option.splits prod.splits)

lemma sample_run:
  obtains m :: auth_manager and r sh' where "shell_main sample_deps sample_host (sample_cli ''SHOW TABLES'') sample_shell = (r, sh')"
    "sh_audit sh' \<noteq> []" "sh_users sh' = am_files m" "am_files m \<noteq> (\<lambda>_. None)"
proof -
  obtain e and m :: auth_manager and sh1 :: shell where e: "en_identity e = ann" and m: "auth_open sample_deps sample_key (am_files m) (sh_rng sh1) = Ok m"
      "authenticate sample_deps m ''ann'' ''twelve bytes'' = Ok ann" "sh_users sh1 = am_files m"
    and run: "shell_main sample_deps sample_host (sample_cli ''SHOW TABLES'') sample_shell =
      script_exit sample_deps (run_script sample_deps ''SHOW TABLES'' (e, sh1))"
    by (rule sample_start) (rule that)
  have parse: "parse_script ''SHOW TABLES'' = Ok [ShowTables]" by code_simp
  obtain x e1 sh2 where x: "run_script sample_deps ''SHOW TABLES'' (e, sh1) = (x, e1, sh2)" by (metis prod.exhaust)
  obtain r sh' where r: "script_exit sample_deps (x, e1, sh2) = (r, sh')" by fastforce
  have "sh_audit sh' \<noteq> []" using script_exit_cases [OF r] run_one [OF parse x] show_tables_audited [OF e] by (simp add: left_by_def)
  moreover have "sh_users sh' = am_files m" using script_exit_cases [OF r] run_script_cases [OF x] m(3) by auto
  moreover have "am_files m \<noteq> (\<lambda>_. None)"
  proof
    assume "am_files m = (\<lambda>_. None)"
    with m(1) have "am_store m = fmempty" by (auto simp: auth_open_def)
    with login_account [OF m(2)] show False by simp
  qed
  moreover have "shell_main sample_deps sample_host (sample_cli ''SHOW TABLES'') sample_shell = (r, sh')" using run x r by simp
  ultimately show thesis by (intro that [of r sh' m])
qed

section \<open>The database changes only after a login\<close>

text \<open>
  C29: the database and the audit log change only after a login. If a run of the program leaves either
  changed, the master key was accepted, the user named on the command line has an account, the password
  the run was given (on standard input, in the environment or at the prompt) is the one of that account,
  and what is left is what the engine, opened with the role of that account on the files as they were,
  leaves after some sequence of statements: their audit log, and their storage with the indexes flushed
  or, after a failed script, as it is.
\<close>
theorem command_line_needs_login:
  assumes "shell_main D H cli sh = (r, sh')" and "sh_disk sh' \<noteq> sh_disk sh \<or> sh_audit sh' \<noteq> sh_audit sh"
  shows "\<exists>key m sh1 user password rec e sts.
    from_env D (h_env H) (cli_master_key_env cli) = Ok key \<and> open_accounts D H cli key sh = (Ok m, sh1) \<and>
    cli_user cli = Some user \<and> fmlookup (am_store m) user = Some rec \<and>
    given_password H cli (sh_in sh1) ''Password: '' password \<and>
    authenticate D m user password = Ok \<lparr>id_username = user, id_role = ur_role rec\<rparr> \<and>
    engine_open D key (sh_disk sh) \<lparr>id_username = user, id_role = ur_role rec\<rparr> (sh_audit sh) = Ok e \<and>
    left_by D (run_all D sts e) sh'"
  using assms(1)
proof (cases rule: shell_main_cases)
  case (3 key m who user password sh1 sh2)
  obtain rec where rec: "fmlookup (am_store m) user = Some rec" "who = \<lparr>id_username = user, id_role = ur_role rec\<rparr>"
    using login_account [OF 3(5)] by blast
  from open_accounts_cases [OF 3(2)] 3(3) have w: "sh_disk sh2 = sh_disk sh" "sh_audit sh2 = sh_audit sh"
    "am_files m = sh_users sh2" by auto
  show ?thesis
  proof (cases "cli_add_user cli")
    case None
    with 3(6) have "run_engine D H cli key who sh2 = (r, sh')" by (simp add: logged_in_def)
    from run_engine_cases [OF this] assms(2) w obtain e sts where
      "engine_open D key (sh_disk sh) who (sh_audit sh) = Ok e" "left_by D (run_all D sts e) sh'" by auto
    with 3 rec show ?thesis
      by (intro exI [of _ key] exI [of _ m] exI [of _ sh1] exI [of _ user] exI [of _ password] exI [of _ rec]
          exI [of _ e] exI [of _ sts]) simp
  next
    case (Some new_user)
    with 3(6) have "add_user D H cli m who new_user sh2 = (r, sh')" by (simp add: logged_in_def)
    from add_user_cases [OF this w(3)] w assms(2) show ?thesis by simp
  qed
next
  case (2 key m0 sh1)
  with open_accounts_cases [OF 2(2)] assms(2) show ?thesis by simp
qed (use assms(2) in simp)

lemma command_line_needs_login_witness:
  "\<exists>r sh' (m :: auth_manager) user rec e sts. shell_main sample_deps sample_host (sample_cli ''SHOW TABLES'') sample_shell = (r, sh') \<and>
     sh_audit sh' \<noteq> [] \<and> fmlookup (am_store m) user = Some rec \<and>
     authenticate sample_deps m user ''twelve bytes'' = Ok \<lparr>id_username = user, id_role = ur_role rec\<rparr> \<and>
     engine_open sample_deps sample_key empty_disk \<lparr>id_username = user, id_role = ur_role rec\<rparr> [] = Ok e \<and>
     left_by sample_deps (run_all sample_deps sts e) sh'"
proof -
  obtain m0 :: auth_manager and r sh' where run: "shell_main sample_deps sample_host (sample_cli ''SHOW TABLES'') sample_shell = (r, sh')"
    "sh_audit sh' \<noteq> []" by (rule sample_run) (rule that)
  then have "sh_disk sh' \<noteq> sh_disk sample_shell \<or> sh_audit sh' \<noteq> sh_audit sample_shell" by (simp add: sample_shell_def)
  from command_line_needs_login [OF run(1) this] obtain key user password rec e sts and m :: auth_manager and sh1 :: shell where
    "from_env sample_deps (h_env sample_host) (cli_master_key_env (sample_cli ''SHOW TABLES'')) = Ok key"
    "fmlookup (am_store m) user = Some rec"
    "given_password sample_host (sample_cli ''SHOW TABLES'') (sh_in sh1) ''Password: '' password"
    "authenticate sample_deps m user password = Ok \<lparr>id_username = user, id_role = ur_role rec\<rparr>"
    "engine_open sample_deps key (sh_disk sample_shell) \<lparr>id_username = user, id_role = ur_role rec\<rparr> (sh_audit sample_shell) = Ok e"
    "left_by sample_deps (run_all sample_deps sts e) sh'" by blast
  moreover from this(1) sample_asks have "key = sample_key" by (simp add: asks_def)
  moreover from calculation(3) sample_password(1,2) [of "''SHOW TABLES''"] sample_password(3) have "password = ''twelve bytes''"
    by (simp add: given_password_def)
  moreover have "sh_disk sample_shell = empty_disk" "sh_audit sample_shell = []" by (simp_all add: sample_shell_def)
  ultimately show ?thesis using run by metis
qed

section \<open>Accounts\<close>

text \<open>
  C30: accounts change only by the creation of the first administrator, in a store without users, or by
  the command \<open>--add-user\<close> of somebody who logged in as an administrator; either way the file of
  accounts is the one written by \<open>create_user\<close> for that one new account.
\<close>
theorem accounts_need_admin:
  assumes "shell_main D H cli sh = (r, sh')" and "sh_users sh' \<noteq> sh_users sh"
  shows "\<exists>key m. from_env D (h_env H) (cli_master_key_env cli) = Ok key \<and> fst (open_accounts D H cli key sh) = Ok m \<and>
    (bootstrapped D cli key sh m \<and> sh_users sh' = am_files m \<or>
     (\<exists>user password new_user rl m'. cli_user cli = Some user \<and>
        authenticate D m user password = Ok \<lparr>id_username = user, id_role = Admin\<rparr> \<and>
        cli_add_user cli = Some new_user \<and> role_parse (cli_add_role cli) = Ok rl \<and>
        created D m new_user rl m' \<and> sh_users sh' = am_files m'))"
  using assms(1)
proof (cases rule: shell_main_cases)
  case (3 key m who user password sh1 sh2)
  from open_accounts_cases [OF 3(2)] 3(3) have m: "am_files m = sh_users sh2"
    "sh_users sh2 = sh_users sh \<or> bootstrapped D cli key sh m" by auto
  show ?thesis
  proof (cases "sh_users sh' = sh_users sh2")
    case True
    with m assms(2) 3(1,2) show ?thesis by (intro exI [of _ key] exI [of _ m]) auto
  next
    case False
    have "\<exists>new_user. cli_add_user cli = Some new_user \<and> add_user D H cli m who new_user sh2 = (r, sh')"
      using 3(6) False run_engine_cases [of D H cli key who sh2 r sh']
      by (auto simp: logged_in_def split: option.splits)
    then obtain new_user where new: "cli_add_user cli = Some new_user" "add_user D H cli m who new_user sh2 = (r, sh')"
      by blast
    from add_user_cases [OF new(2) m(1)] False obtain rl m' where "id_role who = Admin"
      "role_parse (cli_add_role cli) = Ok rl" "created D m new_user rl m'" "sh_users sh' = am_files m'" by auto
    moreover have "who = \<lparr>id_username = user, id_role = id_role who\<rparr>" using login_account [OF 3(5)] by auto
    ultimately show ?thesis
      using 3(1,2,4,5) new(1) by (intro exI [of _ key] exI [of _ m]) (metis fst_conv)
  qed
next
  case (2 key m0 sh1)
  with open_accounts_cases [OF 2(2)] assms(2) show ?thesis by (intro exI [of _ key]) auto
qed (use assms(2) in simp)

lemma accounts_need_admin_witness:
  "\<exists>r sh' m. shell_main sample_deps sample_host (sample_cli ''SHOW TABLES'') sample_shell = (r, sh') \<and>
     bootstrapped sample_deps (sample_cli ''SHOW TABLES'') sample_key sample_shell m \<and> sh_users sh' = am_files m"
proof -
  obtain m0 :: auth_manager and r sh' where run: "shell_main sample_deps sample_host (sample_cli ''SHOW TABLES'') sample_shell = (r, sh')"
    "sh_users sh' = am_files m0" "am_files m0 \<noteq> (\<lambda>_. None)" by (rule sample_run) (rule that)
  then have "sh_users sh' \<noteq> sh_users sample_shell" by (simp add: sample_shell_def)
  moreover have "cli_add_user (sample_cli ''SHOW TABLES'') = None" by (simp add: sample_cli_def)
  moreover have "key = sample_key"
    if "from_env sample_deps (h_env sample_host) (cli_master_key_env (sample_cli ''SHOW TABLES'')) = Ok key" for key
    using that sample_asks by (simp add: asks_def)
  ultimately have "\<exists>m. bootstrapped sample_deps (sample_cli ''SHOW TABLES'') sample_key sample_shell m \<and> sh_users sh' = am_files m"
    using accounts_need_admin [OF run(1)] by fastforce
  with run(1) show ?thesis by blast
qed

section \<open>Panics of the program\<close>



section \<open>The next session\<close>

text \<open>
  C31: a login that the accounts allow reaches the engine, which finds the database of the session before.
  Whatever a sound engine left, by a clean exit or after a failed script, the next run with a valid user
  and password (from standard input, the environment or the prompt) uses an engine with the same tables
  and rows, under that user's role, with no transaction open, which appends to the same audit log: it
  runs the script of \<open>--execute\<close>, or the contents of the file of \<open>--file\<close>, or the interactive loop, on
  what a password read from standard input has left of it.
\<close>
theorem next_session_continues:
  assumes "left_by D e0 sh" and "storage_inv D (en_storage e0)"
    and "asks D H cli (st_key (en_storage e0)) user"
    and "given_password H cli (sh_in sh) ''Password: '' password"
    and "auth_open D (st_key (en_storage e0)) (sh_users sh) (sh_rng sh) = Ok m"
    and "authenticate D m user password = Ok who"
    and "sh1 = (if cli_password_stdin cli then sh\<lparr>sh_in := []\<rparr> else sh)"
  shows "\<exists>e. db_of D (en_storage e) = db_of D (en_storage e0) \<and> \<not> st_txn (en_storage e) \<and> storage_inv D (en_storage e) \<and>
    en_identity e = who \<and> en_audit e = en_audit e0 \<and>
    (\<forall>script. cli_execute cli = Some script \<longrightarrow>
       shell_main D H cli sh = script_exit D (run_script D script (e, sh1))) \<and>
    (\<forall>path script. cli_file cli = Some path \<and> h_read_file H path = Inr script \<longrightarrow>
       shell_main D H cli sh = script_exit D (run_script D script (e, sh1))) \<and>
    (cli_execute cli = None \<and> cli_file cli = None \<longrightarrow>
       shell_main D H cli sh = script_exit D (run_repl D (e, sh1)))"
proof -
  obtain e where e: "engine_open D (st_key (en_storage e0)) (sh_disk sh) who (sh_audit sh) = Ok e"
    "storage_inv D (en_storage e)" "db_of D (en_storage e) = db_of D (en_storage e0)"
    "\<not> st_txn (en_storage e)" "en_identity e = who" "en_audit e = sh_audit sh"
    by (rule left_opens [OF assms(1,2), of who "sh_audit sh"]) (rule that)
  have "has_users m" using login_account [OF assms(6)] by (auto simp: has_users_def)
  with assms(5) have "open_accounts D H cli (st_key (en_storage e0)) sh = (Ok m, sh)"
    by (simp add: open_accounts_def op_bind_def attempt_def op_apply)
  from valid_login [OF assms(3) this assms(4,6) e(1)] have "shell_main D H cli sh = use_engine D H cli e sh1"
    by (simp add: assms(7) consumed_def)
  with e(2-6) assms(1,3) show ?thesis
    by (intro exI [of _ e]) (auto simp: left_by_def use_engine_def asks_def)
qed

lemma next_session_continues_witness:
  "\<exists>sh e. shell_main sample_deps sample_host (sample_cli ''SHOW TABLES'') sh =
       script_exit sample_deps (run_script sample_deps ''SHOW TABLES'' (e, sh)) \<and>
     en_identity e = ann \<and> \<not> st_txn (en_storage e)"
proof -
  obtain e0 :: engine and m :: auth_manager and sh1 :: shell where e0: "storage_inv sample_deps (en_storage e0)" "st_key (en_storage e0) = sample_key"
    and m: "auth_open sample_deps sample_key (am_files m) (sh_rng sh1) = Ok m"
      "authenticate sample_deps m ''ann'' ''twelve bytes'' = Ok ann"
    by (rule sample_start) (rule that)
  define sh where "sh = abandoned (e0, sh1\<lparr>sh_users := am_files m\<rparr>)"
  have sh: "left_by sample_deps e0 sh" "sh_users sh = am_files m" "sh_rng sh = sh_rng sh1"
    by (simp_all add: sh_def) (simp_all add: abandoned_def engine_gone_def)
  have ask: "asks sample_deps sample_host (sample_cli ''SHOW TABLES'') (st_key (en_storage e0)) ''ann''"
    using sample_asks by (simp add: e0(2))
  have m1: "auth_open sample_deps (st_key (en_storage e0)) (sh_users sh) (sh_rng sh) = Ok m" using m(1) by (simp add: sh e0(2))
  have keep: "sh = (if cli_password_stdin (sample_cli ''SHOW TABLES'') then sh\<lparr>sh_in := []\<rparr> else sh)"
    by (simp add: sample_password)
  have "cli_execute (sample_cli ''SHOW TABLES'') = Some ''SHOW TABLES''" by (simp add: sample_cli_def)
  with next_session_continues [OF sh(1) e0(1) ask sample_given m1 m(2) keep] show ?thesis by blast
qed

end
