(* ===== verification/Spec2Isabelle.thy ===== *)
theory Spec2Isabelle
  imports Storage_Properties Auth Script Roundtrip Shell_Properties
begin

text \<open>
  A model of FluxDB, a small SQL database in Rust (\<open>src/src\<close>), and the properties that make it
  correct.

  \<^bold>\<open>The program.\<close> A script is parsed (\<open>parser.rs\<close>) into statements (\<open>ast.rs\<close>); the engine
  (\<open>engine.rs\<close>) checks each against the role of the session (\<open>security.rs\<close>), runs it on the
  storage (\<open>storage.rs\<close>) and writes an audit entry. The storage keeps a catalog of schemas, a log
  of schema changes and a catalog of secondary indexes, each a sealed document, and one file per
  table with one sealed row per line; sealing is serialisation, XChaCha20-Poly1305 and base64.

  \<^bold>\<open>The theories.\<close>
  \<^item> \<open>Prelude\<close>: outcomes (a value, an error value, a panic), operations on a state, maps of
    vectors, orderings. \<open>Rust_Str\<close>: \<open>str\<close> as UTF-8 bytes with panicking slices, trimming,
    searching, decimal numbers.
  \<^item> \<open>Data_Model\<close>: \<open>types.rs\<close>, \<open>ast.rs\<close>, \<open>error.rs\<close>.
  \<^item> \<open>Values\<close>, \<open>Filters\<close>, \<open>Aggregates\<close>: the pure functions of \<open>engine.rs\<close>.
  \<^item> \<open>Roles\<close>, \<open>Crypto\<close>: permissions and the encryption layer of \<open>security.rs\<close>.
  \<^item> \<open>Table_File\<close>, \<open>Storage\<close>, \<open>Storage_Ops\<close>: the table file format and every method of
    \<open>Storage\<close>; \<open>Storage_Inv\<close> states its invariant (catalogs on disk match memory, table files
    decode, every index and every cached column is the one a scan would build), \<open>Storage_Rows\<close>,
    \<open>Storage_DDL\<close> and \<open>Storage_Txn\<close> prove what the row operations, the schema changes, and the
    transactions and the start do to it.
  \<^item> \<open>Query\<close>: \<open>Engine::select\<close> and the subqueries; \<open>Query_Correct\<close>: what an answer is
    (indexes, joins, GROUP BY, ORDER BY).
  \<^item> \<open>Constraints\<close>, \<open>Engine\<close>: the checks of \<open>engine.rs\<close>, one handler per statement, the dispatcher,
    authorization and the audit entry.
  \<^item> \<open>Database\<close>: the abstract database \<open>db_of\<close> a storage stands for (table names to columns and
    rows) and its \<open>integrity\<close>; \<open>Constraints_Correct\<close>: the meaning of each check on it;
    \<open>No_Panic\<close>: no operation panics, except in the sort of an ORDER BY; \<open>Engine_Data\<close>: the three
    data statements; \<open>Engine_Correct\<close>: the abstract effect \<open>statement_db\<close> of every statement and that
    the handlers have it; \<open>Integrity\<close>: which statements keep the integrity; \<open>Session\<close>: one statement
    under a role, the abstract engine (the tables, and inside a transaction those that a ROLLBACK
    brings back: \<open>simulates\<close>, with the \<open>effect\<close> of every statement), restarts and the reachable
    engine states.
  \<^item> \<open>Engine_Properties\<close>, \<open>Access_Properties\<close>, \<open>Schema_Properties\<close>, \<open>Storage_Properties\<close> (and parts
    of \<open>Aggregates\<close>, \<open>Values\<close>, \<open>Query_Correct\<close>): the properties, each with its use at a concrete
    input.
  \<^item> \<open>Auth\<close>: \<open>AuthManager\<close>, the user store and logins.
  \<^item> \<open>Lexer\<close>, \<open>Parser\<close>: every function of \<open>parser.rs\<close>. \<open>Subquery\<close>: the recursion of SELECT
    terminates (\<open>parse_select\<close> follows it to a depth of the length of the text, \<open>parse_select_depth\<close>,
    and a deeper call is never made); \<open>Parser_Panic\<close>: the slices of the parser are in range, and the
    inputs on which one is not. \<open>Script\<close>: scripts, that is, the parser and the engine together.
  \<^item> \<open>Printer\<close>: the syntax as a printer of statements and the condition \<open>printable\<close> (bare
    lower-case names that are not keywords, conditions in the shape that a syntax without
    parentheses can express, counts in range). It is a specification, not code of the repository.
    \<open>Scan\<close>: what the scanning loops do on texts made of words, quoted strings and punctuation;
    \<open>Pieces\<close>: the parts of a printed statement do not contain the keywords that are searched
    outside of them; \<open>Filter_Text\<close>, \<open>Statement_Text\<close>, \<open>Select_Text\<close>: parsing the text of a condition
    (the locale \<open>leaf_parser\<close>, with the instances WHERE and HAVING), of a statement, of a SELECT;
    \<open>Roundtrip\<close>: the parser inverts the printer, on statements and on scripts.
  \<^item> \<open>Shell\<close>: \<open>main.rs\<close>, the command line. The record \<open>shell\<close> is what a process shares with the
    world (standard input, the output so far, the data directory with the user store and the audit
    log), \<open>host\<close> answers for the environment, the terminal and the files, \<open>cli\<close> is the parsed command
    line; an error is an exit status. \<open>Shell_Tables\<close>: result tables are aligned, every answer can be
    printed, and where a script can panic; \<open>Shell_Runs\<close>: what each stage of \<open>main\<close> does to accounts, database and audit log (the
    locale \<open>engine_program\<close>, with the instances script and interactive loop);
    \<open>Shell_Properties\<close>: access (with the password that the run was given), panics, the first start,
    and a session that continues the one before.
  \<^item> \<open>Sample_Deps\<close>, \<open>Sample_Storage\<close>: a concrete instance of the library functions and a small
    storage, the inputs of the witnesses.

  \<^bold>\<open>State.\<close> The record \<open>disk\<close> is the data directory: a map from file names to contents, the
  snapshot directory of a transaction, and counters for the random source and the clock. The record
  \<open>storage\<close> adds the fields of \<open>Storage\<close>; \<open>engine\<close> adds the identity and the audit log. An
  operation is a function from the state to an outcome and the next state, so that an error in the
  middle leaves the effects made before it, as in the code.

  \<^bold>\<open>What code outside \<open>src\<close> does\<close> is the record \<open>deps\<close>: base64, the cipher, the key derivation,
  the random source, the clock, the JSON serialisers, and what the sort of the standard library does
  under a comparator that is not a total order. \<open>deps_ok\<close> states the documented laws the
  code relies on (encoding and decoding are inverse, an encoding is a line of base64 characters,
  decryption inverts encryption under the same key and nonce, a sort that returns permutes the rows). Nothing is assumed about secrecy or
  forgeries. \<open>sample_deps\<close> satisfies the laws.

  \<^bold>\<open>Conventions and limits of the model.\<close>
  \<^item> File operations succeed unless a file is missing; a crash happens between two statements, not
    inside an operation. Table and index names are single file names: \<open>plain_name\<close> (no dot, no
    separator) is a hypothesis where a table is created, since the code does not check it.
  \<^item> \<open>i64\<close> sums wrap as in a release build; values and row ids are machine words, positions in
    table files are written as 64-bit offsets and 32-bit lengths (\<open>table_fits\<close>).
  \<^item> \<open>sort_by\<close> is a stable insertion sort where the comparator is a total order on the rows, which
    fixes the result of any stable sort. Where it is not (a sort column with a NULL or with values of
    several types), the library promises no order and may unwind: there the result is the parameter
    \<open>d_sort\<close>. A dirty set is flushed in sorted order.
  \<^item> The append handle of a table is the file of that name, since the code closes it before the
    file is replaced. Texts of wrapped library errors are left out of \<open>show_error\<close>.
  \<^item> The clock of the audit log is the one of the storage.
  \<^item> The counters of open parentheses in \<open>parser.rs\<close> are 32 bits wide and wrap, so the parser is
    compared with the printer on texts of less than \<open>2 ^ 31\<close> bytes.

  \<^item> Writing to the terminal succeeds, and a start that fails leaves the data directory as it was. The
    salts of new accounts and the nonces of the database are numbered by separate counters.

  \<^bold>\<open>Not modelled:\<close> the reading of the command line by \<open>clap\<close> (the derived parser of \<open>Cli\<close> is generated
  code), the tests, and \<open>benches/bench.rs\<close>, which only measures time.
\<close>

end
